(* ===== verification/Wsh_Prelude.thy ===== *)
theory Wsh_Prelude
  imports Main "HOL-Library.Word" "HOL-Library.Monad_Syntax"
begin

text \<open>
  Shared vocabulary of the wsh development: the C types of the wasm32 target, the character
  classes of the C locale that the sources use (\<^verbatim>\<open>isspace\<close>, \<^verbatim>\<open>isdigit\<close>, \<dots>), decimal
  printing as \<^verbatim>\<open>printf("%d")\<close> does it, and the generic list and option facts the components
  share.

  Conventions. The target is wasm32: \<^verbatim>\<open>int\<close>, \<^verbatim>\<open>long\<close> and \<^verbatim>\<open>size_t\<close> have 32 bits, and the
  build passes \<^verbatim>\<open>-funsigned-char\<close> (src/Makefile.flags:60), so a \<^verbatim>\<open>char\<close> is the number
  \<open>0..255\<close> that HOL's \<open>char\<close> is. A C string is the \<open>string\<close> of its characters before the
  terminating NUL. A signed value is an \<open>int\<close> kept in range by explicit checks.
\<close>

section \<open>Collections of rules\<close>

named_theorems wsh_defs \<open>definitions of the small helpers that proofs unfold together\<close>
named_theorems parser_lengths \<open>how much input a parsing step leaves\<close>

section \<open>C types of the wasm32 target\<close>

type_synonym size_t = "32 word"
type_synonym uint = "32 word"

definition INT_MIN :: int where "INT_MIN = - (2 ^ 31)"
definition INT_MAX :: int where "INT_MAX = 2 ^ 31 - 1"

text \<open>\<open>long\<close> and \<open>int\<close> have the same range on wasm32.\<close>

definition in_long :: "int \<Rightarrow> bool" where
  "in_long v \<longleftrightarrow> INT_MIN \<le> v \<and> v \<le> INT_MAX"

lemma in_long_0 [simp]: "in_long 0"
  by (simp add: in_long_def INT_MIN_def INT_MAX_def)

lemma in_long_1 [simp]: "in_long 1"
  by (simp add: in_long_def INT_MIN_def INT_MAX_def)

lemma in_long_of_bool [simp]: "in_long (of_bool b)"
  by (cases b) simp_all

section \<open>Characters\<close>

abbreviation NUL :: char where "NUL \<equiv> CHR 0x00"
abbreviation TAB :: char where "TAB \<equiv> CHR 0x09"
abbreviation NEWLINE_CHR :: char where "NEWLINE_CHR \<equiv> CHR 0x0A"

definition ch :: "char \<Rightarrow> nat" where
  "ch c = of_char c"

definition c_isspace :: "char \<Rightarrow> bool" where
  "c_isspace c \<longleftrightarrow> c = CHR '' '' \<or> (9 \<le> ch c \<and> ch c \<le> 13)"

definition c_isblank :: "char \<Rightarrow> bool" where
  "c_isblank c \<longleftrightarrow> c = CHR '' '' \<or> c = TAB"

definition c_isdigit :: "char \<Rightarrow> bool" where
  "c_isdigit c \<longleftrightarrow> 48 \<le> ch c \<and> ch c \<le> 57"

definition c_isalpha :: "char \<Rightarrow> bool" where
  "c_isalpha c \<longleftrightarrow> (65 \<le> ch c \<and> ch c \<le> 90) \<or> (97 \<le> ch c \<and> ch c \<le> 122)"

definition c_isalnum :: "char \<Rightarrow> bool" where
  "c_isalnum c \<longleftrightarrow> c_isalpha c \<or> c_isdigit c"

lemmas ctype_defs = c_isspace_def c_isblank_def c_isdigit_def c_isalpha_def c_isalnum_def ch_def

lemma ctype_NUL [simp]:
  "\<not> c_isspace NUL" "\<not> c_isblank NUL" "\<not> c_isdigit NUL" "\<not> c_isalpha NUL" "\<not> c_isalnum NUL"
  by (simp_all add: ctype_defs)

text \<open>The value of a digit in the bases up to 16; other characters are larger than any base.\<close>

definition digit_val :: "char \<Rightarrow> nat" where
  "digit_val c =
     (if 48 \<le> ch c \<and> ch c \<le> 57 then ch c - 48
      else if 97 \<le> ch c \<and> ch c \<le> 102 then ch c - 87
      else if 65 \<le> ch c \<and> ch c \<le> 70 then ch c - 55 else 255)"

definition digit_char :: "nat \<Rightarrow> char" where
  "digit_char d = char_of (48 + d)"

lemma ch_digit_char: "d < 10 \<Longrightarrow> ch (digit_char d) = 48 + d"
  by (simp add: digit_char_def ch_def)

lemma digit_val_digit_char [simp]: "d < 10 \<Longrightarrow> digit_val (digit_char d) = d"
  by (simp add: digit_val_def ch_digit_char)

lemma digit_val_less_10: "c_isdigit c \<longleftrightarrow> digit_val c < 10"
  by (auto simp: c_isdigit_def digit_val_def)

lemma c_isdigit_digit_char [simp]: "d < 10 \<Longrightarrow> c_isdigit (digit_char d)"
  by (simp add: c_isdigit_def ch_digit_char)

section \<open>Decimal numbers\<close>

text \<open>The decimal digits of a natural number, as \<^verbatim>\<open>printf\<close> writes them.\<close>

fun show_nat :: "nat \<Rightarrow> string" where
  "show_nat n = (if n < 10 then [digit_char n] else show_nat (n div 10) @ [digit_char (n mod 10)])"

declare show_nat.simps [simp del]

text \<open>\<^verbatim>\<open>"%d"\<close> and \<^verbatim>\<open>"%ld"\<close>.\<close>

definition show_int :: "int \<Rightarrow> string" where
  "show_int i = (if i < 0 then CHR ''-'' # show_nat (nat (- i)) else show_nat (nat i))"

text \<open>The value of a digit string in a given base, most significant digit first.\<close>

definition digits_value :: "nat \<Rightarrow> string \<Rightarrow> nat" where
  "digits_value b cs = foldl (\<lambda>n c. n * b + digit_val c) 0 cs"

lemma digits_value_snoc [simp]: "digits_value b (cs @ [c]) = digits_value b cs * b + digit_val c"
  by (simp add: digits_value_def)

lemma show_nat_nonempty [simp]: "show_nat n \<noteq> []"
  by (subst show_nat.simps) simp

lemma show_nat_digits: "\<forall>c \<in> set (show_nat n). c_isdigit c"
proof (induction n rule: show_nat.induct)
  case (1 n)
  then show ?case by (subst show_nat.simps) auto
qed

lemma digits_value_show_nat [simp]: "digits_value 10 (show_nat n) = n"
proof (induction n rule: show_nat.induct)
  case (1 n)
  show ?case
  proof (cases "n < 10")
    case True
    then show ?thesis by (subst show_nat.simps) (simp add: digits_value_def)
  next
    case False
    with 1 show ?thesis by (subst show_nat.simps) simp
  qed
qed

lemma hd_show_nat_digit: "c_isdigit (hd (show_nat n))"
  using show_nat_digits [of n] by (cases "show_nat n") auto

section \<open>Lists and options\<close>

lemma takeWhile_length_less:
  "x \<in> set xs \<Longrightarrow> \<not> P x \<Longrightarrow> length (takeWhile P xs) < length xs"
  by (induction xs) auto

lemma dropWhile_all [simp]: "\<forall>x \<in> set xs. P x \<Longrightarrow> dropWhile P xs = []"
  by simp

lemma takeWhile_all [simp]: "\<forall>x \<in> set xs. P x \<Longrightarrow> takeWhile P xs = xs"
  by (induction xs) auto

text \<open>In evaluations the continuation of a bind is looked at only when its argument has a value.\<close>

lemma bind_code_unfold [code_unfold]: "Option.bind m f = (case m of None \<Rightarrow> None | Some x \<Rightarrow> f x)"
  by (cases m) simp_all

lemmas bind_Some_iff = Option.bind_eq_Some_conv

lemma those_map_Cons [simp]:
  "those (map f (x # xs)) = do { y \<leftarrow> f x; ys \<leftarrow> those (map f xs); Some (y # ys) }"
  by (cases "f x") (simp_all add: map_option_case split: option.split)

text \<open>The concatenation of partial pieces.\<close>

definition concat_opt :: "'a list option list \<Rightarrow> 'a list option" where
  "concat_opt xs = map_option concat (those xs)"

lemma concat_opt_Nil [simp]: "concat_opt [] = Some []"
  by (simp add: concat_opt_def)

lemma concat_opt_Cons [simp]: "concat_opt (x # xs) = do { a \<leftarrow> x; b \<leftarrow> concat_opt xs; Some (a @ b) }"
  by (cases x; cases "those xs") (simp_all add: concat_opt_def)

lemma concat_opt_append: "concat_opt (xs @ ys) = do { a \<leftarrow> concat_opt xs; b \<leftarrow> concat_opt ys; Some (a @ b) }"
proof (induction xs)
  case Nil
  then show ?case by (cases "concat_opt ys") simp_all
next
  case (Cons x xs)
  then show ?case by (cases x; cases "concat_opt xs"; cases "concat_opt ys") simp_all
qed

section \<open>Runs that may be undefined\<close>

text \<open>
  The order in which a run that returns is above the one that does not, and the rules by which a
  function built from binds and case distinctions is monotone in the runs it calls.
\<close>

definition opt_le :: "'a option \<Rightarrow> 'a option \<Rightarrow> bool" where
  "opt_le a b \<longleftrightarrow> (\<forall>x. a = Some x \<longrightarrow> b = Some x)"

named_theorems run_mono \<open>monotonicity of runs\<close>

lemma opt_leD: "opt_le a b \<Longrightarrow> a = Some x \<Longrightarrow> b = Some x"
  by (simp add: opt_le_def)

lemma opt_le_refl [run_mono]: "opt_le a a"
  by (simp add: opt_le_def)

lemma opt_le_bind [run_mono]:
  "opt_le a b \<Longrightarrow> (\<And>x. opt_le (f x) (g x)) \<Longrightarrow> opt_le (Option.bind a f) (Option.bind b g)"
  by (auto simp: opt_le_def bind_Some_iff)

lemma opt_le_if [run_mono]:
  "(c \<Longrightarrow> opt_le a a') \<Longrightarrow> (\<not> c \<Longrightarrow> opt_le b b') \<Longrightarrow> opt_le (if c then a else b) (if c then a' else b')"
  by simp

lemma opt_le_case_prod [run_mono]:
  "(\<And>x y. opt_le (f x y) (g x y)) \<Longrightarrow> opt_le (case_prod f p) (case_prod g p)"
  by (cases p) simp

lemma opt_le_case_option [run_mono]:
  "opt_le a a' \<Longrightarrow> (\<And>x. opt_le (f x) (g x)) \<Longrightarrow> opt_le (case_option a f v) (case_option a' g v)"
  by (cases v) simp_all

lemma opt_le_case_list [run_mono]:
  "opt_le a a' \<Longrightarrow> (\<And>x xs. opt_le (f x xs) (g x xs)) \<Longrightarrow> opt_le (case_list a f v) (case_list a' g v)"
  by (cases v) simp_all

lemma opt_le_Let [run_mono]: "(\<And>x. opt_le (f x) (g x)) \<Longrightarrow> opt_le (Let v f) (Let v g)"
  by simp

end
