(* ===== verification/Wsh_Ast.thy ===== *)
theory Wsh_Ast
  imports Wsh_Prelude
begin

text \<open>
  The syntax trees of src/shell/mrsh/include/mrsh/ast.h and the functions of src/shell/mrsh/ast.c that
  the executor relies on: the constructors (\<^verbatim>\<open>mrsh_*_create\<close>), the string of an expanded word
  (\<^verbatim>\<open>mrsh_word_str\<close>) and the deep copies (\<^verbatim>\<open>mrsh_word_copy\<close>, \<^verbatim>\<open>mrsh_command_copy\<close>, \<dots>).

  The tagged unions of the C code are datatypes with the constants of the C enumerations as
  constructors; a pointer that may be NULL is an option; an array is a list. Of the source positions
  only the \<^verbatim>\<open>dollar_pos\<close> of a parameter is kept: it is the only one that influences a run of the shell
  (the value of \<^verbatim>\<open>$LINENO\<close>). An invalid position is the zeroed one.
\<close>

section \<open>Positions\<close>

record mrsh_position =
  pos_offset :: nat
  pos_line :: nat
  pos_column :: nat

definition no_position :: mrsh_position where
  "no_position = \<lparr>pos_offset = 0, pos_line = 0, pos_column = 0\<rparr>"

section \<open>Enumerations\<close>

datatype mrsh_word_parameter_op =
  MRSH_PARAM_NONE | MRSH_PARAM_MINUS | MRSH_PARAM_EQUAL | MRSH_PARAM_QMARK | MRSH_PARAM_PLUS
| MRSH_PARAM_LEADING_HASH | MRSH_PARAM_PERCENT | MRSH_PARAM_DPERCENT | MRSH_PARAM_HASH
| MRSH_PARAM_DHASH

datatype mrsh_io_redirect_op =
  MRSH_IO_LESS | MRSH_IO_GREAT | MRSH_IO_CLOBBER | MRSH_IO_DGREAT | MRSH_IO_LESSAND
| MRSH_IO_GREATAND | MRSH_IO_LESSGREAT | MRSH_IO_DLESS | MRSH_IO_DLESSDASH

datatype mrsh_loop_type = MRSH_LOOP_WHILE | MRSH_LOOP_UNTIL

datatype mrsh_binop_type = MRSH_BINOP_AND | MRSH_BINOP_OR

section \<open>Trees\<close>

text \<open>
  The fields, in order. String word: \<open>str\<close>, \<open>single_quoted\<close>, \<open>split_fields\<close>. Parameter: \<open>name\<close>, \<open>op\<close>,
  \<open>colon\<close>, \<open>arg\<close>, \<open>dollar_pos\<close>. Command word: \<open>program\<close>, \<open>back_quoted\<close>. List: \<open>children\<close>,
  \<open>double_quoted\<close>. Simple command: \<open>name\<close>, \<open>arguments\<close>, \<open>io_redirects\<close>, \<open>assignments\<close>. If clause:
  \<open>condition\<close>, \<open>body\<close>, \<open>else_part\<close>. For clause: \<open>name\<close>, \<open>in\<close>, \<open>word_list\<close>, \<open>body\<close>. Loop: \<open>type\<close>,
  \<open>condition\<close>, \<open>body\<close>. Case: \<open>word\<close>, \<open>items\<close>. Function: \<open>name\<close>, \<open>body\<close>, \<open>io_redirects\<close>. Pipeline:
  \<open>commands\<close>, \<open>bang\<close>. Command list: \<open>and_or_list\<close>, \<open>ampersand\<close>.

  Two constructors are no constants of the C code. \<open>MRSH_WORD_NULL\<close> is a NULL pointer among the lines of a
  here-document or the parts of a line, which the parser leaves there after an error in the line.
  \<open>Io_redirect_at\<close> is a redirection that the parser still shares with the list of here-documents to be
  read: the number of an entry of its table of redirections. A parsed program has none.
\<close>

datatype mrsh_word =
  MRSH_WORD_STRING string bool bool
| MRSH_WORD_PARAMETER string mrsh_word_parameter_op bool "mrsh_word option" mrsh_position
| MRSH_WORD_COMMAND "mrsh_program option" bool
| MRSH_WORD_ARITHMETIC mrsh_word
| MRSH_WORD_LIST "mrsh_word list" bool
| MRSH_WORD_NULL
and mrsh_io_redirect =
  Io_redirect int mrsh_io_redirect_op mrsh_word "mrsh_word list"
| Io_redirect_at nat
and mrsh_assignment =
  Assignment string mrsh_word
and mrsh_command =
  MRSH_SIMPLE_COMMAND "mrsh_word option" "mrsh_word list" "mrsh_io_redirect list" "mrsh_assignment list"
| MRSH_BRACE_GROUP "mrsh_command_list list"
| MRSH_SUBSHELL "mrsh_command_list list"
| MRSH_IF_CLAUSE "mrsh_command_list list" "mrsh_command_list list" "mrsh_command option"
| MRSH_FOR_CLAUSE string bool "mrsh_word list" "mrsh_command_list list"
| MRSH_LOOP_CLAUSE mrsh_loop_type "mrsh_command_list list" "mrsh_command_list list"
| MRSH_CASE_CLAUSE mrsh_word "mrsh_case_item list"
| MRSH_FUNCTION_DEFINITION string mrsh_command "mrsh_io_redirect list"
and mrsh_case_item =
  Case_item "mrsh_word list" "mrsh_command_list list"
and mrsh_and_or_list =
  MRSH_AND_OR_LIST_PIPELINE "mrsh_command list" bool
| MRSH_AND_OR_LIST_BINOP mrsh_binop_type mrsh_and_or_list mrsh_and_or_list
and mrsh_command_list =
  Command_list mrsh_and_or_list bool
and mrsh_program =
  Program "mrsh_command_list list"

section \<open>Constructors\<close>

text \<open>The fields that a constructor does not take are zeroed by \<^verbatim>\<open>calloc\<close>.\<close>

definition mrsh_word_string_create :: "string \<Rightarrow> bool \<Rightarrow> mrsh_word" where
  "mrsh_word_string_create str single_quoted = MRSH_WORD_STRING str single_quoted False"

definition mrsh_word_parameter_create ::
  "string \<Rightarrow> mrsh_word_parameter_op \<Rightarrow> bool \<Rightarrow> mrsh_word option \<Rightarrow> mrsh_word" where
  "mrsh_word_parameter_create name op colon arg = MRSH_WORD_PARAMETER name op colon arg no_position"

section \<open>The string of a word\<close>

text \<open>
  \<^verbatim>\<open>word_str\<close> aborts (\<open>None\<close>) on a word that is not expanded. The buffer of the C code collects the
  concatenation of the strings.
\<close>

fun mrsh_word_str :: "mrsh_word \<Rightarrow> string option" where
  "mrsh_word_str (MRSH_WORD_STRING str _ _) = Some str"
| "mrsh_word_str (MRSH_WORD_LIST children _) = map_option concat (those (map mrsh_word_str children))"
| "mrsh_word_str _ = None"

section \<open>Copies\<close>

text \<open>
  A copy is made with the constructors, so the positions and the \<open>split_fields\<close> flags of the original
  are lost. \<^verbatim>\<open>mrsh_program_copy\<close> is called on the program of a command word without a NULL test: the
  copy of an empty command substitution is a NULL dereference (\<open>None\<close>).
\<close>

fun mrsh_word_copy :: "mrsh_word \<Rightarrow> mrsh_word option"
  and mrsh_io_redirect_copy :: "mrsh_io_redirect \<Rightarrow> mrsh_io_redirect option"
  and mrsh_assignment_copy :: "mrsh_assignment \<Rightarrow> mrsh_assignment option"
  and mrsh_command_copy :: "mrsh_command \<Rightarrow> mrsh_command option"
  and case_item_copy :: "mrsh_case_item \<Rightarrow> mrsh_case_item option"
  and mrsh_and_or_list_copy :: "mrsh_and_or_list \<Rightarrow> mrsh_and_or_list option"
  and mrsh_command_list_copy :: "mrsh_command_list \<Rightarrow> mrsh_command_list option"
  and mrsh_program_copy :: "mrsh_program \<Rightarrow> mrsh_program option"
where
  "mrsh_word_copy (MRSH_WORD_STRING str sq _) = Some (mrsh_word_string_create str sq)"
| "mrsh_word_copy (MRSH_WORD_PARAMETER name op colon arg _) =
     (case arg of
        None \<Rightarrow> Some (mrsh_word_parameter_create name op colon None)
      | Some a \<Rightarrow> map_option (\<lambda>a'. mrsh_word_parameter_create name op colon (Some a')) (mrsh_word_copy a))"
| "mrsh_word_copy (MRSH_WORD_COMMAND prog bq) =
     (case prog of
        None \<Rightarrow> None
      | Some p \<Rightarrow> map_option (\<lambda>p'. MRSH_WORD_COMMAND (Some p') bq) (mrsh_program_copy p))"
| "mrsh_word_copy (MRSH_WORD_ARITHMETIC body) = map_option MRSH_WORD_ARITHMETIC (mrsh_word_copy body)"
| "mrsh_word_copy (MRSH_WORD_LIST children dq) =
     map_option (\<lambda>cs. MRSH_WORD_LIST cs dq) (those (map mrsh_word_copy children))"
| "mrsh_word_copy MRSH_WORD_NULL = None"
| "mrsh_io_redirect_copy (Io_redirect io_number op name here_document) =
     do { name' \<leftarrow> mrsh_word_copy name;
          lines \<leftarrow> those (map mrsh_word_copy here_document);
          Some (Io_redirect io_number op name' lines) }"
| "mrsh_io_redirect_copy (Io_redirect_at _) = None"
| "mrsh_assignment_copy (Assignment name v) = map_option (Assignment name) (mrsh_word_copy v)"
| "mrsh_command_copy (MRSH_SIMPLE_COMMAND name arguments io_redirects assignments) =
     do { name' \<leftarrow> (case name of None \<Rightarrow> Some None | Some w \<Rightarrow> map_option Some (mrsh_word_copy w));
          args \<leftarrow> those (map mrsh_word_copy arguments);
          redirs \<leftarrow> those (map mrsh_io_redirect_copy io_redirects);
          assigns \<leftarrow> those (map mrsh_assignment_copy assignments);
          Some (MRSH_SIMPLE_COMMAND name' args redirs assigns) }"
| "mrsh_command_copy (MRSH_BRACE_GROUP body) =
     map_option MRSH_BRACE_GROUP (those (map mrsh_command_list_copy body))"
| "mrsh_command_copy (MRSH_SUBSHELL body) =
     map_option MRSH_SUBSHELL (those (map mrsh_command_list_copy body))"
| "mrsh_command_copy (MRSH_IF_CLAUSE condition body else_part) =
     do { c \<leftarrow> those (map mrsh_command_list_copy condition);
          b \<leftarrow> those (map mrsh_command_list_copy body);
          e \<leftarrow> (case else_part of None \<Rightarrow> Some None | Some ep \<Rightarrow> map_option Some (mrsh_command_copy ep));
          Some (MRSH_IF_CLAUSE c b e) }"
| "mrsh_command_copy (MRSH_FOR_CLAUSE name has_in word_list body) =
     do { ws \<leftarrow> those (map mrsh_word_copy word_list);
          b \<leftarrow> those (map mrsh_command_list_copy body);
          Some (MRSH_FOR_CLAUSE name has_in ws b) }"
| "mrsh_command_copy (MRSH_LOOP_CLAUSE type condition body) =
     do { c \<leftarrow> those (map mrsh_command_list_copy condition);
          b \<leftarrow> those (map mrsh_command_list_copy body);
          Some (MRSH_LOOP_CLAUSE type c b) }"
| "mrsh_command_copy (MRSH_CASE_CLAUSE word items) =
     do { is \<leftarrow> those (map case_item_copy items);
          w \<leftarrow> mrsh_word_copy word;
          Some (MRSH_CASE_CLAUSE w is) }"
| "mrsh_command_copy (MRSH_FUNCTION_DEFINITION name body io_redirects) =
     do { redirs \<leftarrow> those (map mrsh_io_redirect_copy io_redirects);
          b \<leftarrow> mrsh_command_copy body;
          Some (MRSH_FUNCTION_DEFINITION name b redirs) }"
| "case_item_copy (Case_item patterns body) =
     do { ps \<leftarrow> those (map mrsh_word_copy patterns);
          b \<leftarrow> those (map mrsh_command_list_copy body);
          Some (Case_item ps b) }"
| "mrsh_and_or_list_copy (MRSH_AND_OR_LIST_PIPELINE commands bang) =
     map_option (\<lambda>cs. MRSH_AND_OR_LIST_PIPELINE cs bang) (those (map mrsh_command_copy commands))"
| "mrsh_and_or_list_copy (MRSH_AND_OR_LIST_BINOP type l r) =
     do { l' \<leftarrow> mrsh_and_or_list_copy l;
          r' \<leftarrow> mrsh_and_or_list_copy r;
          Some (MRSH_AND_OR_LIST_BINOP type l' r') }"
| "mrsh_command_list_copy (Command_list aol ampersand) =
     map_option (\<lambda>a. Command_list a ampersand) (mrsh_and_or_list_copy aol)"
| "mrsh_program_copy (Program body) = map_option Program (those (map mrsh_command_list_copy body))"

end
