(* ===== verification/Wsh_Hashtable.thy ===== *)
theory Wsh_Hashtable
  imports Wsh_Prelude
begin

text \<open>
  The hash table of src/shell/mrsh/hashtable.c: 256 buckets, each a singly linked chain of
  entries, with the djb2 hash on 32-bit unsigned integers. A chain is the list of its entries in
  \<^verbatim>\<open>next\<close> order; unlinking an entry removes it from the list. Values are never NULL in the
  shell's tables, so \<open>None\<close> is the NULL that a miss returns.

  The locale \<open>string_map\<close> is what the shell state relies on (variables, functions and aliases
  are such tables); \<open>ht\<close> interprets it on the table.
\<close>

section \<open>The table\<close>

definition MRSH_HASHTABLE_BUCKETS :: nat where "MRSH_HASHTABLE_BUCKETS = 256"

record 'v mrsh_hashtable_entry =
  entry_hash :: uint
  entry_key :: string
  entry_value :: 'v

type_synonym 'v chain = "'v mrsh_hashtable_entry list"

record 'v mrsh_hashtable =
  buckets :: "'v chain list"

text \<open>A table of zero bytes: every bucket is NULL.\<close>

definition mrsh_hashtable_empty :: "'v mrsh_hashtable" where
  "mrsh_hashtable_empty = \<lparr>buckets = replicate MRSH_HASHTABLE_BUCKETS []\<rparr>"

fun djb2_loop :: "uint \<Rightarrow> string \<Rightarrow> uint" where
  "djb2_loop hash [] = hash"
| "djb2_loop hash (c # str) = djb2_loop ((push_bit 5 hash + hash) + of_nat (ch c)) str"

definition djb2 :: "string \<Rightarrow> uint" where
  "djb2 str = djb2_loop 5381 str"

definition bucket_index :: "string \<Rightarrow> nat" where
  "bucket_index key = unat (djb2 key) mod MRSH_HASHTABLE_BUCKETS"

text \<open>The test of the three search loops: \<^verbatim>\<open>entry->hash == hash && strcmp(entry->key, key) == 0\<close>.\<close>

definition entry_matches :: "uint \<Rightarrow> string \<Rightarrow> 'v mrsh_hashtable_entry \<Rightarrow> bool" where
  "entry_matches hash key e \<longleftrightarrow> entry_hash e = hash \<and> entry_key e = key"

fun chain_get :: "uint \<Rightarrow> string \<Rightarrow> 'v chain \<Rightarrow> 'v option" where
  "chain_get hash key [] = None"
| "chain_get hash key (e # es) =
     (if entry_matches hash key e then Some (entry_value e) else chain_get hash key es)"

text \<open>The loop of \<^verbatim>\<open>mrsh_hashtable_set\<close>: the first match is overwritten, else an entry is appended.\<close>

fun chain_set :: "uint \<Rightarrow> string \<Rightarrow> 'v \<Rightarrow> 'v chain \<Rightarrow> 'v option \<times> 'v chain" where
  "chain_set hash key v [] = (None, [\<lparr>entry_hash = hash, entry_key = key, entry_value = v\<rparr>])"
| "chain_set hash key v (e # es) =
     (if entry_matches hash key e then (Some (entry_value e), e\<lparr>entry_value := v\<rparr> # es)
      else case chain_set hash key v es of (old, es') \<Rightarrow> (old, e # es'))"

fun chain_del :: "uint \<Rightarrow> string \<Rightarrow> 'v chain \<Rightarrow> 'v option \<times> 'v chain" where
  "chain_del hash key [] = (None, [])"
| "chain_del hash key (e # es) =
     (if entry_matches hash key e then (Some (entry_value e), es)
      else case chain_del hash key es of (old, es') \<Rightarrow> (old, e # es'))"

definition mrsh_hashtable_get :: "'v mrsh_hashtable \<Rightarrow> string \<Rightarrow> 'v option" where
  "mrsh_hashtable_get table key =
     (let hash = djb2 key; bucket = unat hash mod MRSH_HASHTABLE_BUCKETS
      in chain_get hash key (buckets table ! bucket))"

definition mrsh_hashtable_set ::
  "'v mrsh_hashtable \<Rightarrow> string \<Rightarrow> 'v \<Rightarrow> 'v option \<times> 'v mrsh_hashtable" where
  "mrsh_hashtable_set table key v =
     (let hash = djb2 key; bucket = unat hash mod MRSH_HASHTABLE_BUCKETS
      in case chain_set hash key v (buckets table ! bucket) of
           (old, c) \<Rightarrow> (old, table\<lparr>buckets := (buckets table)[bucket := c]\<rparr>))"

definition mrsh_hashtable_del ::
  "'v mrsh_hashtable \<Rightarrow> string \<Rightarrow> 'v option \<times> 'v mrsh_hashtable" where
  "mrsh_hashtable_del table key =
     (let hash = djb2 key; bucket = unat hash mod MRSH_HASHTABLE_BUCKETS
      in case chain_del hash key (buckets table ! bucket) of
           (old, c) \<Rightarrow> (old, table\<lparr>buckets := (buckets table)[bucket := c]\<rparr>))"

text \<open>
  Iteration: bucket by bucket, each chain from its head. \<^verbatim>\<open>next\<close> is read before the callback
  runs, so a callback may delete the entry it is called for. The callback's effect on
  \<^verbatim>\<open>user_data\<close> is the state \<open>'s\<close>.
\<close>

definition mrsh_hashtable_for_each ::
  "'v mrsh_hashtable \<Rightarrow> (string \<Rightarrow> 'v \<Rightarrow> 's \<Rightarrow> 's) \<Rightarrow> 's \<Rightarrow> 's" where
  "mrsh_hashtable_for_each table iterator s =
     fold (fold (\<lambda>e. iterator (entry_key e) (entry_value e))) (buckets table) s"

definition mrsh_hashtable_finish :: "'v mrsh_hashtable \<Rightarrow> 'v mrsh_hashtable" where
  "mrsh_hashtable_finish table = table\<lparr>buckets := map (\<lambda>_. []) (buckets table)\<rparr>"

text \<open>The number of the bucket is the low byte of the hash; the code equations compute it so.\<close>

lemma bucket_low_byte: "unat (hash :: uint) mod MRSH_HASHTABLE_BUCKETS = unat (take_bit 8 hash)"
proof -
  have "nat (h mod 4294967296) mod 256 = nat (h mod 256)" for h :: int
    by (simp add: nat_mod_distrib [symmetric, of _ 256, simplified] mod_mod_cancel)
  then show ?thesis
    unfolding MRSH_HASHTABLE_BUCKETS_def by transfer (simp add: take_bit_eq_mod)
qed

lemma hashtable_code [code]:
  "mrsh_hashtable_get table key =
     (let hash = djb2 key in chain_get hash key (buckets table ! unat (take_bit 8 hash)))"
  "mrsh_hashtable_set table key v =
     (let hash = djb2 key; bucket = unat (take_bit 8 hash)
      in case chain_set hash key v (buckets table ! bucket) of
           (old, c) \<Rightarrow> (old, table\<lparr>buckets := (buckets table)[bucket := c]\<rparr>))"
  "mrsh_hashtable_del table key =
     (let hash = djb2 key; bucket = unat (take_bit 8 hash)
      in case chain_del hash key (buckets table ! bucket) of
           (old, c) \<Rightarrow> (old, table\<lparr>buckets := (buckets table)[bucket := c]\<rparr>))"
  by (simp_all add: mrsh_hashtable_get_def mrsh_hashtable_set_def mrsh_hashtable_del_def
        bucket_low_byte Let_def)

section \<open>The invariant\<close>

definition chain_ok :: "nat \<Rightarrow> 'v chain \<Rightarrow> bool" where
  "chain_ok i c \<longleftrightarrow> distinct (map entry_key c)
     \<and> (\<forall>e \<in> set c. entry_hash e = djb2 (entry_key e) \<and> bucket_index (entry_key e) = i)"

definition ht_inv :: "'v mrsh_hashtable \<Rightarrow> bool" where
  "ht_inv t \<longleftrightarrow> length (buckets t) = MRSH_HASHTABLE_BUCKETS
     \<and> (\<forall>i < MRSH_HASHTABLE_BUCKETS. chain_ok i (buckets t ! i))"

text \<open>The entries in iteration order.\<close>

definition ht_entries :: "'v mrsh_hashtable \<Rightarrow> (string \<times> 'v) list" where
  "ht_entries t = map (\<lambda>e. (entry_key e, entry_value e)) (concat (buckets t))"

lemma bucket_index_less [simp]: "bucket_index key < MRSH_HASHTABLE_BUCKETS"
  by (simp add: bucket_index_def MRSH_HASHTABLE_BUCKETS_def)

lemma ht_inv_empty: "ht_inv mrsh_hashtable_empty"
  by (simp add: ht_inv_def mrsh_hashtable_empty_def chain_ok_def)

section \<open>Chains\<close>

lemma chain_get_notin: "k \<notin> entry_key ` set c \<Longrightarrow> chain_get h k c = None"
  by (induction c) (auto simp: entry_matches_def)

lemma keys_chain_set:
  "chain_set h k v c = (old, c') \<Longrightarrow> e \<in> set c' \<Longrightarrow> entry_key e \<in> insert k (entry_key ` set c)"
  by (induction c arbitrary: c') (auto simp: entry_matches_def split: if_splits prod.splits)

lemma chain_ok_Cons:
  "chain_ok i (e # c) \<longleftrightarrow> entry_hash e = djb2 (entry_key e) \<and> bucket_index (entry_key e) = i
     \<and> entry_key e \<notin> entry_key ` set c \<and> chain_ok i c"
  unfolding chain_ok_def by auto

lemma chain_set_ok:
  assumes "chain_ok i c" and "bucket_index k = i" and "chain_set (djb2 k) k v c = (old, c')"
  shows "chain_ok i c'"
  using assms
proof (induction c arbitrary: old c')
  case Nil
  then show ?case by (auto simp: chain_ok_def)
next
  case (Cons e c)
  show ?case
  proof (cases "entry_matches (djb2 k) k e")
    case True
    with Cons.prems show ?thesis by (auto simp: chain_ok_def)
  next
    case False
    with Cons.prems obtain c1 where c1: "chain_set (djb2 k) k v c = (old, c1)" and c': "c' = e # c1"
      by (auto split: prod.splits)
    from Cons.prems(1) False have ne: "entry_key e \<noteq> k" "entry_key e \<notin> entry_key ` set c"
      by (auto simp: chain_ok_def entry_matches_def)
    have fresh: "entry_key e \<notin> entry_key ` set c1"
    proof
      assume "entry_key e \<in> entry_key ` set c1"
      then obtain d where "d \<in> set c1" "entry_key d = entry_key e" by fastforce
      with keys_chain_set [OF c1, of d] ne show False by simp
    qed
    from Cons.prems(1) have e: "chain_ok i c" "entry_hash e = djb2 (entry_key e)"
      "bucket_index (entry_key e) = i"
      unfolding chain_ok_Cons by blast+
    with Cons.IH [OF e(1) Cons.prems(2) c1] fresh show ?thesis
      unfolding c' chain_ok_Cons by blast
  qed
qed

lemma chain_del_set: "chain_del h k c = (old, c') \<Longrightarrow> set c' \<subseteq> set c"
  by (induction c arbitrary: c') (auto split: if_splits prod.splits)

lemma chain_del_keys:
  "chain_del h k c = (old, c') \<Longrightarrow> distinct (map entry_key c) \<Longrightarrow> distinct (map entry_key c')"
proof (induction c arbitrary: c')
  case (Cons e c)
  then show ?case
    using chain_del_set [of h k c] by (fastforce split: if_splits prod.splits)
qed simp

lemma chain_del_ok: "chain_ok i c \<Longrightarrow> chain_del h k c = (old, c') \<Longrightarrow> chain_ok i c'"
  using chain_del_set [of h k c old c'] chain_del_keys [of h k c old c']
  by (auto simp: chain_ok_def)

lemma chain_get_set:
  "chain_set h k v c = (old, c') \<Longrightarrow>
   chain_get h' k' c' = (if h' = h \<and> k' = k then Some v else chain_get h' k' c)"
  by (induction c arbitrary: c') (auto simp: entry_matches_def split: if_splits prod.splits)

lemma chain_set_old: "chain_set h k v c = (old, c') \<Longrightarrow> old = chain_get h k c"
  by (induction c arbitrary: c') (auto split: if_splits prod.splits)

lemma chain_del_old: "chain_del h k c = (old, c') \<Longrightarrow> old = chain_get h k c"
  by (induction c arbitrary: c') (auto split: if_splits prod.splits)

lemma chain_get_del:
  "chain_del h k c = (old, c') \<Longrightarrow> distinct (map entry_key c) \<Longrightarrow>
   chain_get h' k' c' = (if h' = h \<and> k' = k then None else chain_get h' k' c)"
  by (induction c arbitrary: c')
    (auto simp: entry_matches_def chain_get_notin split: if_splits prod.splits)

lemma chain_get_map_of:
  "\<forall>e \<in> set c. entry_hash e = djb2 (entry_key e) \<Longrightarrow>
   chain_get (djb2 k) k c = map_of (map (\<lambda>e. (entry_key e, entry_value e)) c) k"
  by (induction c) (auto simp: entry_matches_def)

section \<open>The table as a map\<close>

lemma get_via_index:
  "mrsh_hashtable_get t k = chain_get (djb2 k) k (buckets t ! bucket_index k)"
  by (simp add: mrsh_hashtable_get_def bucket_index_def Let_def)

text \<open>A key is found in the bucket of its index only, so the whole table is one association list.\<close>

lemma map_of_concat:
  assumes "k \<notin> fst ` set (concat (take i xss))" and "k \<notin> fst ` set (concat (drop (Suc i) xss))"
    and "i < length xss"
  shows "map_of (concat xss) k = map_of (xss ! i) k"
proof -
  from assms(3) have "concat xss = concat (take i xss) @ xss ! i @ concat (drop (Suc i) xss)"
    by (metis concat.simps(2) concat_append id_take_nth_drop)
  moreover from assms(1,2) have "map_of (concat (take i xss)) k = None"
    "map_of (concat (drop (Suc i) xss)) k = None"
    by (simp_all only: map_of_eq_None_iff not_False_eq_True)
  ultimately show ?thesis by (simp add: map_add_def split: option.split)
qed

definition bucket_pairs :: "'v mrsh_hashtable \<Rightarrow> (string \<times> 'v) list list" where
  "bucket_pairs t = map (map (\<lambda>e. (entry_key e, entry_value e))) (buckets t)"

lemma ht_entries_concat: "ht_entries t = concat (bucket_pairs t)"
  by (simp add: ht_entries_def bucket_pairs_def map_concat)

lemma bucket_pairs_index:
  "ht_inv t \<Longrightarrow> j < length (bucket_pairs t) \<Longrightarrow> (k, v) \<in> set (bucket_pairs t ! j) \<Longrightarrow> bucket_index k = j"
  by (auto simp: ht_inv_def chain_ok_def bucket_pairs_def)

lemma in_concat_takeD: "x \<in> set (concat (take i xss)) \<Longrightarrow> \<exists>j < length xss. j < i \<and> x \<in> set (xss ! j)"
  by (force simp: in_set_conv_nth [of _ "take i xss"])

lemma in_concat_dropD: "x \<in> set (concat (drop i xss)) \<Longrightarrow> \<exists>j < length xss. i \<le> j \<and> x \<in> set (xss ! j)"
proof -
  assume "x \<in> set (concat (drop i xss))"
  then obtain j where "j < length xss - i" "x \<in> set (xss ! (i + j))"
    by (auto simp: in_set_conv_nth [of _ "drop i xss"])
  then show ?thesis by (intro exI [of _ "i + j"]) simp
qed

lemma other_buckets:
  assumes inv: "ht_inv t"
  shows "k \<notin> fst ` set (concat (take (bucket_index k) (bucket_pairs t)))"
    and "k \<notin> fst ` set (concat (drop (Suc (bucket_index k)) (bucket_pairs t)))"
  by (auto dest!: in_concat_takeD in_concat_dropD dest: bucket_pairs_index [OF inv]
      simp del: set_concat)

lemma map_of_ht_entries:
  assumes inv: "ht_inv t"
  shows "map_of (ht_entries t) = mrsh_hashtable_get t"
proof
  fix k
  let ?i = "bucket_index k"
  have l: "?i < length (buckets t)" and ok: "chain_ok ?i (buckets t ! ?i)"
    using inv by (simp_all add: ht_inv_def)
  then have "map_of (ht_entries t) k = map_of (bucket_pairs t ! ?i) k"
    unfolding ht_entries_concat
    using other_buckets [OF inv, of k] by (intro map_of_concat) (simp_all add: bucket_pairs_def)
  also from l ok have "\<dots> = mrsh_hashtable_get t k"
    by (simp add: bucket_pairs_def get_via_index chain_get_map_of chain_ok_def)
  finally show "map_of (ht_entries t) k = mrsh_hashtable_get t k" .
qed

lemma distinct_concat_indexed:
  "(\<And>i x. i < length xss \<Longrightarrow> x \<in> set (xss ! i) \<Longrightarrow> f x = i) \<Longrightarrow> (\<And>xs. xs \<in> set xss \<Longrightarrow> distinct xs)
   \<Longrightarrow> distinct (concat xss)"
proof (induction xss rule: rev_induct)
  case (snoc xs xss)
  have f: "f x = i" if "i < length xss" "x \<in> set (xss ! i)" for i x
    using snoc.prems(1) [of i x] that by (simp add: nth_append)
  have "f x \<noteq> length xss" if "x \<in> set (concat xss)" for x
    using that f by (fastforce simp: in_set_conv_nth [of _ xss])
  moreover have "f x = length xss" if "x \<in> set xs" for x
    using snoc.prems(1) [of "length xss" x] that by simp
  moreover have "distinct (concat xss)" by (rule snoc.IH) (use f snoc.prems(2) in auto)
  ultimately show ?case using snoc.prems(2) by force
qed simp

lemma distinct_ht_entries:
  assumes inv: "ht_inv t"
  shows "distinct (map fst (ht_entries t))"
proof -
  have "distinct (concat (map (map fst) (bucket_pairs t)))"
  proof (rule distinct_concat_indexed [where f = bucket_index])
    show "\<And>i x. i < length (map (map fst) (bucket_pairs t)) \<Longrightarrow>
        x \<in> set (map (map fst) (bucket_pairs t) ! i) \<Longrightarrow> bucket_index x = i"
      using bucket_pairs_index [OF inv] by auto
    show "\<And>xs. xs \<in> set (map (map fst) (bucket_pairs t)) \<Longrightarrow> distinct xs"
      using inv by (auto simp: bucket_pairs_def ht_inv_def chain_ok_def in_set_conv_nth comp_def)
  qed
  then show ?thesis by (simp add: ht_entries_concat map_concat)
qed

text \<open>Replacing one bucket.\<close>

lemma ht_inv_replace:
  "ht_inv t \<Longrightarrow> chain_ok (bucket_index k) c \<Longrightarrow> ht_inv (t\<lparr>buckets := (buckets t)[bucket_index k := c]\<rparr>)"
  by (auto simp: ht_inv_def nth_list_update)

lemma get_replace:
  "ht_inv t \<Longrightarrow> mrsh_hashtable_get (t\<lparr>buckets := (buckets t)[bucket_index k := c]\<rparr>) k' =
     (if bucket_index k' = bucket_index k then chain_get (djb2 k') k' c else mrsh_hashtable_get t k')"
  by (auto simp: get_via_index ht_inv_def nth_list_update)

lemma set_via_index:
  "mrsh_hashtable_set t k v =
     (case chain_set (djb2 k) k v (buckets t ! bucket_index k) of
        (old, c) \<Rightarrow> (old, t\<lparr>buckets := (buckets t)[bucket_index k := c]\<rparr>))"
  by (simp add: mrsh_hashtable_set_def bucket_index_def Let_def)

lemma del_via_index:
  "mrsh_hashtable_del t k =
     (case chain_del (djb2 k) k (buckets t ! bucket_index k) of
        (old, c) \<Rightarrow> (old, t\<lparr>buckets := (buckets t)[bucket_index k := c]\<rparr>))"
  by (simp add: mrsh_hashtable_del_def bucket_index_def Let_def)

lemma ht_chain_ok: "ht_inv t \<Longrightarrow> chain_ok (bucket_index k) (buckets t ! bucket_index k)"
  by (simp add: ht_inv_def)

lemma ht_set_spec:
  assumes inv: "ht_inv t"
  shows "ht_inv (snd (mrsh_hashtable_set t k v))
    \<and> mrsh_hashtable_get (snd (mrsh_hashtable_set t k v)) = (mrsh_hashtable_get t)(k \<mapsto> v)
    \<and> fst (mrsh_hashtable_set t k v) = mrsh_hashtable_get t k"
proof -
  obtain old c where c: "chain_set (djb2 k) k v (buckets t ! bucket_index k) = (old, c)" by fastforce
  have "mrsh_hashtable_get (t\<lparr>buckets := (buckets t)[bucket_index k := c]\<rparr>) k'
      = ((mrsh_hashtable_get t)(k \<mapsto> v)) k'" for k'
    unfolding get_replace [OF inv] chain_get_set [OF c] by (auto simp: get_via_index)
  with chain_set_ok [OF ht_chain_ok [OF inv] refl c] chain_set_old [OF c] inv c show ?thesis
    by (auto simp: set_via_index ht_inv_replace get_via_index [of t k])
qed

lemma ht_del_spec:
  assumes inv: "ht_inv t"
  shows "ht_inv (snd (mrsh_hashtable_del t k))
    \<and> mrsh_hashtable_get (snd (mrsh_hashtable_del t k)) = (mrsh_hashtable_get t)(k := None)
    \<and> fst (mrsh_hashtable_del t k) = mrsh_hashtable_get t k"
proof -
  obtain old c where c: "chain_del (djb2 k) k (buckets t ! bucket_index k) = (old, c)" by fastforce
  have d: "distinct (map entry_key (buckets t ! bucket_index k))"
    using ht_chain_ok [OF inv, of k] by (simp add: chain_ok_def)
  have "mrsh_hashtable_get (t\<lparr>buckets := (buckets t)[bucket_index k := c]\<rparr>) k'
      = ((mrsh_hashtable_get t)(k := None)) k'" for k'
    unfolding get_replace [OF inv] chain_get_del [OF c d] by (auto simp: get_via_index)
  with chain_del_ok [OF ht_chain_ok [OF inv] c] chain_del_old [OF c] inv c show ?thesis
    by (auto simp: del_via_index ht_inv_replace get_via_index [of t k])
qed

lemma for_each_entries:
  "mrsh_hashtable_for_each t f s = fold (\<lambda>(k, v). f k v) (ht_entries t) s"
proof -
  have "fold (fold (\<lambda>e. f (entry_key e) (entry_value e))) bs s
      = fold (\<lambda>(k, v). f k v) (map (\<lambda>e. (entry_key e, entry_value e)) (concat bs)) s"
    for bs :: "'b chain list"
    by (induction bs arbitrary: s) (simp_all add: fold_map comp_def)
  then show ?thesis by (simp add: mrsh_hashtable_for_each_def ht_entries_def)
qed

section \<open>The contract of a string map\<close>

locale string_map =
  fixes inv :: "'t \<Rightarrow> bool" and empty_map :: 't and look :: "'t \<Rightarrow> string \<Rightarrow> 'v option"
    and upd :: "'t \<Rightarrow> string \<Rightarrow> 'v \<Rightarrow> 't" and rem :: "'t \<Rightarrow> string \<Rightarrow> 't"
    and entries :: "'t \<Rightarrow> (string \<times> 'v) list"
  assumes inv_empty: "inv empty_map"
    and look_empty: "look empty_map = Map.empty"
    and inv_upd: "inv t \<Longrightarrow> inv (upd t k v)"
    and look_upd: "inv t \<Longrightarrow> look (upd t k v) = (look t)(k \<mapsto> v)"
    and inv_rem: "inv t \<Longrightarrow> inv (rem t k)"
    and look_rem: "inv t \<Longrightarrow> look (rem t k) = (look t)(k := None)"
    and look_entries: "inv t \<Longrightarrow> map_of (entries t) = look t"
    and distinct_entries: "inv t \<Longrightarrow> distinct (map fst (entries t))"
begin

lemma inv_fold_upd: "inv t \<Longrightarrow> inv (fold (\<lambda>(k, v) t. upd t k (f v)) kvs t)"
  by (induction kvs arbitrary: t) (auto simp: inv_upd)

lemma look_fold_upd:
  "inv t \<Longrightarrow> distinct (map fst kvs) \<Longrightarrow>
   look (fold (\<lambda>(k, v) t. upd t k (f v)) kvs t) k =
     (case map_of kvs k of Some v \<Rightarrow> Some (f v) | None \<Rightarrow> look t k)"
proof (induction kvs arbitrary: t)
  case (Cons kv kvs)
  obtain k' v' where kv: "kv = (k', v')" by fastforce
  with Cons.prems have "map_of kvs k' = None" by (auto simp: map_of_eq_None_iff)
  with Cons kv show ?case by (auto simp: inv_upd look_upd split: option.splits)
qed simp

text \<open>Copying every entry into an empty map, with a function on the values, copies the map.\<close>

lemma copy_all:
  assumes "inv t"
  shows "inv (fold (\<lambda>(k, v) t. upd t k (f v)) (entries t) empty_map)"
    and "look (fold (\<lambda>(k, v) t. upd t k (f v)) (entries t) empty_map) = map_option f \<circ> look t"
  using assms
  by (auto simp: inv_fold_upd inv_empty look_fold_upd distinct_entries look_entries look_empty
      split: option.split)

lemma inv_fold_rem: "inv t \<Longrightarrow> inv (fold (\<lambda>(k, v) t. rem t k) kvs t)"
  by (induction kvs arbitrary: t) (auto simp: inv_rem)

lemma look_fold_rem:
  "inv t \<Longrightarrow> look (fold (\<lambda>(k, v) t. rem t k) kvs t) k =
     (if k \<in> fst ` set kvs then None else look t k)"
  by (induction kvs arbitrary: t) (auto simp: inv_rem look_rem, force)

text \<open>Removing every entry while iterating empties the map.\<close>

lemma remove_all:
  assumes "inv t"
  shows "look (fold (\<lambda>(k, v) t. rem t k) (entries t) t) = Map.empty"
proof
  fix k
  show "look (fold (\<lambda>(k, v) t. rem t k) (entries t) t) k = None"
    using look_entries [OF assms] map_of_eq_None_iff [of "entries t" k]
    by (simp add: look_fold_rem [OF assms])
qed

end

definition ht_set :: "'v mrsh_hashtable \<Rightarrow> string \<Rightarrow> 'v \<Rightarrow> 'v mrsh_hashtable" where
  "ht_set t k v = snd (mrsh_hashtable_set t k v)"

definition ht_del :: "'v mrsh_hashtable \<Rightarrow> string \<Rightarrow> 'v mrsh_hashtable" where
  "ht_del t k = snd (mrsh_hashtable_del t k)"

lemma get_empty: "mrsh_hashtable_get mrsh_hashtable_empty = Map.empty"
  by (rule ext) (simp add: get_via_index mrsh_hashtable_empty_def)

interpretation ht: string_map ht_inv mrsh_hashtable_empty mrsh_hashtable_get ht_set ht_del ht_entries
  by unfold_locales
    (simp_all add: ht_inv_empty get_empty ht_set_def ht_del_def ht_set_spec ht_del_spec
      map_of_ht_entries distinct_ht_entries)

section \<open>Properties\<close>

text \<open>A history of updates, on the table and on a map; each update returns the value it replaced.\<close>

datatype 'v ht_update = Set_key string 'v | Del_key string

fun ht_run :: "'v ht_update list \<Rightarrow> 'v mrsh_hashtable \<Rightarrow> 'v option list \<times> 'v mrsh_hashtable" where
  "ht_run [] t = ([], t)"
| "ht_run (Set_key k v # us) t =
     (case mrsh_hashtable_set t k v of (old, t1) \<Rightarrow> case ht_run us t1 of (os, t2) \<Rightarrow> (old # os, t2))"
| "ht_run (Del_key k # us) t =
     (case mrsh_hashtable_del t k of (old, t1) \<Rightarrow> case ht_run us t1 of (os, t2) \<Rightarrow> (old # os, t2))"

fun map_run :: "'v ht_update list \<Rightarrow> (string \<rightharpoonup> 'v) \<Rightarrow> 'v option list \<times> (string \<rightharpoonup> 'v)" where
  "map_run [] m = ([], m)"
| "map_run (Set_key k v # us) m = (case map_run us (m(k \<mapsto> v)) of (os, m') \<Rightarrow> (m k # os, m'))"
| "map_run (Del_key k # us) m = (case map_run us (m(k := None)) of (os, m') \<Rightarrow> (m k # os, m'))"

lemma ht_run_refines:
  "ht_inv t \<Longrightarrow> ht_run us t = (os, t') \<Longrightarrow>
   ht_inv t' \<and> map_run us (mrsh_hashtable_get t) = (os, mrsh_hashtable_get t')"
proof (induction us arbitrary: t os)
  case (Cons u us)
  show ?case
  proof (cases u)
    case (Set_key k v)
    obtain old t1 where s: "mrsh_hashtable_set t k v = (old, t1)" by fastforce
    with ht_set_spec [OF Cons.prems(1), of k v] Cons.IH [of t1] Cons.prems Set_key show ?thesis
      by (fastforce split: prod.splits)
  next
    case (Del_key k)
    obtain old t1 where s: "mrsh_hashtable_del t k = (old, t1)" by fastforce
    with ht_del_spec [OF Cons.prems(1), of k] Cons.IH [of t1] Cons.prems Del_key show ?thesis
      by (fastforce split: prod.splits)
  qed
qed simp

text \<open>
  C22: The hash table is a map from strings to values. After every sequence of
  \<^verbatim>\<open>mrsh_hashtable_set\<close> and \<^verbatim>\<open>mrsh_hashtable_del\<close> calls from the zeroed table, each call has
  returned the value it replaced and \<^verbatim>\<open>mrsh_hashtable_get\<close> answers as the map that the same
  updates build, whatever collisions the keys have.
\<close>

theorem hashtable_refines_map:
  "map_run us Map.empty
     = (fst (ht_run us mrsh_hashtable_empty), mrsh_hashtable_get (snd (ht_run us mrsh_hashtable_empty)))"
  using ht_run_refines [OF ht_inv_empty, of us] by (cases "ht_run us mrsh_hashtable_empty") (simp add: get_empty)

text \<open>
  C35: \<^verbatim>\<open>mrsh_hashtable_for_each\<close> calls its iterator exactly once for each binding of the table: the
  keys it visits are distinct, and the pairs it visits are those that \<^verbatim>\<open>mrsh_hashtable_get\<close> finds.
\<close>

theorem for_each_visits_bindings:
  "let t = snd (ht_run us mrsh_hashtable_empty);
       visited = mrsh_hashtable_for_each t (\<lambda>k v acc. acc @ [(k, v)]) []
   in distinct (map fst visited) \<and> (\<forall>k v. (k, v) \<in> set visited \<longleftrightarrow> mrsh_hashtable_get t k = Some v)"
proof -
  obtain os t where r: "ht_run us mrsh_hashtable_empty = (os, t)" by fastforce
  then have inv: "ht_inv t" using ht_run_refines [OF ht_inv_empty] by blast
  have "fold (\<lambda>(k, v) acc. acc @ [(k, v)]) kvs acc = acc @ kvs"
    for kvs acc :: "(string \<times> 'a) list"
    by (induction kvs arbitrary: acc) auto
  with r distinct_ht_entries [OF inv] map_of_ht_entries [OF inv] show ?thesis
    by (simp add: Let_def for_each_entries map_of_eq_Some_iff [symmetric])
qed

end
