(* ===== verification/Wsh_Getopt.thy ===== *)
theory Wsh_Getopt
  imports Wsh_Prelude
begin

text \<open>
  The option parser of src/shell/mrsh/getopt.c. Its global variables are the record \<open>getopt_state\<close>.
  A call returns the option character, or \<open>None\<close> for the result -1, the variables afterwards and the
  text written to standard error; the whole result is \<open>None\<close> when the call reads an argument
  outside of its characters, which happens because \<^verbatim>\<open>_mrsh_optpos\<close> is not reset after an option
  that takes an argument.
\<close>

record getopt_state =
  g_optarg :: "string option"
  g_optind :: nat
  g_opterr :: bool
  g_optopt :: char
  g_optpos :: nat

definition getopt_start :: getopt_state where
  "getopt_start = \<lparr>g_optarg = None, g_optind = 1, g_opterr = True, g_optopt = NUL, g_optpos = 1\<rparr>"

text \<open>Reading \<^verbatim>\<open>s[i]\<close>, the terminator included.\<close>

definition char_at :: "string \<Rightarrow> nat \<Rightarrow> char option" where
  "char_at s i = (if i < length s then Some (s ! i) else if i = length s then Some NUL else None)"

type_synonym getopt_result = "(char option \<times> getopt_state \<times> string) option"

text \<open>The matched option and the rest of the option string after it; the empty list when there is none.\<close>

definition find_opt :: "string \<Rightarrow> char \<Rightarrow> string" where
  "find_opt optstring opt =
     dropWhile (\<lambda>c. c \<noteq> opt)
       (if optstring \<noteq> [] \<and> hd optstring = CHR '':'' then tl optstring else optstring)"

definition quiet :: "string \<Rightarrow> getopt_state \<Rightarrow> bool" where
  "quiet optstring g \<longleftrightarrow> \<not> g_opterr g \<or> (optstring \<noteq> [] \<and> hd optstring = CHR '':'')"

definition getopt_flag :: "string \<Rightarrow> char \<Rightarrow> getopt_state \<Rightarrow> getopt_result" where
  "getopt_flag a opt g =
     do { nxt \<leftarrow> char_at a (g_optpos g + 1);
          Some (Some opt,
            (if nxt = NUL then g\<lparr>g_optind := g_optind g + 1, g_optpos := 1\<rparr>
             else g\<lparr>g_optpos := g_optpos g + 1\<rparr>), []) }"

definition getopt_with_arg :: "string list \<Rightarrow> string \<Rightarrow> string \<Rightarrow> char \<Rightarrow> getopt_state \<Rightarrow> getopt_result" where
  "getopt_with_arg argv optstring a opt g =
     do { nxt \<leftarrow> char_at a (g_optpos g + 1);
          if nxt \<noteq> NUL
          then Some (Some opt, g\<lparr>g_optarg := Some (drop (g_optpos g + 1) a), g_optind := g_optind g + 1\<rparr>, [])
          else if g_optind g + 2 > length argv
          then Some (Some (if optstring \<noteq> [] \<and> hd optstring = CHR '':'' then CHR '':'' else CHR ''?''),
                 g\<lparr>g_optopt := opt\<rparr>,
                 if quiet optstring g then []
                 else hd argv @ '': Option '' @ [CHR 0x27, opt, CHR 0x27] @ '' requires an argument.'' @ [NEWLINE_CHR])
          else Some (Some opt, g\<lparr>g_optarg := Some (argv ! (g_optind g + 1)), g_optind := g_optind g + 2\<rparr>, []) }"

definition mrsh_getopt :: "string list \<Rightarrow> string \<Rightarrow> getopt_state \<Rightarrow> getopt_result" where
  "mrsh_getopt argv optstring g0 =
     (let g1 = g0\<lparr>g_optarg := None\<rparr>;
          g = (if g_optind g1 = 0 then g1\<lparr>g_optind := 1, g_optpos := 1\<rparr> else g1)
      in if g_optind g \<ge> length argv then Some (None, g, [])
         else
           let a = argv ! g_optind g in
           if a = [] \<or> hd a \<noteq> CHR ''-'' then Some (None, g, [])
           else if tl a = [] then Some (None, g, [])
           else if hd (tl a) = CHR ''-'' then Some (None, g\<lparr>g_optind := g_optind g + 1\<rparr>, [])
           else do {
             opt \<leftarrow> char_at a (g_optpos g);
             let g' = g\<lparr>g_optopt := NUL\<rparr>;
             (case find_opt optstring opt of
                [] \<Rightarrow>
                  Some (Some (CHR ''?''), g',
                    if quiet optstring g then []
                    else hd argv @ '': Option '' @ [CHR 0x27, opt, CHR 0x27] @ '' not found.'' @ [NEWLINE_CHR])
              | c # cs \<Rightarrow>
                  if cs = [] \<or> hd cs \<noteq> CHR '':'' then getopt_flag a opt g'
                  else getopt_with_arg argv optstring a opt g') })"

section \<open>Option loops\<close>

text \<open>
  The loop \<^verbatim>\<open>while ((opt = _mrsh_getopt(...)) != -1) switch (opt)\<close> of the builtins: it collects the
  options in order and ends at -1, at an option of \<open>stops\<close> (one for which the builtin returns), or in
  the default branch of the switch (the flag \<open>False\<close>). The result has the options seen so far.
\<close>

fun getopt_loop ::
  "nat \<Rightarrow> string list \<Rightarrow> string \<Rightarrow> string \<Rightarrow> string \<Rightarrow> getopt_state \<Rightarrow> (bool \<times> string \<times> getopt_state) option" where
  "getopt_loop 0 argv optstring stops seen g = None"
| "getopt_loop (Suc n) argv optstring stops seen g =
     do { (r, g', _) \<leftarrow> mrsh_getopt argv optstring g;
          (case r of
             None \<Rightarrow> Some (True, seen, g')
           | Some c \<Rightarrow>
               if c = CHR ''?'' \<or> c = CHR '':'' then Some (False, seen, g')
               else if c \<in> set stops then Some (True, seen @ [c], g')
               else getopt_loop n argv optstring stops (seen @ [c]) g') }"

definition total_chars :: "string list \<Rightarrow> nat" where
  "total_chars argv = sum_list (map (\<lambda>a. length a + 2) argv)"

text \<open>The loop as the builtins start it: \<^verbatim>\<open>_mrsh_optind = 0\<close>, with enough fuel for every argument vector.\<close>

definition getopt_all :: "string list \<Rightarrow> string \<Rightarrow> string \<Rightarrow> getopt_state \<Rightarrow> (bool \<times> string \<times> getopt_state) option" where
  "getopt_all argv optstring stops g =
     getopt_loop (total_chars argv + 1) argv optstring stops [] (g\<lparr>g_optind := 0\<rparr>)"

section \<open>Option strings without arguments\<close>

text \<open>
  The builtins use option strings such as \<^verbatim>\<open>":fv"\<close>, whose options take no argument. For these the
  position never leaves the current argument, and every option that is found moves on.
\<close>

definition plain :: "string \<Rightarrow> bool" where
  "plain optstring \<longleftrightarrow> optstring \<noteq> [] \<and> hd optstring = CHR '':'' \<and> CHR '':'' \<notin> set (tl optstring)
     \<and> NUL \<notin> set optstring"

definition pos_ok :: "string list \<Rightarrow> getopt_state \<Rightarrow> bool" where
  "pos_ok argv g \<longleftrightarrow> g_optind g = 0 \<or> g_optpos g = 1
     \<or> (1 < g_optpos g \<and> g_optind g < length argv \<and> g_optpos g < length (argv ! g_optind g))"

text \<open>What is left to scan.\<close>

definition todo :: "string list \<Rightarrow> getopt_state \<Rightarrow> nat" where
  "todo argv g =
     (if g_optind g = 0 then total_chars (drop 1 argv)
      else total_chars (drop (g_optind g) argv) + 1 - g_optpos g)"

lemma find_opt_hd: "find_opt optstring opt = c # cs \<Longrightarrow> c = opt"
  by (simp add: find_opt_def dropWhile_eq_Cons_conv)

lemma find_opt_plain:
  assumes "plain optstring" and "find_opt optstring opt = c # cs"
  shows "\<not> (cs \<noteq> [] \<and> hd cs = CHR '':'')"
proof -
  have "set (find_opt optstring opt) \<subseteq> set (tl optstring)"
    using assms(1) set_dropWhileD unfolding find_opt_def plain_def by fastforce
  with assms show ?thesis by (cases cs) (auto simp: plain_def)
qed

lemma total_chars_drop:
  "i < length argv \<Longrightarrow> total_chars (drop i argv) = length (argv ! i) + 2 + total_chars (drop (Suc i) argv)"
  by (simp add: total_chars_def Cons_nth_drop_Suc [symmetric])

text \<open>One flag: the scan stays inside of the argument and moves on.\<close>

lemma getopt_flag_step:
  assumes "1 \<le> g_optind g" and "g_optind g < length argv" and "1 \<le> g_optpos g"
    and "g_optpos g < length (argv ! g_optind g)" and "NUL \<notin> set (argv ! g_optind g)"
  shows "\<exists>g'. getopt_flag (argv ! g_optind g) opt g = Some (Some opt, g', []) \<and> pos_ok argv g'
    \<and> todo argv g' < total_chars (drop (g_optind g) argv) + 1 - g_optpos g"
proof (cases "g_optpos g + 1 < length (argv ! g_optind g)")
  case True
  with assms(5) have "argv ! g_optind g ! (g_optpos g + 1) \<noteq> NUL" by (metis nth_mem)
  with True assms total_chars_drop [OF assms(2)] show ?thesis
    by (auto simp: getopt_flag_def char_at_def pos_ok_def todo_def)
next
  case False
  with assms total_chars_drop [OF assms(2)] show ?thesis
    by (auto simp: getopt_flag_def char_at_def pos_ok_def todo_def)
qed

lemma getopt_step:
  assumes pl: "plain optstring" and ok: "pos_ok argv g" and nul: "\<forall>a \<in> set argv. NUL \<notin> set a"
  shows "\<exists>r g'. mrsh_getopt argv optstring g = Some (r, g', [])
    \<and> (r \<noteq> None \<longrightarrow> r \<noteq> Some (CHR ''?'') \<longrightarrow> pos_ok argv g' \<and> todo argv g' < todo argv g)"
proof -
  define h where "h = (if g_optind g = 0 then g\<lparr>g_optarg := None, g_optind := 1, g_optpos := 1\<rparr>
    else g\<lparr>g_optarg := None\<rparr>)"
  have h: "1 \<le> g_optind h" "pos_ok argv h" "todo argv h = todo argv g"
    using ok by (auto simp: h_def pos_ok_def todo_def)
  have start: "(if g_optind (g\<lparr>g_optarg := None\<rparr>) = 0
      then g\<lparr>g_optarg := None\<rparr>\<lparr>g_optind := 1, g_optpos := 1\<rparr> else g\<lparr>g_optarg := None\<rparr>) = h"
    by (simp add: h_def)
  have q: "quiet optstring g'" for g' using pl by (simp add: quiet_def plain_def)
  let ?a = "argv ! g_optind h"
  show ?thesis
  proof (cases "g_optind h < length argv \<and> ?a \<noteq> [] \<and> hd ?a = CHR ''-'' \<and> tl ?a \<noteq> [] \<and> hd (tl ?a) \<noteq> CHR ''-''")
    case False
    then show ?thesis unfolding mrsh_getopt_def start Let_def by auto
  next
    case True
    from True have "1 < length ?a" by (cases ?a; cases "tl ?a") auto
    with h have opos: "1 \<le> g_optpos h" "g_optpos h < length ?a" by (auto simp: pos_ok_def)
    then have c: "char_at ?a (g_optpos h) = Some (?a ! g_optpos h)" by (simp add: char_at_def)
    let ?opt = "?a ! g_optpos h" and ?h = "h\<lparr>g_optopt := NUL\<rparr>"
    show ?thesis
    proof (cases "find_opt optstring ?opt")
      case Nil
      with True c q show ?thesis unfolding mrsh_getopt_def start Let_def by simp
    next
      case (Cons d ds)
      with find_opt_plain [OF pl Cons] True c
      have "mrsh_getopt argv optstring g = getopt_flag ?a ?opt ?h"
        unfolding mrsh_getopt_def start Let_def by auto
      moreover from getopt_flag_step [of ?h argv ?opt] True opos nul h(1)
      obtain g' where "getopt_flag ?a ?opt ?h = Some (Some ?opt, g', [])"
        "pos_ok argv g'" "todo argv g' < total_chars (drop (g_optind h) argv) + 1 - g_optpos h" by auto
      ultimately show ?thesis using h by (auto simp: todo_def [of argv h])
    qed
  qed
qed

lemma getopt_loop_total:
  assumes "plain optstring" and "\<forall>a \<in> set argv. NUL \<notin> set a"
  shows "pos_ok argv g \<Longrightarrow> todo argv g < n \<Longrightarrow> \<exists>r. getopt_loop n argv optstring stops seen g = Some r"
proof (induction n arbitrary: g seen)
  case (Suc n)
  from getopt_step [OF assms(1) Suc.prems(1) assms(2)] obtain r g'
    where r: "mrsh_getopt argv optstring g = Some (r, g', [])"
      "r \<noteq> None \<longrightarrow> r \<noteq> Some (CHR ''?'') \<longrightarrow> pos_ok argv g' \<and> todo argv g' < todo argv g" by blast
  with Suc.prems Suc.IH [of g'] show ?case by (cases r) auto
qed simp

section \<open>Properties\<close>

text \<open>
  C29: The option loops of the builtins end, and read their arguments inside of their bounds: for
  every option string of flags, every argument vector of C strings and every state that earlier
  calls left behind, the loop started at the first argument returns.
\<close>

theorem getopt_loop_terminates:
  assumes "plain optstring" and "\<forall>a \<in> set argv. NUL \<notin> set a"
  shows "\<exists>ok seen g'. getopt_all argv optstring stops g = Some (ok, seen, g')"
proof -
  have "todo argv (g\<lparr>g_optind := 0\<rparr>) < total_chars argv + 1"
    by (cases argv) (simp_all add: todo_def total_chars_def)
  from getopt_loop_total [OF assms _ this] show ?thesis
    by (auto simp: getopt_all_def pos_ok_def)
qed

theorem getopt_loop_terminates_witness:
  "\<exists>ok seen g'. getopt_all [''unset'', ''-f'', ''x''] '':fv'' [] getopt_start = Some (ok, seen, g')"
  using getopt_loop_terminates [of "'':fv''" "[''unset'', ''-f'', ''x'']" "[]" getopt_start]
  by (simp add: plain_def)

end
