(* ===== verification/Wsh_State.thy ===== *)
theory Wsh_State
  imports Wsh_Ast Wsh_Hashtable Wsh_Getopt
begin

text \<open>
  The state of the shell: \<^verbatim>\<open>struct mrsh_state\<close>, \<^verbatim>\<open>struct mrsh_state_priv\<close> and the call frames
  (src/shell/mrsh/include/mrsh/shell.h, include/shell/shell.h), the operations of shell/shell.c on them,
  and the part of the process that the executor changes: the environment, the standard streams and the
  files behind them (\<open>world\<close>).

  Two kinds of shared objects are kept by address, because the C code frees them while other
  pointers to them are left: the strings of a frame's \<^verbatim>\<open>argv\<close> (an \<open>arg\<close> that was freed is \<open>Dangling\<close>)
  and the bodies of functions (the store \<open>st_bodies\<close>; a function table holds addresses of it).
  Allocation succeeds throughout. Jobs and processes do not exist in this port: shell/job.c and
  shell/process.c never create one.
\<close>

section \<open>Options and attributes\<close>

definition MRSH_OPT_ALLEXPORT :: uint where "MRSH_OPT_ALLEXPORT = 1"
definition MRSH_OPT_NOTIFY :: uint where "MRSH_OPT_NOTIFY = 2"
definition MRSH_OPT_NOCLOBBER :: uint where "MRSH_OPT_NOCLOBBER = 4"
definition MRSH_OPT_ERREXIT :: uint where "MRSH_OPT_ERREXIT = 8"
definition MRSH_OPT_NOGLOB :: uint where "MRSH_OPT_NOGLOB = 16"
definition MRSH_OPT_PRELOOKUP :: uint where "MRSH_OPT_PRELOOKUP = 32"
definition MRSH_OPT_MONITOR :: uint where "MRSH_OPT_MONITOR = 64"
definition MRSH_OPT_NOEXEC :: uint where "MRSH_OPT_NOEXEC = 128"
definition MRSH_OPT_IGNOREEOF :: uint where "MRSH_OPT_IGNOREEOF = 256"
definition MRSH_OPT_NOLOG :: uint where "MRSH_OPT_NOLOG = 512"
definition MRSH_OPT_VI :: uint where "MRSH_OPT_VI = 1024"
definition MRSH_OPT_NOUNSET :: uint where "MRSH_OPT_NOUNSET = 2048"
definition MRSH_OPT_VERBOSE :: uint where "MRSH_OPT_VERBOSE = 4096"
definition MRSH_OPT_XTRACE :: uint where "MRSH_OPT_XTRACE = 8192"

lemmas option_bits [wsh_defs] =
  MRSH_OPT_ALLEXPORT_def MRSH_OPT_NOTIFY_def MRSH_OPT_NOCLOBBER_def MRSH_OPT_ERREXIT_def
  MRSH_OPT_NOGLOB_def MRSH_OPT_PRELOOKUP_def MRSH_OPT_MONITOR_def MRSH_OPT_NOEXEC_def
  MRSH_OPT_IGNOREEOF_def MRSH_OPT_NOLOG_def MRSH_OPT_VI_def MRSH_OPT_NOUNSET_def
  MRSH_OPT_VERBOSE_def MRSH_OPT_XTRACE_def

definition MRSH_VAR_ATTRIB_NONE :: uint where "MRSH_VAR_ATTRIB_NONE = 0"
definition MRSH_VAR_ATTRIB_EXPORT :: uint where "MRSH_VAR_ATTRIB_EXPORT = 1"
definition MRSH_VAR_ATTRIB_READONLY :: uint where "MRSH_VAR_ATTRIB_READONLY = 2"

lemmas attrib_bits [wsh_defs] =
  MRSH_VAR_ATTRIB_NONE_def MRSH_VAR_ATTRIB_EXPORT_def MRSH_VAR_ATTRIB_READONLY_def

unbundle bit_operations_syntax

text \<open>The C tests \<^verbatim>\<open>flags & bit\<close>.\<close>

definition has_flag :: "uint \<Rightarrow> uint \<Rightarrow> bool" where
  "has_flag flags b \<longleftrightarrow> flags AND b \<noteq> 0"

section \<open>Files and standard streams\<close>

text \<open>
  A file is an inode with its bytes; a name is a directory entry of an inode, so that a stream keeps
  working on a file whose name was unlinked. An output stream is the host's stream, a file opened for
  writing with its offset, a file opened for appending, or closed. Stream buffers are flushed by the
  code wherever another stream reads the data, so a write is modelled as reaching its file at once.
\<close>

datatype out_stream = Out_host | Out_file nat nat | Out_append nat | Out_closed
datatype in_stream = In_host | In_file nat nat | In_closed

record world =
  w_names :: "string \<Rightarrow> nat option"
  w_data :: "nat \<Rightarrow> string"
  w_next :: nat
  w_stdin :: in_stream
  w_stdout :: out_stream
  w_stderr :: out_stream
  w_host_in :: string
  w_host_out :: string
  w_host_err :: string
  w_environ :: "string \<Rightarrow> string option"

text \<open>A process with the host's streams, no files and an empty environment.\<close>

definition init_world :: world where
  "init_world =
     \<lparr>w_names = Map.empty, w_data = (\<lambda>_. []), w_next = 0, w_stdin = In_host, w_stdout = Out_host,
      w_stderr = Out_host, w_host_in = [], w_host_out = [], w_host_err = [], w_environ = Map.empty\<rparr>"

text \<open>\<^verbatim>\<open>setenv(key, value, 1)\<close> refuses an empty name and a name with an equal sign.\<close>

definition c_setenv :: "string \<Rightarrow> string \<Rightarrow> world \<Rightarrow> world" where
  "c_setenv key v w =
     (if key = [] \<or> CHR ''='' \<in> set key then w
      else w\<lparr>w_environ := (w_environ w)(key := Some v)\<rparr>)"

definition c_unsetenv :: "string \<Rightarrow> world \<Rightarrow> world" where
  "c_unsetenv key w =
     (if key = [] \<or> CHR ''='' \<in> set key then w
      else w\<lparr>w_environ := (w_environ w)(key := None)\<rparr>)"

text \<open>Overwriting at an offset; a gap is filled with zero bytes.\<close>

definition put_at :: "string \<Rightarrow> nat \<Rightarrow> string \<Rightarrow> string" where
  "put_at old off s =
     take off old @ replicate (off - length old) NUL @ s @ drop (off + length s) old"

definition write_stream :: "out_stream \<Rightarrow> string \<Rightarrow> world \<Rightarrow> out_stream \<times> world" where
  "write_stream str s w =
     (case str of
        Out_file i off \<Rightarrow> (Out_file i (off + length s), w\<lparr>w_data := (w_data w)(i := put_at (w_data w i) off s)\<rparr>)
      | Out_append i \<Rightarrow> (Out_append i, w\<lparr>w_data := (w_data w)(i := w_data w i @ s)\<rparr>)
      | _ \<Rightarrow> (str, w))"

definition c_stdout :: "string \<Rightarrow> world \<Rightarrow> world" where
  "c_stdout s w =
     (if w_stdout w = Out_host then w\<lparr>w_host_out := w_host_out w @ s\<rparr>
      else case write_stream (w_stdout w) s w of (t, w') \<Rightarrow> w'\<lparr>w_stdout := t\<rparr>)"

definition c_stderr :: "string \<Rightarrow> world \<Rightarrow> world" where
  "c_stderr s w =
     (if w_stderr w = Out_host then w\<lparr>w_host_err := w_host_err w @ s\<rparr>
      else case write_stream (w_stderr w) s w of (t, w') \<Rightarrow> w'\<lparr>w_stderr := t\<rparr>)"

text \<open>
  Opening. Whether the host grants an opening is a parameter \<open>ok\<close> of the model. The result is the
  inode; opening for writing, appending or updating (\<^verbatim>\<open>O_RDWR | O_CREAT\<close>) creates the file when it does
  not exist. A descriptor that \<^verbatim>\<open>open\<close> returns is never 0, 1 or 2.
\<close>

datatype open_mode = Read_mode | Write_mode | Append_mode | Update_mode

definition fresh_file :: "string \<Rightarrow> world \<Rightarrow> nat \<times> world" where
  "fresh_file path w =
     (w_next w, w\<lparr>w_names := (w_names w)(path := Some (w_next w)),
                  w_data := (w_data w)(w_next w := []), w_next := w_next w + 1\<rparr>)"

definition open_file :: "(string \<Rightarrow> open_mode \<Rightarrow> bool) \<Rightarrow> string \<Rightarrow> open_mode \<Rightarrow> world \<Rightarrow> nat option \<times> world" where
  "open_file ok path mode w =
     (if \<not> ok path mode then (None, w)
      else case (w_names w path, mode) of
        (None, Read_mode) \<Rightarrow> (None, w)
      | (None, _) \<Rightarrow> (case fresh_file path w of (i, w') \<Rightarrow> (Some i, w'))
      | (Some i, Write_mode) \<Rightarrow> (Some i, w\<lparr>w_data := (w_data w)(i := [])\<rparr>)
      | (Some i, _) \<Rightarrow> (Some i, w))"

definition c_unlink :: "string \<Rightarrow> world \<Rightarrow> world" where
  "c_unlink path w = w\<lparr>w_names := (w_names w)(path := None)\<rparr>"

text \<open>\<^verbatim>\<open>freopen\<close> closes the stream first; when the file cannot be opened the stream stays closed.\<close>

definition as_out :: "open_mode \<Rightarrow> nat option \<Rightarrow> out_stream" where
  "as_out mode i =
     (case i of None \<Rightarrow> Out_closed | Some n \<Rightarrow> if mode = Append_mode then Out_append n else Out_file n 0)"

definition freopen_stdout :: "(string \<Rightarrow> open_mode \<Rightarrow> bool) \<Rightarrow> string \<Rightarrow> open_mode \<Rightarrow> world \<Rightarrow> bool \<times> world" where
  "freopen_stdout ok path mode w =
     (case open_file ok path mode w of (i, w') \<Rightarrow> (i \<noteq> None, w'\<lparr>w_stdout := as_out mode i\<rparr>))"

definition freopen_stderr :: "(string \<Rightarrow> open_mode \<Rightarrow> bool) \<Rightarrow> string \<Rightarrow> open_mode \<Rightarrow> world \<Rightarrow> bool \<times> world" where
  "freopen_stderr ok path mode w =
     (case open_file ok path mode w of (i, w') \<Rightarrow> (i \<noteq> None, w'\<lparr>w_stderr := as_out mode i\<rparr>))"

definition freopen_stdin :: "(string \<Rightarrow> open_mode \<Rightarrow> bool) \<Rightarrow> string \<Rightarrow> world \<Rightarrow> bool \<times> world" where
  "freopen_stdin ok path w =
     (case open_file ok path Read_mode w of
        (None, w') \<Rightarrow> (False, w'\<lparr>w_stdin := In_closed\<rparr>)
      | (Some i, w') \<Rightarrow> (True, w'\<lparr>w_stdin := In_file i 0\<rparr>))"

text \<open>\<^verbatim>\<open>fgetc(stdin)\<close>; \<open>None\<close> is EOF.\<close>

definition c_getc :: "world \<Rightarrow> char option \<times> world" where
  "c_getc w =
     (case w_stdin w of
        In_host \<Rightarrow> (case w_host_in w of [] \<Rightarrow> (None, w) | c # cs \<Rightarrow> (Some c, w\<lparr>w_host_in := cs\<rparr>))
      | In_file i off \<Rightarrow>
          (if off < length (w_data w i) then (Some (w_data w i ! off), w\<lparr>w_stdin := In_file i (off + 1)\<rparr>)
           else (None, w))
      | In_closed \<Rightarrow> (None, w))"

section \<open>Frames, variables and functions\<close>

record mrsh_variable =
  var_value :: string
  var_attribs :: uint

datatype mrsh_branch_control =
  MRSH_BRANCH_BREAK | MRSH_BRANCH_CONTINUE | MRSH_BRANCH_RETURN | MRSH_BRANCH_EXIT

text \<open>A string of \<^verbatim>\<open>argv\<close>, with the identity of its allocation.\<close>

datatype arg = Arg nat string | Dangling

text \<open>The \<^verbatim>\<open>argv\<close> of the first frame is NULL (here empty) until \<^verbatim>\<open>set\<close> or \<^verbatim>\<open>mrsh_process_args\<close> fills it.\<close>

record call_frame =
  fr_argv :: "arg list"
  fr_argc :: int
  fr_branch_control :: mrsh_branch_control
  fr_nloops :: int

record mrsh_state =
  st_exit :: int
  st_options :: uint
  st_frames :: "call_frame list"
  st_interactive :: bool
  st_last_status :: int
  st_aliases :: "string mrsh_hashtable"
  st_variables :: "mrsh_variable mrsh_hashtable"
  st_functions :: "nat mrsh_hashtable"
  st_bodies :: "nat \<Rightarrow> mrsh_command option"
  st_next_body :: nat
  st_stdout_redirected :: bool
  st_capture_file :: "string option"
  st_out_counter :: nat
  st_cmdsub_counter :: nat
  st_getopt :: getopt_state
  st_world :: world

text \<open>The zeroed frame: \<^verbatim>\<open>MRSH_BRANCH_BREAK\<close> is 0.\<close>

definition frame_create :: call_frame where
  "frame_create = \<lparr>fr_argv = [], fr_argc = 0, fr_branch_control = MRSH_BRANCH_BREAK, fr_nloops = 0\<rparr>"

definition mrsh_state_create :: "world \<Rightarrow> mrsh_state" where
  "mrsh_state_create w =
     \<lparr>st_exit = - 1, st_options = 0, st_frames = [frame_create], st_interactive = False,
      st_last_status = 0, st_aliases = mrsh_hashtable_empty, st_variables = mrsh_hashtable_empty,
      st_functions = mrsh_hashtable_empty, st_bodies = Map.empty, st_next_body = 0,
      st_stdout_redirected = False, st_capture_file = None, st_out_counter = 0,
      st_cmdsub_counter = 0, st_getopt = getopt_start, st_world = w\<rparr>"

definition get_alias_func :: "mrsh_state \<Rightarrow> string \<Rightarrow> string option" where
  "get_alias_func st name = mrsh_hashtable_get (st_aliases st) name"

text \<open>The current frame; the list of frames is never empty.\<close>

abbreviation cur_frame :: "mrsh_state \<Rightarrow> call_frame" where
  "cur_frame st \<equiv> hd (st_frames st)"

definition upd_frame :: "(call_frame \<Rightarrow> call_frame) \<Rightarrow> mrsh_state \<Rightarrow> mrsh_state" where
  "upd_frame f st = st\<lparr>st_frames := f (hd (st_frames st)) # tl (st_frames st)\<rparr>"

definition upd_world :: "(world \<Rightarrow> world) \<Rightarrow> mrsh_state \<Rightarrow> mrsh_state" where
  "upd_world f st = st\<lparr>st_world := f (st_world st)\<rparr>"

abbreviation eprint :: "string \<Rightarrow> mrsh_state \<Rightarrow> mrsh_state" where
  "eprint s \<equiv> upd_world (c_stderr s)"

abbreviation oprint :: "string \<Rightarrow> mrsh_state \<Rightarrow> mrsh_state" where
  "oprint s \<equiv> upd_world (c_stdout s)"

text \<open>Reading \<^verbatim>\<open>argv[i]\<close>: \<open>None\<close> when the read is undefined.\<close>

definition frame_arg :: "call_frame \<Rightarrow> nat \<Rightarrow> string option" where
  "frame_arg fr i =
     (if i < length (fr_argv fr)
      then (case fr_argv fr ! i of Arg _ s \<Rightarrow> Some s | Dangling \<Rightarrow> None) else None)"

definition argv_0 :: "mrsh_state \<Rightarrow> string option" where
  "argv_0 st = frame_arg (cur_frame st) 0"

text \<open>A freshly allocated vector of strings.\<close>

definition dup_args :: "string list \<Rightarrow> arg list" where
  "dup_args ss = map2 Arg [0..<length ss] ss"

definition push_frame :: "string list \<Rightarrow> mrsh_state \<Rightarrow> mrsh_state" where
  "push_frame argv st =
     st\<lparr>st_frames := frame_create\<lparr>fr_argv := dup_args argv, fr_argc := int (length argv)\<rparr> # st_frames st\<rparr>"

text \<open>
  \<^verbatim>\<open>free(argv[i])\<close>: every copy of the pointer becomes dangling; freeing a dangling pointer is
  undefined. \<^verbatim>\<open>call_frame_destroy\<close> frees the first \<^verbatim>\<open>argc\<close> strings one after the other.
\<close>

definition free_arg :: "arg list \<Rightarrow> nat \<Rightarrow> arg list option" where
  "free_arg args i =
     (if length args \<le> i then None
      else case args ! i of
        Dangling \<Rightarrow> None
      | Arg k _ \<Rightarrow> Some (map (\<lambda>c. case c of Arg k' _ \<Rightarrow> if k' = k then Dangling else c | Dangling \<Rightarrow> c) args))"

fun free_args :: "nat list \<Rightarrow> arg list \<Rightarrow> arg list option" where
  "free_args [] args = Some args"
| "free_args (i # is) args = do { args' \<leftarrow> free_arg args i; free_args is args' }"

definition argv_free :: "call_frame \<Rightarrow> arg list option" where
  "argv_free fr = free_args [0..<nat (fr_argc fr)] (fr_argv fr)"

text \<open>The assertion of \<^verbatim>\<open>pop_frame\<close> is that a frame is left.\<close>

definition pop_frame :: "mrsh_state \<Rightarrow> mrsh_state option" where
  "pop_frame st =
     (case st_frames st of
        f # g # fs \<Rightarrow> do { _ \<leftarrow> argv_free f; Some (st\<lparr>st_frames := g # fs\<rparr>) }
      | _ \<Rightarrow> None)"

definition mrsh_env_set :: "mrsh_state \<Rightarrow> string \<Rightarrow> string \<Rightarrow> uint \<Rightarrow> mrsh_state" where
  "mrsh_env_set st key v attribs =
     upd_world (c_setenv key v)
       (st\<lparr>st_variables := ht_set (st_variables st) key \<lparr>var_value = v, var_attribs = attribs\<rparr>\<rparr>)"

definition mrsh_env_unset :: "mrsh_state \<Rightarrow> string \<Rightarrow> mrsh_state" where
  "mrsh_env_unset st key = upd_world (c_unsetenv key) (st\<lparr>st_variables := ht_del (st_variables st) key\<rparr>)"

definition mrsh_env_get :: "mrsh_state \<Rightarrow> string \<Rightarrow> string option" where
  "mrsh_env_get st key = map_option var_value (mrsh_hashtable_get (st_variables st) key)"

text \<open>The out parameter: left as it was when the variable does not exist.\<close>

definition env_attribs :: "mrsh_state \<Rightarrow> string \<Rightarrow> uint \<Rightarrow> uint" where
  "env_attribs st key old =
     (case mrsh_hashtable_get (st_variables st) key of None \<Rightarrow> old | Some v \<Rightarrow> var_attribs v)"

text \<open>Defining a function allocates its body; \<^verbatim>\<open>function_destroy\<close> frees the body.\<close>

definition function_destroy :: "nat option \<Rightarrow> mrsh_state \<Rightarrow> mrsh_state" where
  "function_destroy fn st =
     (case fn of None \<Rightarrow> st | Some a \<Rightarrow> st\<lparr>st_bodies := (st_bodies st)(a := None)\<rparr>)"

section \<open>Filling the variables from the environment (entry.c)\<close>

text \<open>
  \<open>envp\<close> is \<^verbatim>\<open>environ\<close>; an entry without an equal sign is a NULL dereference. \<open>cwd\<close> is the result of
  \<^verbatim>\<open>current_working_dir\<close>, or the text of the error.
\<close>

fun populate_from :: "string list \<Rightarrow> mrsh_state \<Rightarrow> mrsh_state option" where
  "populate_from [] st = Some st"
| "populate_from (e # es) st =
     (if CHR ''='' \<notin> set e then None
      else populate_from es
        (mrsh_env_set st (takeWhile (\<lambda>c. c \<noteq> CHR ''='') e) (tl (dropWhile (\<lambda>c. c \<noteq> CHR ''='') e))
           MRSH_VAR_ATTRIB_EXPORT))"

definition mrsh_populate_env ::
  "int \<Rightarrow> string + string \<Rightarrow> mrsh_state \<Rightarrow> string list \<Rightarrow> (bool \<times> mrsh_state) option" where
  "mrsh_populate_env ppid cwd st envp =
     do { st1 \<leftarrow> populate_from envp st;
          let st2 = mrsh_env_set st1 ''IFS'' [CHR '' '', TAB, NEWLINE_CHR] MRSH_VAR_ATTRIB_NONE;
          let st3 = mrsh_env_set st2 ''PPID'' (show_int ppid) MRSH_VAR_ATTRIB_NONE;
          (case mrsh_env_get st3 ''PWD'' of
             None \<Rightarrow>
               (case cwd of
                  Inl why \<Rightarrow>
                    Some (False, eprint (''current_working_dir failed: '' @ why @ [NEWLINE_CHR]) st3)
                | Inr d \<Rightarrow>
                    Some (True, mrsh_env_set
                      (mrsh_env_set st3 ''PWD'' d (MRSH_VAR_ATTRIB_EXPORT OR MRSH_VAR_ATTRIB_READONLY))
                      ''OPTIND'' ''1'' MRSH_VAR_ATTRIB_NONE))
           | Some pwd \<Rightarrow>
               Some (True, mrsh_env_set
                 (mrsh_env_set st3 ''PWD'' pwd (MRSH_VAR_ATTRIB_EXPORT OR MRSH_VAR_ATTRIB_READONLY))
                 ''OPTIND'' ''1'' MRSH_VAR_ATTRIB_NONE)) }"

section \<open>The invariant of the state\<close>

definition state_inv :: "mrsh_state \<Rightarrow> bool" where
  "state_inv st \<longleftrightarrow> ht_inv (st_variables st) \<and> ht_inv (st_functions st) \<and> ht_inv (st_aliases st)
     \<and> st_frames st \<noteq> []"

lemma state_inv_create [simp]: "state_inv (mrsh_state_create w)"
  by (simp add: state_inv_def mrsh_state_create_def ht_inv_empty)

lemma state_inv_upd_world [simp]: "state_inv (upd_world f st) = state_inv st"
  by (simp add: state_inv_def upd_world_def)

lemma state_inv_upd_frame [simp]: "state_inv st \<Longrightarrow> state_inv (upd_frame f st)"
  by (simp add: state_inv_def upd_frame_def)

lemma state_inv_push_frame [simp]: "state_inv st \<Longrightarrow> state_inv (push_frame argv st)"
  by (simp add: state_inv_def push_frame_def)

lemma state_inv_pop_frame: "state_inv st \<Longrightarrow> pop_frame st = Some st' \<Longrightarrow> state_inv st'"
  by (auto simp: state_inv_def pop_frame_def bind_Some_iff split: list.splits)

lemma state_inv_env_set [simp]: "state_inv st \<Longrightarrow> state_inv (mrsh_env_set st k v a)"
  by (simp add: state_inv_def mrsh_env_set_def upd_world_def ht.inv_upd)

lemma state_inv_env_unset [simp]: "state_inv st \<Longrightarrow> state_inv (mrsh_env_unset st k)"
  by (simp add: state_inv_def mrsh_env_unset_def upd_world_def ht.inv_rem)

lemma state_inv_function_destroy [simp]: "state_inv (function_destroy fn st) = state_inv st"
  by (simp add: state_inv_def function_destroy_def split: option.split)

lemma env_get_upd_world [simp]: "mrsh_env_get (upd_world f st) = mrsh_env_get st"
  by (rule ext) (simp add: mrsh_env_get_def upd_world_def)

lemma env_get_upd_frame [simp]: "mrsh_env_get (upd_frame f st) = mrsh_env_get st"
  by (rule ext) (simp add: mrsh_env_get_def upd_frame_def)

lemma env_get_set:
  "state_inv st \<Longrightarrow> mrsh_env_get (mrsh_env_set st k v a) = (mrsh_env_get st)(k \<mapsto> v)"
  by (rule ext) (simp add: mrsh_env_get_def mrsh_env_set_def upd_world_def state_inv_def ht.look_upd)

lemma env_get_unset:
  "state_inv st \<Longrightarrow> mrsh_env_get (mrsh_env_unset st k) = (mrsh_env_get st)(k := None)"
  by (rule ext) (simp add: mrsh_env_get_def mrsh_env_unset_def upd_world_def state_inv_def ht.look_rem)

section \<open>The contract of a variable store\<close>

text \<open>What the expansions, the builtins and the arithmetic evaluator rely on.\<close>

locale var_store =
  fixes inv :: "'s \<Rightarrow> bool" and get :: "'s \<Rightarrow> string \<Rightarrow> string option"
    and put :: "'s \<Rightarrow> string \<Rightarrow> string \<Rightarrow> uint \<Rightarrow> 's" and unset :: "'s \<Rightarrow> string \<Rightarrow> 's"
  assumes inv_put: "inv s \<Longrightarrow> inv (put s k v a)"
    and get_put: "inv s \<Longrightarrow> get (put s k v a) = (get s)(k \<mapsto> v)"
    and inv_unset: "inv s \<Longrightarrow> inv (unset s k)"
    and get_unset: "inv s \<Longrightarrow> get (unset s k) = (get s)(k := None)"
begin

text \<open>Assigning a list of names in order; a later assignment of a name wins.\<close>

fun put_all :: "(string \<times> string) list \<Rightarrow> uint \<Rightarrow> 's \<Rightarrow> 's" where
  "put_all [] a s = s"
| "put_all ((k, v) # kvs) a s = put_all kvs a (put s k v a)"

lemma put_all_spec: "inv s \<Longrightarrow> inv (put_all kvs a s) \<and> get (put_all kvs a s) = get s ++ map_of (rev kvs)"
proof (induction kvs arbitrary: s)
  case (Cons kv kvs)
  obtain k v where kv: "kv = (k, v)" by fastforce
  with Cons.IH [of "put s k v a"] Cons.prems show ?case
    by (simp add: inv_put get_put map_add_def fun_eq_iff split: option.split)
qed simp

lemma get_put_all_distinct:
  assumes "inv s" and "distinct (map fst kvs)"
  shows "get (put_all kvs a s) = get s ++ map_of kvs"
proof -
  from assms(2) have "map_of (rev kvs) = map_of kvs" by (simp add: map_of_inject_set rev_map [symmetric])
  with put_all_spec [OF assms(1), of kvs a] show ?thesis by simp
qed

text \<open>Variables that are not assigned keep their values.\<close>

lemma get_put_all_other: "inv s \<Longrightarrow> k \<notin> fst ` set kvs \<Longrightarrow> get (put_all kvs a s) k = get s k"
  using put_all_spec [of s kvs a]
  by (simp add: map_add_dom_app_simps(3) dom_map_of_conv_image_fst)

end

interpretation env: var_store state_inv mrsh_env_get mrsh_env_set mrsh_env_unset
  by unfold_locales (simp_all add: env_get_set env_get_unset)

lemma populate_from_put_all:
  "populate_from es st =
     (if \<forall>e \<in> set es. CHR ''='' \<in> set e
      then Some (env.put_all (map (\<lambda>e. (takeWhile (\<lambda>c. c \<noteq> CHR ''='') e, tl (dropWhile (\<lambda>c. c \<noteq> CHR ''='') e))) es)
             MRSH_VAR_ATTRIB_EXPORT st)
      else None)"
  by (induction es arbitrary: st) auto

end
