(* ===== verification/Wsh_Parser.thy ===== *)
theory Wsh_Parser
  imports Wsh_Ast
begin

text \<open>
  The character level of the parser: src/shell/mrsh/parser/parser.c with the name and word
  peeking of src/shell/mrsh/parser/word.c. The state is the record \<open>mrsh_parser\<close>; its read buffer
  is the list of the characters in it. A result \<open>None\<close> stands for a run that stops: a failed
  \<^verbatim>\<open>assert\<close>, a read outside of the buffer, or fuel that ran out; the lemmas show that none of
  them happens on a parser created by \<^verbatim>\<open>mrsh_parser_with_data\<close>.
\<close>

section \<open>State\<close>

datatype symbol_name =
  EOF_TOKEN | TOKEN | NEWLINE | AND_IF | OR_IF | DSEMI | DLESS | DGREAT | LESSAND | GREATAND
| LESSGREAT | DLESSDASH | CLOBBER

text \<open>Keep sorted from the longest to the shortest.\<close>

definition operators :: "(symbol_name \<times> string) list" where
  "operators =
     [(DLESSDASH, ''<<-''), (AND_IF, ''&&''), (OR_IF, ''||''), (DSEMI, '';;''), (DLESS, ''<<''),
      (DGREAT, ''>>''), (LESSAND, ''<&''), (GREATAND, ''>&''), (LESSGREAT, ''<>''), (CLOBBER, ''>|'')]"

definition shell_keywords :: "string list" where
  "shell_keywords =
     [''if'', ''then'', ''else'', ''elif'', ''fi'', ''do'', ''done'', ''case'', ''esac'', ''while'',
      ''until'', ''for'', ''{'', ''}'', ''!'', ''in'']"

text \<open>
  Where a parser gets its input from. A file descriptor is the list of what the successive
  \<^verbatim>\<open>read\<close> calls return; after the last one they return 0.
\<close>

datatype read_result = Read_data "char list" | Read_eintr | Read_error
datatype parser_input = No_input | Fd_input "read_result list" | Buffer_input "char list"

text \<open>
  \<open>redirects\<close> holds the redirections with a here-document that the parser has made, which the tree
  under construction and \<open>here_documents\<close> refer to by their numbers: in the C code they share a pointer,
  and the lines of the here-document are stored through it. \<open>here_documents\<close> lists those whose
  here-document is still to be read; \<open>err\<close> is the message and position of the first error. An alias
  function returns a pointer, as a number, and the text it points to.
\<close>

record mrsh_parser =
  input :: parser_input
  at_eof :: bool
  buf :: "char list"
  pos :: mrsh_position
  err :: "(string \<times> mrsh_position) option"
  has_sym :: bool
  sym :: symbol_name
  redirects :: "mrsh_io_redirect list"
  here_documents :: "nat list"
  continuation_line :: bool
  alias_func :: "(string \<Rightarrow> (nat \<times> string) option) option"
  arith_nested_parens :: int

definition parser_create :: mrsh_parser where
  "parser_create =
     \<lparr>input = No_input, at_eof = False, buf = [],
      pos = \<lparr>pos_offset = 0, pos_line = 1, pos_column = 1\<rparr>, err = None, has_sym = False,
      sym = EOF_TOKEN, redirects = [], here_documents = [], continuation_line = False, alias_func = None,
      arith_nested_parens = 0\<rparr>"

definition mrsh_parser_with_fd :: "read_result list \<Rightarrow> mrsh_parser" where
  "mrsh_parser_with_fd rs = parser_create\<lparr>input := Fd_input rs\<rparr>"

definition mrsh_parser_with_data :: "string \<Rightarrow> mrsh_parser" where
  "mrsh_parser_with_data str = parser_create\<lparr>buf := str @ [NUL]\<rparr>"

definition mrsh_parser_with_buffer :: "char list \<Rightarrow> mrsh_parser" where
  "mrsh_parser_with_buffer b = parser_create\<lparr>input := Buffer_input b\<rparr>"

section \<open>Errors\<close>

definition parser_set_error :: "mrsh_parser \<Rightarrow> string option \<Rightarrow> mrsh_parser" where
  "parser_set_error p msg =
     (case msg of
        Some m \<Rightarrow>
          (if err p \<noteq> None then p else p\<lparr>here_documents := [], err := Some (m, pos p)\<rparr>)
      | None \<Rightarrow> p\<lparr>err := None\<rparr>)"

definition mrsh_parser_error :: "mrsh_parser \<Rightarrow> string option" where
  "mrsh_parser_error p = map_option fst (err p)"

definition parser_begin :: "mrsh_parser \<Rightarrow> mrsh_parser" where
  "parser_begin p = (parser_set_error p None)\<lparr>continuation_line := False\<rparr>"

section \<open>Reading characters\<close>

text \<open>The loop of \<^verbatim>\<open>parser_peek_fd\<close>: result, buffer and remaining reads.\<close>

fun parser_peek_fd ::
  "read_result list \<Rightarrow> nat \<Rightarrow> nat \<Rightarrow> char list \<Rightarrow> int \<times> char list \<times> read_result list" where
  "parser_peek_fd [] nbytes n_read b = (int n_read, b, [])"
| "parser_peek_fd (r # rs) nbytes n_read b =
     (if n_read < nbytes then
        (case r of
           Read_eintr \<Rightarrow> parser_peek_fd rs nbytes n_read b
         | Read_error \<Rightarrow> (- 1, b, rs)
         | Read_data d \<Rightarrow>
             (if d = [] then (int n_read, b, rs)
              else parser_peek_fd rs nbytes (n_read + length d) (b @ d)))
      else (int n_read, b, r # rs))"

text \<open>\<^verbatim>\<open>parser_peek_buffer\<close> takes the whole shared buffer over.\<close>

definition parser_peek_buffer :: "mrsh_parser \<Rightarrow> char list \<Rightarrow> int \<times> mrsh_parser" where
  "parser_peek_buffer p b =
     (if length b = 0 then (0, p)
      else (int (length b), p\<lparr>buf := buf p @ b, input := Buffer_input []\<rparr>))"

definition parser_fill :: "mrsh_parser \<Rightarrow> nat \<Rightarrow> int \<times> mrsh_parser" where
  "parser_fill p n_more =
     (case input p of
        Fd_input rs \<Rightarrow>
          (case parser_peek_fd rs n_more 0 (buf p) of
             (n, b, rs') \<Rightarrow> (n, p\<lparr>buf := b, input := Fd_input rs'\<rparr>))
      | Buffer_input b \<Rightarrow> parser_peek_buffer p b
      | No_input \<Rightarrow> (0, p))"

text \<open>The characters copied to the caller (their number is the C result) and the new state.\<close>

definition parser_peek :: "mrsh_parser \<Rightarrow> nat \<Rightarrow> char list \<times> mrsh_parser" where
  "parser_peek p nbytes =
     (if nbytes > length (buf p) then
        let n_more = nbytes - length (buf p) in
        case parser_fill p n_more of
          (n_read, p1) \<Rightarrow>
            if n_read < 0 then ([], parser_set_error p1 (Some ''failed to read''))
            else if nat n_read < n_more then
              let p2 = (if \<not> at_eof p1 then p1\<lparr>buf := buf p1 @ [NUL], at_eof := True\<rparr> else p1)
              in (buf p2, p2)
            else (take nbytes (buf p1), p1)
      else (take nbytes (buf p), p))"

definition parser_peek_char :: "mrsh_parser \<Rightarrow> char \<times> mrsh_parser" where
  "parser_peek_char p =
     (case parser_peek p 1 of (cs, p1) \<Rightarrow> (case cs of [] \<Rightarrow> NUL | c # _ \<Rightarrow> c, p1))"

definition advance :: "char \<Rightarrow> mrsh_position \<Rightarrow> mrsh_position" where
  "advance c q =
     (if c = NEWLINE_CHR
      then q\<lparr>pos_offset := pos_offset q + 1, pos_line := pos_line q + 1, pos_column := 1\<rparr>
      else q\<lparr>pos_offset := pos_offset q + 1, pos_column := pos_column q + 1\<rparr>)"

definition parser_read :: "mrsh_parser \<Rightarrow> nat \<Rightarrow> (char list \<times> mrsh_parser) option" where
  "parser_read p nbytes =
     (case parser_peek p nbytes of
        (cs, p1) \<Rightarrow>
          if cs = [] then Some (cs, p1)
          else if NUL \<in> set cs then None
          else Some (cs, p1\<lparr>pos := fold advance cs (pos p1), buf := drop (length cs) (buf p1),
                            continuation_line := False\<rparr>))"

definition parser_read_char :: "mrsh_parser \<Rightarrow> (char \<times> mrsh_parser) option" where
  "parser_read_char p =
     map_option (\<lambda>(cs, p1). (case cs of [] \<Rightarrow> NUL | c # _ \<Rightarrow> c, p1)) (parser_read p 1)"

definition read_continuation_line :: "mrsh_parser \<Rightarrow> mrsh_parser option" where
  "read_continuation_line p =
     Option.bind (parser_read_char p)
       (\<lambda>(c, p1). if c = NEWLINE_CHR then Some (p1\<lparr>continuation_line := True\<rparr>) else None)"

text \<open>
  The access pattern \<^verbatim>\<open>parser_peek(parser, NULL, i + 1); c = parser->buf.data[i];\<close>, which
  does not look at the number of characters peeked.
\<close>

definition peek_at :: "mrsh_parser \<Rightarrow> nat \<Rightarrow> (char \<times> mrsh_parser) option" where
  "peek_at p i =
     (let p1 = snd (parser_peek p (i + 1))
      in if i < length (buf p1) then Some (buf p1 ! i, p1) else None)"

section \<open>Symbols\<close>

definition is_operator_start :: "char \<Rightarrow> bool" where
  "is_operator_start c \<longleftrightarrow> c \<in> {CHR ''&'', CHR ''|'', CHR '';'', CHR ''<'', CHR ''>''}"

text \<open>The inner loop of \<^verbatim>\<open>next_symbol\<close>: does the input start with the operator?\<close>

fun peek_operator :: "mrsh_parser \<Rightarrow> string \<Rightarrow> nat \<Rightarrow> bool \<times> mrsh_parser" where
  "peek_operator p [] j = (True, p)"
| "peek_operator p (c # str) j =
     (case parser_peek p (j + 1) of
        (cs, p1) \<Rightarrow>
          if length cs \<noteq> j + 1 \<or> buf p1 ! j \<noteq> c then (False, p1)
          else peek_operator p1 str (j + 1))"

fun find_operator ::
  "mrsh_parser \<Rightarrow> (symbol_name \<times> string) list \<Rightarrow> symbol_name option \<times> mrsh_parser" where
  "find_operator p [] = (None, p)"
| "find_operator p ((name, str) # ops) =
     (case peek_operator p str 0 of
        (True, p1) \<Rightarrow> (Some name, p1) | (False, p1) \<Rightarrow> find_operator p1 ops)"

text \<open>The loop over a comment.\<close>

fun skip_comment :: "nat \<Rightarrow> mrsh_parser \<Rightarrow> mrsh_parser option" where
  "skip_comment 0 p = None"
| "skip_comment (Suc n) p =
     (case parser_peek_char p of
        (c, p1) \<Rightarrow>
          if c = NUL \<or> c = NEWLINE_CHR then Some p1
          else Option.bind (parser_read_char p1) (\<lambda>(_, p2). skip_comment n p2))"

fun next_symbol :: "nat \<Rightarrow> mrsh_parser \<Rightarrow> mrsh_parser option" where
  "next_symbol 0 p = None"
| "next_symbol (Suc n) p0 =
     (case parser_peek_char (p0\<lparr>has_sym := True\<rparr>) of
        (c, p1) \<Rightarrow>
          if c = NUL then Some (p1\<lparr>sym := EOF_TOKEN\<rparr>)
          else if c = NEWLINE_CHR then Some (p1\<lparr>sym := NEWLINE\<rparr>)
          else
            case (if is_operator_start c then find_operator p1 operators else (None, p1)) of
              (Some name, p2) \<Rightarrow> Some (p2\<lparr>sym := name\<rparr>)
            | (None, p2) \<Rightarrow>
                if c_isblank c then
                  Option.bind (parser_read_char p2) (\<lambda>(_, p3). next_symbol n p3)
                else if c = CHR ''#'' then
                  Option.bind (skip_comment (Suc n) p2) (next_symbol n)
                else Some (p2\<lparr>sym := TOKEN\<rparr>))"

text \<open>What is left to read, which bounds the number of steps \<^verbatim>\<open>next_symbol\<close> makes.\<close>

definition input_bound :: "mrsh_parser \<Rightarrow> nat" where
  "input_bound p = length (buf p) +
     (case input p of
        No_input \<Rightarrow> 0 | Buffer_input b \<Rightarrow> length b
      | Fd_input rs \<Rightarrow>
          sum_list (map (\<lambda>r. case r of Read_data d \<Rightarrow> length d | _ \<Rightarrow> 0) rs))"

definition get_symbol :: "mrsh_parser \<Rightarrow> (symbol_name \<times> mrsh_parser) option" where
  "get_symbol p =
     (if \<not> has_sym p then map_option (\<lambda>p1. (sym p1, p1)) (next_symbol (input_bound p + 2) p)
      else Some (sym p, p))"

definition consume_symbol :: "mrsh_parser \<Rightarrow> mrsh_parser" where
  "consume_symbol p = p\<lparr>has_sym := False\<rparr>"

definition symbol :: "mrsh_parser \<Rightarrow> symbol_name \<Rightarrow> (bool \<times> mrsh_parser) option" where
  "symbol p s = map_option (\<lambda>(t, p1). (t = s, p1)) (get_symbol p)"

definition eof_symbol :: "mrsh_parser \<Rightarrow> (bool \<times> mrsh_parser) option" where
  "eof_symbol p = symbol p EOF_TOKEN"

definition newline :: "mrsh_parser \<Rightarrow> (bool \<times> mrsh_parser) option" where
  "newline p =
     Option.bind (symbol p NEWLINE) (\<lambda>(b, p1).
       if \<not> b then Some (False, p1)
       else Option.bind (parser_read_char p1) (\<lambda>(c, p2).
         if c = NEWLINE_CHR then Some (True, consume_symbol p2) else None))"

fun linebreak :: "nat \<Rightarrow> mrsh_parser \<Rightarrow> mrsh_parser option" where
  "linebreak 0 p = None"
| "linebreak (Suc n) p =
     Option.bind (newline p) (\<lambda>(b, p1). if b then linebreak n p1 else Some p1)"

definition newline_list :: "nat \<Rightarrow> mrsh_parser \<Rightarrow> (bool \<times> mrsh_parser) option" where
  "newline_list n p =
     Option.bind (newline p) (\<lambda>(b, p1).
       if \<not> b then Some (False, p1) else map_option (\<lambda>p2. (True, p2)) (linebreak n p1))"

definition mrsh_parser_eof :: "mrsh_parser \<Rightarrow> bool" where
  "mrsh_parser_eof p \<longleftrightarrow> has_sym p \<and> sym p = EOF_TOKEN"

definition mrsh_parser_reset :: "mrsh_parser \<Rightarrow> mrsh_parser" where
  "mrsh_parser_reset p =
     p\<lparr>buf := [], has_sym := False, pos := \<lparr>pos_offset = 0, pos_line = 0, pos_column = 0\<rparr>\<rparr>"

section \<open>Names and words (parser/word.c)\<close>

definition is_name_char :: "bool \<Rightarrow> nat \<Rightarrow> char \<Rightarrow> bool" where
  "is_name_char in_braces i c \<longleftrightarrow>
     \<not> (c \<noteq> CHR ''_'' \<and> \<not> c_isalnum c) \<and> \<not> (i = 0 \<and> c_isdigit c \<and> \<not> in_braces)"

fun peek_name_loop :: "nat \<Rightarrow> mrsh_parser \<Rightarrow> bool \<Rightarrow> nat \<Rightarrow> (nat \<times> mrsh_parser) option" where
  "peek_name_loop 0 p in_braces i = None"
| "peek_name_loop (Suc n) p in_braces i =
     Option.bind (peek_at p i) (\<lambda>(c, p1).
       if is_name_char in_braces i c then peek_name_loop n p1 in_braces (i + 1)
       else Some (i, p1))"

definition peek_name :: "mrsh_parser \<Rightarrow> bool \<Rightarrow> (nat \<times> mrsh_parser) option" where
  "peek_name p in_braces =
     Option.bind (symbol p TOKEN) (\<lambda>(b, p1).
       if \<not> b then Some (0, p1)
       else peek_name_loop (input_bound p1 + 2) p1 in_braces 0)"

fun peek_word_loop :: "nat \<Rightarrow> mrsh_parser \<Rightarrow> char \<Rightarrow> nat \<Rightarrow> (nat \<times> mrsh_parser) option" where
  "peek_word_loop 0 p end_char i = None"
| "peek_word_loop (Suc n) p end_char i =
     Option.bind (peek_at p i) (\<lambda>(c, p1).
       if c \<in> {NUL, NEWLINE_CHR, CHR '')''} then Some (i, p1)
       else if c \<in> {CHR ''$'', CHR ''`'', CHR 0x27, CHR 0x22, CHR 0x5C} then Some (0, p1)
       else if is_operator_start c \<or> c_isblank c \<or> c = end_char then Some (i, p1)
       else peek_word_loop n p1 end_char (i + 1))"

definition peek_word :: "mrsh_parser \<Rightarrow> char \<Rightarrow> (nat \<times> mrsh_parser) option" where
  "peek_word p end_char =
     Option.bind (symbol p TOKEN) (\<lambda>(b, p1).
       if \<not> b then Some (0, p1)
       else peek_word_loop (input_bound p1 + 2) p1 end_char 0)"

section \<open>Parsers over a string\<close>

text \<open>
  A parser created by \<^verbatim>\<open>mrsh_parser_with_data\<close> has no other input, and its buffer keeps the
  terminating NUL: nothing ever reads it. What is left to parse is the text before the NUL.
\<close>

definition parser_wf :: "mrsh_parser \<Rightarrow> bool" where
  "parser_wf p \<longleftrightarrow> input p = No_input \<and> NUL \<in> set (buf p)"

definition ptext :: "mrsh_parser \<Rightarrow> string" where
  "ptext p = takeWhile (\<lambda>c. c \<noteq> NUL) (buf p)"

lemma wf_with_data: "parser_wf (mrsh_parser_with_data str)"
  by (simp add: parser_wf_def mrsh_parser_with_data_def parser_create_def)

lemma ptext_with_data [simp]: "NUL \<notin> set str \<Longrightarrow> ptext (mrsh_parser_with_data str) = str"
  by (simp add: ptext_def mrsh_parser_with_data_def takeWhile_append)

lemma wf_set_error [simp]: "parser_wf (parser_set_error p m) = parser_wf p"
  by (simp add: parser_wf_def parser_set_error_def split: option.split)

lemma ptext_set_error [simp]: "ptext (parser_set_error p m) = ptext p"
  by (simp add: ptext_def parser_set_error_def split: option.split)

lemma takeWhile_decomp: "x \<in> set xs \<Longrightarrow> \<exists>rest. xs = takeWhile (\<lambda>c. c \<noteq> x) xs @ x # rest"
  by (induction xs) auto

lemma wf_buf_decomp: "parser_wf p \<Longrightarrow> \<exists>rest. buf p = ptext p @ NUL # rest"
  unfolding parser_wf_def ptext_def by (rule takeWhile_decomp) simp

lemma NUL_notin_ptext [simp]: "NUL \<notin> set (ptext p)"
  by (auto simp: ptext_def dest: set_takeWhileD)

lemma ptext_cong: "buf p = t @ NUL # rest \<Longrightarrow> NUL \<notin> set t \<Longrightarrow> ptext p = t"
  by (simp add: ptext_def takeWhile_append)

text \<open>Peeking may add NULs behind the end and changes nothing else.\<close>

definition peeked :: "mrsh_parser \<Rightarrow> mrsh_parser \<Rightarrow> bool" where
  "peeked p q \<longleftrightarrow> (\<exists>k e. q = p\<lparr>buf := buf p @ replicate k NUL, at_eof := e\<rparr>)"

lemma peeked_refl [simp]: "peeked p p"
  unfolding peeked_def by (rule exI [of _ 0], rule exI [of _ "at_eof p"]) simp

lemma peeked_trans [trans]: "peeked p q \<Longrightarrow> peeked q r \<Longrightarrow> peeked p r"
proof -
  assume "peeked p q" and "peeked q r"
  then obtain k l e e' where "q = p\<lparr>buf := buf p @ replicate k NUL, at_eof := e\<rparr>"
    and "r = q\<lparr>buf := buf q @ replicate l NUL, at_eof := e'\<rparr>"
    unfolding peeked_def by blast
  then have "r = p\<lparr>buf := buf p @ replicate (k + l) NUL, at_eof := e'\<rparr>"
    by (simp add: replicate_add)
  then show ?thesis unfolding peeked_def by blast
qed

lemma peeked_wf: "peeked p q \<Longrightarrow> parser_wf p \<Longrightarrow> parser_wf q"
  by (auto simp: peeked_def parser_wf_def)

lemma peeked_ptext: "peeked p q \<Longrightarrow> parser_wf p \<Longrightarrow> ptext q = ptext p"
  by (auto simp: peeked_def parser_wf_def ptext_def takeWhile_append)

lemma peeked_sym: "peeked p q \<Longrightarrow> sym q = sym p \<and> has_sym q = has_sym p \<and> err q = err p"
  by (auto simp: peeked_def)

lemma peeked_eof: "peeked p (p\<lparr>buf := buf p @ [NUL], at_eof := e\<rparr>)"
  unfolding peeked_def by (rule exI [of _ 1], rule exI [of _ e]) simp

lemma peek_wf:
  assumes "parser_wf p" and "parser_peek p n = (cs, q)"
  shows "peeked p q \<and> cs = take n (buf q)"
  using assms
  by (auto simp: parser_peek_def parser_fill_def parser_wf_def Let_def peeked_eof split: if_splits)

lemma peek_char_wf:
  assumes wf: "parser_wf p" and eq: "parser_peek_char p = (c, q)"
  shows "peeked p q \<and> c = (case ptext p of [] \<Rightarrow> NUL | d # _ \<Rightarrow> d)"
proof -
  obtain cs q' where pk: "parser_peek p 1 = (cs, q')" by fastforce
  with eq have q: "q' = q" by (simp add: parser_peek_char_def)
  from peek_wf [OF wf pk] have pq: "peeked p q" and cs: "cs = take 1 (buf q)" by (simp_all add: q)
  obtain rest where "buf q = ptext p @ NUL # rest"
    using wf_buf_decomp [OF peeked_wf [OF pq wf]] peeked_ptext [OF pq wf] by metis
  with pq cs eq pk show ?thesis
    by (cases "ptext p") (auto simp: parser_peek_char_def)
qed

lemma peek_at_wf:
  assumes wf: "parser_wf p" and i: "i \<le> length (ptext p)"
  shows "\<exists>q. peek_at p i = Some ((ptext p @ [NUL]) ! i, q) \<and> peeked p q"
proof -
  obtain cs q where pk: "parser_peek p (i + 1) = (cs, q)" by fastforce
  from peek_wf [OF wf pk] have pq: "peeked p q" by simp
  obtain rest where "buf q = ptext p @ NUL # rest"
    using wf_buf_decomp [OF peeked_wf [OF pq wf]] peeked_ptext [OF pq wf] by metis
  with i pk pq show ?thesis
    by (auto simp: peek_at_def nth_append)
qed

text \<open>Reading at most what is left returns it and drops it from the text.\<close>

lemma parser_read_wf:
  assumes wf: "parser_wf p" and n: "n \<le> length (ptext p)"
  shows "\<exists>q. parser_read p n = Some (take n (ptext p), q) \<and> parser_wf q \<and> ptext q = drop n (ptext p)
           \<and> sym q = sym p \<and> has_sym q = has_sym p \<and> err q = err p"
proof -
  obtain rest where b: "buf p = ptext p @ NUL # rest" using wf_buf_decomp [OF wf] by blast
  with n have pk: "parser_peek p n = (take n (ptext p), p)" by (simp add: parser_peek_def)
  show ?thesis
  proof (cases "n = 0 \<or> ptext p = []")
    case True
    with n pk wf show ?thesis by (auto simp: parser_read_def)
  next
    case False
    let ?q = "p\<lparr>pos := fold advance (take n (ptext p)) (pos p), buf := drop n (ptext p) @ NUL # rest,
                continuation_line := False\<rparr>"
    have "NUL \<notin> set (take n (ptext p))" using NUL_notin_ptext in_set_takeD by metis
    with False pk n b have "parser_read p n = Some (take n (ptext p), ?q)"
      by (simp add: parser_read_def)
    moreover have "ptext ?q = drop n (ptext p)"
      by (rule ptext_cong [of _ _ rest]) (use NUL_notin_ptext [of p] in \<open>auto dest: in_set_dropD\<close>)
    moreover have "parser_wf ?q" using wf by (simp add: parser_wf_def)
    ultimately show ?thesis by auto
  qed
qed

lemma parser_read_char_wf:
  assumes "parser_wf p" and "ptext p = c # cs"
  shows "\<exists>q. parser_read_char p = Some (c, q) \<and> parser_wf q \<and> ptext q = cs
           \<and> sym q = sym p \<and> has_sym q = has_sym p \<and> err q = err p"
  using parser_read_wf [OF assms(1), of 1] assms(2) by (auto simp: parser_read_char_def)

section \<open>Symbols of a string parser\<close>

text \<open>What every parsing step over a string promises: it stays well formed and never grows.\<close>

definition shrinks :: "mrsh_parser \<Rightarrow> mrsh_parser \<Rightarrow> bool" where
  "shrinks p q \<longleftrightarrow> parser_wf q \<and> length (ptext q) \<le> length (ptext p)"

lemma shrinks_refl: "parser_wf p \<Longrightarrow> shrinks p p"
  by (simp add: shrinks_def)

lemma shrinks_trans [trans]: "shrinks p q \<Longrightarrow> shrinks q r \<Longrightarrow> shrinks p r"
  by (auto simp: shrinks_def)

lemma shrinks_wf: "shrinks p q \<Longrightarrow> parser_wf q"
  by (simp add: shrinks_def)

lemma peeked_shrinks: "parser_wf p \<Longrightarrow> peeked p q \<Longrightarrow> shrinks p q"
  by (simp add: shrinks_def peeked_wf peeked_ptext)

lemma shrinks_set_error [simp]: "shrinks p (parser_set_error q m) = shrinks p q"
  by (simp add: shrinks_def)

lemma peek_char_case:
  assumes "parser_wf p"
  obtains (empty) q where "parser_peek_char p = (NUL, q)" "peeked p q" "ptext p = []"
  | (char) c cs q where "parser_peek_char p = (c, q)" "peeked p q" "ptext p = c # cs" "c \<noteq> NUL"
proof -
  obtain c q where eq: "parser_peek_char p = (c, q)" by fastforce
  from peek_char_wf [OF assms eq] have pk: "peeked p q" "c = (case ptext p of [] \<Rightarrow> NUL | d # _ \<Rightarrow> d)"
    by simp_all
  show ?thesis
  proof (cases "ptext p")
    case Nil
    with pk eq show ?thesis by (intro empty) simp_all
  next
    case (Cons d ds)
    moreover from Cons have "d \<noteq> NUL" using NUL_notin_ptext [of p] by auto
    ultimately show ?thesis using pk eq by (intro char) simp_all
  qed
qed

lemma peek_operator_wf: "parser_wf p \<Longrightarrow> peek_operator p str j = (b, q) \<Longrightarrow> peeked p q"
proof (induction p str j arbitrary: b rule: peek_operator.induct)
  case (2 p c str j)
  obtain cs p1 where pk: "parser_peek p (j + 1) = (cs, p1)" by fastforce
  from peek_wf [OF "2.prems"(1) pk] have p1: "peeked p p1" by simp
  show ?case
  proof (cases "length cs \<noteq> j + 1 \<or> buf p1 ! j \<noteq> c")
    case True
    with "2.prems"(2) pk p1 show ?thesis by simp
  next
    case False
    with "2.prems"(2) pk have "peek_operator p1 str (j + 1) = (b, q)" by simp
    with "2.IH" [OF pk [symmetric] False peeked_wf [OF p1 "2.prems"(1)]] show ?thesis
      using p1 by (blast intro: peeked_trans)
  qed
qed simp

lemma find_operator_wf: "parser_wf p \<Longrightarrow> find_operator p ops = (r, q) \<Longrightarrow> peeked p q"
proof (induction p ops arbitrary: r rule: find_operator.induct)
  case (2 p name str ops)
  obtain b p1 where pk: "peek_operator p str 0 = (b, p1)" by fastforce
  from peek_operator_wf [OF "2.prems"(1) pk] have p1: "peeked p p1" .
  show ?case
  proof (cases b)
    case True
    with "2.prems"(2) pk p1 show ?thesis by simp
  next
    case False
    with "2.prems"(2) pk have "find_operator p1 ops = (r, q)" by simp
    with "2.IH" [OF pk [symmetric] _ peeked_wf [OF p1 "2.prems"(1)]] False show ?thesis
      using p1 by (blast intro: peeked_trans)
  qed
qed simp

lemma skip_comment_wf:
  "parser_wf p \<Longrightarrow> length (ptext p) < n \<Longrightarrow> \<exists>q. skip_comment n p = Some q \<and> shrinks p q
     \<and> has_sym q = has_sym p \<and> (\<forall>c cs. ptext p = c # cs \<longrightarrow> c \<noteq> NEWLINE_CHR \<longrightarrow> length (ptext q) < length (ptext p))"
proof (induction n arbitrary: p)
  case (Suc n)
  from Suc.prems(1) show ?case
  proof (cases rule: peek_char_case)
    case (empty q)
    with Suc.prems(1) show ?thesis by (auto simp: peeked_shrinks dest: peeked_sym)
  next
    case (char c cs q)
    show ?thesis
    proof (cases "c = NEWLINE_CHR")
      case True
      with char Suc.prems(1) show ?thesis by (auto simp: peeked_shrinks dest: peeked_sym)
    next
      case False
      from char Suc.prems(1) have q: "parser_wf q" "ptext q = c # cs"
        by (simp_all add: peeked_wf peeked_ptext)
      obtain r where r: "parser_read_char q = Some (c, r)" "parser_wf r" "ptext r = cs"
        "has_sym r = has_sym q"
        using parser_read_char_wf [OF q] by blast
      from Suc.IH [OF r(2)] r(3) Suc.prems(2) char(3)
      obtain s where s: "skip_comment n r = Some s" "shrinks r s" "has_sym s = has_sym r" by auto
      have "has_sym q = has_sym p" using char(2) by (simp add: peeked_sym)
      with False char r s show ?thesis by (auto simp: shrinks_def)
    qed
  qed
qed simp

lemma next_symbol_wf:
  "parser_wf p \<Longrightarrow> length (ptext p) < n \<Longrightarrow>
   \<exists>q. next_symbol n p = Some q \<and> shrinks p q \<and> has_sym q"
proof (induction n arbitrary: p)
  case (Suc n)
  let ?p = "p\<lparr>has_sym := True\<rparr>"
  have wf: "parser_wf ?p" and tx: "ptext ?p = ptext p"
    using Suc.prems(1) by (simp_all add: parser_wf_def ptext_def)
  from wf show ?case
  proof (cases rule: peek_char_case)
    case (empty q)
    with wf tx show ?thesis
      using peeked_wf [OF empty(2) wf] peeked_ptext [OF empty(2) wf] peeked_sym [OF empty(2)]
      by (simp add: shrinks_def parser_wf_def ptext_def)
  next
    case (char c cs q)
    note q = peeked_wf [OF char(2) wf] peeked_ptext [OF char(2) wf, unfolded tx]
    obtain r q2 where ops: "(if is_operator_start c then find_operator q operators else (None, q)) = (r, q2)"
      by fastforce
    with find_operator_wf [OF q(1), of operators r q2] have q2: "peeked q q2"
      by (auto split: if_splits)
    note q2' = peeked_wf [OF q2 q(1)] peeked_ptext [OF q2 q(1), unfolded q(2)]
    have hs: "has_sym q2" using q2 char(2) by (auto dest!: peeked_sym)
    have tx2: "ptext q2 = c # cs" using q2'(2) char(3) tx by simp
    have len: "length (ptext p) = Suc (length cs)" using q2'(2) tx2 by (metis length_Cons)
    consider (stop) "c = NEWLINE_CHR \<or> r \<noteq> None \<or> (\<not> c_isblank c \<and> c \<noteq> CHR ''#'')"
      | (blank) "c \<noteq> NEWLINE_CHR" "r = None" "c_isblank c"
      | (comment) "c \<noteq> NEWLINE_CHR" "r = None" "\<not> c_isblank c" "c = CHR ''#''"
      by blast
    then show ?thesis
    proof cases
      case stop
      with char ops q q2' hs tx peeked_sym [OF char(2)] show ?thesis
        by (cases r) (auto simp: shrinks_def parser_wf_def ptext_def)
    next
      case blank
      obtain s where s: "parser_read_char q2 = Some (c, s)" "parser_wf s" "ptext s = cs"
        using parser_read_char_wf [OF q2'(1) tx2] by blast
      from Suc.IH [OF s(2)] s(3) Suc.prems(2) len
      obtain t where "next_symbol n s = Some t" "shrinks s t" "has_sym t" by auto
      with blank char ops s len show ?thesis by (auto simp: shrinks_def)
    next
      case comment
      have "length (ptext q2) < Suc n" using Suc.prems(2) q2'(2) by simp
      with skip_comment_wf [OF q2'(1), of "Suc n"] tx2 comment
      obtain s where s: "skip_comment (Suc n) q2 = Some s" "shrinks q2 s"
        "length (ptext s) < length (ptext q2)"
        by auto
      from Suc.IH [OF shrinks_wf [OF s(2)]] s(3) Suc.prems(2) q2'(2)
      obtain t where "next_symbol n s = Some t" "shrinks s t" "has_sym t" by auto
      with comment char ops s q2'(2) tx2 show ?thesis
        by (auto simp: shrinks_def simp del: skip_comment.simps)
    qed
  qed
qed simp

lemma ptext_bound: "length (ptext p) \<le> input_bound p"
  using length_takeWhile_le [of _ "buf p"] by (auto simp: ptext_def input_bound_def intro: trans_le_add1)

lemma get_symbol_wf:
  assumes "parser_wf p"
  shows "\<exists>s q. get_symbol p = Some (s, q) \<and> shrinks p q \<and> has_sym q"
proof (cases "has_sym p")
  case True
  with assms show ?thesis by (auto simp: get_symbol_def shrinks_refl)
next
  case False
  have "length (ptext p) < input_bound p + 2" using ptext_bound [of p] by simp
  from next_symbol_wf [OF assms this] False show ?thesis
    by (auto simp: get_symbol_def simp del: next_symbol.simps)
qed

lemma symbol_wf:
  assumes "parser_wf p"
  shows "\<exists>b q. symbol p s = Some (b, q) \<and> shrinks p q \<and> has_sym q"
  using get_symbol_wf [OF assms] by (auto simp: symbol_def)

lemma peek_name_loop_wf:
  "parser_wf p \<Longrightarrow> i \<le> length (ptext p) \<Longrightarrow> length (ptext p) - i < n \<Longrightarrow>
   \<exists>k q. peek_name_loop n p in_braces i = Some (k, q) \<and> peeked p q \<and> i \<le> k \<and> k \<le> length (ptext p)"
proof (induction n arbitrary: p i)
  case (Suc n)
  obtain q where q: "peek_at p i = Some ((ptext p @ [NUL]) ! i, q)" "peeked p q"
    using peek_at_wf [OF Suc.prems(1,2)] by blast
  note q' = peeked_wf [OF q(2) Suc.prems(1)] peeked_ptext [OF q(2) Suc.prems(1)]
  show ?case
  proof (cases "is_name_char in_braces i ((ptext p @ [NUL]) ! i)")
    case False
    with q Suc.prems show ?thesis by auto
  next
    case True
    have "i \<noteq> length (ptext p)" using True by (auto simp: is_name_char_def)
    with Suc.prems q' have "i + 1 \<le> length (ptext q)" "length (ptext q) - (i + 1) < n" by auto
    from Suc.IH [OF q'(1) this] obtain k r where
      "peek_name_loop n q in_braces (i + 1) = Some (k, r)" "peeked q r" "i + 1 \<le> k"
      "k \<le> length (ptext q)" by blast
    with True q q' show ?thesis by (auto intro: peeked_trans)
  qed
qed simp

lemma peek_name_wf:
  assumes "parser_wf p"
  shows "\<exists>k q. peek_name p in_braces = Some (k, q) \<and> shrinks p q \<and> k \<le> length (ptext q)"
proof -
  obtain b q where q: "symbol p TOKEN = Some (b, q)" "shrinks p q"
    using symbol_wf [OF assms] by blast
  show ?thesis
  proof (cases b)
    case False
    with q show ?thesis by (auto simp: peek_name_def)
  next
    case True
    have "length (ptext q) - 0 < input_bound q + 2" using ptext_bound [of q] by simp
    from peek_name_loop_wf [OF shrinks_wf [OF q(2)] le0 this] obtain k r where
      r: "peek_name_loop (input_bound q + 2) q in_braces 0 = Some (k, r)" "peeked q r"
      "k \<le> length (ptext q)" by blast
    with q True peeked_shrinks [OF shrinks_wf [OF q(2)] r(2)] peeked_ptext [OF r(2) shrinks_wf [OF q(2)]]
    show ?thesis
      by (auto simp: peek_name_def intro: shrinks_trans simp del: peek_name_loop.simps)
  qed
qed

end
