(* ===== verification/Wsh_Numbers.thy ===== *)
theory Wsh_Numbers
  imports Wsh_Prelude
begin

text \<open>
  What the shell uses of the C library's number parsing: \<^verbatim>\<open>strtol\<close> (bases 0 and 10) and
  \<^verbatim>\<open>strtod\<close> followed by the conversion of the double to \<^verbatim>\<open>long\<close>. Both return the unparsed rest
  of the string, which the callers test through \<^verbatim>\<open>end[0] != '\0'\<close>; when nothing was parsed the
  rest is the whole string.
\<close>

section \<open>strtol\<close>

definition skip_space :: "string \<Rightarrow> string" where
  "skip_space = dropWhile c_isspace"

text \<open>An optional sign: \<open>True\<close> when it is a minus.\<close>

fun take_sign :: "string \<Rightarrow> bool \<times> string" where
  "take_sign (c # cs) =
     (if c = CHR ''-'' then (True, cs) else if c = CHR ''+'' then (False, cs) else (False, c # cs))"
| "take_sign [] = (False, [])"

text \<open>The base and the digits that base 0 finds; \<open>0x\<close> needs a hexadecimal digit after it.\<close>

definition choose_base :: "nat \<Rightarrow> string \<Rightarrow> nat \<times> string" where
  "choose_base b cs =
     (if b \<noteq> 0 then (b, cs)
      else case cs of
        (x # y # z # _) \<Rightarrow>
          if x = CHR ''0'' \<and> (y = CHR ''x'' \<or> y = CHR ''X'') \<and> digit_val z < 16
          then (16, tl (tl cs)) else if x = CHR ''0'' then (8, cs) else (10, cs)
      | (x # _) \<Rightarrow> if x = CHR ''0'' then (8, cs) else (10, cs)
      | [] \<Rightarrow> (10, cs))"

text \<open>
  Value, rest, and whether \<^verbatim>\<open>errno\<close> was set: to \<^verbatim>\<open>EINVAL\<close> when there is no digit (as the C library of
  WASI does), to \<^verbatim>\<open>ERANGE\<close> when the value is out of range.
\<close>

definition c_strtol :: "nat \<Rightarrow> string \<Rightarrow> int \<times> string \<times> bool" where
  "c_strtol b str =
     (case take_sign (skip_space str) of
        (neg, cs) \<Rightarrow>
          case choose_base b cs of
            (b', ds) \<Rightarrow>
              let digits = takeWhile (\<lambda>c. digit_val c < b') ds;
                  v = int (digits_value b' digits); w = (if neg then - v else v)
              in if digits = [] then (0, str, True)
                 else if w < INT_MIN then (INT_MIN, dropWhile (\<lambda>c. digit_val c < b') ds, True)
                 else if w > INT_MAX then (INT_MAX, dropWhile (\<lambda>c. digit_val c < b') ds, True)
                 else (w, dropWhile (\<lambda>c. digit_val c < b') ds, False))"

section \<open>strtod, as far as a conversion to long sees it\<close>

fun bitlen :: "nat \<Rightarrow> nat" where
  "bitlen n = (if n = 0 then 0 else Suc (bitlen (n div 2)))"

declare bitlen.simps [simp del]

text \<open>
  The integer part of the double nearest to \<open>N / D\<close>. With \<open>n\<close> the integer part of the exact
  quotient and \<open>2 ^ k \<le> n < 2 ^ (k + 1)\<close>, the doubles below \<open>n + 1\<close> are \<open>2 ^ (k - 52)\<close> apart,
  so the quotient is rounded up to \<open>n + 1\<close> when it is at least \<open>n + 1 - 2 ^ (k - 53)\<close> (a tie goes
  to the even significand, which is \<open>n + 1\<close>'s). From \<open>2 ^ 53\<close> on, every double is an integer
  outside of the range of \<^verbatim>\<open>long\<close>, and its exact value does not matter.
\<close>

definition double_trunc :: "nat \<Rightarrow> nat \<Rightarrow> nat" where
  "double_trunc N D =
     (let n = N div D; s = 54 - bitlen n in
      if n \<ge> 2 ^ 53 then n
      else if N * 2 ^ s \<ge> ((n + 1) * 2 ^ s - 1) * D then n + 1 else n)"

text \<open>The truncated value of a double, or a double that is an infinity or not a number.\<close>

datatype dvalue = Dint int | Dnonfinite

definition lower :: "char \<Rightarrow> char" where
  "lower c = (if 65 \<le> ch c \<and> ch c \<le> 90 then char_of (ch c + 32) else c)"

text \<open>Does the string start with the word, letters of any case?\<close>

definition starts_nocase :: "string \<Rightarrow> string \<Rightarrow> bool" where
  "starts_nocase w cs \<longleftrightarrow> map lower (take (length w) cs) = w"

text \<open>
  An exponent after the marker \<open>e\<close> or \<open>p\<close>: it is taken only when a digit follows the sign.
\<close>

definition take_exponent :: "char \<Rightarrow> string \<Rightarrow> int \<times> string" where
  "take_exponent marker cs =
     (case cs of
        [] \<Rightarrow> (0, [])
      | c # cs' \<Rightarrow>
          if lower c = marker then
            (case take_sign cs' of
               (neg, ds) \<Rightarrow>
                 let digits = takeWhile c_isdigit ds; v = int (digits_value 10 digits) in
                 if digits = [] then (0, cs)
                 else (if neg then - v else v, dropWhile c_isdigit ds))
          else (0, cs))"

text \<open>
  Digits, an optional point with more digits, an optional exponent, in base 10 (exponent of
  10) or 16 (exponent of 2): the truncated magnitude and the rest, \<open>None\<close> without any digit.
\<close>

definition take_float :: "nat \<Rightarrow> string \<Rightarrow> (nat \<times> string) option" where
  "take_float b cs =
     (let ip = takeWhile (\<lambda>c. digit_val c < b) cs; r1 = dropWhile (\<lambda>c. digit_val c < b) cs;
          (fp, r2) = (case r1 of
             CHR ''.'' # r \<Rightarrow> (takeWhile (\<lambda>c. digit_val c < b) r, dropWhile (\<lambda>c. digit_val c < b) r)
           | _ \<Rightarrow> ([], r1))
      in if ip = [] \<and> fp = [] then None
         else case take_exponent (if b = 16 then CHR ''p'' else CHR ''e'') r2 of
           (ex, r3) \<Rightarrow>
             let m = digits_value b (ip @ fp); radix = (if b = 16 then 2 else 10);
                 e = ex - int ((if b = 16 then 4 else 1) * length fp)
             in Some (if e \<ge> 0 then double_trunc (m * radix ^ nat e) 1
                      else double_trunc m (radix ^ nat (- e)), r3))"

definition c_strtod :: "string \<Rightarrow> dvalue \<times> string" where
  "c_strtod str =
     (case take_sign (skip_space str) of
        (neg, cs) \<Rightarrow>
          let fin = (\<lambda>m. Dint (if neg then - int m else int m)) in
          if starts_nocase ''infinity'' cs then (Dnonfinite, drop 8 cs)
          else if starts_nocase ''inf'' cs then (Dnonfinite, drop 3 cs)
          else if starts_nocase ''nan'' cs then
            (case drop 3 cs of
               CHR ''('' # r \<Rightarrow>
                 (case dropWhile (\<lambda>c. c_isalnum c \<or> c = CHR ''_'') r of
                    CHR '')'' # r' \<Rightarrow> (Dnonfinite, r') | _ \<Rightarrow> (Dnonfinite, drop 3 cs))
             | _ \<Rightarrow> (Dnonfinite, drop 3 cs))
          else if starts_nocase ''0x'' cs then
            (case take_float 16 (drop 2 cs) of
               Some (m, r) \<Rightarrow> (fin m, r) | None \<Rightarrow> (Dint 0, drop 1 cs))
          else
            (case take_float 10 cs of
               Some (m, r) \<Rightarrow> (fin m, r) | None \<Rightarrow> (Dint 0, str)))"

section \<open>Reading back printed numbers\<close>

lemma bitlen_le: "n < 2 ^ k \<Longrightarrow> bitlen n \<le> k"
proof (induction k arbitrary: n)
  case 0
  then show ?case by (simp add: bitlen.simps)
next
  case (Suc k)
  then have "bitlen (n div 2) \<le> k" by (intro Suc.IH) auto
  then show ?case by (simp add: bitlen.simps [of n])
qed

lemma double_trunc_exact: "n < 2 ^ 53 \<Longrightarrow> double_trunc n 1 = n"
proof -
  assume n: "n < 2 ^ 53"
  then have "bitlen n \<le> 53" by (rule bitlen_le)
  then have "2 ^ 1 \<le> (2::nat) ^ (54 - bitlen n)" by (intro power_increasing) auto
  then show ?thesis using n by (auto simp: double_trunc_def Let_def algebra_simps)
qed

lemma digit_not_special:
  assumes "c_isdigit c"
  shows "\<not> c_isspace c" "c \<noteq> CHR ''-''" "c \<noteq> CHR ''+''" "c \<noteq> CHR ''.''" "lower c = c"
    "c \<noteq> CHR ''i''" "c \<noteq> CHR ''n''" "c \<noteq> CHR ''x''"
  using assms by (auto simp: c_isdigit_def c_isspace_def lower_def ch_def)

lemma all_digits_takeWhile:
  "\<forall>c \<in> set ds. c_isdigit c \<Longrightarrow> takeWhile (\<lambda>c. digit_val c < 10) ds = ds"
  "\<forall>c \<in> set ds. c_isdigit c \<Longrightarrow> dropWhile (\<lambda>c. digit_val c < 10) ds = []"
  by (simp_all add: digit_val_less_10)

lemma take_float_digits:
  assumes "\<forall>c \<in> set ds. c_isdigit c" and "ds \<noteq> []" and "digits_value 10 ds < 2 ^ 53"
  shows "take_float 10 ds = Some (digits_value 10 ds, [])"
  using assms
  by (simp add: take_float_def all_digits_takeWhile take_exponent_def double_trunc_exact [simplified] Let_def)

lemma digits_no_prefix:
  assumes "\<forall>c \<in> set ds. c_isdigit c" and "ds \<noteq> []"
  shows "\<not> starts_nocase ''infinity'' ds" "\<not> starts_nocase ''inf'' ds"
    "\<not> starts_nocase ''nan'' ds" "\<not> starts_nocase ''0x'' ds"
  using assms digit_not_special
  by (cases ds rule: remdups_adj.cases; force simp: starts_nocase_def)+

lemma strtod_digits:
  assumes ds: "\<forall>c \<in> set ds. c_isdigit c" "ds \<noteq> []" and small: "digits_value 10 ds < 2 ^ 53"
  shows "c_strtod ds = (Dint (int (digits_value 10 ds)), [])"
    and "c_strtod (CHR ''-'' # ds) = (Dint (- int (digits_value 10 ds)), [])"
proof -
  obtain d ds' where d: "ds = d # ds'" using ds(2) by (cases ds) auto
  with ds(1) have "c_isdigit d" by simp
  then have sign: "skip_space ds = ds" "take_sign ds = (False, ds)"
    by (simp_all add: d skip_space_def digit_not_special)
  have minus: "skip_space (CHR ''-'' # ds) = CHR ''-'' # ds"
    by (simp add: skip_space_def ctype_defs)
  show "c_strtod ds = (Dint (int (digits_value 10 ds)), [])"
    by (simp add: c_strtod_def sign digits_no_prefix [OF ds] take_float_digits [OF ds small])
  show "c_strtod (CHR ''-'' # ds) = (Dint (- int (digits_value 10 ds)), [])"
    by (simp add: c_strtod_def minus digits_no_prefix [OF ds] take_float_digits [OF ds small])
qed

lemma strtod_show_int:
  assumes "in_long v"
  shows "c_strtod (show_int v) = (Dint v, [])"
proof -
  have "nat \<bar>v\<bar> < 2 ^ 53" using assms by (auto simp: in_long_def INT_MIN_def INT_MAX_def)
  then show ?thesis
    using strtod_digits [OF show_nat_digits show_nat_nonempty, of "nat \<bar>v\<bar>"]
    by (simp add: show_int_def abs_if split: if_splits)
qed

end
