(* ===== verification/Wsh_Arithm_Parse.thy ===== *)
theory Wsh_Arithm_Parse
  imports Wsh_Parser Wsh_Numbers
begin

text \<open>
  Arithmetic expressions: the AST of src/shell/mrsh/include/mrsh/arithm.h and the recursive-descent
  parser of src/shell/mrsh/parser/arithm.c. The forward-declared \<^verbatim>\<open>arithm_expr\<close>, through which the
  C functions recurse, is the parameter \<open>ae\<close> of the levels below it; \<open>arithm_expr\<close> ties the knot
  with a fuel argument. A pointer result is an option (\<open>None\<close> is NULL). Every loop runs with a
  fuel of two more than the length of the remaining input, and the last section shows that this is
  enough for every input.
\<close>

section \<open>Syntax trees\<close>

datatype mrsh_arithm_unop_type =
  MRSH_ARITHM_UNOP_PLUS | MRSH_ARITHM_UNOP_MINUS | MRSH_ARITHM_UNOP_TILDE | MRSH_ARITHM_UNOP_BANG

datatype mrsh_arithm_binop_type =
  MRSH_ARITHM_BINOP_ASTERISK | MRSH_ARITHM_BINOP_SLASH | MRSH_ARITHM_BINOP_PERCENT
| MRSH_ARITHM_BINOP_PLUS | MRSH_ARITHM_BINOP_MINUS | MRSH_ARITHM_BINOP_DLESS
| MRSH_ARITHM_BINOP_DGREAT | MRSH_ARITHM_BINOP_LESS | MRSH_ARITHM_BINOP_LESSEQ
| MRSH_ARITHM_BINOP_GREAT | MRSH_ARITHM_BINOP_GREATEQ | MRSH_ARITHM_BINOP_DEQ
| MRSH_ARITHM_BINOP_BANGEQ | MRSH_ARITHM_BINOP_AND | MRSH_ARITHM_BINOP_CIRC
| MRSH_ARITHM_BINOP_OR | MRSH_ARITHM_BINOP_DAND | MRSH_ARITHM_BINOP_DOR

datatype mrsh_arithm_assign_op =
  MRSH_ARITHM_ASSIGN_NONE | MRSH_ARITHM_ASSIGN_ASTERISK | MRSH_ARITHM_ASSIGN_SLASH
| MRSH_ARITHM_ASSIGN_PERCENT | MRSH_ARITHM_ASSIGN_PLUS | MRSH_ARITHM_ASSIGN_MINUS
| MRSH_ARITHM_ASSIGN_DLESS | MRSH_ARITHM_ASSIGN_DGREAT | MRSH_ARITHM_ASSIGN_AND
| MRSH_ARITHM_ASSIGN_CIRC | MRSH_ARITHM_ASSIGN_OR

datatype mrsh_arithm_expr =
  MRSH_ARITHM_LITERAL int
| MRSH_ARITHM_VARIABLE string
| MRSH_ARITHM_UNOP mrsh_arithm_unop_type mrsh_arithm_expr
| MRSH_ARITHM_BINOP mrsh_arithm_binop_type mrsh_arithm_expr mrsh_arithm_expr
| MRSH_ARITHM_COND mrsh_arithm_expr mrsh_arithm_expr mrsh_arithm_expr
| MRSH_ARITHM_ASSIGN mrsh_arithm_assign_op string mrsh_arithm_expr

text \<open>A parsing function: \<open>None\<close> stops the run, \<open>Some (None, p)\<close> returns NULL.\<close>

type_synonym 'a parse = "mrsh_parser \<Rightarrow> ('a option \<times> mrsh_parser) option"
type_synonym test = "mrsh_parser \<Rightarrow> (bool \<times> mrsh_parser) option"

abbreviation fuel_of :: "mrsh_parser \<Rightarrow> nat" where "fuel_of p \<equiv> input_bound p + 2"

section \<open>Characters and strings\<close>

definition parse_char :: "char \<Rightarrow> test" where
  "parse_char c p =
     (case parser_peek_char p of
        (d, p1) \<Rightarrow>
          if d \<noteq> c then Some (False, p1)
          else do { (_, p2) \<leftarrow> parser_read_char p1; Some (True, p2) })"

definition parse_whitespace :: test where
  "parse_whitespace p =
     (case parser_peek_char p of
        (d, p1) \<Rightarrow>
          if \<not> c_isspace d then Some (False, p1)
          else do { (_, p2) \<leftarrow> parser_read_char p1; Some (True, p2) })"

fun whitespace_loop :: "nat \<Rightarrow> mrsh_parser \<Rightarrow> mrsh_parser option" where
  "whitespace_loop 0 p = None"
| "whitespace_loop (Suc n) p =
     do { (b, p1) \<leftarrow> parse_whitespace p; if b then whitespace_loop n p1 else Some p1 }"

definition consume_whitespace :: "mrsh_parser \<Rightarrow> mrsh_parser option" where
  "consume_whitespace p = whitespace_loop (fuel_of p) p"

definition expect_char :: "char \<Rightarrow> test" where
  "expect_char c p =
     do { (b, p1) \<leftarrow> parse_char c p;
          if b then Some (True, p1)
          else Some (False, parser_set_error p1 (Some (''expected '' @ [CHR 0x27, c, CHR 0x27]))) }"

text \<open>The character loop of \<^verbatim>\<open>parse_str\<close>, \<^verbatim>\<open>parse_binop\<close> and \<^verbatim>\<open>peek_assign_op\<close>, from an offset.\<close>

fun match_at :: "nat \<Rightarrow> string \<Rightarrow> test" where
  "match_at i [] p = Some (True, p)"
| "match_at i (c # str) p =
     do { (d, p1) \<leftarrow> peek_at p i; if d \<noteq> c then Some (False, p1) else match_at (i + 1) str p1 }"

definition parse_str :: "string \<Rightarrow> test" where
  "parse_str str p =
     do { (b, p1) \<leftarrow> match_at 0 str p;
          if \<not> b then Some (False, p1)
          else do { (_, p2) \<leftarrow> parser_read p1 (length str); Some (True, p2) } }"

definition parse_binop :: "string \<Rightarrow> test" where
  "parse_binop str p =
     do { (b, p1) \<leftarrow> match_at 0 str p;
          if \<not> b then Some (False, p1)
          else do { (d, p2) \<leftarrow> peek_at p1 (length str);
                    if d = CHR ''|'' \<or> d = CHR ''&'' then Some (False, p2)
                    else do { (_, p3) \<leftarrow> parser_read p2 (length str); Some (True, p3) } } }"

text \<open>An \<^verbatim>\<open>if ... else if ...\<close> chain over token tests: the value of the first that succeeds.\<close>

fun first_of :: "(test \<times> 'a) list \<Rightarrow> 'a parse" where
  "first_of [] p = Some (None, p)"
| "first_of ((t, x) # ts) p =
     do { (b, p1) \<leftarrow> t p; if b then Some (Some x, p1) else first_of ts p1 }"

section \<open>Terms\<close>

fun literal_loop :: "nat \<Rightarrow> nat \<Rightarrow> mrsh_parser \<Rightarrow> (nat \<times> mrsh_parser) option" where
  "literal_loop 0 i p = None"
| "literal_loop (Suc n) i p =
     do { (c, p1) \<leftarrow> peek_at p i;
          if \<not> c_isdigit c then Some (i, p1) else literal_loop n (i + 1) p1 }"

definition peek_literal :: "mrsh_parser \<Rightarrow> (nat \<times> mrsh_parser) option" where
  "peek_literal p = literal_loop (fuel_of p) 0 p"

definition literal :: "mrsh_arithm_expr parse" where
  "literal p =
     do { (len, p1) \<leftarrow> peek_literal p;
          if len = 0 then Some (None, p1)
          else do { (str, p2) \<leftarrow> parser_read p1 len;
            case c_strtol 0 str of
              (v, rest, erange) \<Rightarrow>
                if rest \<noteq> [] \<or> erange
                then Some (None, parser_set_error p2 (Some ''failed to parse literal''))
                else Some (Some (MRSH_ARITHM_LITERAL v), p2) } }"

definition variable :: "mrsh_arithm_expr parse" where
  "variable p =
     do { (name_len, p1) \<leftarrow> peek_name p False;
          if name_len = 0 then Some (None, p1)
          else do { (name, p2) \<leftarrow> parser_read p1 name_len;
                    Some (Some (MRSH_ARITHM_VARIABLE name), p2) } }"

definition unop_of_char :: "char \<Rightarrow> mrsh_arithm_unop_type option" where
  "unop_of_char c =
     (if c = CHR ''+'' then Some MRSH_ARITHM_UNOP_PLUS
      else if c = CHR ''-'' then Some MRSH_ARITHM_UNOP_MINUS
      else if c = CHR ''~'' then Some MRSH_ARITHM_UNOP_TILDE
      else if c = CHR ''!'' then Some MRSH_ARITHM_UNOP_BANG else None)"

definition unop :: "mrsh_arithm_expr parse \<Rightarrow> mrsh_arithm_expr parse" where
  "unop ae p =
     (case parser_peek_char p of
        (c, p1) \<Rightarrow>
          case unop_of_char c of
            None \<Rightarrow> Some (None, p1)
          | Some type \<Rightarrow>
              do { (_, p2) \<leftarrow> parser_read_char p1;
                   (body, p3) \<leftarrow> ae p2;
                   case body of
                     None \<Rightarrow> Some (None, parser_set_error p3
                       (Some ''expected an arithmetic expression after unary operator''))
                   | Some e \<Rightarrow> Some (Some (MRSH_ARITHM_UNOP type e), p3) })"

definition paren :: "mrsh_arithm_expr parse \<Rightarrow> mrsh_arithm_expr parse" where
  "paren ae p =
     do { (b, p1) \<leftarrow> parse_char (CHR ''('') p;
          if \<not> b then Some (None, p1)
          else do { p2 \<leftarrow> consume_whitespace p1;
                    (expr, p3) \<leftarrow> ae p2;
                    (ok, p4) \<leftarrow> expect_char (CHR '')'') p3;
                    if \<not> ok then Some (None, p4) else Some (expr, p4) } }"

text \<open>Try one parser, and the next one where the first returned NULL.\<close>

definition or_else :: "'a parse \<Rightarrow> 'a parse \<Rightarrow> 'a parse" where
  "or_else f g p =
     do { (r, p1) \<leftarrow> f p; case r of Some e \<Rightarrow> Some (Some e, p1) | None \<Rightarrow> g p1 }"

definition term_expr :: "mrsh_arithm_expr parse \<Rightarrow> mrsh_arithm_expr parse" where
  "term_expr ae = or_else (paren ae) (or_else (unop ae) (or_else literal variable))"

section \<open>Left-associative levels\<close>

definition factor_ops :: "(test \<times> mrsh_arithm_binop_type) list" where
  "factor_ops =
     [(parse_char (CHR ''*''), MRSH_ARITHM_BINOP_ASTERISK),
      (parse_char (CHR ''/''), MRSH_ARITHM_BINOP_SLASH),
      (parse_char (CHR ''%''), MRSH_ARITHM_BINOP_PERCENT)]"

fun factor_loop ::
  "nat \<Rightarrow> mrsh_arithm_expr parse \<Rightarrow> mrsh_arithm_expr \<Rightarrow> mrsh_arithm_expr parse" where
  "factor_loop 0 ae expr p = None"
| "factor_loop (Suc n) ae expr p =
     do { p1 \<leftarrow> consume_whitespace p;
          (type, p2) \<leftarrow> first_of factor_ops p1;
          case type of
            None \<Rightarrow> Some (Some expr, p2)
          | Some t \<Rightarrow>
              do { p3 \<leftarrow> consume_whitespace p2;
                   (right, p4) \<leftarrow> term_expr ae p3;
                   case right of
                     None \<Rightarrow> Some (None, parser_set_error p4
                       (Some ''expected a term after *, / or % operator''))
                   | Some r \<Rightarrow> factor_loop n ae (MRSH_ARITHM_BINOP t expr r) p4 } }"

definition factor :: "mrsh_arithm_expr parse \<Rightarrow> mrsh_arithm_expr parse" where
  "factor ae p =
     do { (r, p1) \<leftarrow> term_expr ae p;
          case r of None \<Rightarrow> Some (None, p1) | Some e \<Rightarrow> factor_loop (fuel_of p1) ae e p1 }"

definition addend_ops :: "(test \<times> mrsh_arithm_binop_type) list" where
  "addend_ops =
     [(parse_char (CHR ''+''), MRSH_ARITHM_BINOP_PLUS),
      (parse_char (CHR ''-''), MRSH_ARITHM_BINOP_MINUS)]"

fun addend_loop ::
  "nat \<Rightarrow> mrsh_arithm_expr parse \<Rightarrow> mrsh_arithm_expr \<Rightarrow> mrsh_arithm_expr parse" where
  "addend_loop 0 ae expr p = None"
| "addend_loop (Suc n) ae expr p =
     do { (type, p2) \<leftarrow> first_of addend_ops p;
          case type of
            None \<Rightarrow> Some (Some expr, p2)
          | Some t \<Rightarrow>
              do { p3 \<leftarrow> consume_whitespace p2;
                   (right, p4) \<leftarrow> factor ae p3;
                   case right of
                     None \<Rightarrow> Some (None, parser_set_error p4
                       (Some ''expected a factor after + or - operator''))
                   | Some r \<Rightarrow> addend_loop n ae (MRSH_ARITHM_BINOP t expr r) p4 } }"

definition addend :: "mrsh_arithm_expr parse \<Rightarrow> mrsh_arithm_expr parse" where
  "addend ae p =
     do { (r, p1) \<leftarrow> factor ae p;
          case r of None \<Rightarrow> Some (None, p1) | Some e \<Rightarrow> addend_loop (fuel_of p1) ae e p1 }"

section \<open>Right-recursive levels\<close>

text \<open>
  The shape the functions \<^verbatim>\<open>shift\<close>, \<^verbatim>\<open>comp\<close>, \<^verbatim>\<open>equal\<close> and \<^verbatim>\<open>binop\<close> share: parse a left
  operand with the next level, return it unless an operator follows, and call the function
  itself for the right operand. The flag says whether white space is skipped after the
  operator; \<^verbatim>\<open>equal\<close> does not.
\<close>

fun right_rec ::
  "nat \<Rightarrow> mrsh_arithm_expr parse \<Rightarrow> (test \<times> mrsh_arithm_binop_type) list \<Rightarrow> bool \<Rightarrow>
   mrsh_arithm_expr parse" where
  "right_rec 0 next ops ws p = None"
| "right_rec (Suc n) next ops ws p =
     do { (left, p1) \<leftarrow> next p;
          case left of
            None \<Rightarrow> Some (None, p1)
          | Some l \<Rightarrow>
              do { (type, p2) \<leftarrow> first_of ops p1;
                   case type of
                     None \<Rightarrow> Some (Some l, p2)
                   | Some t \<Rightarrow>
                       do { p3 \<leftarrow> (if ws then consume_whitespace p2 else Some p2);
                            (right, p4) \<leftarrow> right_rec n next ops ws p3;
                            case right of
                              None \<Rightarrow> Some (None, parser_set_error p4 (Some ''expected a term''))
                            | Some r \<Rightarrow> Some (Some (MRSH_ARITHM_BINOP t l r), p4) } } }"

definition shift_ops :: "(test \<times> mrsh_arithm_binop_type) list" where
  "shift_ops =
     [(parse_str ''<<'', MRSH_ARITHM_BINOP_DLESS), (parse_str ''>>'', MRSH_ARITHM_BINOP_DGREAT)]"

definition shift :: "mrsh_arithm_expr parse \<Rightarrow> mrsh_arithm_expr parse" where
  "shift ae p = right_rec (fuel_of p) (addend ae) shift_ops True p"

definition comp_ops :: "(test \<times> mrsh_arithm_binop_type) list" where
  "comp_ops =
     [(parse_str ''<='', MRSH_ARITHM_BINOP_LESSEQ),
      (parse_char (CHR ''<''), MRSH_ARITHM_BINOP_LESS),
      (parse_str ''>='', MRSH_ARITHM_BINOP_GREATEQ),
      (parse_char (CHR ''>''), MRSH_ARITHM_BINOP_GREAT)]"

definition comp_expr :: "mrsh_arithm_expr parse \<Rightarrow> mrsh_arithm_expr parse" where
  "comp_expr ae p = right_rec (fuel_of p) (shift ae) comp_ops True p"

definition equal_ops :: "(test \<times> mrsh_arithm_binop_type) list" where
  "equal_ops =
     [(parse_str ''=='', MRSH_ARITHM_BINOP_DEQ), (parse_str ''!='', MRSH_ARITHM_BINOP_BANGEQ)]"

definition equal_expr :: "mrsh_arithm_expr parse \<Rightarrow> mrsh_arithm_expr parse" where
  "equal_expr ae p = right_rec (fuel_of p) (comp_expr ae) equal_ops False p"

definition binop ::
  "mrsh_arithm_binop_type \<Rightarrow> string \<Rightarrow> mrsh_arithm_expr parse \<Rightarrow> mrsh_arithm_expr parse" where
  "binop type str term p = right_rec (fuel_of p) term [(parse_binop str, type)] True p"

definition bitwise_and :: "mrsh_arithm_expr parse \<Rightarrow> mrsh_arithm_expr parse" where
  "bitwise_and ae = binop MRSH_ARITHM_BINOP_AND ''&'' (equal_expr ae)"

definition bitwise_xor :: "mrsh_arithm_expr parse \<Rightarrow> mrsh_arithm_expr parse" where
  "bitwise_xor ae = binop MRSH_ARITHM_BINOP_CIRC ''^'' (bitwise_and ae)"

definition bitwise_or :: "mrsh_arithm_expr parse \<Rightarrow> mrsh_arithm_expr parse" where
  "bitwise_or ae = binop MRSH_ARITHM_BINOP_OR ''|'' (bitwise_xor ae)"

definition logical_and :: "mrsh_arithm_expr parse \<Rightarrow> mrsh_arithm_expr parse" where
  "logical_and ae = binop MRSH_ARITHM_BINOP_DAND ''&&'' (bitwise_or ae)"

definition logical_or :: "mrsh_arithm_expr parse \<Rightarrow> mrsh_arithm_expr parse" where
  "logical_or ae = binop MRSH_ARITHM_BINOP_DOR ''||'' (logical_and ae)"

fun ternary_rec :: "nat \<Rightarrow> mrsh_arithm_expr parse \<Rightarrow> mrsh_arithm_expr parse" where
  "ternary_rec 0 ae p = None"
| "ternary_rec (Suc n) ae p =
     do { (expr, p1) \<leftarrow> logical_or ae p;
          case expr of
            None \<Rightarrow> Some (None, p1)
          | Some condition \<Rightarrow>
              do { (b, p2) \<leftarrow> parse_char (CHR ''?'') p1;
                   if \<not> b then Some (Some condition, p2)
                   else do {
                     (body, p3) \<leftarrow> ternary_rec n ae p2;
                     case body of
                       None \<Rightarrow> Some (None, parser_set_error p3 (Some ''expected a logical or term''))
                     | Some t \<Rightarrow>
                         do { (ok, p4) \<leftarrow> expect_char (CHR '':'') p3;
                              if \<not> ok then Some (None, p4)
                              else do {
                                (else_part, p5) \<leftarrow> ternary_rec n ae p4;
                                case else_part of
                                  None \<Rightarrow> Some (None, parser_set_error p5 (Some ''expected an or term''))
                                | Some f \<Rightarrow> Some (Some (MRSH_ARITHM_COND condition t f), p5) } } } } }"

definition ternary :: "mrsh_arithm_expr parse \<Rightarrow> mrsh_arithm_expr parse" where
  "ternary ae p = ternary_rec (fuel_of p) ae p"

section \<open>Assignments and whole expressions\<close>

definition assign_ops :: "(string \<times> mrsh_arithm_assign_op) list" where
  "assign_ops =
     [(''='', MRSH_ARITHM_ASSIGN_NONE), (''*='', MRSH_ARITHM_ASSIGN_ASTERISK),
      (''/='', MRSH_ARITHM_ASSIGN_SLASH), (''%='', MRSH_ARITHM_ASSIGN_PERCENT),
      (''+='', MRSH_ARITHM_ASSIGN_PLUS), (''-='', MRSH_ARITHM_ASSIGN_MINUS),
      (''<<='', MRSH_ARITHM_ASSIGN_DLESS), (''>>='', MRSH_ARITHM_ASSIGN_DGREAT),
      (''&='', MRSH_ARITHM_ASSIGN_AND), (''^='', MRSH_ARITHM_ASSIGN_CIRC),
      (''|='', MRSH_ARITHM_ASSIGN_OR)]"

text \<open>The chain of \<^verbatim>\<open>peek_assign_op\<close> calls: the operator and the length of its text.\<close>

fun peek_assign_ops ::
  "(string \<times> mrsh_arithm_assign_op) list \<Rightarrow> nat \<Rightarrow> (mrsh_arithm_assign_op \<times> nat) parse" where
  "peek_assign_ops [] offset p = Some (None, p)"
| "peek_assign_ops ((str, op) # ops) offset p =
     do { (b, p1) \<leftarrow> match_at offset str p;
          if b then Some (Some (op, length str), p1) else peek_assign_ops ops offset p1 }"

definition assignment :: "mrsh_arithm_expr parse \<Rightarrow> mrsh_arithm_expr parse" where
  "assignment ae p =
     do { (name_len, p1) \<leftarrow> peek_name p False;
          if name_len = 0 then Some (None, p1)
          else do {
            (r, p2) \<leftarrow> peek_assign_ops assign_ops name_len p1;
            case r of
              None \<Rightarrow> Some (None, p2)
            | Some (op, op_len) \<Rightarrow>
                do { (name, p3) \<leftarrow> parser_read p2 name_len;
                     (_, p4) \<leftarrow> parser_read p3 op_len;
                     (v, p5) \<leftarrow> ae p4;
                     case v of
                       None \<Rightarrow> Some (None, parser_set_error p5 (Some ''expected an assignment value''))
                     | Some e \<Rightarrow> Some (Some (MRSH_ARITHM_ASSIGN op name e), p5) } } }"

fun arithm_expr :: "nat \<Rightarrow> mrsh_arithm_expr parse" where
  "arithm_expr 0 p = None"
| "arithm_expr (Suc n) p = or_else (assignment (arithm_expr n)) (ternary (arithm_expr n)) p"

definition mrsh_parse_arithm_expr :: "mrsh_arithm_expr parse" where
  "mrsh_parse_arithm_expr p =
     do { p1 \<leftarrow> consume_whitespace p;
          (expr, p2) \<leftarrow> arithm_expr (fuel_of p1) p1;
          case expr of
            None \<Rightarrow> Some (None, p2)
          | Some e \<Rightarrow>
              (case parser_peek_char p2 of
                 (c, p3) \<Rightarrow>
                   if c \<noteq> NUL then Some (None, parser_set_error p3
                     (Some ''garbage at the end of the arithmetic expression''))
                   else Some (Some e, p3)) }"

section \<open>Every step returns and consumes\<close>

text \<open>
  The contract of a parsing function on inputs shorter than \<open>L\<close>: it returns, leaves a
  well-formed parser with no more input, and with strictly less when it returned a tree.
\<close>

definition step_ok :: "nat \<Rightarrow> 'a parse \<Rightarrow> bool" where
  "step_ok L f \<longleftrightarrow> (\<forall>p. parser_wf p \<longrightarrow> length (ptext p) < L \<longrightarrow>
     (\<exists>r q. f p = Some (r, q) \<and> shrinks p q \<and> (r \<noteq> None \<longrightarrow> length (ptext q) < length (ptext p))))"

definition test_ok :: "test \<Rightarrow> bool" where
  "test_ok t \<longleftrightarrow> (\<forall>p. parser_wf p \<longrightarrow>
     (\<exists>b q. t p = Some (b, q) \<and> shrinks p q \<and> (b \<longrightarrow> length (ptext q) < length (ptext p))))"

lemma step_okE:
  assumes "step_ok L f" and "parser_wf p" and "length (ptext p) < L"
  obtains r q where "f p = Some (r, q)" "shrinks p q" "r \<noteq> None \<Longrightarrow> length (ptext q) < length (ptext p)"
  using assms unfolding step_ok_def by blast

lemma test_okE:
  assumes "test_ok t" and "parser_wf p"
  obtains b q where "t p = Some (b, q)" "shrinks p q" "b \<Longrightarrow> length (ptext q) < length (ptext p)"
  using assms unfolding test_ok_def by blast

lemma step_ok_mono: "step_ok L f \<Longrightarrow> K \<le> L \<Longrightarrow> step_ok K f"
  unfolding step_ok_def by fastforce

subsection \<open>Tests\<close>

lemma read_char_ok:
  assumes "parser_wf p" and "ptext p = c # cs"
  obtains q where "parser_read_char p = Some (c, q)" "parser_wf q" "ptext q = cs"
  using parser_read_char_wf [OF assms] by blast

lemma parse_char_ok: "c \<noteq> NUL \<Longrightarrow> test_ok (parse_char c)"
  unfolding test_ok_def
proof (intro allI impI)
  fix p assume c: "c \<noteq> NUL" and wf: "parser_wf p"
  from wf show "\<exists>b q. parse_char c p = Some (b, q) \<and> shrinks p q \<and> (b \<longrightarrow> length (ptext q) < length (ptext p))"
  proof (cases rule: peek_char_case)
    case (empty q)
    with c wf show ?thesis by (auto simp: parse_char_def peeked_shrinks)
  next
    case (char d cs q)
    with wf have "parser_wf q" "ptext q = d # cs" by (simp_all add: peeked_wf peeked_ptext)
    then obtain r where "parser_read_char q = Some (d, r)" "parser_wf r" "ptext r = cs"
      by (rule read_char_ok)
    with char wf show ?thesis
      by (auto simp: parse_char_def peeked_shrinks) (auto simp: shrinks_def)
  qed
qed

lemma parse_whitespace_ok: "test_ok parse_whitespace"
  unfolding test_ok_def
proof (intro allI impI)
  fix p assume wf: "parser_wf p"
  then show "\<exists>b q. parse_whitespace p = Some (b, q) \<and> shrinks p q \<and> (b \<longrightarrow> length (ptext q) < length (ptext p))"
  proof (cases rule: peek_char_case)
    case (empty q)
    with wf show ?thesis by (auto simp: parse_whitespace_def peeked_shrinks)
  next
    case (char d cs q)
    with wf have "parser_wf q" "ptext q = d # cs" by (simp_all add: peeked_wf peeked_ptext)
    then obtain r where "parser_read_char q = Some (d, r)" "parser_wf r" "ptext r = cs"
      by (rule read_char_ok)
    with char wf show ?thesis
      by (auto simp: parse_whitespace_def peeked_shrinks) (auto simp: shrinks_def)
  qed
qed

lemma whitespace_loop_ok:
  "parser_wf p \<Longrightarrow> length (ptext p) < n \<Longrightarrow> \<exists>q. whitespace_loop n p = Some q \<and> shrinks p q"
proof (induction n arbitrary: p)
  case (Suc n)
  obtain b q where q: "parse_whitespace p = Some (b, q)" "shrinks p q"
    "b \<Longrightarrow> length (ptext q) < length (ptext p)"
    using test_okE [OF parse_whitespace_ok Suc.prems(1)] by blast
  show ?case
  proof (cases b)
    case True
    with q(3) Suc.prems(2) have "length (ptext q) < n" by simp
    with Suc.IH [OF shrinks_wf [OF q(2)]] q True show ?thesis
      by (auto intro: shrinks_trans)
  qed (use q in auto)
qed simp

lemma ptext_fuel: "length (ptext p) < fuel_of p"
  using ptext_bound [of p] by simp

lemma consume_whitespace_ok:
  assumes "parser_wf p"
  obtains q where "consume_whitespace p = Some q" "shrinks p q"
  using whitespace_loop_ok [OF assms ptext_fuel]
  by (auto simp: consume_whitespace_def simp del: whitespace_loop.simps)

lemma expect_char_ok: "c \<noteq> NUL \<Longrightarrow> test_ok (expect_char c)"
  using parse_char_ok [of c] unfolding test_ok_def expect_char_def by fastforce

lemma match_at_ok:
  "parser_wf p \<Longrightarrow> i \<le> length (ptext p) \<Longrightarrow> NUL \<notin> set str \<Longrightarrow>
   \<exists>q. match_at i str p = Some (take (length str) (drop i (ptext p)) = str, q) \<and> peeked p q"
proof (induction str arbitrary: i p)
  case (Cons c str)
  obtain q where q: "peek_at p i = Some ((ptext p @ [NUL]) ! i, q)" "peeked p q"
    using peek_at_wf [OF Cons.prems(1,2)] by blast
  note q' = peeked_wf [OF q(2) Cons.prems(1)] peeked_ptext [OF q(2) Cons.prems(1)]
  show ?case
  proof (cases "i < length (ptext p)")
    case False
    with Cons.prems q show ?thesis by (auto simp: nth_append)
  next
    case True
    then have d: "drop i (ptext p) = ptext p ! i # drop (i + 1) (ptext p)"
      by (simp add: Cons_nth_drop_Suc)
    show ?thesis
    proof (cases "ptext p ! i = c")
      case False
      with True q d show ?thesis by (auto simp: nth_append)
    next
      case eq: True
      from Cons.IH [OF q'(1), of "i + 1"] True q' Cons.prems(3) obtain r where
        "match_at (i + 1) str q = Some (take (length str) (drop (i + 1) (ptext p)) = str, r)" "peeked q r"
        by auto
      with True eq q d show ?thesis by (auto simp: nth_append intro: peeked_trans)
    qed
  qed
qed simp

lemma parser_read_ok:
  assumes "parser_wf p" and "n \<le> length (ptext p)"
  obtains q where "parser_read p n = Some (take n (ptext p), q)" "parser_wf q" "ptext q = drop n (ptext p)"
  using parser_read_wf [OF assms] by blast

lemma prefix_length: "take (length str) t = str \<Longrightarrow> length str \<le> length t"
  by (metis length_take min.cobounded1)

lemma parse_str_ok: "str \<noteq> [] \<Longrightarrow> NUL \<notin> set str \<Longrightarrow> test_ok (parse_str str)"
  unfolding test_ok_def
proof (intro allI impI)
  fix p assume str: "str \<noteq> []" "NUL \<notin> set str" and wf: "parser_wf p"
  obtain q where q: "match_at 0 str p = Some (take (length str) (ptext p) = str, q)" "peeked p q"
    using match_at_ok [OF wf le0 str(2)] by auto
  note q' = peeked_wf [OF q(2) wf] peeked_ptext [OF q(2) wf]
  show "\<exists>b r. parse_str str p = Some (b, r) \<and> shrinks p r \<and> (b \<longrightarrow> length (ptext r) < length (ptext p))"
  proof (cases "take (length str) (ptext p) = str")
    case False
    with q wf show ?thesis by (auto simp: parse_str_def peeked_shrinks)
  next
    case True
    then have "length str \<le> length (ptext q)" using prefix_length q' by metis
    with q' obtain r where r: "parser_read q (length str) = Some (take (length str) (ptext q), r)"
      "parser_wf r" "ptext r = drop (length str) (ptext q)"
      by (blast elim: parser_read_ok)
    have "0 < length str" using str(1) by simp
    then have "length (ptext r) < length (ptext p)"
      using r(3) q'(2) \<open>length str \<le> length (ptext q)\<close> by (simp del: length_greater_0_conv)
    moreover have "match_at 0 str p = Some (True, q)" using q(1) True by simp
    with r(1) have "parse_str str p = Some (True, r)" by (simp add: parse_str_def)
    ultimately show ?thesis using r(2) by (auto simp: shrinks_def)
  qed
qed

lemma parse_binop_ok: "str \<noteq> [] \<Longrightarrow> NUL \<notin> set str \<Longrightarrow> test_ok (parse_binop str)"
  unfolding test_ok_def
proof (intro allI impI)
  fix p assume str: "str \<noteq> []" "NUL \<notin> set str" and wf: "parser_wf p"
  obtain q where q: "match_at 0 str p = Some (take (length str) (ptext p) = str, q)" "peeked p q"
    using match_at_ok [OF wf le0 str(2)] by auto
  note q' = peeked_wf [OF q(2) wf] peeked_ptext [OF q(2) wf]
  show "\<exists>b r. parse_binop str p = Some (b, r) \<and> shrinks p r \<and> (b \<longrightarrow> length (ptext r) < length (ptext p))"
  proof (cases "take (length str) (ptext p) = str")
    case False
    with q wf show ?thesis by (auto simp: parse_binop_def peeked_shrinks)
  next
    case True
    then have len: "length str \<le> length (ptext q)" using prefix_length q' by metis
    then obtain d q2 where d: "peek_at q (length str) = Some (d, q2)" "peeked q q2"
      using peek_at_wf [OF q'(1)] by blast
    note q2 = peeked_wf [OF d(2) q'(1)] peeked_ptext [OF d(2) q'(1), unfolded q'(2)]
    from q2 len q'(2) obtain r where r: "parser_read q2 (length str) = Some (take (length str) (ptext q2), r)"
      "parser_wf r" "ptext r = drop (length str) (ptext q2)"
      by (metis parser_read_ok)
    have "0 < length str" using str(1) by simp
    then have "length (ptext r) < length (ptext p)" using r(3) q2(2) q'(2) len
      by (simp del: length_greater_0_conv)
    moreover have "match_at 0 str p = Some (True, q)" using q(1) True by simp
    with r(1) d(1) have "parse_binop str p = (if d = CHR ''|'' \<or> d = CHR ''&'' then Some (False, q2)
        else Some (True, r))"
      by (simp add: parse_binop_def)
    ultimately show ?thesis using r(2) q2 by (auto simp: shrinks_def)
  qed
qed

lemma first_of_ok: "list_all (\<lambda>tx. test_ok (fst tx)) ts \<Longrightarrow> step_ok L (first_of ts)"
  unfolding step_ok_def
proof (intro allI impI)
  fix p assume "list_all (\<lambda>tx. test_ok (fst tx)) ts" and "parser_wf p"
  then show "\<exists>r q. first_of ts p = Some (r, q) \<and> shrinks p q \<and> (r \<noteq> None \<longrightarrow> length (ptext q) < length (ptext p))"
  proof (induction ts arbitrary: p)
    case Nil
    then show ?case by (simp add: shrinks_refl)
  next
    case (Cons tx ts)
    obtain t x where tx: "tx = (t, x)" by fastforce
    then have "test_ok t" using Cons.prems(1) by simp
    from test_okE [OF this Cons.prems(2)] obtain b q where q: "t p = Some (b, q)" "shrinks p q"
      "b \<Longrightarrow> length (ptext q) < length (ptext p)"
      by blast
    show ?case
    proof (cases b)
      case True
      with q tx show ?thesis by simp
    next
      case False
      from Cons.IH [OF _ shrinks_wf [OF q(2)]] Cons.prems(1) obtain r s where
        "first_of ts q = Some (r, s)" "shrinks q s" "r \<noteq> None \<longrightarrow> length (ptext s) < length (ptext q)"
        by auto
      with False q tx show ?thesis by (auto simp: shrinks_def)
    qed
  qed
qed

lemma ops_ok:
  "step_ok L (first_of factor_ops)" "step_ok L (first_of addend_ops)" "step_ok L (first_of shift_ops)"
  "step_ok L (first_of comp_ops)" "step_ok L (first_of equal_ops)"
  by (rule first_of_ok; auto simp: factor_ops_def addend_ops_def shift_ops_def comp_ops_def
      equal_ops_def intro!: parse_char_ok parse_str_ok)+

subsection \<open>Levels\<close>

text \<open>A parser of the same contract as an interface, and the levels built on it.\<close>

lemma or_else_ok: "step_ok L f \<Longrightarrow> step_ok L g \<Longrightarrow> step_ok L (or_else f g)"
  unfolding step_ok_def
proof (intro allI impI)
  fix p
  assume fg: "\<forall>p. parser_wf p \<longrightarrow> length (ptext p) < L \<longrightarrow> (\<exists>r q. f p = Some (r, q) \<and> shrinks p q \<and>
        (r \<noteq> None \<longrightarrow> length (ptext q) < length (ptext p)))"
    "\<forall>p. parser_wf p \<longrightarrow> length (ptext p) < L \<longrightarrow> (\<exists>r q. g p = Some (r, q) \<and> shrinks p q \<and>
        (r \<noteq> None \<longrightarrow> length (ptext q) < length (ptext p)))"
    and p: "parser_wf p" "length (ptext p) < L"
  then obtain r q where q: "f p = Some (r, q)" "shrinks p q"
    "r \<noteq> None \<longrightarrow> length (ptext q) < length (ptext p)" by blast
  moreover from q(2) p(2) have "parser_wf q" "length (ptext q) < L" by (auto simp: shrinks_def)
  with fg(2) obtain r' q' where "g q = Some (r', q')" "shrinks q q'"
    "r' \<noteq> None \<longrightarrow> length (ptext q') < length (ptext q)" by blast
  ultimately show "\<exists>r q. or_else f g p = Some (r, q) \<and> shrinks p q \<and>
        (r \<noteq> None \<longrightarrow> length (ptext q) < length (ptext p))"
    by (cases r) (auto simp: or_else_def shrinks_def)
qed

lemma literal_loop_ok:
  "parser_wf p \<Longrightarrow> i \<le> length (ptext p) \<Longrightarrow> length (ptext p) - i < n \<Longrightarrow>
   \<exists>k q. literal_loop n i p = Some (k, q) \<and> peeked p q \<and> k \<le> length (ptext p)"
proof (induction n arbitrary: p i)
  case (Suc n)
  obtain q where q: "peek_at p i = Some ((ptext p @ [NUL]) ! i, q)" "peeked p q"
    using peek_at_wf [OF Suc.prems(1,2)] by blast
  note q' = peeked_wf [OF q(2) Suc.prems(1)] peeked_ptext [OF q(2) Suc.prems(1)]
  show ?case
  proof (cases "c_isdigit ((ptext p @ [NUL]) ! i)")
    case False
    with q Suc.prems show ?thesis by auto
  next
    case True
    have "i \<noteq> length (ptext p)" using True by auto
    with Suc.prems q' have "i + 1 \<le> length (ptext q)" "length (ptext q) - (i + 1) < n" by auto
    from Suc.IH [OF q'(1) this] True q q' show ?thesis by (auto intro: peeked_trans)
  qed
qed simp

lemma literal_ok: "step_ok L literal"
  unfolding step_ok_def
proof (intro allI impI)
  fix p assume wf: "parser_wf p"
  have "length (ptext p) - 0 < fuel_of p" using ptext_fuel [of p] by simp
  from literal_loop_ok [OF wf le0 this] obtain k q where q: "peek_literal p = Some (k, q)" "peeked p q"
    and k: "k \<le> length (ptext p)"
    unfolding peek_literal_def by blast
  note q' = peeked_wf [OF q(2) wf] peeked_ptext [OF q(2) wf]
  with k obtain r where "parser_read q k = Some (take k (ptext p), r)" "parser_wf r"
    "ptext r = drop k (ptext p)" by (metis parser_read_ok)
  with q k wf show "\<exists>r q. literal p = Some (r, q) \<and> shrinks p q \<and> (r \<noteq> None \<longrightarrow> length (ptext q) < length (ptext p))"
    by (cases "k = 0")
      (auto simp: literal_def peeked_shrinks shrinks_def [of p] peeked_wf peeked_ptext split: prod.splits)
qed

lemma variable_ok: "step_ok L variable"
  unfolding step_ok_def
proof (intro allI impI)
  fix p assume wf: "parser_wf p"
  obtain k q where q: "peek_name p False = Some (k, q)" "shrinks p q" "k \<le> length (ptext q)"
    using peek_name_wf [OF wf] by blast
  obtain r where "parser_read q k = Some (take k (ptext q), r)" "parser_wf r"
    "ptext r = drop k (ptext q)" using parser_read_ok [OF shrinks_wf [OF q(2)] q(3)] by blast
  with q show "\<exists>r q. variable p = Some (r, q) \<and> shrinks p q \<and> (r \<noteq> None \<longrightarrow> length (ptext q) < length (ptext p))"
    by (cases "k = 0") (auto simp: variable_def shrinks_def)
qed

text \<open>A result of the contract, for a run that started at \<open>p\<close>.\<close>

definition returns :: "mrsh_parser \<Rightarrow> ('a option \<times> mrsh_parser) option \<Rightarrow> bool" where
  "returns p m \<longleftrightarrow>
     (\<exists>r q. m = Some (r, q) \<and> shrinks p q \<and> (r \<noteq> None \<longrightarrow> length (ptext q) < length (ptext p)))"

lemma step_ok_iff: "step_ok L f \<longleftrightarrow> (\<forall>p. parser_wf p \<longrightarrow> length (ptext p) < L \<longrightarrow> returns p (f p))"
  by (simp add: step_ok_def returns_def)

lemma returns_None [simp]: "returns p (Some (None, q)) \<longleftrightarrow> shrinks p q"
  by (simp add: returns_def)

lemma returns_Some [simp]:
  "returns p (Some (Some e, q)) \<longleftrightarrow> shrinks p q \<and> length (ptext q) < length (ptext p)"
  by (simp add: returns_def)

text \<open>A run that starts later and returns, returns for the earlier start too.\<close>

lemma returns_later: "returns q m \<Longrightarrow> shrinks p q \<Longrightarrow> returns p m"
  by (auto simp: returns_def shrinks_def)

lemma returnsE:
  assumes "returns p m"
  obtains r q where "m = Some (r, q)" "shrinks p q" "r \<noteq> None \<Longrightarrow> length (ptext q) < length (ptext p)"
  using assms unfolding returns_def by blast

text \<open>
  Sequencing with a continuation that makes a tree: what remains to show is that the
  continuation returns, from a state with less input where the first part made a tree.
\<close>

lemma returns_bind:
  assumes m: "returns p m"
    and none: "\<And>q. m = Some (None, q) \<Longrightarrow> shrinks p q \<Longrightarrow> returns p (k (None, q))"
    and some: "\<And>x q. m = Some (Some x, q) \<Longrightarrow> parser_wf q \<Longrightarrow> length (ptext q) < length (ptext p)
        \<Longrightarrow> shrinks p q \<Longrightarrow> returns p (k (Some x, q))"
  shows "returns p (Option.bind m k)"
proof -
  from returnsE [OF m] obtain r q where q: "m = Some (r, q)" "shrinks p q"
    "r \<noteq> None \<Longrightarrow> length (ptext q) < length (ptext p)" by blast
  show ?thesis
  proof (cases r)
    case None
    with q none show ?thesis by simp
  next
    case (Some x)
    with q some [of x q] show ?thesis by (simp add: shrinks_wf)
  qed
qed

lemma test_bind:
  assumes "test_ok t" and "parser_wf q" and "shrinks p q"
    and "\<And>r. shrinks q r \<Longrightarrow> shrinks p r \<Longrightarrow> returns p (k (False, r))"
    and "\<And>r. shrinks q r \<Longrightarrow> shrinks p r \<Longrightarrow> parser_wf r \<Longrightarrow> length (ptext r) < length (ptext q)
        \<Longrightarrow> returns p (k (True, r))"
  shows "returns p (Option.bind (t q) k)"
proof -
  from test_okE [OF assms(1,2)] obtain b r where r: "t q = Some (b, r)" "shrinks q r"
    "b \<Longrightarrow> length (ptext r) < length (ptext q)" by blast
  from shrinks_trans [OF assms(3) r(2)] assms(4,5) [OF r(2)] r show ?thesis
    by (cases b) (simp_all add: shrinks_wf)
qed

lemma whitespace_bind:
  assumes "parser_wf q" and "shrinks p q"
    and "\<And>r. shrinks q r \<Longrightarrow> shrinks p r \<Longrightarrow> parser_wf r \<Longrightarrow> returns p (k r)"
  shows "returns p (Option.bind (consume_whitespace q) k)"
  using assms consume_whitespace_ok [OF assms(1)] shrinks_trans [OF assms(2)]
  by (metis Option.bind.bind_lunit shrinks_wf)

lemma opt_whitespace_bind:
  assumes "parser_wf q" and "shrinks p q"
    and "\<And>r. shrinks q r \<Longrightarrow> shrinks p r \<Longrightarrow> parser_wf r \<Longrightarrow> returns p (k r)"
  shows "returns p (Option.bind (if ws then consume_whitespace q else Some q) k)"
  using assms by (cases ws) (simp_all add: whitespace_bind shrinks_refl)

lemma step_bind:
  assumes "step_ok L f" and "parser_wf q" and "length (ptext q) < L" and "shrinks p q"
    and "\<And>r. shrinks q r \<Longrightarrow> shrinks p r \<Longrightarrow> returns p (k (None, r))"
    and "\<And>x r. shrinks q r \<Longrightarrow> shrinks p r \<Longrightarrow> parser_wf r \<Longrightarrow> length (ptext r) < length (ptext q)
        \<Longrightarrow> returns p (k (Some x, r))"
  shows "returns p (Option.bind (f q) k)"
proof -
  from step_okE [OF assms(1-3)] obtain x r where r: "f q = Some (x, r)" "shrinks q r"
    "x \<noteq> None \<Longrightarrow> length (ptext r) < length (ptext q)" by blast
  from shrinks_trans [OF assms(4) r(2)] assms(5,6) [OF r(2)] r show ?thesis
    by (cases x) (simp_all add: shrinks_wf)
qed

lemma shrinks_less: "shrinks p q \<Longrightarrow> length (ptext p) < n \<Longrightarrow> length (ptext q) < n"
  by (simp add: shrinks_def)

text \<open>The right-recursive shape.\<close>

lemma right_rec_returns:
  assumes "step_ok L next" and ops: "\<And>K. step_ok K (first_of ops)"
  shows "parser_wf p \<Longrightarrow> length (ptext p) < L \<Longrightarrow> length (ptext p) < n \<Longrightarrow>
    returns p (right_rec n next ops ws p)"
proof (induction n arbitrary: p)
  case (Suc n)
  note rec = Suc.IH
  have right: "returns p (Option.bind (right_rec n next ops ws q) (\<lambda>(right, p4). case right of
        None \<Rightarrow> Some (None, parser_set_error p4 (Some ''expected a term''))
      | Some r \<Rightarrow> Some (Some (MRSH_ARITHM_BINOP t l r), p4)))"
    if "shrinks p q" "length (ptext q) < length (ptext p)" for q t l
  proof (rule returns_bind)
    show "returns p (right_rec n next ops ws q)"
      by (rule returns_later [OF rec that(1)]) (use that Suc.prems in \<open>auto simp: shrinks_def\<close>)
  qed (use that in auto)
  show ?case
    unfolding right_rec.simps
  proof (rule step_bind [OF assms(1) Suc.prems(1,2) shrinks_refl [OF Suc.prems(1)]], goal_cases)
    case (2 l r)
    then show ?case
      unfolding prod.case option.case
    proof (rule_tac step_bind [OF ops [of "Suc (length (ptext r))"]], goal_cases)
      case (5 t s)
      then show ?case
        unfolding prod.case option.case
        by (intro opt_whitespace_bind right) (auto simp: shrinks_def)
    qed (auto simp: shrinks_def)
  qed simp
qed simp

lemma peek_assign_ops_ok:
  "parser_wf p \<Longrightarrow> k \<le> length (ptext p) \<Longrightarrow> \<forall>(str, op) \<in> set ops. str \<noteq> [] \<and> NUL \<notin> set str \<Longrightarrow>
   \<exists>r q. peek_assign_ops ops k p = Some (r, q) \<and> peeked p q \<and>
     (\<forall>op n. r = Some (op, n) \<longrightarrow> 0 < n \<and> k + n \<le> length (ptext p))"
proof (induction ops arbitrary: p)
  case (Cons so ops)
  obtain str op where so: "so = (str, op)" by fastforce
  with Cons.prems(3) have str: "str \<noteq> []" "NUL \<notin> set str" by auto
  obtain q where q: "match_at k str p = Some (take (length str) (drop k (ptext p)) = str, q)" "peeked p q"
    using match_at_ok [OF Cons.prems(1,2) str(2)] by blast
  note q' = peeked_wf [OF q(2) Cons.prems(1)] peeked_ptext [OF q(2) Cons.prems(1)]
  show ?case
  proof (cases "take (length str) (drop k (ptext p)) = str")
    case True
    then have "k + length str \<le> length (ptext p)"
      using prefix_length [OF True] Cons.prems(2) by simp
    moreover have "match_at k str p = Some (True, q)" using q(1) True by simp
    ultimately show ?thesis using so str q(2) by auto
  next
    case False
    with Cons.IH [OF q'(1)] Cons.prems(2,3) q q' so show ?thesis
      by (auto intro: peeked_trans)
  qed
qed simp

text \<open>
  The interface the levels see of \<^verbatim>\<open>arithm_expr\<close>: it keeps the contract on inputs shorter
  than \<open>L\<close>. Each level consumes a character before it calls \<open>ae\<close>, so it keeps the contract for
  inputs one longer.
\<close>

locale expr_parser =
  fixes L :: nat and ae :: "mrsh_arithm_expr parse"
  assumes ae_ok: "step_ok L ae"
begin

lemma unop_ok: "step_ok (Suc L) (unop ae)"
  unfolding step_ok_iff
proof (intro allI impI)
  fix p assume wf: "parser_wf p" and len: "length (ptext p) < Suc L"
  from wf show "returns p (unop ae p)"
  proof (cases rule: peek_char_case)
    case (empty q)
    with wf show ?thesis by (simp add: unop_def unop_of_char_def peeked_shrinks)
  next
    case (char c cs q)
    with wf have q: "parser_wf q" "ptext q = c # cs" by (simp_all add: peeked_wf peeked_ptext)
    then obtain r where r: "parser_read_char q = Some (c, r)" "parser_wf r" "ptext r = cs"
      by (rule read_char_ok)
    with char len have "length (ptext r) < L" "shrinks p r" "length (ptext r) < length (ptext p)"
      by (simp_all add: shrinks_def)
    with char r q wf show ?thesis
      by (auto simp: unop_def shrinks_def split: option.split intro!: step_bind [OF ae_ok])
  qed
qed

lemma paren_ok: "step_ok (Suc L) (paren ae)"
  unfolding step_ok_iff
proof (intro allI impI)
  fix p assume wf: "parser_wf p" and len: "length (ptext p) < Suc L"
  have close: "returns p (Option.bind (expect_char (CHR '')'') q)
      (\<lambda>(ok, p4). if \<not> ok then Some (None, p4) else Some (e, p4)))"
    if "shrinks p q" "length (ptext q) < length (ptext p)" for e :: "mrsh_arithm_expr option" and q
    by (rule test_bind [OF expect_char_ok])
      (use that in \<open>cases e; auto simp: shrinks_def\<close>)+
  show "returns p (paren ae p)"
    unfolding paren_def
  proof (rule test_bind [OF parse_char_ok wf shrinks_refl [OF wf]], goal_cases)
    case (3 r)
    then show ?case
      using len
      by (auto simp: shrinks_def intro!: whitespace_bind step_bind [OF ae_ok] close)
  qed simp_all
qed

lemma term_ok: "step_ok (Suc L) (term_expr ae)"
  unfolding term_expr_def by (intro or_else_ok paren_ok unop_ok literal_ok variable_ok)

lemma factor_loop_returns:
  assumes "shrinks p0 p" and "length (ptext p) < length (ptext p0)" and "length (ptext p) < Suc L"
    and "length (ptext p) < n"
  shows "returns p0 (factor_loop n ae e p)"
  using assms
proof (induction n arbitrary: p e)
  case (Suc n)
  show ?case
    unfolding factor_loop.simps
  proof (rule whitespace_bind [OF shrinks_wf [OF Suc.prems(1)] Suc.prems(1)], goal_cases)
    case (1 q)
    then show ?case
    proof (rule_tac step_bind [OF ops_ok(1) [of "Suc (length (ptext q))"]], goal_cases)
      case (5 t r)
      then show ?case
        unfolding prod.case option.case using Suc.prems(2-4)
        by (auto simp: shrinks_def intro!: whitespace_bind step_bind [OF term_ok] Suc.IH)
    qed (use Suc.prems in \<open>auto simp: shrinks_def\<close>)
  qed
qed simp

lemma factor_ok: "step_ok (Suc L) (factor ae)"
  unfolding step_ok_iff factor_def
proof (intro allI impI)
  fix p assume wf: "parser_wf p" and len: "length (ptext p) < Suc L"
  show "returns p (Option.bind (term_expr ae p)
      (\<lambda>(r, p1). case r of None \<Rightarrow> Some (None, p1) | Some e \<Rightarrow> factor_loop (fuel_of p1) ae e p1))"
    by (rule step_bind [OF term_ok wf len shrinks_refl [OF wf]])
      (use len in \<open>auto simp del: factor_loop.simps intro!: factor_loop_returns intro: ptext_fuel [simplified]\<close>)
qed

lemma addend_loop_returns:
  assumes "shrinks p0 p" and "length (ptext p) < length (ptext p0)" and "length (ptext p) < Suc L"
    and "length (ptext p) < n"
  shows "returns p0 (addend_loop n ae e p)"
  using assms
proof (induction n arbitrary: p e)
  case (Suc n)
  show ?case
    unfolding addend_loop.simps
  proof (rule step_bind [OF ops_ok(2) [of "Suc (length (ptext p))"] shrinks_wf [OF Suc.prems(1)] _ Suc.prems(1)],
      goal_cases)
    case (3 t r)
    then show ?case
      unfolding prod.case option.case using Suc.prems(2-4)
      by (auto simp: shrinks_def intro!: whitespace_bind step_bind [OF factor_ok] Suc.IH)
  qed (use Suc.prems in \<open>auto simp: shrinks_def\<close>)
qed simp

lemma addend_ok: "step_ok (Suc L) (addend ae)"
  unfolding step_ok_iff addend_def
proof (intro allI impI)
  fix p assume wf: "parser_wf p" and len: "length (ptext p) < Suc L"
  show "returns p (Option.bind (factor ae p)
      (\<lambda>(r, p1). case r of None \<Rightarrow> Some (None, p1) | Some e \<Rightarrow> addend_loop (fuel_of p1) ae e p1))"
    by (rule step_bind [OF factor_ok wf len shrinks_refl [OF wf]])
      (use len in \<open>auto simp del: addend_loop.simps intro!: addend_loop_returns intro: ptext_fuel [simplified]\<close>)
qed

lemma shift_ok: "step_ok (Suc L) (shift ae)"
  unfolding step_ok_iff shift_def
  by (intro allI impI right_rec_returns [OF addend_ok ops_ok(3)] ptext_fuel)

lemma comp_ok: "step_ok (Suc L) (comp_expr ae)"
  unfolding step_ok_iff comp_expr_def
  by (intro allI impI right_rec_returns [OF shift_ok ops_ok(4)] ptext_fuel)

lemma equal_ok: "step_ok (Suc L) (equal_expr ae)"
  unfolding step_ok_iff equal_expr_def
  by (intro allI impI right_rec_returns [OF comp_ok ops_ok(5)] ptext_fuel)

lemma binop_ok:
  assumes "step_ok (Suc L) f" and "str \<noteq> []" and "NUL \<notin> set str"
  shows "step_ok (Suc L) (binop ty str f)"
proof -
  have ops: "\<And>K. step_ok K (first_of [(parse_binop str, ty)])"
    using assms(2,3) by (intro first_of_ok) (simp add: parse_binop_ok)
  show ?thesis
    unfolding step_ok_iff binop_def
    by (intro allI impI right_rec_returns [OF assms(1) ops] ptext_fuel)
qed

lemma logical_or_ok: "step_ok (Suc L) (logical_or ae)"
  unfolding logical_or_def logical_and_def bitwise_or_def bitwise_xor_def bitwise_and_def
  by (intro binop_ok equal_ok) simp_all

lemma ternary_returns:
  "parser_wf p \<Longrightarrow> length (ptext p) < Suc L \<Longrightarrow> length (ptext p) < n \<Longrightarrow> returns p (ternary_rec n ae p)"
proof (induction n arbitrary: p)
  case (Suc n)
  have rec: "step_ok (length (ptext p)) (ternary_rec n ae)"
    unfolding step_ok_iff using Suc.IH Suc.prems(2,3) by auto
  show ?case
    unfolding ternary_rec.simps
  proof (rule step_bind [OF logical_or_ok Suc.prems(1,2) shrinks_refl [OF Suc.prems(1)]], goal_cases)
    case (2 c q)
    then show ?case
      unfolding prod.case option.case
    proof (rule_tac test_bind [OF parse_char_ok], goal_cases)
      case (5 r)
      then show ?case
        by (auto simp: shrinks_def intro!: step_bind [OF rec] test_bind [OF expect_char_ok])
    qed (auto simp: shrinks_def)
  qed simp
qed simp

lemma ternary_ok: "step_ok (Suc L) (ternary ae)"
  unfolding step_ok_iff ternary_def by (intro allI impI ternary_returns ptext_fuel)

lemma assignment_ok: "step_ok (Suc L) (assignment ae)"
  unfolding step_ok_iff
proof (intro allI impI)
  fix p assume wf: "parser_wf p" and len: "length (ptext p) < Suc L"
  obtain k q where q: "peek_name p False = Some (k, q)" "shrinks p q" and k: "k \<le> length (ptext q)"
    using peek_name_wf [OF wf] by blast
  obtain op r where r: "peek_assign_ops assign_ops k q = Some (op, r)" "peeked q r"
    "\<And>o' n. op = Some (o', n) \<Longrightarrow> 0 < n \<and> k + n \<le> length (ptext q)"
    using peek_assign_ops_ok [OF shrinks_wf [OF q(2)] k, of assign_ops]
    by (auto simp: assign_ops_def)
  note r' = peeked_wf [OF r(2) shrinks_wf [OF q(2)]] peeked_ptext [OF r(2) shrinks_wf [OF q(2)]]
  show "returns p (assignment ae p)"
  proof (cases "k = 0 \<or> op = None")
    case True
    with q r r' show ?thesis by (auto simp: assignment_def shrinks_def)
  next
    case False
    then obtain o' n where op: "op = Some (o', n)" and n: "0 < n" "k + n \<le> length (ptext q)"
      using r(3) by fastforce
    from r' k obtain s where s: "parser_read r k = Some (take k (ptext r), s)" "parser_wf s"
      "ptext s = drop k (ptext q)" by (metis parser_read_ok)
    moreover from s n obtain u where u: "parser_read s n = Some (take n (ptext s), u)" "parser_wf u"
      "ptext u = drop n (ptext s)" by (metis add.commute le_diff_conv2 length_drop k parser_read_ok)
    ultimately have "length (ptext u) < length (ptext q)" using n by simp
    with q(2) len u(2) have "shrinks p u" "length (ptext u) < L" by (auto simp: shrinks_def)
    with False op q r s u show ?thesis
      by (auto simp: assignment_def shrinks_def intro!: step_bind [OF ae_ok])
  qed
qed

end

text \<open>The knot: \<open>arithm_expr\<close> with fuel \<open>n\<close> keeps the contract on inputs shorter than \<open>n\<close>.\<close>

lemma arithm_expr_ok: "step_ok n (arithm_expr n)"
proof (induction n)
  case 0
  show ?case by (simp add: step_ok_def)
next
  case (Suc n)
  then have "expr_parser n (arithm_expr n)" by unfold_locales
  then have "step_ok (Suc n) (or_else (assignment (arithm_expr n)) (ternary (arithm_expr n)))"
    by (intro or_else_ok expr_parser.assignment_ok expr_parser.ternary_ok)
  then show ?case by (simp add: step_ok_def)
qed

interpretation ae: expr_parser n "arithm_expr n" for n
  by unfold_locales (rule arithm_expr_ok)

text \<open>The whole parser returns on every parser over a string.\<close>

lemma parse_arithm_expr_returns:
  assumes "parser_wf p"
  shows "returns p (mrsh_parse_arithm_expr p)"
  unfolding mrsh_parse_arithm_expr_def
proof (rule whitespace_bind [OF assms shrinks_refl [OF assms]], goal_cases)
  case (1 q)
  then show ?case
  proof (rule_tac step_bind [OF arithm_expr_ok _ ptext_fuel], goal_cases)
    case (4 e r)
    from 4(6) show ?case
    proof (cases rule: peek_char_case)
      case (empty s)
      with 4 show ?thesis by (auto simp: shrinks_def peeked_wf peeked_ptext)
    next
      case (char c cs s)
      with 4 show ?thesis by (auto simp: shrinks_def peeked_wf peeked_ptext)
    qed
  qed auto
qed

lemma peek_NUL:
  assumes wf: "parser_wf p" and pk: "parser_peek_char p = (NUL, q)"
  shows "ptext q = []"
  using wf
proof (cases rule: peek_char_case)
  case (empty r)
  with pk wf show ?thesis by (simp add: peeked_ptext)
next
  case (char c cs r)
  with pk show ?thesis by simp
qed

text \<open>An expression is returned only when nothing of the text is left.\<close>

lemma parse_arithm_expr_whole:
  assumes wf: "parser_wf p" and e: "mrsh_parse_arithm_expr p = Some (Some e, q)"
  shows "ptext q = []"
proof -
  from consume_whitespace_ok [OF wf] obtain p1 where p1: "consume_whitespace p = Some p1" "parser_wf p1"
    by (auto simp: shrinks_def)
  from step_okE [OF arithm_expr_ok p1(2) ptext_fuel] obtain x p2
    where p2: "arithm_expr (fuel_of p1) p1 = Some (x, p2)" "shrinks p1 p2" by blast
  from e p1 p2 have "parser_peek_char p2 = (NUL, q)"
    by (auto simp: mrsh_parse_arithm_expr_def split: option.splits prod.splits if_splits)
  with p2 peek_NUL show ?thesis by (auto simp: shrinks_def)
qed

section \<open>Properties\<close>

text \<open>
  C11: \<^verbatim>\<open>mrsh_parse_arithm_expr\<close> returns on every text: no loop of the parser and no chain of its
  recursive calls runs forever, whatever the input. It never reads past the end of the text, and it
  returns an expression only when it has consumed the text completely.
\<close>

theorem arithm_parser_total:
  assumes "NUL \<notin> set str"
  shows "\<exists>r q. mrsh_parse_arithm_expr (mrsh_parser_with_data str) = Some (r, q)
    \<and> parser_wf q \<and> length (ptext q) \<le> length str \<and> (r \<noteq> None \<longrightarrow> ptext q = [])"
proof -
  from parse_arithm_expr_returns [OF wf_with_data, of str] assms
  obtain r q where q: "mrsh_parse_arithm_expr (mrsh_parser_with_data str) = Some (r, q)"
    "parser_wf q" "length (ptext q) \<le> length str"
    by (auto simp: returns_def shrinks_def)
  with parse_arithm_expr_whole [OF wf_with_data, of str _ q] show ?thesis by (cases r) auto
qed

theorem arithm_parser_total_witness:
  "\<exists>r q. mrsh_parse_arithm_expr (mrsh_parser_with_data ''1+'') = Some (r, q) \<and> parser_wf q"
  using arithm_parser_total [of "''1+''"] by auto

end
