(* ===== verification/Wsh_Arithm_Eval.thy ===== *)
theory Wsh_Arithm_Eval
  imports Wsh_State Wsh_Arithm_Parse "HOL-Library.Signed_Division"
begin

text \<open>
  The arithmetic evaluator of src/shell/mrsh/shell/arithm.c on 32-bit \<^verbatim>\<open>long\<close>. A function of the C code
  returns a flag and writes \<^verbatim>\<open>*result\<close>; here it returns

    \<^item> \<open>None\<close> when the run is undefined: signed overflow, a shift that C leaves undefined, a \<^verbatim>\<open>double\<close>
      that does not fit into \<^verbatim>\<open>long\<close>, a use of a result that was never written, or an error message that
      reads the \<^verbatim>\<open>argv[0]\<close> of a frame without arguments;
    \<^item> \<open>Some (Fails, st)\<close> when it returns false (the message is on standard error);
    \<^item> \<open>Some (Returns r, st)\<close> when it returns true, where \<open>r = None\<close> says that \<^verbatim>\<open>*result\<close> was not written.

  Right shifts of negative numbers are arithmetic, as the compilers for wasm32 implement them.
\<close>

datatype arith_result = Fails | Returns "int option"

type_synonym arith = "(arith_result \<times> mrsh_state) option"

text \<open>A value that C can represent, else the operation is undefined.\<close>

definition to_long :: "int \<Rightarrow> int option" where
  "to_long v = (if in_long v then Some v else None)"

definition return_long :: "int option \<Rightarrow> mrsh_state \<Rightarrow> arith" where
  "return_long v st = map_option (\<lambda>n. (Returns (Some n), st)) v"

section \<open>Variables\<close>

definition unbound_message :: "string \<Rightarrow> string \<Rightarrow> string" where
  "unbound_message argv0 name = argv0 @ '': '' @ name @ '': unbound variable'' @ [NEWLINE_CHR]"

definition run_variable :: "mrsh_state \<Rightarrow> string \<Rightarrow> arith" where
  "run_variable st name =
     (case mrsh_env_get st name of
        None \<Rightarrow>
          if has_flag (st_options st) MRSH_OPT_NOUNSET
          then do { a \<leftarrow> argv_0 st; Some (Fails, eprint (unbound_message a name) st) }
          else Some (Returns (Some 0), st)
      | Some str \<Rightarrow>
          (case c_strtod str of
             (d, rest) \<Rightarrow>
               (case d of
                  Dnonfinite \<Rightarrow> None
                | Dint v \<Rightarrow>
                    do { n \<leftarrow> to_long v;
                         if rest = str \<or> rest \<noteq> []
                         then do { a \<leftarrow> argv_0 st;
                                   Some (Fails, eprint (a @ '': '' @ name @ '': not a number: '' @ str
                                     @ [NEWLINE_CHR]) st) }
                         else Some (Returns (Some n), st) })))"

section \<open>Operators\<close>

unbundle bit_operations_syntax

text \<open>\<^verbatim>\<open>/\<close> and \<^verbatim>\<open>%\<close> of C truncate; the caller has excluded a zero divisor.\<close>

definition c_div :: "int \<Rightarrow> int \<Rightarrow> int option" where
  "c_div l r = to_long (sgn l * sgn r * (\<bar>l\<bar> div \<bar>r\<bar>))"

text \<open>C makes \<^verbatim>\<open>l % r\<close> undefined when the quotient does not fit.\<close>

definition c_mod :: "int \<Rightarrow> int \<Rightarrow> int option" where
  "c_mod l r = map_option (\<lambda>q. l - q * r) (c_div l r)"

definition c_shl :: "int \<Rightarrow> int \<Rightarrow> int option" where
  "c_shl l r = (if l < 0 \<or> r < 0 \<or> 32 \<le> r then None else to_long (l * 2 ^ nat r))"

definition c_shr :: "int \<Rightarrow> int \<Rightarrow> int option" where
  "c_shr l r = (if r < 0 \<or> 32 \<le> r then None else Some (l div 2 ^ nat r))"

definition division_by_zero :: "string \<Rightarrow> int \<Rightarrow> string \<Rightarrow> int \<Rightarrow> string" where
  "division_by_zero prefix l op r =
     prefix @ ''division by zero: '' @ show_int l @ op @ show_int r @ [NEWLINE_CHR]"

definition run_binop :: "mrsh_state \<Rightarrow> mrsh_arithm_binop_type \<Rightarrow> int \<Rightarrow> int \<Rightarrow> arith" where
  "run_binop st type l r =
     (case type of
        MRSH_ARITHM_BINOP_ASTERISK \<Rightarrow> return_long (to_long (l * r)) st
      | MRSH_ARITHM_BINOP_SLASH \<Rightarrow>
          if r = 0
          then do { a \<leftarrow> argv_0 st; Some (Fails, eprint (division_by_zero (a @ '': '') l ''/'' r) st) }
          else return_long (c_div l r) st
      | MRSH_ARITHM_BINOP_PERCENT \<Rightarrow>
          if r = 0
          then do { a \<leftarrow> argv_0 st; Some (Fails, eprint (division_by_zero (a @ '': '') l ''%'' r) st) }
          else return_long (c_mod l r) st
      | MRSH_ARITHM_BINOP_PLUS \<Rightarrow> return_long (to_long (l + r)) st
      | MRSH_ARITHM_BINOP_MINUS \<Rightarrow> return_long (to_long (l - r)) st
      | MRSH_ARITHM_BINOP_DLESS \<Rightarrow> return_long (c_shl l r) st
      | MRSH_ARITHM_BINOP_DGREAT \<Rightarrow> return_long (c_shr l r) st
      | MRSH_ARITHM_BINOP_LESS \<Rightarrow> return_long (Some (of_bool (l < r))) st
      | MRSH_ARITHM_BINOP_LESSEQ \<Rightarrow> return_long (Some (of_bool (l \<le> r))) st
      | MRSH_ARITHM_BINOP_GREAT \<Rightarrow> return_long (Some (of_bool (l > r))) st
      | MRSH_ARITHM_BINOP_GREATEQ \<Rightarrow> return_long (Some (of_bool (l \<ge> r))) st
      | MRSH_ARITHM_BINOP_DEQ \<Rightarrow> return_long (Some (of_bool (l = r))) st
      | MRSH_ARITHM_BINOP_BANGEQ \<Rightarrow> return_long (Some (of_bool (l \<noteq> r))) st
      | MRSH_ARITHM_BINOP_AND \<Rightarrow> return_long (Some (l AND r)) st
      | MRSH_ARITHM_BINOP_CIRC \<Rightarrow> return_long (Some (l XOR r)) st
      | MRSH_ARITHM_BINOP_OR \<Rightarrow> return_long (Some (l OR r)) st
      | MRSH_ARITHM_BINOP_DAND \<Rightarrow> return_long (Some (of_bool (l \<noteq> 0 \<and> r \<noteq> 0))) st
      | MRSH_ARITHM_BINOP_DOR \<Rightarrow> return_long (Some (of_bool (l \<noteq> 0 \<or> r \<noteq> 0))) st)"

text \<open>The switch of \<^verbatim>\<open>run_arithm_unop\<close>. Unary plus returns without writing the result.\<close>

definition run_unop :: "mrsh_state \<Rightarrow> mrsh_arithm_unop_type \<Rightarrow> int option \<Rightarrow> arith" where
  "run_unop st type val =
     (case type of
        MRSH_ARITHM_UNOP_PLUS \<Rightarrow> Some (Returns None, st)
      | MRSH_ARITHM_UNOP_MINUS \<Rightarrow> do { v \<leftarrow> val; return_long (to_long (- v)) st }
      | MRSH_ARITHM_UNOP_TILDE \<Rightarrow> do { v \<leftarrow> val; return_long (Some (NOT v)) st }
      | MRSH_ARITHM_UNOP_BANG \<Rightarrow> do { v \<leftarrow> val; return_long (Some (of_bool (v = 0))) st })"

definition run_arithm_assign_op ::
  "mrsh_state \<Rightarrow> mrsh_arithm_assign_op \<Rightarrow> int \<Rightarrow> int \<Rightarrow> arith" where
  "run_arithm_assign_op st op cur v =
     (case op of
        MRSH_ARITHM_ASSIGN_NONE \<Rightarrow> Some (Returns (Some v), st)
      | MRSH_ARITHM_ASSIGN_ASTERISK \<Rightarrow> return_long (to_long (cur * v)) st
      | MRSH_ARITHM_ASSIGN_SLASH \<Rightarrow>
          if v = 0 then Some (Fails, eprint (division_by_zero '''' cur ''/'' v) st)
          else return_long (c_div cur v) st
      | MRSH_ARITHM_ASSIGN_PERCENT \<Rightarrow>
          if v = 0 then Some (Fails, eprint (division_by_zero '''' cur ''%'' v) st)
          else return_long (c_mod cur v) st
      | MRSH_ARITHM_ASSIGN_PLUS \<Rightarrow> return_long (to_long (cur + v)) st
      | MRSH_ARITHM_ASSIGN_MINUS \<Rightarrow> return_long (to_long (cur - v)) st
      | MRSH_ARITHM_ASSIGN_DLESS \<Rightarrow> return_long (c_shl cur v) st
      | MRSH_ARITHM_ASSIGN_DGREAT \<Rightarrow> return_long (c_shr cur v) st
      | MRSH_ARITHM_ASSIGN_AND \<Rightarrow> return_long (Some (cur AND v)) st
      | MRSH_ARITHM_ASSIGN_CIRC \<Rightarrow> return_long (Some (cur XOR v)) st
      | MRSH_ARITHM_ASSIGN_OR \<Rightarrow> return_long (Some (cur OR v)) st)"

section \<open>Expressions\<close>

text \<open>Continue with the value of an operand; a false operand ends the evaluation.\<close>

definition with_operand :: "arith \<Rightarrow> (int option \<Rightarrow> mrsh_state \<Rightarrow> arith) \<Rightarrow> arith" where
  "with_operand m k =
     do { (r, st) \<leftarrow> m; case r of Fails \<Rightarrow> Some (Fails, st) | Returns v \<Rightarrow> k v st }"

text \<open>
  The current value is read after the right-hand side was evaluated, and only for the compound
  operators; the attributes of the variable are kept only then.
\<close>

definition run_arithm_assign ::
  "mrsh_state \<Rightarrow> mrsh_arithm_assign_op \<Rightarrow> string \<Rightarrow> int option \<Rightarrow> arith" where
  "run_arithm_assign st op name val =
     with_operand
       (if op = MRSH_ARITHM_ASSIGN_NONE then Some (Returns (Some 0), st) else run_variable st name)
       (\<lambda>cur st1.
          do { v \<leftarrow> val; c \<leftarrow> cur;
               with_operand (run_arithm_assign_op st1 op c v)
                 (\<lambda>res st2.
                    do { n \<leftarrow> res;
                         let attribs = (if op = MRSH_ARITHM_ASSIGN_NONE then MRSH_VAR_ATTRIB_NONE
                                        else env_attribs st name MRSH_VAR_ATTRIB_NONE);
                         Some (Returns (Some n), mrsh_env_set st2 name (show_int n) attribs) }) })"

primrec mrsh_run_arithm_expr :: "mrsh_arithm_expr \<Rightarrow> mrsh_state \<Rightarrow> arith" where
  "mrsh_run_arithm_expr (MRSH_ARITHM_LITERAL v) st = Some (Returns (Some v), st)"
| "mrsh_run_arithm_expr (MRSH_ARITHM_VARIABLE name) st = run_variable st name"
| "mrsh_run_arithm_expr (MRSH_ARITHM_BINOP type l r) st =
     with_operand (mrsh_run_arithm_expr l st) (\<lambda>lv st1.
       with_operand (mrsh_run_arithm_expr r st1) (\<lambda>rv st2.
         do { a \<leftarrow> lv; b \<leftarrow> rv; run_binop st2 type a b }))"
| "mrsh_run_arithm_expr (MRSH_ARITHM_UNOP type body) st =
     with_operand (mrsh_run_arithm_expr body st) (\<lambda>v st1. run_unop st1 type v)"
| "mrsh_run_arithm_expr (MRSH_ARITHM_COND c body else_part) st =
     with_operand (mrsh_run_arithm_expr c st) (\<lambda>cv st1.
       do { v \<leftarrow> cv;
            if v \<noteq> 0 then mrsh_run_arithm_expr body st1 else mrsh_run_arithm_expr else_part st1 })"
| "mrsh_run_arithm_expr (MRSH_ARITHM_ASSIGN op name e) st =
     with_operand (mrsh_run_arithm_expr e st) (\<lambda>v st1. run_arithm_assign st1 op name v)"

section \<open>Ranges\<close>

lemma in_long_bit_iff: "in_long v \<longleftrightarrow> (\<forall>n. bit v (min 31 n) = bit v n)"
proof -
  have "in_long v \<longleftrightarrow> signed_take_bit 31 v = v"
    by (auto simp: in_long_def INT_MIN_def INT_MAX_def signed_take_bit_int_eq_self_iff)
  then show ?thesis by (simp add: bit_eq_iff bit_signed_take_bit_iff)
qed

lemma in_long_bits:
  assumes "in_long a" and "in_long b"
  shows "in_long (a AND b)" and "in_long (a OR b)" and "in_long (a XOR b)" and "in_long (NOT a)"
  using assms unfolding in_long_bit_iff
  by (simp_all add: bit_and_iff bit_or_iff bit_xor_iff bit_not_iff)

lemma in_long_shr:
  assumes "in_long a"
  shows "in_long (a div 2 ^ n)"
proof (cases "0 \<le> a")
  case True
  then have "a div 2 ^ n \<le> a" and "0 \<le> a div 2 ^ n"
    using zdiv_mono2 [of a 1 "2 ^ n"] pos_imp_zdiv_nonneg_iff [of "2 ^ n" a] by simp_all
  with assms show ?thesis by (simp add: in_long_def INT_MIN_def INT_MAX_def)
next
  case False
  then have "a \<le> a div 2 ^ n" and "a div 2 ^ n < 0"
    using zdiv_mono2_neg [of a 1 "2 ^ n"] div_neg_pos_less0 [of a "2 ^ n"] by simp_all
  with assms show ?thesis by (simp add: in_long_def INT_MIN_def INT_MAX_def)
qed

section \<open>Reference semantics over an integer store\<close>

text \<open>
  The value POSIX gives to an expression, on a store of integers and with the operations of HOL:
  truncating division, arithmetic shifts, bitwise operations on two's complement. \<open>None\<close> when the
  value is not defined: a zero divisor, a shift count outside of the word, a value that is not a
  \<^verbatim>\<open>long\<close>, or a unary plus, which the evaluator does not implement.
\<close>

definition ref_binop :: "mrsh_arithm_binop_type \<Rightarrow> int \<Rightarrow> int \<Rightarrow> int option" where
  "ref_binop type l r =
     (case type of
        MRSH_ARITHM_BINOP_ASTERISK \<Rightarrow> to_long (l * r)
      | MRSH_ARITHM_BINOP_SLASH \<Rightarrow> if r = 0 then None else to_long (l sdiv r)
      | MRSH_ARITHM_BINOP_PERCENT \<Rightarrow>
          if r = 0 \<or> \<not> in_long (l sdiv r) then None else Some (l smod r)
      | MRSH_ARITHM_BINOP_PLUS \<Rightarrow> to_long (l + r)
      | MRSH_ARITHM_BINOP_MINUS \<Rightarrow> to_long (l - r)
      | MRSH_ARITHM_BINOP_DLESS \<Rightarrow> if l < 0 \<or> r \<notin> {0..<32} then None else to_long (push_bit (nat r) l)
      | MRSH_ARITHM_BINOP_DGREAT \<Rightarrow> if r \<notin> {0..<32} then None else Some (drop_bit (nat r) l)
      | MRSH_ARITHM_BINOP_LESS \<Rightarrow> Some (of_bool (l < r))
      | MRSH_ARITHM_BINOP_LESSEQ \<Rightarrow> Some (of_bool (l \<le> r))
      | MRSH_ARITHM_BINOP_GREAT \<Rightarrow> Some (of_bool (l > r))
      | MRSH_ARITHM_BINOP_GREATEQ \<Rightarrow> Some (of_bool (l \<ge> r))
      | MRSH_ARITHM_BINOP_DEQ \<Rightarrow> Some (of_bool (l = r))
      | MRSH_ARITHM_BINOP_BANGEQ \<Rightarrow> Some (of_bool (l \<noteq> r))
      | MRSH_ARITHM_BINOP_AND \<Rightarrow> Some (l AND r)
      | MRSH_ARITHM_BINOP_CIRC \<Rightarrow> Some (l XOR r)
      | MRSH_ARITHM_BINOP_OR \<Rightarrow> Some (l OR r)
      | MRSH_ARITHM_BINOP_DAND \<Rightarrow> Some (of_bool (l \<noteq> 0 \<and> r \<noteq> 0))
      | MRSH_ARITHM_BINOP_DOR \<Rightarrow> Some (of_bool (l \<noteq> 0 \<or> r \<noteq> 0)))"

definition ref_unop :: "mrsh_arithm_unop_type \<Rightarrow> int \<Rightarrow> int option" where
  "ref_unop type v =
     (case type of
        MRSH_ARITHM_UNOP_PLUS \<Rightarrow> None
      | MRSH_ARITHM_UNOP_MINUS \<Rightarrow> to_long (- v)
      | MRSH_ARITHM_UNOP_TILDE \<Rightarrow> Some (- v - 1)
      | MRSH_ARITHM_UNOP_BANG \<Rightarrow> Some (of_bool (v = 0)))"

text \<open>\<open>x op= v\<close> is \<open>x = x op v\<close>.\<close>

fun binop_of_assign :: "mrsh_arithm_assign_op \<Rightarrow> mrsh_arithm_binop_type option" where
  "binop_of_assign MRSH_ARITHM_ASSIGN_NONE = None"
| "binop_of_assign MRSH_ARITHM_ASSIGN_ASTERISK = Some MRSH_ARITHM_BINOP_ASTERISK"
| "binop_of_assign MRSH_ARITHM_ASSIGN_SLASH = Some MRSH_ARITHM_BINOP_SLASH"
| "binop_of_assign MRSH_ARITHM_ASSIGN_PERCENT = Some MRSH_ARITHM_BINOP_PERCENT"
| "binop_of_assign MRSH_ARITHM_ASSIGN_PLUS = Some MRSH_ARITHM_BINOP_PLUS"
| "binop_of_assign MRSH_ARITHM_ASSIGN_MINUS = Some MRSH_ARITHM_BINOP_MINUS"
| "binop_of_assign MRSH_ARITHM_ASSIGN_DLESS = Some MRSH_ARITHM_BINOP_DLESS"
| "binop_of_assign MRSH_ARITHM_ASSIGN_DGREAT = Some MRSH_ARITHM_BINOP_DGREAT"
| "binop_of_assign MRSH_ARITHM_ASSIGN_AND = Some MRSH_ARITHM_BINOP_AND"
| "binop_of_assign MRSH_ARITHM_ASSIGN_CIRC = Some MRSH_ARITHM_BINOP_CIRC"
| "binop_of_assign MRSH_ARITHM_ASSIGN_OR = Some MRSH_ARITHM_BINOP_OR"

type_synonym istore = "string \<Rightarrow> int"

primrec aeval :: "mrsh_arithm_expr \<Rightarrow> istore \<Rightarrow> (int \<times> istore) option" where
  "aeval (MRSH_ARITHM_LITERAL v) \<sigma> = Some (v, \<sigma>)"
| "aeval (MRSH_ARITHM_VARIABLE x) \<sigma> = Some (\<sigma> x, \<sigma>)"
| "aeval (MRSH_ARITHM_BINOP type l r) \<sigma> =
     do { (a, \<sigma>1) \<leftarrow> aeval l \<sigma>; (b, \<sigma>2) \<leftarrow> aeval r \<sigma>1; v \<leftarrow> ref_binop type a b; Some (v, \<sigma>2) }"
| "aeval (MRSH_ARITHM_UNOP type e) \<sigma> =
     do { (a, \<sigma>1) \<leftarrow> aeval e \<sigma>; v \<leftarrow> ref_unop type a; Some (v, \<sigma>1) }"
| "aeval (MRSH_ARITHM_COND c l r) \<sigma> =
     do { (a, \<sigma>1) \<leftarrow> aeval c \<sigma>; if a \<noteq> 0 then aeval l \<sigma>1 else aeval r \<sigma>1 }"
| "aeval (MRSH_ARITHM_ASSIGN op x e) \<sigma> =
     do { (a, \<sigma>1) \<leftarrow> aeval e \<sigma>;
          v \<leftarrow> (case binop_of_assign op of None \<Rightarrow> Some a | Some b \<Rightarrow> ref_binop b (\<sigma>1 x) a);
          Some (v, \<sigma>1(x := v)) }"

text \<open>A shell state holds an integer store when every variable is unset and zero, or prints it.\<close>

definition represents :: "mrsh_state \<Rightarrow> istore \<Rightarrow> bool" where
  "represents st \<sigma> \<longleftrightarrow> state_inv st \<and> \<not> has_flag (st_options st) MRSH_OPT_NOUNSET
     \<and> (\<forall>x. in_long (\<sigma> x)
          \<and> (mrsh_env_get st x = Some (show_int (\<sigma> x)) \<or> mrsh_env_get st x = None \<and> \<sigma> x = 0))"

primrec literals_ok :: "mrsh_arithm_expr \<Rightarrow> bool" where
  "literals_ok (MRSH_ARITHM_LITERAL v) = in_long v"
| "literals_ok (MRSH_ARITHM_VARIABLE x) = True"
| "literals_ok (MRSH_ARITHM_BINOP type l r) = (literals_ok l \<and> literals_ok r)"
| "literals_ok (MRSH_ARITHM_UNOP type e) = literals_ok e"
| "literals_ok (MRSH_ARITHM_COND c l r) = (literals_ok c \<and> literals_ok l \<and> literals_ok r)"
| "literals_ok (MRSH_ARITHM_ASSIGN op x e) = literals_ok e"

text \<open>No value, whatever else happens.\<close>

definition no_value :: "arith \<Rightarrow> bool" where
  "no_value m \<longleftrightarrow> (\<forall>v st. m \<noteq> Some (Returns (Some v), st))"

text \<open>A run agrees with the reference.\<close>

definition agrees :: "arith \<Rightarrow> (int \<times> istore) option \<Rightarrow> bool" where
  "agrees m a \<longleftrightarrow>
     (case a of
        None \<Rightarrow> no_value m
      | Some (v, \<sigma>) \<Rightarrow> in_long v \<and> (\<exists>st. m = Some (Returns (Some v), st) \<and> represents st \<sigma>))"

lemma agrees_bind:
  assumes "agrees m a"
    and "\<And>v st \<sigma>. in_long v \<Longrightarrow> represents st \<sigma> \<Longrightarrow> agrees (k (Some v) st) (k' (v, \<sigma>))"
    and "\<And>st. no_value (k None st)"
  shows "agrees (with_operand m k) (Option.bind a k')"
proof (cases a)
  case None
  with assms(1) have nv: "no_value m" by (simp add: agrees_def)
  show ?thesis
  proof (cases m)
    case (Some r)
    obtain x st where r: "r = (x, st)" by fastforce
    show ?thesis
    proof (cases x)
      case (Returns w)
      with nv Some r have "w = None" by (cases w) (auto simp: no_value_def)
      with assms(3) None Some r Returns show ?thesis by (simp add: agrees_def with_operand_def)
    qed (use None Some r in \<open>simp_all add: agrees_def with_operand_def no_value_def\<close>)
  qed (use None in \<open>simp_all add: agrees_def with_operand_def no_value_def\<close>)
next
  case (Some p)
  obtain v \<sigma> where "p = (v, \<sigma>)" by fastforce
  with assms(1) Some obtain st where "in_long v" "represents st \<sigma>" "m = Some (Returns (Some v), st)"
    by (auto simp: agrees_def)
  with assms(2) [of v st \<sigma>] Some \<open>p = (v, \<sigma>)\<close> show ?thesis by (simp add: with_operand_def)
qed

lemma no_value_None [simp]: "no_value None"
  by (simp add: no_value_def)

lemma no_value_Fails [simp]: "no_value (Some (Fails, st))"
  by (simp add: no_value_def)

lemma no_value_bind_argv [simp]: "no_value (do { a \<leftarrow> m; Some (Fails, f a) })"
  by (cases m) simp_all

lemma represents_frame: "represents st \<sigma> \<Longrightarrow> represents (upd_world f st) \<sigma>"
  by (simp add: represents_def upd_world_def [of f st])
    (simp add: upd_world_def [symmetric])

lemma agrees_return:
  "represents st \<sigma> \<Longrightarrow> (\<And>v. r = Some v \<Longrightarrow> in_long v) \<Longrightarrow> r' = r \<Longrightarrow>
   agrees (return_long r st) (do { v \<leftarrow> r'; Some (v, \<sigma>) })"
  by (cases r) (simp_all add: agrees_def return_long_def)

text \<open>The operators.\<close>

lemma to_long_in: "to_long v = Some n \<Longrightarrow> in_long n"
  by (auto simp: to_long_def split: if_splits)

lemma c_div_sdiv: "c_div l r = to_long (l sdiv r)"
  by (simp add: c_div_def signed_divide_int_def sgn_mult)

lemma c_mod_smod: "c_mod l r = (if in_long (l sdiv r) then Some (l smod r) else None)"
  by (simp add: c_mod_def c_div_sdiv to_long_def minus_sdiv_mult_eq_smod)

lemma in_long_smod:
  assumes "in_long l" and "in_long r" and "r \<noteq> 0"
  shows "in_long (l smod r)"
proof -
  have "l smod r = sgn l * (\<bar>l\<bar> mod \<bar>r\<bar>)"
    using assms(3) by (simp add: signed_modulo_int_def)
  moreover have "0 \<le> \<bar>l\<bar> mod \<bar>r\<bar>" "\<bar>l\<bar> mod \<bar>r\<bar> < \<bar>r\<bar>" using assms(3) by simp_all
  ultimately have "\<bar>l smod r\<bar> < \<bar>r\<bar>" using assms(3) by (simp add: abs_mult)
  with assms(2) show ?thesis by (auto simp: in_long_def INT_MIN_def INT_MAX_def)
qed

lemma run_binop_ref:
  assumes "r = 0 \<longrightarrow> type \<notin> {MRSH_ARITHM_BINOP_SLASH, MRSH_ARITHM_BINOP_PERCENT}"
  shows "run_binop st type l r = return_long (ref_binop type l r) st"
  using assms
  by (cases type)
    (auto simp: run_binop_def ref_binop_def c_div_sdiv c_mod_smod c_shl_def c_shr_def
      push_bit_eq_mult drop_bit_eq_div)

lemma ref_binop_in_long: "in_long l \<Longrightarrow> in_long r \<Longrightarrow> ref_binop type l r = Some v \<Longrightarrow> in_long v"
  by (cases type)
    (auto simp: ref_binop_def in_long_bits in_long_smod drop_bit_eq_div in_long_shr
      dest: to_long_in split: if_splits)

lemma run_binop_agrees:
  assumes "represents st \<sigma>" and "in_long l" and "in_long r"
  shows "agrees (run_binop st type l r) (do { v \<leftarrow> ref_binop type l r; Some (v, \<sigma>) })"
proof (cases "r = 0 \<and> type \<in> {MRSH_ARITHM_BINOP_SLASH, MRSH_ARITHM_BINOP_PERCENT}")
  case True
  then show ?thesis by (auto simp: run_binop_def ref_binop_def agrees_def)
next
  case False
  then show ?thesis
    using agrees_return [OF assms(1) ref_binop_in_long [OF assms(2,3)] refl] run_binop_ref [of r type st l]
    by auto
qed

lemma run_unop_agrees:
  assumes "represents st \<sigma>" and "in_long v"
  shows "agrees (run_unop st type (Some v)) (do { n \<leftarrow> ref_unop type v; Some (n, \<sigma>) })"
proof (cases type)
  case MRSH_ARITHM_UNOP_PLUS
  then show ?thesis by (simp add: run_unop_def ref_unop_def agrees_def no_value_def)
next
  case MRSH_ARITHM_UNOP_MINUS
  with agrees_return [OF assms(1) to_long_in refl] show ?thesis by (simp add: run_unop_def ref_unop_def)
next
  case MRSH_ARITHM_UNOP_TILDE
  have "NOT v = - v - 1" by (simp add: not_int_def)
  with MRSH_ARITHM_UNOP_TILDE in_long_bits(4) [OF assms(2,2)] assms(1) show ?thesis
    by (simp add: run_unop_def ref_unop_def agrees_def return_long_def)
next
  case MRSH_ARITHM_UNOP_BANG
  with assms(1) show ?thesis by (simp add: run_unop_def ref_unop_def agrees_def return_long_def)
qed

lemma no_value_unop_None: "no_value (run_unop st type None)"
  by (cases type) (simp_all add: run_unop_def no_value_def)

lemma run_variable_agrees:
  assumes "represents st \<sigma>"
  shows "run_variable st x = Some (Returns (Some (\<sigma> x)), st)" and "in_long (\<sigma> x)"
proof -
  from assms show il: "in_long (\<sigma> x)" by (simp add: represents_def)
  have ne: "show_int (\<sigma> x) \<noteq> []" by (simp add: show_int_def)
  show "run_variable st x = Some (Returns (Some (\<sigma> x)), st)"
  proof (cases "mrsh_env_get st x")
    case None
    with assms have "\<sigma> x = 0" unfolding represents_def by (metis option.distinct(1))
    with None assms show ?thesis by (simp add: represents_def run_variable_def)
  next
    case (Some str)
    with assms have "str = show_int (\<sigma> x)"
      unfolding represents_def by (metis option.distinct(1) option.inject)
    with Some il ne strtod_show_int [OF il] show ?thesis
      by (simp add: run_variable_def to_long_def)
  qed
qed

lemma represents_set:
  assumes "represents st \<sigma>" and "in_long v"
  shows "represents (mrsh_env_set st x (show_int v) a) (\<sigma>(x := v))"
proof -
  have "st_options (mrsh_env_set st x (show_int v) a) = st_options st"
    by (simp add: mrsh_env_set_def upd_world_def)
  with assms show ?thesis by (simp add: represents_def env.get_put)
qed

lemma assign_op_binop:
  "op \<noteq> MRSH_ARITHM_ASSIGN_NONE \<Longrightarrow>
   \<not> (v = 0 \<and> op \<in> {MRSH_ARITHM_ASSIGN_SLASH, MRSH_ARITHM_ASSIGN_PERCENT}) \<Longrightarrow>
   run_arithm_assign_op st op c v = run_binop st (the (binop_of_assign op)) c v"
  by (cases op) (simp_all add: run_arithm_assign_op_def run_binop_def)

lemma binop_of_assign_None [simp]: "binop_of_assign op = None \<longleftrightarrow> op = MRSH_ARITHM_ASSIGN_NONE"
  by (cases op) simp_all

lemma assign_op_agrees:
  assumes "represents st \<sigma>" and "in_long c" and "in_long v" and "op \<noteq> MRSH_ARITHM_ASSIGN_NONE"
  shows "agrees (run_arithm_assign_op st op c v)
    (do { n \<leftarrow> ref_binop (the (binop_of_assign op)) c v; Some (n, \<sigma>) })"
proof (cases "v = 0 \<and> op \<in> {MRSH_ARITHM_ASSIGN_SLASH, MRSH_ARITHM_ASSIGN_PERCENT}")
  case True
  then show ?thesis by (auto simp: run_arithm_assign_op_def ref_binop_def agrees_def)
next
  case False
  with run_binop_agrees [OF assms(1-3)] assms(4) show ?thesis by (simp add: assign_op_binop)
qed

lemma run_assign_agrees:
  assumes st: "represents st \<sigma>" and v: "in_long v"
  shows "agrees (run_arithm_assign st op x (Some v))
    (do { n \<leftarrow> (case binop_of_assign op of None \<Rightarrow> Some v | Some b \<Rightarrow> ref_binop b (\<sigma> x) v);
          Some (n, \<sigma>(x := n)) })"
proof (cases "op = MRSH_ARITHM_ASSIGN_NONE")
  case True
  with represents_set [OF st v] v show ?thesis
    by (simp add: run_arithm_assign_def with_operand_def run_arithm_assign_op_def agrees_def)
next
  case False
  then obtain b where b: "binop_of_assign op = Some b" by fastforce
  have il: "in_long (\<sigma> x)" by (rule run_variable_agrees(2) [OF st])
  from assign_op_agrees [OF st il v False] b
  have ag: "agrees (run_arithm_assign_op st op (\<sigma> x) v) (do { n \<leftarrow> ref_binop b (\<sigma> x) v; Some (n, \<sigma>) })"
    by simp
  have "agrees (with_operand (run_arithm_assign_op st op (\<sigma> x) v)
      (\<lambda>res st2. do { n \<leftarrow> res; Some (Returns (Some n), mrsh_env_set st2 x (show_int n) a) }))
    (Option.bind (do { n \<leftarrow> ref_binop b (\<sigma> x) v; Some (n, \<sigma>) }) (\<lambda>(n, \<tau>). Some (n, \<tau>(x := n))))" for a
    by (rule agrees_bind [OF ag]) (simp_all add: agrees_def represents_set)
  then show ?thesis
    using False b run_variable_agrees(1) [OF st, of x]
    by (simp add: run_arithm_assign_def with_operand_def [of "Some _"])
qed

lemma no_value_assign_None: "no_value (run_arithm_assign st op x None)"
  by (auto simp: run_arithm_assign_def with_operand_def no_value_def split: option.splits arith_result.splits
      if_splits Option.bind_splits)

lemma run_arithm_agrees:
  "represents st \<sigma> \<Longrightarrow> literals_ok e \<Longrightarrow> agrees (mrsh_run_arithm_expr e st) (aeval e \<sigma>)"
proof (induction e arbitrary: st \<sigma>)
  case (MRSH_ARITHM_LITERAL v)
  then show ?case by (simp add: agrees_def)
next
  case (MRSH_ARITHM_VARIABLE x)
  then show ?case by (simp add: run_variable_agrees agrees_def)
next
  case (MRSH_ARITHM_UNOP type e)
  then have "agrees (mrsh_run_arithm_expr e st) (aeval e \<sigma>)" by simp
  then show ?case
    unfolding mrsh_run_arithm_expr.simps aeval.simps
    by (rule agrees_bind) (simp_all only: prod.case run_unop_agrees no_value_unop_None)
next
  case (MRSH_ARITHM_BINOP type l r)
  have inner: "agrees (with_operand (mrsh_run_arithm_expr r st1)
        (\<lambda>rv st2. do { a \<leftarrow> Some v; b \<leftarrow> rv; run_binop st2 type a b }))
      (do { (b, \<sigma>2) \<leftarrow> aeval r \<sigma>1; n \<leftarrow> ref_binop type v b; Some (n, \<sigma>2) })"
    if "in_long v" "represents st1 \<sigma>1" for v st1 \<sigma>1
    by (rule agrees_bind [OF MRSH_ARITHM_BINOP.IH(2)])
      (use that MRSH_ARITHM_BINOP.prems in \<open>simp_all add: run_binop_agrees\<close>)
  from MRSH_ARITHM_BINOP have "agrees (mrsh_run_arithm_expr l st) (aeval l \<sigma>)" by simp
  then show ?case
    unfolding mrsh_run_arithm_expr.simps aeval.simps
  proof (rule agrees_bind, goal_cases)
    case (1 v st1 \<sigma>1)
    with inner show ?case by simp
  next
    case (2 st1)
    show ?case
      by (auto simp: no_value_def with_operand_def split: Option.bind_splits arith_result.splits)
  qed
next
  case (MRSH_ARITHM_COND c l r)
  then have "agrees (mrsh_run_arithm_expr c st) (aeval c \<sigma>)" by simp
  then show ?case
    unfolding mrsh_run_arithm_expr.simps aeval.simps
    by (rule agrees_bind) (use MRSH_ARITHM_COND in simp_all)
next
  case (MRSH_ARITHM_ASSIGN op x e)
  then have "agrees (mrsh_run_arithm_expr e st) (aeval e \<sigma>)" by simp
  then show ?case
    unfolding mrsh_run_arithm_expr.simps aeval.simps
    by (rule agrees_bind) (simp_all only: prod.case run_assign_agrees no_value_assign_None)
qed

section \<open>What the parser builds\<close>

text \<open>
  A property of expressions that every node keeps holds for whatever the parser returns. The
  locale states it for the nodes; its lemmas follow the levels of the parser.
\<close>

lemma c_strtol_in_long: "in_long (fst (c_strtol b str))"
  by (auto simp: c_strtol_def in_long_def INT_MIN_def INT_MAX_def Let_def split: prod.splits if_splits)

definition yields :: "('a \<Rightarrow> bool) \<Rightarrow> 'a parse \<Rightarrow> bool" where
  "yields P f \<longleftrightarrow> (\<forall>p e q. f p = Some (Some e, q) \<longrightarrow> P e)"

lemma yieldsI: "(\<And>p e q. f p = Some (Some e, q) \<Longrightarrow> P e) \<Longrightarrow> yields P f"
  by (auto simp: yields_def)

lemma yieldsD: "yields P f \<Longrightarrow> f p = Some (Some e, q) \<Longrightarrow> P e"
  by (auto simp: yields_def)

lemma yields_or_else: "yields P f \<Longrightarrow> yields P g \<Longrightarrow> yields P (or_else f g)"
  by (rule yieldsI) (auto simp: or_else_def bind_Some_iff dest: yieldsD split: option.splits)

locale expr_property =
  fixes P :: "mrsh_arithm_expr \<Rightarrow> bool"
  assumes P_literal: "in_long v \<Longrightarrow> P (MRSH_ARITHM_LITERAL v)"
    and P_variable: "P (MRSH_ARITHM_VARIABLE x)"
    and P_unop: "P e \<Longrightarrow> P (MRSH_ARITHM_UNOP u e)"
    and P_binop: "P l \<Longrightarrow> P r \<Longrightarrow> P (MRSH_ARITHM_BINOP b l r)"
    and P_cond: "P c \<Longrightarrow> P l \<Longrightarrow> P r \<Longrightarrow> P (MRSH_ARITHM_COND c l r)"
    and P_assign: "P e \<Longrightarrow> P (MRSH_ARITHM_ASSIGN a x e)"
begin

lemma yields_literal: "yields P literal"
  by (rule yieldsI)
    (auto simp: literal_def bind_Some_iff case_prod_unfold intro!: P_literal c_strtol_in_long split: if_splits)

lemma yields_variable: "yields P variable"
  by (rule yieldsI) (auto simp: variable_def bind_Some_iff intro!: P_variable split: if_splits)

lemma yields_term:
  assumes ae: "yields P ae"
  shows "yields P (term_expr ae)"
proof -
  have "yields P (unop ae)"
    by (rule yieldsI)
      (auto simp: unop_def bind_Some_iff intro!: P_unop dest: yieldsD [OF ae] split: option.splits prod.splits)
  moreover have "yields P (paren ae)"
    by (rule yieldsI) (auto simp: paren_def bind_Some_iff dest: yieldsD [OF ae] split: if_splits)
  ultimately show ?thesis
    by (simp add: term_expr_def yields_or_else yields_literal yields_variable)
qed

lemma yields_factor:
  assumes ae: "yields P ae"
  shows "yields P (factor ae)"
proof -
  note tm = yieldsD [OF yields_term [OF ae]]
  have "factor_loop n ae l p = Some (Some e, q) \<Longrightarrow> P l \<Longrightarrow> P e" for n l p e q
  proof (induction n arbitrary: l p)
    case (Suc n)
    from Suc.prems show ?case
      by (auto simp: bind_Some_iff split: option.splits) (use Suc.IH P_binop tm in blast)
  qed simp
  then show ?thesis
    by (intro yieldsI)
      (auto simp: factor_def bind_Some_iff simp del: factor_loop.simps split: option.splits, metis tm)
qed

lemma yields_addend:
  assumes ae: "yields P ae"
  shows "yields P (addend ae)"
proof -
  note fc = yieldsD [OF yields_factor [OF ae]]
  have "addend_loop n ae l p = Some (Some e, q) \<Longrightarrow> P l \<Longrightarrow> P e" for n l p e q
  proof (induction n arbitrary: l p)
    case (Suc n)
    from Suc.prems show ?case
      by (auto simp: bind_Some_iff split: option.splits) (use Suc.IH P_binop fc in blast)
  qed simp
  then show ?thesis
    by (intro yieldsI)
      (auto simp: addend_def bind_Some_iff simp del: addend_loop.simps split: option.splits, metis fc)
qed

lemma yields_right_rec:
  assumes nx: "yields P nx"
  shows "right_rec n nx ops ws p = Some (Some e, q) \<Longrightarrow> P e"
proof (induction n arbitrary: p e q)
  case (Suc n)
  from Suc.prems show ?case
    by (auto simp: bind_Some_iff split: option.splits) (use Suc.IH P_binop yieldsD [OF nx] in blast)+
qed simp

lemma yields_levels:
  assumes ae: "yields P ae"
  shows "yields P (logical_or ae)"
proof -
  have shift: "yields P (shift ae)"
    by (rule yieldsI, unfold shift_def, erule yields_right_rec [OF yields_addend [OF ae]])
  have comp: "yields P (comp_expr ae)"
    by (rule yieldsI, unfold comp_expr_def, erule yields_right_rec [OF shift])
  have equal: "yields P (equal_expr ae)"
    by (rule yieldsI, unfold equal_expr_def, erule yields_right_rec [OF comp])
  have binop: "yields P t \<Longrightarrow> yields P (binop b s t)" for b s t
    by (rule yieldsI, unfold binop_def, erule yields_right_rec)
  show ?thesis
    by (simp add: logical_or_def logical_and_def bitwise_or_def bitwise_xor_def bitwise_and_def binop equal)
qed

lemma yields_ternary:
  assumes ae: "yields P ae"
  shows "yields P (ternary ae)"
proof -
  note lo = yieldsD [OF yields_levels [OF ae]]
  have "ternary_rec n ae p = Some (Some e, q) \<Longrightarrow> P e" for n p e q
  proof (induction n arbitrary: p e q)
    case (Suc n)
    from Suc.prems show ?case
      by (auto simp: bind_Some_iff split: option.splits if_splits) (use Suc.IH P_cond lo in blast)+
  qed simp
  then show ?thesis by (intro yieldsI) (simp add: ternary_def del: ternary_rec.simps)
qed

lemma yields_assignment:
  assumes ae: "yields P ae"
  shows "yields P (assignment ae)"
  by (rule yieldsI)
    (auto simp: assignment_def bind_Some_iff intro!: P_assign dest: yieldsD [OF ae]
      split: option.splits if_splits)

lemma yields_arithm_expr: "yields P (arithm_expr n)"
proof (induction n)
  case 0
  show ?case by (simp add: yields_def)
next
  case (Suc n)
  then have "yields P (or_else (assignment (arithm_expr n)) (ternary (arithm_expr n)))"
    by (intro yields_or_else yields_assignment yields_ternary)
  then show ?case by (simp add: yields_def)
qed

lemma parsed_property: "mrsh_parse_arithm_expr p = Some (Some e, q) \<Longrightarrow> P e"
  by (auto simp: mrsh_parse_arithm_expr_def bind_Some_iff case_prod_unfold simp del: arithm_expr.simps
      split: option.splits if_splits) (metis prod.collapse yieldsD [OF yields_arithm_expr])

end

interpretation lits: expr_property literals_ok
  by unfold_locales simp_all

text \<open>Values are in range on every state, whatever its variables hold.\<close>

lemma run_variable_in_long: "run_variable st x = Some (Returns (Some v), st') \<Longrightarrow> in_long v"
  by (auto simp: run_variable_def bind_Some_iff dest: to_long_in
      split: option.splits if_splits dvalue.splits prod.splits)

lemma run_binop_in_long:
  assumes "in_long l" and "in_long r" and "run_binop st type l r = Some (Returns (Some v), st')"
  shows "in_long v"
proof (cases "r = 0 \<and> type \<in> {MRSH_ARITHM_BINOP_SLASH, MRSH_ARITHM_BINOP_PERCENT}")
  case True
  with assms(3) show ?thesis by (auto simp: run_binop_def bind_Some_iff)
next
  case False
  with assms(3) run_binop_ref [of r type st l] have "ref_binop type l r = Some v"
    by (cases "ref_binop type l r") (auto simp: return_long_def)
  then show ?thesis by (rule ref_binop_in_long [OF assms(1,2)])
qed

lemma run_unop_in_long:
  "in_long a \<Longrightarrow> run_unop st type (Some a) = Some (Returns (Some v), st') \<Longrightarrow> in_long v"
  using in_long_bits(4) [of a a]
  by (cases type) (auto simp: run_unop_def return_long_def dest: to_long_in)

lemma with_operand_Some:
  "with_operand m k = Some (Returns (Some v), st') \<longleftrightarrow>
   (\<exists>w st. m = Some (Returns w, st) \<and> k w st = Some (Returns (Some v), st'))"
proof (cases m)
  case (Some r)
  then show ?thesis by (cases r; cases "fst r") (auto simp: with_operand_def)
qed (simp add: with_operand_def)

lemma run_assign_in_long:
  assumes a: "in_long a" and r: "run_arithm_assign st op x (Some a) = Some (Returns (Some v), st')"
  shows "in_long v"
proof (cases "op = MRSH_ARITHM_ASSIGN_NONE")
  case True
  with a r show ?thesis
    by (auto simp: run_arithm_assign_def with_operand_Some run_arithm_assign_op_def)
next
  case False
  with r obtain c st1 st2 where c: "run_variable st x = Some (Returns (Some c), st1)"
    and v: "run_arithm_assign_op st1 op c a = Some (Returns (Some v), st2)"
    by (auto simp: run_arithm_assign_def with_operand_Some bind_Some_iff)
  show ?thesis
  proof (cases "a = 0 \<and> op \<in> {MRSH_ARITHM_ASSIGN_SLASH, MRSH_ARITHM_ASSIGN_PERCENT}")
    case True
    with v show ?thesis by (auto simp: run_arithm_assign_op_def)
  next
    case nz: False
    from v assign_op_binop [OF False nz] show ?thesis
      by (auto intro: run_binop_in_long [OF run_variable_in_long [OF c] a])
  qed
qed

lemma run_arithm_in_long:
  "literals_ok e \<Longrightarrow> mrsh_run_arithm_expr e st = Some (Returns (Some v), st') \<Longrightarrow> in_long v"
proof (induction e arbitrary: st v st')
  case (MRSH_ARITHM_UNOP type e)
  then obtain w st1 where "mrsh_run_arithm_expr e st = Some (Returns w, st1)"
    and u: "run_unop st1 type w = Some (Returns (Some v), st')" by (auto simp: with_operand_Some)
  with MRSH_ARITHM_UNOP no_value_unop_None [of st1 type] show ?case
    by (cases w) (auto simp: no_value_def intro: run_unop_in_long)
next
  case (MRSH_ARITHM_BINOP type l r)
  then show ?case
    by (auto simp: with_operand_Some bind_Some_iff) (blast intro: run_binop_in_long)
next
  case (MRSH_ARITHM_COND c l r)
  then show ?case by (auto simp: with_operand_Some bind_Some_iff split: if_splits)
next
  case (MRSH_ARITHM_ASSIGN op x e)
  then obtain w st1 where "mrsh_run_arithm_expr e st = Some (Returns w, st1)"
    and u: "run_arithm_assign st1 op x w = Some (Returns (Some v), st')" by (auto simp: with_operand_Some)
  with MRSH_ARITHM_ASSIGN no_value_assign_None [of st1 op x] show ?case
    by (cases w) (auto simp: no_value_def intro: run_assign_in_long)
qed (auto dest: run_variable_in_long)

lemma no_value_unop_plus:
  "no_value (mrsh_run_arithm_expr (MRSH_ARITHM_UNOP MRSH_ARITHM_UNOP_PLUS e) st)"
  by (auto simp: no_value_def with_operand_Some run_unop_def)

section \<open>Properties\<close>


lemma represents_create: "represents (mrsh_state_create w) (\<lambda>_. 0)"
  by (simp add: represents_def mrsh_state_create_def mrsh_env_get_def state_inv_def ht_inv_empty
      get_empty has_flag_def)


text \<open>
  Every value that an arithmetic expansion yields is a \<^verbatim>\<open>long\<close>: for every text that parses, a
  value returned by the evaluator lies between \<^verbatim>\<open>LONG_MIN\<close> and \<^verbatim>\<open>LONG_MAX\<close>, on every state.
\<close>

theorem arithm_value_in_range:
  assumes "mrsh_parse_arithm_expr (mrsh_parser_with_data str) = Some (Some e, q)"
    and "mrsh_run_arithm_expr e st = Some (Returns (Some v), st')"
  shows "INT_MIN \<le> v \<and> v \<le> INT_MAX"
  using run_arithm_in_long [OF lits.parsed_property [OF assms(1)] assms(2)] by (simp add: in_long_def)

theorem arithm_value_in_range_witness:
  "\<exists>e q st'. mrsh_parse_arithm_expr (mrsh_parser_with_data ''2+3'') = Some (Some e, q)
     \<and> mrsh_run_arithm_expr e (mrsh_state_create init_world) = Some (Returns (Some 5), st')
     \<and> INT_MIN \<le> 5 \<and> 5 \<le> INT_MAX"
proof -
  let ?e = "MRSH_ARITHM_BINOP MRSH_ARITHM_BINOP_PLUS (MRSH_ARITHM_LITERAL 2) (MRSH_ARITHM_LITERAL 3)"
  have "map_option fst (mrsh_parse_arithm_expr (mrsh_parser_with_data ''2+3'')) = Some (Some ?e)"
    by code_simp
  then obtain q where p: "mrsh_parse_arithm_expr (mrsh_parser_with_data ''2+3'') = Some (Some ?e, q)"
    by auto
  have r: "mrsh_run_arithm_expr ?e (mrsh_state_create init_world)
      = Some (Returns (Some 5), mrsh_state_create init_world)"
    by (simp add: with_operand_def run_binop_def to_long_def return_long_def in_long_def INT_MIN_def INT_MAX_def)
  from p r arithm_value_in_range [OF p r] show ?thesis by blast
qed

text \<open>
  \<^verbatim>\<open>&&\<close> and \<^verbatim>\<open>||\<close> evaluate both operands: when the left operand decides the result, the right one
  is still run, its assignments take effect, and its errors make the expansion fail.
\<close>

theorem logical_operators_run_both_sides:
  "mrsh_run_arithm_expr (MRSH_ARITHM_BINOP MRSH_ARITHM_BINOP_DAND (MRSH_ARITHM_LITERAL 0) e) st =
     with_operand (mrsh_run_arithm_expr e st) (\<lambda>v st'. map_option (\<lambda>_. (Returns (Some 0), st')) v)
   \<and> mrsh_run_arithm_expr (MRSH_ARITHM_BINOP MRSH_ARITHM_BINOP_DOR (MRSH_ARITHM_LITERAL 1) e) st =
     with_operand (mrsh_run_arithm_expr e st) (\<lambda>v st'. map_option (\<lambda>_. (Returns (Some 1), st')) v)"
proof -
  have "(do { b \<leftarrow> rv; run_binop st' MRSH_ARITHM_BINOP_DAND 0 b }) = map_option (\<lambda>_. (Returns (Some 0), st')) rv"
    "(do { b \<leftarrow> rv; run_binop st' MRSH_ARITHM_BINOP_DOR 1 b }) = map_option (\<lambda>_. (Returns (Some 1), st')) rv"
    for rv st' by (cases rv; simp add: run_binop_def return_long_def)+
  then show ?thesis by (simp add: with_operand_def [of "Some _"])
qed

text \<open>
  Unary plus has no value: the evaluator returns success without writing its result, so that the
  expansion of an expression \<^verbatim>\<open>+e\<close> prints an indeterminate value and an operator applied to it is
  undefined.
\<close>

theorem unary_plus_has_no_value:
  "mrsh_run_arithm_expr (MRSH_ARITHM_UNOP MRSH_ARITHM_UNOP_PLUS e) st \<noteq> Some (Returns (Some v), st')"
  using no_value_unop_plus by (simp add: no_value_def)

end
