(* ===== verification/Wsh_Word.thy ===== *)
theory Wsh_Word
  imports Wsh_State
begin

text \<open>
  The expansions of src/shell/mrsh/shell/word.c that work on a word tree: tilde expansion, field
  splitting, patterns and pathname expansion. A word that the C code aborts on (one that still has
  parameters or substitutions where only strings and lists are expected) makes the result \<open>None\<close>.
  \<^verbatim>\<open>getpwnam\<close> and \<^verbatim>\<open>glob\<close> are parameters.
\<close>

section \<open>Tilde expansion\<close>

definition is_logname_char :: "char \<Rightarrow> bool" where
  "is_logname_char c \<longleftrightarrow> c_isalnum c \<or> c = CHR ''.'' \<or> c = CHR ''_'' \<or> c = CHR ''-''"

text \<open>The home directory of a user, \<open>None\<close> when \<^verbatim>\<open>getpwnam\<close> finds no entry.\<close>

type_synonym passwd = "string \<Rightarrow> string option"

text \<open>\<open>Some (offset, expanded)\<close>; \<open>None\<close> is the result -1.\<close>

definition expand_tilde_at :: "passwd \<Rightarrow> mrsh_state \<Rightarrow> string \<Rightarrow> bool \<Rightarrow> (nat \<times> string) option" where
  "expand_tilde_at pw st str final =
     (if str = [] \<or> hd str \<noteq> CHR ''~'' then None
      else
        let name = takeWhile (\<lambda>c. c \<noteq> CHR ''/'') (tl str) in
        if \<not> list_all is_logname_char name then None
        else if length name = length (tl str) \<and> \<not> final then None
        else
          (case (if name = [] then mrsh_env_get st ''HOME'' else pw name) of
             None \<Rightarrow> None
           | Some dir \<Rightarrow> Some (length name + 1, dir)))"

text \<open>One tilde at the head of \<open>str\<close>: the words so far and the rest of the string.\<close>

definition tilde_here ::
  "passwd \<Rightarrow> mrsh_state \<Rightarrow> bool \<Rightarrow> mrsh_word list \<times> string \<Rightarrow> mrsh_word list \<times> string" where
  "tilde_here pw st final = (\<lambda>(words, str).
     case expand_tilde_at pw st str final of
       None \<Rightarrow> (words, str)
     | Some (offset, expanded) \<Rightarrow> (words @ [mrsh_word_string_create expanded True], drop offset str))"

lemma tilde_here_length: "tilde_here pw st final (words, str) = (ws, s) \<Longrightarrow> length s \<le> length str"
  by (auto simp: tilde_here_def split: option.splits)

text \<open>The loop over the colons of an assignment's value.\<close>

function tilde_colons ::
  "passwd \<Rightarrow> mrsh_state \<Rightarrow> bool \<Rightarrow> mrsh_word list \<times> string \<Rightarrow> mrsh_word list \<times> string" where
  "tilde_colons pw st final (words, str) =
     (if CHR '':'' \<notin> set str then (words, str)
      else
        let n = length (takeWhile (\<lambda>c. c \<noteq> CHR '':'') str) + 1 in
        tilde_colons pw st final
          (tilde_here pw st final
            (words @ [mrsh_word_string_create (take n str) False], drop n str)))"
  by pat_completeness auto
termination
proof (relation "measure (\<lambda>(_, _, _, _, str). length str)", goal_cases)
  case (2 pw st final words str n)
  obtain ws s where t: "tilde_here pw st final
      (words @ [mrsh_word_string_create (take n str) False], drop n str) = (ws, s)" by fastforce
  have "n > 0" "length str > 0" using 2 by auto
  moreover have "length s \<le> length str - n" using tilde_here_length [OF t] by simp
  ultimately have "length s < length str" by linarith
  then show ?case by (simp add: t)
qed simp

definition expand_tilde_string ::
  "passwd \<Rightarrow> mrsh_state \<Rightarrow> bool \<Rightarrow> bool \<Rightarrow> bool \<Rightarrow> string \<Rightarrow> mrsh_word option" where
  "expand_tilde_string pw st assignment first final str =
     (let r0 = (if first then tilde_here pw st final ([], str) else ([], str));
          r1 = (if assignment then tilde_colons pw st final r0 else r0)
      in if fst r1 = [] then None
         else Some (MRSH_WORD_LIST (fst r1 @ [mrsh_word_string_create (snd r1) False]) False))"

fun expand_tilde_rec :: "passwd \<Rightarrow> mrsh_state \<Rightarrow> bool \<Rightarrow> bool \<Rightarrow> bool \<Rightarrow> mrsh_word \<Rightarrow> mrsh_word"
  and expand_tilde_children ::
    "passwd \<Rightarrow> mrsh_state \<Rightarrow> bool \<Rightarrow> bool \<Rightarrow> bool \<Rightarrow> mrsh_word list \<Rightarrow> mrsh_word list"
where
  "expand_tilde_rec pw st assignment first final (MRSH_WORD_STRING str sq sf) =
     (if sq then MRSH_WORD_STRING str sq sf
      else case expand_tilde_string pw st assignment first final str of
             None \<Rightarrow> MRSH_WORD_STRING str sq sf | Some w \<Rightarrow> w)"
| "expand_tilde_rec pw st assignment first final (MRSH_WORD_LIST children dq) =
     (if dq then MRSH_WORD_LIST children dq
      else MRSH_WORD_LIST (expand_tilde_children pw st assignment first final children) dq)"
| "expand_tilde_rec pw st assignment first final w = w"
| "expand_tilde_children pw st assignment first final [] = []"
| "expand_tilde_children pw st assignment first final (c # cs) =
     expand_tilde_rec pw st assignment first (final \<and> cs = []) c
       # expand_tilde_children pw st assignment False final cs"

definition expand_tilde :: "passwd \<Rightarrow> mrsh_state \<Rightarrow> bool \<Rightarrow> mrsh_word \<Rightarrow> mrsh_word" where
  "expand_tilde pw st assignment w = expand_tilde_rec pw st assignment True True w"

section \<open>Field splitting\<close>

text \<open>
  A field under construction is the list of its words. \<open>cur_open\<close> says whether \<^verbatim>\<open>cur_field\<close> points to
  the last field or is NULL.
\<close>

record split_fields_data =
  sf_fields :: "mrsh_word list list"
  cur_open :: bool
  in_ifs :: bool
  in_ifs_non_space :: bool

definition add_to_cur_field :: "split_fields_data \<Rightarrow> mrsh_word \<Rightarrow> split_fields_data" where
  "add_to_cur_field d w =
     (if cur_open d then d\<lparr>sf_fields := butlast (sf_fields d) @ [last (sf_fields d) @ [w]]\<rparr>
      else d\<lparr>sf_fields := sf_fields d @ [[w]], cur_open := True\<rparr>)"

text \<open>The loop over the characters of a string; \<open>piece\<close> is the buffer of the current piece.\<close>

fun split_chars :: "string \<Rightarrow> string \<Rightarrow> string \<Rightarrow> string \<Rightarrow> split_fields_data \<Rightarrow> split_fields_data" where
  "split_chars ifs ifs_non_space [] piece d =
     (if \<not> in_ifs d then add_to_cur_field d (mrsh_word_string_create piece False) else d)"
| "split_chars ifs ifs_non_space (c # cs) piece d =
     (if c \<notin> set ifs
      then split_chars ifs ifs_non_space cs (piece @ [c]) (d\<lparr>in_ifs := False, in_ifs_non_space := False\<rparr>)
      else
        let is_ifs_non_space = c \<in> set ifs_non_space in
        if \<not> in_ifs d \<or> (is_ifs_non_space \<and> in_ifs_non_space d)
        then split_chars ifs ifs_non_space cs []
               ((add_to_cur_field d (mrsh_word_string_create piece False))\<lparr>cur_open := False, in_ifs := True\<rparr>)
        else if is_ifs_non_space
        then split_chars ifs ifs_non_space cs piece (d\<lparr>in_ifs_non_space := True\<rparr>)
        else split_chars ifs ifs_non_space cs piece d)"

fun split_fields_rec ::
  "string \<Rightarrow> string \<Rightarrow> mrsh_word \<Rightarrow> split_fields_data \<Rightarrow> split_fields_data option"
  and split_fields_children ::
    "string \<Rightarrow> string \<Rightarrow> mrsh_word list \<Rightarrow> split_fields_data \<Rightarrow> split_fields_data option"
where
  "split_fields_rec ifs ns (MRSH_WORD_STRING str sq sf) d =
     (if sq \<or> \<not> sf
      then do { w \<leftarrow> mrsh_word_copy (MRSH_WORD_STRING str sq sf);
                Some ((add_to_cur_field d w)\<lparr>in_ifs := False, in_ifs_non_space := False\<rparr>) }
      else Some (split_chars ifs ns str [] d))"
| "split_fields_rec ifs ns (MRSH_WORD_LIST children dq) d =
     (if dq then do { w \<leftarrow> mrsh_word_copy (MRSH_WORD_LIST children dq); Some (add_to_cur_field d w) }
      else split_fields_children ifs ns children d)"
| "split_fields_rec ifs ns w d = None"
| "split_fields_children ifs ns [] d = Some d"
| "split_fields_children ifs ns (c # cs) d =
     do { d1 \<leftarrow> split_fields_rec ifs ns c d; split_fields_children ifs ns cs d1 }"

definition split_start :: split_fields_data where
  "split_start = \<lparr>sf_fields = [], cur_open = False, in_ifs = True, in_ifs_non_space = False\<rparr>"

text \<open>
  \<open>ifs\<close> is the value of \<^verbatim>\<open>IFS\<close>, \<open>None\<close> when it is unset. The array \<^verbatim>\<open>ifs_non_space\<close> has as many bytes as
  \<^verbatim>\<open>IFS\<close> has characters and thus no terminator when all of them are no white space; the search in it
  is for a character of \<^verbatim>\<open>IFS\<close> and ends before its end in that case too.
\<close>

definition default_ifs :: string where "default_ifs = [CHR '' '', TAB, NEWLINE_CHR]"

definition split_fields :: "mrsh_word \<Rightarrow> string option \<Rightarrow> mrsh_word list option" where
  "split_fields w ifs =
     (if ifs = Some [] then map_option (\<lambda>c. [c]) (mrsh_word_copy w)
      else
        let ifs' = (case ifs of None \<Rightarrow> default_ifs | Some s \<Rightarrow> s);
            ns = filter (\<lambda>c. \<not> c_isspace c) ifs'
        in map_option (\<lambda>d. map (\<lambda>ws. MRSH_WORD_LIST ws False) (sf_fields d))
             (split_fields_rec ifs' ns w split_start))"

definition get_fields_str :: "mrsh_word list \<Rightarrow> string list option" where
  "get_fields_str fs = those (map mrsh_word_str fs)"

section \<open>Patterns\<close>

definition is_pathname_metachar :: "char \<Rightarrow> bool" where
  "is_pathname_metachar c \<longleftrightarrow> c = CHR ''*'' \<or> c = CHR ''?'' \<or> c = CHR ''['' \<or> c = CHR '']''"

fun needs_pathname_expansion :: "mrsh_word \<Rightarrow> bool option"
  and any_needs_expansion :: "mrsh_word list \<Rightarrow> bool option"
where
  "needs_pathname_expansion (MRSH_WORD_STRING str sq sf) = Some (\<not> sq \<and> list_ex is_pathname_metachar str)"
| "needs_pathname_expansion (MRSH_WORD_LIST children dq) =
     (if dq then Some False else any_needs_expansion children)"
| "needs_pathname_expansion w = None"
| "any_needs_expansion [] = Some False"
| "any_needs_expansion (c # cs) =
     do { b \<leftarrow> needs_pathname_expansion c; if b then Some True else any_needs_expansion cs }"

definition quote_metachars :: "string \<Rightarrow> string" where
  "quote_metachars str = concat (map (\<lambda>c. if is_pathname_metachar c then [CHR 0x5C, c] else [c]) str)"

fun word_to_pattern_rec :: "bool \<Rightarrow> mrsh_word \<Rightarrow> string option" where
  "word_to_pattern_rec quoted (MRSH_WORD_STRING str sq sf) =
     Some (if quoted \<or> sq then quote_metachars str else str)"
| "word_to_pattern_rec quoted (MRSH_WORD_LIST children dq) =
     map_option concat (those (map (word_to_pattern_rec (quoted \<or> dq)) children))"
| "word_to_pattern_rec quoted w = None"

text \<open>\<open>Some None\<close> is the NULL result: the word has no active pattern character.\<close>

definition word_to_pattern :: "mrsh_word \<Rightarrow> string option option" where
  "word_to_pattern w =
     do { b \<leftarrow> needs_pathname_expansion w;
          if \<not> b then Some None else map_option Some (word_to_pattern_rec False w) }"

section \<open>Pathname expansion\<close>

datatype glob_result = Glob_paths "string list" | Glob_nomatch | Glob_error int

type_synonym glob_func = "string \<Rightarrow> glob_result"

text \<open>The expanded names and whether every \<^verbatim>\<open>glob\<close> call succeeded; a failure ends the loop.\<close>

fun expand_pathnames ::
  "glob_func \<Rightarrow> mrsh_word list \<Rightarrow> string list \<Rightarrow> (bool \<times> int \<times> string list) option" where
  "expand_pathnames glob [] expanded = Some (True, 0, expanded)"
| "expand_pathnames glob (field # fs) expanded =
     do { pattern \<leftarrow> word_to_pattern field;
          (case pattern of
             None \<Rightarrow> do { s \<leftarrow> mrsh_word_str field; expand_pathnames glob fs (expanded @ [s]) }
           | Some pat \<Rightarrow>
               (case glob pat of
                  Glob_paths ps \<Rightarrow> expand_pathnames glob fs (expanded @ ps)
                | Glob_nomatch \<Rightarrow>
                    do { s \<leftarrow> mrsh_word_str field; expand_pathnames glob fs (expanded @ [s]) }
                | Glob_error ret \<Rightarrow> Some (False, ret, expanded))) }"

section \<open>What field splitting keeps\<close>

lemma word_str_list: "mrsh_word_str (MRSH_WORD_LIST ws dq) = concat_opt (map mrsh_word_str ws)"
  by (simp add: concat_opt_def)

declare mrsh_word_str.simps(2) [simp del]

lemma copy_list_Some:
  "mrsh_word_copy (MRSH_WORD_LIST ws dq) = Some w \<longleftrightarrow>
   (\<exists>vs. w = MRSH_WORD_LIST vs dq \<and> those (map mrsh_word_copy ws) = Some vs)"
  by auto

lemma copies_str:
  "(\<And>w w'. w \<in> set ws \<Longrightarrow> mrsh_word_copy w = Some w' \<Longrightarrow> mrsh_word_str w' = mrsh_word_str w) \<Longrightarrow>
   those (map mrsh_word_copy ws) = Some vs \<Longrightarrow> map mrsh_word_str vs = map mrsh_word_str ws"
proof (induction ws arbitrary: vs)
  case (Cons w ws)
  then show ?case by (auto simp: bind_Some_iff simp del: list.map(2)) force
qed simp

text \<open>A copy has the string of its original.\<close>

lemma word_str_copy: "mrsh_word_copy w = Some w' \<Longrightarrow> mrsh_word_str w' = mrsh_word_str w"
proof (induction w arbitrary: w' rule: mrsh_word_str.induct)
  case (2 ws dq)
  from 2(2) obtain vs where vs: "w' = MRSH_WORD_LIST vs dq" "those (map mrsh_word_copy ws) = Some vs"
    unfolding copy_list_Some by blast
  from copies_str [OF 2(1) vs(2)] vs(1) show ?case by (simp add: word_str_list)
qed (auto simp: mrsh_word_string_create_def mrsh_word_parameter_create_def split: option.splits)

text \<open>
  The text of a word that splitting must not lose: everything but the separator characters of the
  results of expansions.
\<close>

fun kept_text :: "string \<Rightarrow> mrsh_word \<Rightarrow> string option" where
  "kept_text ifs (MRSH_WORD_STRING str sq sf) =
     Some (if sq \<or> \<not> sf then str else filter (\<lambda>c. c \<notin> set ifs) str)"
| "kept_text ifs (MRSH_WORD_LIST ws dq) =
     (if dq then mrsh_word_str (MRSH_WORD_LIST ws dq) else concat_opt (map (kept_text ifs) ws))"
| "kept_text ifs w = None"

definition data_text :: "split_fields_data \<Rightarrow> string option" where
  "data_text d = concat_opt (map mrsh_word_str (concat (sf_fields d)))"

definition data_ok :: "split_fields_data \<Rightarrow> bool" where
  "data_ok d \<longleftrightarrow> (cur_open d \<longrightarrow> sf_fields d \<noteq> [])"

lemma data_ok_upd [simp]:
  "data_ok (d\<lparr>in_ifs := b\<rparr>) = data_ok d" "data_ok (d\<lparr>in_ifs_non_space := b\<rparr>) = data_ok d"
  "data_ok (d\<lparr>cur_open := False\<rparr>)"
  by (simp_all add: data_ok_def)

lemma data_text_upd [simp]:
  "data_text (d\<lparr>in_ifs := b\<rparr>) = data_text d" "data_text (d\<lparr>in_ifs_non_space := b\<rparr>) = data_text d"
  "data_text (d\<lparr>cur_open := b\<rparr>) = data_text d"
  by (simp_all add: data_text_def)

lemma add_to_cur_field_ok [simp]: "data_ok (add_to_cur_field d w)"
  by (simp add: data_ok_def add_to_cur_field_def)

lemma add_to_cur_field_text:
  "data_ok d \<Longrightarrow>
   data_text (add_to_cur_field d w) = do { a \<leftarrow> data_text d; b \<leftarrow> mrsh_word_str w; Some (a @ b) }"
proof -
  assume ok: "data_ok d"
  have "concat (sf_fields (add_to_cur_field d w)) = concat (sf_fields d) @ [w]"
  proof (cases "cur_open d")
    case True
    with ok have "sf_fields d \<noteq> []" by (simp add: data_ok_def)
    then have "concat (sf_fields d) = concat (butlast (sf_fields d)) @ last (sf_fields d)"
      by (metis append_butlast_last_id concat.simps concat_append append_Nil2)
    with True show ?thesis by (simp add: add_to_cur_field_def)
  qed (simp add: add_to_cur_field_def)
  then show ?thesis
    by (cases "mrsh_word_str w") (simp_all add: data_text_def concat_opt_append)
qed

lemma split_chars_text:
  "data_ok d \<Longrightarrow> (in_ifs d \<Longrightarrow> piece = []) \<Longrightarrow>
   data_ok (split_chars ifs ns cs piece d) \<and>
   data_text (split_chars ifs ns cs piece d)
     = map_option (\<lambda>a. a @ piece @ filter (\<lambda>c. c \<notin> set ifs) cs) (data_text d)"
proof (induction ifs ns cs piece d rule: split_chars.induct)
  case (1 ifs ns piece d)
  then show ?case
    by (cases "data_text d") (auto simp: add_to_cur_field_text mrsh_word_string_create_def)
next
  case (2 ifs ns c cs piece d)
  show ?case
  proof (cases "c \<in> set ifs")
    case False
    with 2 show ?thesis by simp
  next
    case True
    let ?new = "add_to_cur_field d (mrsh_word_string_create piece False)"
    have "data_text ?new = map_option (\<lambda>a. a @ piece) (data_text d)"
      using 2(5) by (cases "data_text d") (simp_all add: add_to_cur_field_text mrsh_word_string_create_def)
    with True 2 show ?thesis
      by (auto simp: Let_def option.map_comp comp_def)
  qed
qed

lemma split_fields_rec_text:
  "split_fields_rec ifs ns w d = Some d' \<Longrightarrow> data_ok d \<Longrightarrow>
     data_ok d' \<and> data_text d' = do { a \<leftarrow> data_text d; b \<leftarrow> kept_text ifs w; Some (a @ b) }"
  "split_fields_children ifs ns ws d = Some d' \<Longrightarrow> data_ok d \<Longrightarrow>
     data_ok d' \<and> data_text d' = do { a \<leftarrow> data_text d; b \<leftarrow> concat_opt (map (kept_text ifs) ws); Some (a @ b) }"
proof (induction ifs ns w d and ifs ns ws d arbitrary: d' and d'
    rule: split_fields_rec_split_fields_children.induct)
  case (1 ifs ns str sq sf d)
  show ?case
  proof (cases "sq \<or> \<not> sf")
    case True
    with 1 show ?thesis by (auto simp: add_to_cur_field_text mrsh_word_string_create_def)
  next
    case False
    with 1 split_chars_text [of d "[]" ifs ns str] show ?thesis
      by (cases "data_text d") auto
  qed
next
  case (2 ifs ns ws dq d)
  then show ?case
    by (auto simp: bind_Some_iff add_to_cur_field_text word_str_copy simp del: mrsh_word_copy.simps)
next
  case (5 ifs ns c cs d)
  from 5(3) obtain d1 where d1: "split_fields_rec ifs ns c d = Some d1"
    "split_fields_children ifs ns cs d1 = Some d'" by (auto simp: bind_Some_iff)
  from 5(1) [OF d1(1) 5(4)] 5(2) [OF d1] show ?case
    by (cases "data_text d"; cases "kept_text ifs c") simp_all
next
  case (4 ifs ns d)
  then show ?case by (cases "data_text d") simp_all
qed simp_all

text \<open>The strings of the fields, joined.\<close>

lemma fields_text:
  "map_option concat (get_fields_str (map (\<lambda>ws. MRSH_WORD_LIST ws False) wss))
     = concat_opt (map mrsh_word_str (concat wss))"
proof -
  have "concat_opt (map mrsh_word_str (map (\<lambda>ws. MRSH_WORD_LIST ws False) wss))
      = concat_opt (map mrsh_word_str (concat wss))"
    by (induction wss) (simp_all add: word_str_list concat_opt_append)
  then show ?thesis by (simp add: get_fields_str_def concat_opt_def)
qed

section \<open>Splitting at white space\<close>

text \<open>The words of a string: the maximal runs of characters that are no separators.\<close>

function words_of :: "(char \<Rightarrow> bool) \<Rightarrow> string \<Rightarrow> string list" where
  "words_of P s =
     (if dropWhile P s = [] then []
      else takeWhile (\<lambda>c. \<not> P c) (dropWhile P s) # words_of P (dropWhile (\<lambda>c. \<not> P c) (dropWhile P s)))"
  by pat_completeness auto
termination
proof (relation "measure (\<lambda>(_, s). length s)", goal_cases)
  case (2 P s)
  then obtain c cs where s: "dropWhile P s = c # cs" and "\<not> P c"
    by (metis hd_dropWhile list.exhaust list.sel(1))
  then have "length (dropWhile (\<lambda>c. \<not> P c) (dropWhile P s)) \<le> length cs"
    by (simp add: length_dropWhile_le)
  moreover have "length (dropWhile P s) \<le> length s" by (rule length_dropWhile_le)
  ultimately show ?case using s by simp
qed simp

declare words_of.simps [simp del]

lemma words_of_sep: "P c \<Longrightarrow> words_of P (c # s) = words_of P s"
  by (subst (1 2) words_of.simps) simp

lemma words_of_nonsep:
  "\<not> P c \<Longrightarrow> words_of P (c # s) = (c # takeWhile (\<lambda>c. \<not> P c) s) # words_of P (dropWhile (\<lambda>c. \<not> P c) s)"
  by (subst words_of.simps) simp

lemma words_of_Nil [simp]: "words_of P [] = []"
  by (subst words_of.simps) simp

lemma split_chars_words:
  "\<not> cur_open d \<Longrightarrow> in_ifs d = (piece = []) \<Longrightarrow>
   sf_fields (split_chars ifs [] cs piece d) = sf_fields d @ map (\<lambda>f. [mrsh_word_string_create f False])
     (if piece = [] then words_of (\<lambda>c. c \<in> set ifs) cs
      else (piece @ takeWhile (\<lambda>c. c \<notin> set ifs) cs) # words_of (\<lambda>c. c \<in> set ifs) (dropWhile (\<lambda>c. c \<notin> set ifs) cs))"
proof (induction cs arbitrary: piece d)
  case Nil
  then show ?case by (simp add: add_to_cur_field_def)
next
  case (Cons c cs)
  show ?case
  proof (cases "c \<in> set ifs")
    case False
    with Cons.prems Cons.IH [of "d\<lparr>in_ifs := False, in_ifs_non_space := False\<rparr>" "piece @ [c]"]
    show ?thesis by (simp add: words_of_nonsep)
  next
    case True
    show ?thesis
    proof (cases "piece = []")
      case empty: True
      with True Cons.prems Cons.IH [of d "[]"] show ?thesis by (simp add: words_of_sep)
    next
      case False
      let ?d = "(add_to_cur_field d (mrsh_word_string_create piece False))\<lparr>cur_open := False, in_ifs := True\<rparr>"
      from Cons.IH [of ?d "[]"] True False Cons.prems show ?thesis
        by (simp add: words_of_sep add_to_cur_field_def)
    qed
  qed
qed

lemma get_fields_str_single:
  "get_fields_str (map (\<lambda>ws. MRSH_WORD_LIST ws False) (map (\<lambda>f. [mrsh_word_string_create f False]) fs)) = Some fs"
proof (induction fs)
  case (Cons f fs)
  then show ?case
    by (simp add: get_fields_str_def word_str_list mrsh_word_string_create_def)
qed (simp add: get_fields_str_def)

section \<open>Properties\<close>

text \<open>
  C23: Field splitting loses only separators. When \<^verbatim>\<open>split_fields\<close> succeeds with a non-empty \<^verbatim>\<open>IFS\<close>, the
  strings of the fields, joined, are the text of the word without the \<^verbatim>\<open>IFS\<close> characters of its
  expanded parts: quoted text and literal text pass through unchanged, and no character is invented,
  duplicated or moved.
\<close>

theorem split_fields_keeps_text:
  assumes "split_fields w ifs = Some fs" and "ifs \<noteq> Some []"
  shows "map_option concat (get_fields_str fs)
    = kept_text (case ifs of None \<Rightarrow> default_ifs | Some s \<Rightarrow> s) w"
proof -
  let ?ifs = "case ifs of None \<Rightarrow> default_ifs | Some s \<Rightarrow> s"
  from assms obtain d where d: "split_fields_rec ?ifs (filter (\<lambda>c. \<not> c_isspace c) ?ifs) w split_start = Some d"
    and fs: "fs = map (\<lambda>ws. MRSH_WORD_LIST ws False) (sf_fields d)"
    by (auto simp: split_fields_def Let_def)
  from split_fields_rec_text(1) [OF d] show ?thesis
    by (cases "kept_text ?ifs w") (simp_all add: fs fields_text data_text_def data_ok_def split_start_def)
qed

theorem split_fields_keeps_text_witness:
  "\<exists>fs. split_fields (MRSH_WORD_STRING ''a b'' False True) None = Some fs
     \<and> map_option concat (get_fields_str fs) = Some ''ab''"
proof -
  obtain fs where fs: "split_fields (MRSH_WORD_STRING ''a b'' False True) None = Some fs"
    by (auto simp: split_fields_def Let_def)
  from split_fields_keeps_text [OF fs] fs show ?thesis by (simp add: default_ifs_def)
qed

text \<open>
  C28: With white-space separators, the fields of the result of an expansion are its words: the
  maximal runs of other characters, in order. Leading and trailing separators give no fields and a
  run of separators splits once.
\<close>

theorem split_fields_white_space:
  assumes "list_all c_isspace ifs" and "ifs \<noteq> []"
  shows "Option.bind (split_fields (MRSH_WORD_STRING s False True) (Some ifs)) get_fields_str
    = Some (words_of (\<lambda>c. c \<in> set ifs) s)"
proof -
  from assms(1) have "filter (\<lambda>c. \<not> c_isspace c) ifs = []" by (simp add: list_all_iff filter_empty_conv)
  with assms(2) show ?thesis
    using split_chars_words [of split_start "[]" ifs s] get_fields_str_single [of "words_of (\<lambda>c. c \<in> set ifs) s"]
    by (simp add: split_fields_def split_start_def comp_def)
qed

theorem split_fields_white_space_witness:
  "Option.bind (split_fields (MRSH_WORD_STRING '' ls  -l '' False True) (Some '' '')) get_fields_str
    = Some [''ls'', ''-l'']"
  by (subst split_fields_white_space) (simp_all add: c_isspace_def words_of_sep words_of_nonsep)

text \<open>
  An empty field between two separators that are no white space is lost: with \<^verbatim>\<open>IFS=:\<close> the
  expansion \<^verbatim>\<open>a::b\<close> has the two fields \<^verbatim>\<open>a\<close> and \<^verbatim>\<open>b\<close>, and \<^verbatim>\<open>:a\<close> has the one field \<^verbatim>\<open>a\<close>, where POSIX
  gives three and two.
\<close>

theorem split_fields_drops_empty_field:
  "Option.bind (split_fields (MRSH_WORD_STRING ''a::b'' False True) (Some '':'')) get_fields_str
     = Some [''a'', ''b'']
   \<and> Option.bind (split_fields (MRSH_WORD_STRING '':a'' False True) (Some '':'')) get_fields_str
     = Some [''a'']"
  by code_simp

end
