(* ===== verification/Wsh_Word_Parser.thy ===== *)
theory Wsh_Word_Parser
  imports Wsh_Parser
begin

text \<open>
  The parser of words: src/shell/mrsh/parser/word.c. A parsing function takes the parser and gives its
  result and the parser afterwards; an inner \<open>None\<close> is the NULL it returns, an outer \<open>None\<close> a run that
  stops in a failed \<^verbatim>\<open>assert\<close> or outside of a buffer.

  The functions call each other recursively, within the file and with parser/program.c. The calls of
  functions that the file declares only later (in parser.h) go through the record \<open>grammar\<close>; the theory
  of the grammar ties the knot with a fuel argument. The loops over characters count down from the
  length of the input, which they never exceed; those that could run longer, because an alias can make
  the input grow, count down from \<open>g_fuel\<close>.
\<close>

section \<open>Interfaces\<close>

type_synonym 'a parsing = "('a \<times> mrsh_parser) option"

record grammar =
  g_fuel :: nat
  g_word :: "mrsh_parser \<Rightarrow> char \<Rightarrow> mrsh_word option parsing"
  g_arithmetic_word :: "mrsh_parser \<Rightarrow> char \<Rightarrow> mrsh_word option parsing"
  g_parse_program :: "mrsh_parser \<Rightarrow> mrsh_program option parsing"
  g_and_or :: "mrsh_parser \<Rightarrow> mrsh_and_or_list option parsing"
  g_compound_command :: "mrsh_parser \<Rightarrow> mrsh_command option parsing"
  g_else_part :: "mrsh_parser \<Rightarrow> mrsh_command option parsing"

abbreviation set_error :: "mrsh_parser \<Rightarrow> string \<Rightarrow> mrsh_parser" where
  "set_error p msg \<equiv> parser_set_error p (Some msg)"

text \<open>\<^verbatim>\<open>parser_peek(parser, next, 2)\<close>.\<close>

definition peek_two :: "mrsh_parser \<Rightarrow> char list \<times> mrsh_parser" where
  "peek_two p = (case parser_peek p 2 of (cs, p1) \<Rightarrow> (take 2 (cs @ [NUL, NUL]), p1))"

abbreviation skip_char :: "mrsh_parser \<Rightarrow> mrsh_parser option" where
  "skip_char p \<equiv> map_option snd (parser_read_char p)"

section \<open>The redirections of a finished tree\<close>

text \<open>
  The tree with the redirections the parser shared, when their here-documents have been read.
\<close>

definition load_io_redirect_at :: "mrsh_io_redirect list \<Rightarrow> nat \<Rightarrow> mrsh_io_redirect" where
  "load_io_redirect_at rs i = (if i < length rs then rs ! i else Io_redirect_at i)"

fun load_word :: "mrsh_io_redirect list \<Rightarrow> mrsh_word \<Rightarrow> mrsh_word"
  and load_io_redirect :: "mrsh_io_redirect list \<Rightarrow> mrsh_io_redirect \<Rightarrow> mrsh_io_redirect"
  and load_assignment :: "mrsh_io_redirect list \<Rightarrow> mrsh_assignment \<Rightarrow> mrsh_assignment"
  and load_command :: "mrsh_io_redirect list \<Rightarrow> mrsh_command \<Rightarrow> mrsh_command"
  and load_case_item :: "mrsh_io_redirect list \<Rightarrow> mrsh_case_item \<Rightarrow> mrsh_case_item"
  and load_and_or_list :: "mrsh_io_redirect list \<Rightarrow> mrsh_and_or_list \<Rightarrow> mrsh_and_or_list"
  and load_command_list :: "mrsh_io_redirect list \<Rightarrow> mrsh_command_list \<Rightarrow> mrsh_command_list"
  and load_program :: "mrsh_io_redirect list \<Rightarrow> mrsh_program \<Rightarrow> mrsh_program"
where
  "load_word rs (MRSH_WORD_STRING str sq sf) = MRSH_WORD_STRING str sq sf"
| "load_word rs (MRSH_WORD_PARAMETER name op colon arg d) =
     MRSH_WORD_PARAMETER name op colon (map_option (load_word rs) arg) d"
| "load_word rs (MRSH_WORD_COMMAND prog bq) = MRSH_WORD_COMMAND (map_option (load_program rs) prog) bq"
| "load_word rs (MRSH_WORD_ARITHMETIC body) = MRSH_WORD_ARITHMETIC (load_word rs body)"
| "load_word rs (MRSH_WORD_LIST children dq) = MRSH_WORD_LIST (map (load_word rs) children) dq"
| "load_word rs MRSH_WORD_NULL = MRSH_WORD_NULL"
| "load_io_redirect rs (Io_redirect n op name lines) =
     Io_redirect n op (load_word rs name) (map (load_word rs) lines)"
| "load_io_redirect rs (Io_redirect_at i) = load_io_redirect_at rs i"
| "load_assignment rs (Assignment name v) = Assignment name (load_word rs v)"
| "load_command rs (MRSH_SIMPLE_COMMAND name args redirs assigns) =
     MRSH_SIMPLE_COMMAND (map_option (load_word rs) name) (map (load_word rs) args)
       (map (load_io_redirect rs) redirs) (map (load_assignment rs) assigns)"
| "load_command rs (MRSH_BRACE_GROUP body) = MRSH_BRACE_GROUP (map (load_command_list rs) body)"
| "load_command rs (MRSH_SUBSHELL body) = MRSH_SUBSHELL (map (load_command_list rs) body)"
| "load_command rs (MRSH_IF_CLAUSE c b e) =
     MRSH_IF_CLAUSE (map (load_command_list rs) c) (map (load_command_list rs) b)
       (map_option (load_command rs) e)"
| "load_command rs (MRSH_FOR_CLAUSE name has_in ws b) =
     MRSH_FOR_CLAUSE name has_in (map (load_word rs) ws) (map (load_command_list rs) b)"
| "load_command rs (MRSH_LOOP_CLAUSE type c b) =
     MRSH_LOOP_CLAUSE type (map (load_command_list rs) c) (map (load_command_list rs) b)"
| "load_command rs (MRSH_CASE_CLAUSE w items) =
     MRSH_CASE_CLAUSE (load_word rs w) (map (load_case_item rs) items)"
| "load_command rs (MRSH_FUNCTION_DEFINITION name body redirs) =
     MRSH_FUNCTION_DEFINITION name (load_command rs body) (map (load_io_redirect rs) redirs)"
| "load_case_item rs (Case_item ps b) =
     Case_item (map (load_word rs) ps) (map (load_command_list rs) b)"
| "load_and_or_list rs (MRSH_AND_OR_LIST_PIPELINE cs bang) =
     MRSH_AND_OR_LIST_PIPELINE (map (load_command rs) cs) bang"
| "load_and_or_list rs (MRSH_AND_OR_LIST_BINOP type l r) =
     MRSH_AND_OR_LIST_BINOP type (load_and_or_list rs l) (load_and_or_list rs r)"
| "load_command_list rs (Command_list a ampersand) = Command_list (load_and_or_list rs a) ampersand"
| "load_program rs (Program body) = Program (map (load_command_list rs) body)"

section \<open>Single quotes\<close>

fun single_quotes_loop :: "nat \<Rightarrow> mrsh_parser \<Rightarrow> char list \<Rightarrow> mrsh_word option parsing" where
  "single_quotes_loop 0 p b = None"
| "single_quotes_loop (Suc n) p b =
     (case parser_peek_char p of
        (c, p1) \<Rightarrow>
          if c = NUL then Some (None, set_error p1 ''single quotes not terminated'')
          else if c = CHR 0x27
          then do { p2 \<leftarrow> skip_char p1; Some (Some (mrsh_word_string_create b True), p2) }
          else do { p2 \<leftarrow> (if c = NEWLINE_CHR then read_continuation_line p1 else skip_char p1);
                    single_quotes_loop n p2 (b @ [c]) })"

definition single_quotes :: "mrsh_parser \<Rightarrow> mrsh_word option parsing" where
  "single_quotes p =
     do { (c, p1) \<leftarrow> parser_read_char p;
          if c \<noteq> CHR 0x27 then None else single_quotes_loop (input_bound p1 + 2) p1 [] }"

section \<open>Tokens\<close>

definition token :: "mrsh_parser \<Rightarrow> string \<Rightarrow> bool parsing" where
  "token p str =
     do { (b, p1) \<leftarrow> symbol p TOKEN;
          if \<not> b then Some (False, p1)
          else if length str = 1 \<and> \<not> c_isalpha (hd str) then
            (case parser_peek_char p1 of
               (c, p2) \<Rightarrow>
                 if c \<noteq> hd str then Some (False, p2)
                 else do { p3 \<leftarrow> skip_char p2; Some (True, consume_symbol p3) })
          else do {
            (word_len, p2) \<leftarrow> peek_word p1 NUL;
            if length str \<noteq> word_len \<or> take word_len (buf p2) \<noteq> str then Some (False, p2)
            else do { (_, p3) \<leftarrow> parser_read p2 (length str); Some (True, consume_symbol p3) } } }"

definition expect_token :: "mrsh_parser \<Rightarrow> string \<Rightarrow> bool parsing" where
  "expect_token p str =
     do { (b, p1) \<leftarrow> token p str;
          if b then Some (True, p1)
          else Some (False, set_error p1 (''expected '' @ [CHR 0x27] @ str @ [CHR 0x27])) }"

definition read_token :: "mrsh_parser \<Rightarrow> nat \<Rightarrow> string option parsing" where
  "read_token p len =
     do { (b, p1) \<leftarrow> symbol p TOKEN;
          if \<not> b then Some (None, p1)
          else do { (tok, p2) \<leftarrow> parser_read p1 len;
                    if length tok \<noteq> len then None else Some (Some tok, consume_symbol p2) } }"

section \<open>Lists of words\<close>

fun read_blanks :: "nat \<Rightarrow> mrsh_parser \<Rightarrow> char list \<Rightarrow> char list parsing" where
  "read_blanks 0 p b = None"
| "read_blanks (Suc n) p b =
     (case parser_peek_char p of
        (c, p1) \<Rightarrow>
          if \<not> c_isblank c then Some (b, p1)
          else do { (d, p2) \<leftarrow> parser_read_char p1; read_blanks n p2 (b @ [d]) })"

fun word_list_loop ::
  "nat \<Rightarrow> mrsh_parser \<Rightarrow> char \<Rightarrow> (mrsh_parser \<Rightarrow> char \<Rightarrow> mrsh_word option parsing) \<Rightarrow> mrsh_word list \<Rightarrow>
   mrsh_word list parsing" where
  "word_list_loop 0 p end_char f children = None"
| "word_list_loop (Suc n) p end_char f children =
     (case parser_peek_char p of
        (c, p1) \<Rightarrow>
          if c = end_char then Some (children, p1)
          else do {
            (child, p2) \<leftarrow> f p1 end_char;
            (case child of
               None \<Rightarrow> Some (children, p2)
             | Some w \<Rightarrow>
                 do { (b, p3) \<leftarrow> read_blanks (input_bound p2 + 2) p2 [];
                      if b = [] then Some (children @ [w], p3)
                      else word_list_loop n p3 end_char f
                             (children @ [w, mrsh_word_string_create b False]) }) })"

definition word_list_rule ::
  "mrsh_parser \<Rightarrow> char \<Rightarrow> (mrsh_parser \<Rightarrow> char \<Rightarrow> mrsh_word option parsing) \<Rightarrow> mrsh_word option parsing" where
  "word_list_rule p end_char f =
     do { (children, p1) \<leftarrow> word_list_loop (input_bound p + 2) p end_char f [];
          Some (case children of
                  [] \<Rightarrow> None | [child] \<Rightarrow> Some child | _ \<Rightarrow> Some (MRSH_WORD_LIST children False), p1) }"

section \<open>Parameters\<close>

definition char_to_parameter_op_val :: "char \<Rightarrow> mrsh_word_parameter_op" where
  "char_to_parameter_op_val c =
     (if c = CHR ''-'' then MRSH_PARAM_MINUS else if c = CHR ''='' then MRSH_PARAM_EQUAL
      else if c = CHR ''?'' then MRSH_PARAM_QMARK else if c = CHR ''+'' then MRSH_PARAM_PLUS
      else MRSH_PARAM_NONE)"

text \<open>The operation and whether it has a colon; nothing when the C function returns false.\<close>

definition expect_parameter_op :: "mrsh_parser \<Rightarrow> (mrsh_word_parameter_op \<times> bool) option parsing" where
  "expect_parameter_op p =
     do { (c0, p1) \<leftarrow> parser_read_char p;
          let colon = (c0 = CHR '':'');
          (c, p2) \<leftarrow> (if colon then parser_read_char p1 else Some (c0, p1));
          let op = char_to_parameter_op_val c;
          if op \<noteq> MRSH_PARAM_NONE then Some (Some (op, colon), p2)
          else if colon then Some (None, set_error p2 ''expected a parameter operation'')
          else
            (case parser_peek_char p2 of
               (c_next, p3) \<Rightarrow>
                 let is_double = (c = c_next) in
                 if c = CHR ''%'' \<or> c = CHR ''#'' then
                   do { p4 \<leftarrow> (if is_double then skip_char p3 else Some p3);
                        Some (Some (if c = CHR ''%''
                                    then if is_double then MRSH_PARAM_DPERCENT else MRSH_PARAM_PERCENT
                                    else if is_double then MRSH_PARAM_DHASH else MRSH_PARAM_HASH,
                                    colon), p4) }
                 else Some (None, set_error p3 ''expected a parameter operation'')) }"

definition expect_parameter_expression :: "grammar \<Rightarrow> mrsh_parser \<Rightarrow> mrsh_word option parsing" where
  "expect_parameter_expression G p =
     do { (c, p1) \<leftarrow> parser_read_char p;
          if c \<noteq> CHR ''{'' then None
          else do {
            let (h, p2) = parser_peek_char p1;
            (op, p3) \<leftarrow> (if h = CHR ''#''
                         then do { q \<leftarrow> skip_char p2; Some (MRSH_PARAM_LEADING_HASH, q) }
                         else Some (MRSH_PARAM_NONE, p2));
            (name_len, p4) \<leftarrow> peek_name p3 True;
            if name_len = 0 then Some (None, set_error p4 ''expected a parameter'')
            else do {
              (tok, p5) \<leftarrow> read_token p4 name_len;
              (case tok of
                 None \<Rightarrow> Some (None, p5)
               | Some name \<Rightarrow>
                   do { let (e, p6) = parser_peek_char p5;
                        (r, p7) \<leftarrow>
                          (if op = MRSH_PARAM_NONE \<and> e \<noteq> CHR ''}'' then
                             do { (o1, q) \<leftarrow> expect_parameter_op p6;
                                  (case o1 of
                                     None \<Rightarrow> Some (None, q)
                                   | Some (op', colon) \<Rightarrow>
                                       do { (arg, q') \<leftarrow> word_list_rule q (CHR ''}'') (g_word G);
                                            Some (Some (op', colon, arg), q') }) }
                           else Some (Some (op, False, None), p6));
                        (case r of
                           None \<Rightarrow> Some (None, p7)
                         | Some (op', colon, arg) \<Rightarrow>
                             do { (e', p8) \<leftarrow> parser_read_char p7;
                                  if e' \<noteq> CHR ''}''
                                  then Some (None, set_error p8 ''expected end of parameter'')
                                  else Some (Some (mrsh_word_parameter_create name op' colon arg), p8) }) }) } } }"

section \<open>Command substitutions and arithmetic expansions\<close>

definition expect_word_command :: "grammar \<Rightarrow> mrsh_parser \<Rightarrow> mrsh_word option parsing" where
  "expect_word_command G p =
     do { (c, p1) \<leftarrow> parser_read_char p;
          if c \<noteq> CHR ''('' then None
          else do {
            (b, p2) \<leftarrow> symbol p1 TOKEN;
            if \<not> b then None
            else do {
              (prog, p3) \<leftarrow> g_parse_program G ((consume_symbol p2)\<lparr>alias_func := None\<rparr>);
              let p4 = p3\<lparr>alias_func := alias_func p2\<rparr>;
              if mrsh_parser_error p4 \<noteq> None then Some (None, p4)
              else if prog = None then Some (None, set_error p4 ''expected a program'')
              else do {
                (ok, p5) \<leftarrow> expect_token p4 '')'';
                Some (if ok then Some (MRSH_WORD_COMMAND prog False) else None, p5) } } } }"

definition expect_word_arithmetic :: "grammar \<Rightarrow> mrsh_parser \<Rightarrow> mrsh_word option parsing" where
  "expect_word_arithmetic G p =
     do { (c, p1) \<leftarrow> parser_read_char p;
          (d, p2) \<leftarrow> parser_read_char p1;
          if c \<noteq> CHR ''('' \<or> d \<noteq> CHR ''('' then None
          else do {
            (body, p3) \<leftarrow> word_list_rule (p2\<lparr>arith_nested_parens := 0\<rparr>) NUL (g_arithmetic_word G);
            (case body of
               None \<Rightarrow>
                 Some (None, if mrsh_parser_error p3 = None
                             then set_error p3 ''expected an arithmetic expression'' else p3)
             | Some w \<Rightarrow>
                 do { (ok, p4) \<leftarrow> expect_token p3 '')'';
                      if \<not> ok then Some (None, p4)
                      else do {
                        (ok', p5) \<leftarrow> expect_token p4 '')'';
                        Some (if ok' then Some (MRSH_WORD_ARITHMETIC w) else None, p5) } }) } }"

section \<open>Dollar\<close>

text \<open>The assignment \<^verbatim>\<open>wp->dollar_pos = dollar_pos\<close>.\<close>

fun set_dollar_pos :: "mrsh_position \<Rightarrow> mrsh_word \<Rightarrow> mrsh_word" where
  "set_dollar_pos d (MRSH_WORD_PARAMETER name op colon arg _) = MRSH_WORD_PARAMETER name op colon arg d"
| "set_dollar_pos d w = w"

definition is_special_parameter :: "char \<Rightarrow> bool" where
  "is_special_parameter c \<longleftrightarrow>
     c \<in> {CHR ''@'', CHR ''*'', CHR ''#'', CHR ''?'', CHR ''-'', CHR ''$'', CHR ''!''} \<or> c_isdigit c"

definition expect_dollar :: "grammar \<Rightarrow> mrsh_parser \<Rightarrow> mrsh_word option parsing" where
  "expect_dollar G p =
     do { (d, p1) \<leftarrow> parser_read_char p;
          if d \<noteq> CHR ''$'' then None
          else
            (case parser_peek_char p1 of
               (c, p2) \<Rightarrow>
                 if c = CHR ''{'' then
                   do { (wp, p3) \<leftarrow> expect_parameter_expression G p2;
                        Some (map_option (set_dollar_pos (pos p)) wp, p3) }
                 else if c = CHR ''('' then
                   (case peek_two p2 of
                      (next, p3) \<Rightarrow>
                        if next ! 1 = CHR ''('' then expect_word_arithmetic G p3
                        else expect_word_command G p3)
                 else do {
                   (n, p3) \<leftarrow> peek_name p2 False;
                   if n = 0 \<and> \<not> is_special_parameter c
                   then Some (None, set_error p3 ''invalid parameter name'')
                   else do {
                     (tok, p4) \<leftarrow> read_token p3 (if n = 0 then 1 else n);
                     Some (map_option (\<lambda>name.
                       set_dollar_pos (pos p) (mrsh_word_parameter_create name MRSH_PARAM_NONE False None)) tok, p4) } }) }"

section \<open>Back quotes\<close>

text \<open>The text between the quotes, with the quoted characters; nothing when they are not terminated.\<close>

fun back_quotes_loop :: "nat \<Rightarrow> mrsh_parser \<Rightarrow> char list \<Rightarrow> char list option parsing" where
  "back_quotes_loop 0 p b = None"
| "back_quotes_loop (Suc n) p b =
     (case parser_peek_char p of
        (c0, p1) \<Rightarrow>
          if c0 = NUL then Some (None, set_error p1 ''back quotes not terminated'')
          else if c0 = CHR ''`'' then do { p2 \<leftarrow> skip_char p1; Some (Some b, p2) }
          else do {
            (c, p2) \<leftarrow>
              (if c0 = CHR 0x5C then
                 (case peek_two p1 of
                    (next, q) \<Rightarrow>
                      if next ! 1 \<in> {CHR ''$'', CHR ''`'', CHR 0x5C}
                      then do { q' \<leftarrow> skip_char q; Some (next ! 1, q') }
                      else Some (c0, q))
               else Some (c0, p1));
            p3 \<leftarrow> (if c = NEWLINE_CHR then read_continuation_line p2 else skip_char p2);
            back_quotes_loop n p3 (b @ [c]) })"

definition back_quotes :: "grammar \<Rightarrow> mrsh_parser \<Rightarrow> mrsh_word option parsing" where
  "back_quotes G p =
     do { (c, p1) \<leftarrow> parser_read_char p;
          if c \<noteq> CHR ''`'' then None
          else do {
            (b, p2) \<leftarrow> back_quotes_loop (input_bound p1 + 2) p1 [];
            (case b of
               None \<Rightarrow> Some (None, p2)
             | Some str \<Rightarrow>
                 do { (prog, sub) \<leftarrow> g_parse_program G (mrsh_parser_with_data str);
                      (case mrsh_parser_error sub of
                         Some err_msg \<Rightarrow> Some (None, set_error p2 err_msg)
                       | None \<Rightarrow>
                           Some (Some (MRSH_WORD_COMMAND (map_option (load_program (redirects sub)) prog) True), p2)) }) } }"

section \<open>Double quotes\<close>

definition push_buffer_word_string :: "mrsh_word list \<Rightarrow> char list \<Rightarrow> mrsh_word list" where
  "push_buffer_word_string children b =
     (if b = [] then children else children @ [mrsh_word_string_create b False])"

fun double_quotes_loop ::
  "nat \<Rightarrow> grammar \<Rightarrow> mrsh_parser \<Rightarrow> mrsh_word list \<Rightarrow> char list \<Rightarrow> mrsh_word option parsing" where
  "double_quotes_loop 0 G p children b = None"
| "double_quotes_loop (Suc n) G p children b =
     (case parser_peek_char p of
        (c, p1) \<Rightarrow>
          if c = NUL then Some (None, set_error p1 ''double quotes not terminated'')
          else if c = CHR 0x22 then
            do { p2 \<leftarrow> skip_char p1;
                 Some (Some (MRSH_WORD_LIST (push_buffer_word_string children b) True), p2) }
          else if c = CHR ''$'' \<or> c = CHR ''`'' then
            do { (t, p2) \<leftarrow> (if c = CHR ''$'' then expect_dollar G p1 else back_quotes G p1);
                 (case t of
                    None \<Rightarrow> Some (None, p2)
                  | Some w \<Rightarrow> double_quotes_loop n G p2 (push_buffer_word_string children b @ [w]) []) }
          else if c = CHR 0x5C then
            (case peek_two p1 of
               (next, p2) \<Rightarrow>
                 if next ! 1 = NEWLINE_CHR then
                   do { p3 \<leftarrow> skip_char p2; p4 \<leftarrow> read_continuation_line p3;
                        double_quotes_loop n G p4 children b }
                 else do {
                   (c', p3) \<leftarrow>
                     (if next ! 1 \<in> {CHR ''$'', CHR ''`'', CHR 0x22, CHR 0x5C}
                      then do { q \<leftarrow> skip_char p2; Some (next ! 1, q) }
                      else Some (c, p2));
                   p4 \<leftarrow> skip_char p3;
                   double_quotes_loop n G p4 children (b @ [c']) })
          else do { p2 \<leftarrow> skip_char p1; double_quotes_loop n G p2 children (b @ [c]) })"

definition double_quotes :: "grammar \<Rightarrow> mrsh_parser \<Rightarrow> mrsh_word option parsing" where
  "double_quotes G p =
     do { (c, p1) \<leftarrow> parser_read_char p;
          if c \<noteq> CHR 0x22 then None else double_quotes_loop (input_bound p1 + 2) G p1 [] [] }"

section \<open>Words\<close>

text \<open>
  The end of the functions below: the last string is pushed, and a single child is the word itself.
\<close>

definition children_word :: "mrsh_word list \<Rightarrow> mrsh_word" where
  "children_word children = (case children of [w] \<Rightarrow> w | _ \<Rightarrow> MRSH_WORD_LIST children False)"

definition finish_word :: "mrsh_word list \<Rightarrow> char list \<Rightarrow> mrsh_parser \<Rightarrow> mrsh_word option parsing" where
  "finish_word children b p =
     Some (Some (children_word (push_buffer_word_string children b)), consume_symbol p)"

text \<open>The parts of a word that a character introduces.\<close>

definition starts_part :: "char \<Rightarrow> bool" where
  "starts_part c \<longleftrightarrow> c \<in> {CHR ''$'', CHR ''`'', CHR 0x27, CHR 0x22}"

definition word_part :: "grammar \<Rightarrow> char \<Rightarrow> mrsh_parser \<Rightarrow> mrsh_word option parsing" where
  "word_part G c p =
     (if c = CHR ''$'' then expect_dollar G p else if c = CHR ''`'' then back_quotes G p
      else if c = CHR 0x27 then single_quotes p else double_quotes G p)"

fun word_loop ::
  "nat \<Rightarrow> grammar \<Rightarrow> mrsh_parser \<Rightarrow> char \<Rightarrow> mrsh_word list \<Rightarrow> char list \<Rightarrow> mrsh_word option parsing" where
  "word_loop 0 G p end_char children b = None"
| "word_loop (Suc n) G p end_char children b =
     (case parser_peek_char p of
        (c, p1) \<Rightarrow>
          if c = NUL \<or> c = NEWLINE_CHR \<or> c = CHR '')'' \<or> c = end_char then finish_word children b p1
          else if starts_part c then
            do { (t, p2) \<leftarrow> word_part G c p1;
                 (case t of
                    None \<Rightarrow> Some (None, p2)
                  | Some w \<Rightarrow> word_loop n G p2 end_char (push_buffer_word_string children b @ [w]) []) }
          else if c = CHR 0x5C then
            do { p2 \<leftarrow> skip_char p1;
                 (case parser_peek_char p2 of
                    (c', p3) \<Rightarrow>
                      if c' = NEWLINE_CHR
                      then do { p4 \<leftarrow> read_continuation_line p3; word_loop n G p4 end_char children b }
                      else do { p4 \<leftarrow> skip_char p3; word_loop n G p4 end_char children (b @ [c']) }) }
          else if is_operator_start c \<or> c_isblank c then finish_word children b p1
          else do { p2 \<leftarrow> skip_char p1; word_loop n G p2 end_char children (b @ [c]) })"

definition word_rule :: "grammar \<Rightarrow> mrsh_parser \<Rightarrow> char \<Rightarrow> mrsh_word option parsing" where
  "word_rule G p end_char =
     do { (b, p1) \<leftarrow> symbol p TOKEN;
          if \<not> b then Some (None, p1)
          else
            (case parser_peek_char p1 of
               (c, p2) \<Rightarrow>
                 if is_operator_start c \<or> c = CHR '')'' \<or> c = end_char then Some (None, p2)
                 else word_loop (input_bound p2 + 2) G p2 end_char [] []) }"

section \<open>The words of an arithmetic expression\<close>

fun arithmetic_word_loop ::
  "nat \<Rightarrow> grammar \<Rightarrow> mrsh_parser \<Rightarrow> mrsh_word list \<Rightarrow> char list \<Rightarrow> mrsh_word option parsing" where
  "arithmetic_word_loop 0 G p children b = None"
| "arithmetic_word_loop (Suc n) G p children b =
     (case peek_two p of
        (next, p1) \<Rightarrow>
          let c0 = next ! 0 in
          if c0 = NUL \<or> c0 = NEWLINE_CHR \<or> c0 = CHR '';'' \<or> c_isblank c0
             \<or> next = ''))'' \<and> arith_nested_parens p1 = 0
          then finish_word children b p1
          else if starts_part c0 then
            do { (t, p2) \<leftarrow> word_part G c0 p1;
                 (case t of
                    None \<Rightarrow> Some (None, p2)
                  | Some w \<Rightarrow> arithmetic_word_loop n G p2 (push_buffer_word_string children b @ [w]) []) }
          else do {
            (c, p2) \<leftarrow> (if c0 = CHR 0x5C then do { q \<leftarrow> skip_char p1; Some (parser_peek_char q) }
                       else Some (c0, p1));
            if c0 = CHR 0x5C \<and> c = NEWLINE_CHR
            then do { p3 \<leftarrow> read_continuation_line p2; arithmetic_word_loop n G p3 children b }
            else do {
              (b', p3) \<leftarrow> (if next = ''<<'' \<or> next = ''>>''
                           then do { q \<leftarrow> skip_char p2; Some (b @ [c], q) } else Some (b, p2));
              if c = CHR '')'' \<and> arith_nested_parens p3 = 0
              then Some (None, set_error p3 ''unmatched closing parenthesis in arithmetic expression'')
              else do {
                let p4 = (if c = CHR ''('' then p3\<lparr>arith_nested_parens := arith_nested_parens p3 + 1\<rparr>
                          else if c = CHR '')''
                          then p3\<lparr>arith_nested_parens := arith_nested_parens p3 - 1\<rparr> else p3);
                p5 \<leftarrow> skip_char p4;
                arithmetic_word_loop n G p5 children (b' @ [c]) } } })"

definition arithmetic_word :: "grammar \<Rightarrow> mrsh_parser \<Rightarrow> char \<Rightarrow> mrsh_word option parsing" where
  "arithmetic_word G p end_char =
     (case parser_peek_char p of
        (c, p1) \<Rightarrow>
          (case (if c = CHR '')'' then peek_two p1 else ([NUL, NUL], p1)) of
             (next, p2) \<Rightarrow>
               if c = CHR '')'' \<and> next = ''))'' \<and> arith_nested_parens p2 = 0 then Some (None, p2)
               else arithmetic_word_loop (input_bound p2 + 2) G p2 [] []))"

section \<open>Words of parameter expansions only\<close>

fun parameter_expansion_word_loop ::
  "nat \<Rightarrow> grammar \<Rightarrow> mrsh_parser \<Rightarrow> mrsh_word list \<Rightarrow> char list \<Rightarrow> mrsh_word option parsing" where
  "parameter_expansion_word_loop 0 G p children b = None"
| "parameter_expansion_word_loop (Suc n) G p children b =
     (case parser_peek_char p of
        (c, p1) \<Rightarrow>
          if c = NUL then finish_word children b p1
          else if c = CHR ''$'' \<or> c = CHR ''`'' then
            do { (t, p2) \<leftarrow> word_part G c p1;
                 (case t of
                    None \<Rightarrow> Some (None, p2)
                  | Some w \<Rightarrow>
                      parameter_expansion_word_loop n G p2 (push_buffer_word_string children b @ [w]) []) }
          else if c = CHR 0x5C then
            do { p2 \<leftarrow> skip_char p1;
                 (case parser_peek_char p2 of
                    (c', p3) \<Rightarrow>
                      if c' = NEWLINE_CHR
                      then do { p4 \<leftarrow> read_continuation_line p3; parameter_expansion_word_loop n G p4 children b }
                      else do { p4 \<leftarrow> skip_char p3; parameter_expansion_word_loop n G p4 children (b @ [c']) }) }
          else do { p2 \<leftarrow> skip_char p1; parameter_expansion_word_loop n G p2 children (b @ [c]) })"

definition parameter_expansion_word :: "grammar \<Rightarrow> mrsh_parser \<Rightarrow> mrsh_word option parsing" where
  "parameter_expansion_word G p = parameter_expansion_word_loop (input_bound p + 2) G p [] []"

end
