(* ===== verification/Wsh_Command_Parser.thy ===== *)
theory Wsh_Command_Parser
  imports Wsh_Word_Parser
begin

text \<open>
  The parser of commands: the first part of src/shell/mrsh/parser/program.c, up to the commands: operators,
  aliases, redirections, simple commands, here-documents and compound commands. The conventions are
  those of the parser of words. Functions that fill a structure or an array of the caller return it,
  with nothing for the result false.
\<close>

section \<open>Operators and separators\<close>

definition operator_str :: "symbol_name \<Rightarrow> string option" where
  "operator_str s = map_of operators s"

definition operator_rule :: "mrsh_parser \<Rightarrow> symbol_name \<Rightarrow> bool parsing" where
  "operator_rule p s =
     do { (b, p1) \<leftarrow> symbol p s;
          if \<not> b then Some (False, p1)
          else do {
            str \<leftarrow> operator_str s;
            (cs, p2) \<leftarrow> parser_read p1 (length str);
            if take (length str) cs \<noteq> str then None else Some (True, consume_symbol p2) } }"

definition separator_op :: "mrsh_parser \<Rightarrow> char option parsing" where
  "separator_op p =
     do { (b, p1) \<leftarrow> token p ''&'';
          if b then Some (Some (CHR ''&''), p1)
          else do { (b', p2) \<leftarrow> token p1 '';'';
                    Some (if b' then Some (CHR '';'') else None, p2) } }"

definition separator :: "mrsh_parser \<Rightarrow> char option parsing" where
  "separator p =
     do { (sep, p1) \<leftarrow> separator_op p;
          if sep \<noteq> None then do { p2 \<leftarrow> linebreak (input_bound p1 + 2) p1; Some (sep, p2) }
          else do { (b, p2) \<leftarrow> newline_list (input_bound p1 + 2) p1;
                    Some (if b then Some NEWLINE_CHR else None, p2) } }"

definition sequential_sep :: "mrsh_parser \<Rightarrow> bool parsing" where
  "sequential_sep p =
     do { (b, p1) \<leftarrow> token p '';'';
          if b then do { p2 \<leftarrow> linebreak (input_bound p1 + 2) p1; Some (True, p2) }
          else newline_list (input_bound p1 + 2) p1 }"

section \<open>Aliases\<close>

definition is_alias_char :: "char \<Rightarrow> bool" where
  "is_alias_char c \<longleftrightarrow>
     c \<in> {CHR ''_'', CHR ''!'', CHR ''%'', CHR '','', CHR ''@''} \<or> c_isalnum c"

definition peek_alias :: "mrsh_parser \<Rightarrow> nat parsing" where
  "peek_alias p =
     do { (n, p1) \<leftarrow> peek_word p NUL;
          Some (if list_all is_alias_char (take n (buf p1)) then n else 0, p1) }"

text \<open>\<open>last_repl\<close> is a pointer: the loop ends when the same alias is found again.\<close>

fun apply_aliases_loop ::
  "nat \<Rightarrow> (string \<Rightarrow> (nat \<times> string) option) \<Rightarrow> nat option \<Rightarrow> mrsh_parser \<Rightarrow> mrsh_parser option" where
  "apply_aliases_loop 0 f last_repl p = None"
| "apply_aliases_loop (Suc n) f last_repl p =
     do { (b, p1) \<leftarrow> symbol p TOKEN;
          if \<not> b then Some p1
          else do {
            (alias_len, p2) \<leftarrow> peek_alias p1;
            if alias_len = 0 then Some p2
            else
              (case f (take alias_len (buf p2)) of
                 None \<Rightarrow> Some p2
               | Some (ptr, repl) \<Rightarrow>
                   if last_repl = Some ptr then Some p2
                   else apply_aliases_loop n f (Some ptr)
                          (consume_symbol (p2\<lparr>buf := repl @ drop alias_len (buf p2)\<rparr>))) } }"

definition apply_aliases :: "grammar \<Rightarrow> mrsh_parser \<Rightarrow> mrsh_parser option" where
  "apply_aliases G p =
     (case alias_func p of None \<Rightarrow> Some p | Some f \<Rightarrow> apply_aliases_loop (g_fuel G) f None p)"

section \<open>Redirections\<close>

text \<open>The operator and the word after it.\<close>

definition io_here :: "grammar \<Rightarrow> mrsh_parser \<Rightarrow> (mrsh_io_redirect_op \<times> mrsh_word) option parsing" where
  "io_here G p =
     do { (b, p1) \<leftarrow> operator_rule p DLESS;
          (op, p2) \<leftarrow>
            (if b then Some (Some MRSH_IO_DLESS, p1)
             else do { (b', q) \<leftarrow> operator_rule p1 DLESSDASH;
                       Some (if b' then Some MRSH_IO_DLESSDASH else None, q) });
          (case op of
             None \<Rightarrow> Some (None, p2)
           | Some op' \<Rightarrow>
               do { (name, p3) \<leftarrow> word_rule G p2 NUL;
                    (case name of
                       None \<Rightarrow>
                         Some (None, set_error p3 ''expected a name after IO here-document redirection operator'')
                     | Some w \<Rightarrow> Some (Some (op', w), p3)) }) }"

definition io_filename :: "grammar \<Rightarrow> mrsh_parser \<Rightarrow> mrsh_word option parsing" where
  "io_filename G p = word_rule G p NUL"

text \<open>The operators of several characters, in the order in which they are tried.\<close>

definition io_operators :: "(symbol_name \<times> mrsh_io_redirect_op) list" where
  "io_operators =
     [(LESSAND, MRSH_IO_LESSAND), (GREATAND, MRSH_IO_GREATAND), (DGREAT, MRSH_IO_DGREAT),
      (CLOBBER, MRSH_IO_CLOBBER), (LESSGREAT, MRSH_IO_LESSGREAT)]"

fun try_operators ::
  "(symbol_name \<times> mrsh_io_redirect_op) list \<Rightarrow> mrsh_parser \<Rightarrow> mrsh_io_redirect_op option parsing" where
  "try_operators [] p = Some (None, p)"
| "try_operators ((s, op) # ops) p =
     do { (b, p1) \<leftarrow> operator_rule p s; if b then Some (Some op, p1) else try_operators ops p1 }"

definition io_redirect_op :: "mrsh_parser \<Rightarrow> mrsh_io_redirect_op option parsing" where
  "io_redirect_op p =
     do { (b, p1) \<leftarrow> token p ''<'';
          if b then Some (Some MRSH_IO_LESS, p1)
          else do { (b', p2) \<leftarrow> token p1 ''>'';
                    if b' then Some (Some MRSH_IO_GREAT, p2) else try_operators io_operators p2 } }"

definition io_file :: "grammar \<Rightarrow> mrsh_parser \<Rightarrow> (mrsh_io_redirect_op \<times> mrsh_word) option parsing" where
  "io_file G p =
     do { (op, p1) \<leftarrow> io_redirect_op p;
          (case op of
             None \<Rightarrow> Some (None, p1)
           | Some op' \<Rightarrow>
               do { (name, p2) \<leftarrow> io_filename G p1;
                    (case name of
                       None \<Rightarrow>
                         Some (None, set_error p2 ''expected a filename after IO file redirection operator'')
                     | Some w \<Rightarrow> Some (Some (op', w), p2)) }) }"

definition io_number_rule :: "mrsh_parser \<Rightarrow> int parsing" where
  "io_number_rule p =
     do { (b, p1) \<leftarrow> symbol p TOKEN;
          if \<not> b then Some (- 1, p1)
          else
            (case parser_peek_char p1 of
               (c, p2) \<Rightarrow>
                 if \<not> c_isdigit c then Some (- 1, p2)
                 else
                   (case peek_two p2 of
                      (next, p3) \<Rightarrow>
                        if next ! 1 \<noteq> CHR ''<'' \<and> next ! 1 \<noteq> CHR ''>'' then Some (- 1, p3)
                        else do { p4 \<leftarrow> skip_char p3; Some (int (ch c) - 48, consume_symbol p4) })) }"

definition io_redirect :: "grammar \<Rightarrow> mrsh_parser \<Rightarrow> mrsh_io_redirect option parsing" where
  "io_redirect G p =
     do { (n, p1) \<leftarrow> io_number_rule p;
          (f, p2) \<leftarrow> io_file G p1;
          (case f of
             Some (op, name) \<Rightarrow> Some (Some (Io_redirect n op name []), p2)
           | None \<Rightarrow>
               do { (h, p3) \<leftarrow> io_here G p2;
                    (case h of
                       Some (op, name) \<Rightarrow>
                         Some (Some (Io_redirect_at (length (redirects p3))),
                           p3\<lparr>redirects := redirects p3 @ [Io_redirect n op name []],
                              here_documents := here_documents p3 @ [length (redirects p3)]\<rparr>)
                     | None \<Rightarrow>
                         Some (None, if n \<ge> 0 then set_error p3 ''expected an IO redirect after IO number''
                                     else p3)) }) }"

section \<open>Simple commands\<close>

definition assignment_word :: "grammar \<Rightarrow> mrsh_parser \<Rightarrow> mrsh_assignment option parsing" where
  "assignment_word G p =
     do { (b, p1) \<leftarrow> symbol p TOKEN;
          if \<not> b then Some (None, p1)
          else do {
            (name_len, p2) \<leftarrow> peek_name p1 False;
            if name_len = 0 then Some (None, p2)
            else do {
              (c, p3) \<leftarrow> peek_at p2 name_len;
              if c \<noteq> CHR ''='' then Some (None, p3)
              else do {
                (tok, p4) \<leftarrow> read_token p3 name_len;
                name \<leftarrow> tok;
                (_, p5) \<leftarrow> parser_read p4 1;
                (v, p6) \<leftarrow> word_rule G p5 NUL;
                Some (Some (Assignment name
                  (case v of None \<Rightarrow> mrsh_word_string_create [] False | Some w \<Rightarrow> w)), p6) } } } }"

text \<open>The parts of a simple command that its prefix and suffix collect.\<close>

record command_parts =
  cp_arguments :: "mrsh_word list"
  cp_io_redirects :: "mrsh_io_redirect list"
  cp_assignments :: "mrsh_assignment list"

definition cmd_prefix :: "grammar \<Rightarrow> mrsh_parser \<Rightarrow> command_parts \<Rightarrow> command_parts option parsing" where
  "cmd_prefix G p cmd =
     do { (redir, p1) \<leftarrow> io_redirect G p;
          (case redir of
             Some r \<Rightarrow> Some (Some (cmd\<lparr>cp_io_redirects := cp_io_redirects cmd @ [r]\<rparr>), p1)
           | None \<Rightarrow>
               do { (assign, p2) \<leftarrow> assignment_word G p1;
                    (case assign of
                       Some a \<Rightarrow> Some (Some (cmd\<lparr>cp_assignments := cp_assignments cmd @ [a]\<rparr>), p2)
                     | None \<Rightarrow> Some (None, p2)) }) }"

definition cmd_name :: "grammar \<Rightarrow> mrsh_parser \<Rightarrow> mrsh_word option parsing" where
  "cmd_name G p =
     do { p1 \<leftarrow> apply_aliases G p;
          (word_len, p2) \<leftarrow> peek_word p1 NUL;
          if word_len = 0 then word_rule G p2 NUL
          else if take word_len (buf p2) \<in> set shell_keywords then Some (None, p2)
          else do { (tok, p3) \<leftarrow> read_token p2 word_len;
                    str \<leftarrow> tok;
                    Some (Some (mrsh_word_string_create str False), p3) } }"

definition cmd_suffix :: "grammar \<Rightarrow> mrsh_parser \<Rightarrow> command_parts \<Rightarrow> command_parts option parsing" where
  "cmd_suffix G p cmd =
     do { (redir, p1) \<leftarrow> io_redirect G p;
          (case redir of
             Some r \<Rightarrow> Some (Some (cmd\<lparr>cp_io_redirects := cp_io_redirects cmd @ [r]\<rparr>), p1)
           | None \<Rightarrow>
               do { (arg, p2) \<leftarrow> word_rule G p1 NUL;
                    (case arg of
                       Some w \<Rightarrow> Some (Some (cmd\<lparr>cp_arguments := cp_arguments cmd @ [w]\<rparr>), p2)
                     | None \<Rightarrow> Some (None, p2)) }) }"

text \<open>The loops over prefixes and suffixes: \<open>f\<close> is repeated until it returns false.\<close>

fun repeat_parts ::
  "nat \<Rightarrow> (mrsh_parser \<Rightarrow> command_parts \<Rightarrow> command_parts option parsing) \<Rightarrow> mrsh_parser \<Rightarrow> command_parts \<Rightarrow>
   command_parts parsing" where
  "repeat_parts 0 f p cmd = None"
| "repeat_parts (Suc n) f p cmd =
     do { (r, p1) \<leftarrow> f p cmd;
          (case r of None \<Rightarrow> Some (cmd, p1) | Some cmd' \<Rightarrow> repeat_parts n f p1 cmd') }"

definition no_parts :: command_parts where
  "no_parts = \<lparr>cp_arguments = [], cp_io_redirects = [], cp_assignments = []\<rparr>"

definition simple_command :: "grammar \<Rightarrow> mrsh_parser \<Rightarrow> mrsh_command option parsing" where
  "simple_command G p =
     do { (cmd, p1) \<leftarrow> repeat_parts (g_fuel G) (cmd_prefix G) p no_parts;
          (name, p2) \<leftarrow> cmd_name G p1;
          if name = None \<and> cmd = no_parts then Some (None, p2)
          else do {
            (cmd', p3) \<leftarrow> (if name \<noteq> None then repeat_parts (g_fuel G) (cmd_suffix G) p2 cmd else Some (cmd, p2));
            Some (Some (MRSH_SIMPLE_COMMAND name (cp_arguments cmd') (cp_io_redirects cmd')
                          (cp_assignments cmd')), p3) } }"

section \<open>Here-documents\<close>

text \<open>An error of the line stays in the parser of the line; a failing back quote leaves a NULL part.\<close>

fun here_document_line_loop ::
  "nat \<Rightarrow> grammar \<Rightarrow> mrsh_parser \<Rightarrow> mrsh_word list \<Rightarrow> char list \<Rightarrow> mrsh_word option parsing" where
  "here_document_line_loop 0 G p children b = None"
| "here_document_line_loop (Suc n) G p children b =
     (case parser_peek_char p of
        (c, p1) \<Rightarrow>
          if c = NUL then Some (Some (children_word (push_buffer_word_string children b)), p1)
          else if c = CHR ''$'' then
            do { (t, p2) \<leftarrow> expect_dollar G p1;
                 (case t of
                    None \<Rightarrow> Some (None, p2)
                  | Some w \<Rightarrow> here_document_line_loop n G p2 (push_buffer_word_string children b @ [w]) []) }
          else if c = CHR ''`'' then
            do { (t, p2) \<leftarrow> back_quotes G p1;
                 here_document_line_loop n G p2
                   (push_buffer_word_string children b @ [case t of None \<Rightarrow> MRSH_WORD_NULL | Some w \<Rightarrow> w]) [] }
          else do {
            (c', p2) \<leftarrow>
              (if c = CHR 0x5C then
                 (case peek_two p1 of
                    (next, q) \<Rightarrow>
                      if next ! 1 \<in> {CHR ''$'', CHR ''`'', CHR 0x5C}
                      then do { q' \<leftarrow> skip_char q; Some (next ! 1, q') }
                      else Some (c, q))
               else Some (c, p1));
            p3 \<leftarrow> skip_char p2;
            here_document_line_loop n G p3 children (b @ [c']) })"

definition here_document_line :: "grammar \<Rightarrow> mrsh_parser \<Rightarrow> mrsh_word option parsing" where
  "here_document_line G p = here_document_line_loop (input_bound p + 2) G p [] []"

text \<open>Any other type of word aborts.\<close>

fun is_word_quoted :: "mrsh_word \<Rightarrow> bool option"
  and are_words_quoted :: "mrsh_word list \<Rightarrow> bool option" where
  "is_word_quoted (MRSH_WORD_STRING _ single_quoted _) = Some single_quoted"
| "is_word_quoted (MRSH_WORD_LIST children double_quoted) =
     (if double_quoted then Some True else are_words_quoted children)"
| "is_word_quoted _ = None"
| "are_words_quoted [] = Some False"
| "are_words_quoted (w # ws) =
     do { q \<leftarrow> is_word_quoted w; if q then Some True else are_words_quoted ws }"

fun read_line :: "nat \<Rightarrow> mrsh_parser \<Rightarrow> char list \<Rightarrow> char list parsing" where
  "read_line 0 p b = None"
| "read_line (Suc n) p b =
     (case parser_peek_char p of
        (c, p1) \<Rightarrow>
          if c = NUL \<or> c = NEWLINE_CHR then Some (b, p1)
          else do { (d, p2) \<leftarrow> parser_read_char p1; read_line n p2 (b @ [d]) })"

text \<open>The word of a line; the redirections of a command in it are those of the parser of the line.\<close>

definition here_document_word :: "grammar \<Rightarrow> bool \<Rightarrow> string \<Rightarrow> mrsh_word option" where
  "here_document_word G expand_lines line =
     (if expand_lines then
        do { (w, sub) \<leftarrow> here_document_line G (mrsh_parser_with_data line);
             Some (case w of None \<Rightarrow> MRSH_WORD_NULL | Some w' \<Rightarrow> load_word (redirects sub) w') }
      else Some (mrsh_word_string_create line True))"

text \<open>The lines of a here-document, up to the delimiter.\<close>

fun here_document_loop ::
  "nat \<Rightarrow> grammar \<Rightarrow> bool \<Rightarrow> bool \<Rightarrow> string \<Rightarrow> mrsh_parser \<Rightarrow> mrsh_word list \<Rightarrow> (bool \<times> mrsh_word list) parsing" where
  "here_document_loop 0 G trim_tabs expand_lines delim p doc = None"
| "here_document_loop (Suc n) G trim_tabs expand_lines delim p doc =
     do { (b, p1) \<leftarrow> read_line (input_bound p + 2) p [];
          let line = (if trim_tabs then dropWhile (\<lambda>c. c = TAB) b else b);
          let (c, p2) = parser_peek_char p1;
          if line = delim
          then do { p3 \<leftarrow> (if c = NEWLINE_CHR then skip_char p2 else Some p2);
                    Some ((True, doc), consume_symbol p3) }
          else if c = NUL then Some ((False, doc), set_error p2 ''unterminated here-document'')
          else do {
            p3 \<leftarrow> read_continuation_line p2;
            w \<leftarrow> here_document_word G expand_lines line;
            here_document_loop n G trim_tabs expand_lines delim p3 (doc @ [w]) } }"

fun redirect_name :: "mrsh_io_redirect \<Rightarrow> mrsh_word option" where
  "redirect_name (Io_redirect _ _ name _) = Some name"
| "redirect_name _ = None"

text \<open>\<open>i\<close> is the number of the redirection, which receives the lines.\<close>

definition expect_here_document :: "grammar \<Rightarrow> mrsh_parser \<Rightarrow> nat \<Rightarrow> string \<Rightarrow> bool parsing" where
  "expect_here_document G p i delim =
     (case load_io_redirect_at (redirects p) i of
        Io_redirect n op name doc \<Rightarrow>
          do { quoted \<leftarrow> is_word_quoted name;
               ((ok, doc'), p1) \<leftarrow> here_document_loop (input_bound p + 2) G (op = MRSH_IO_DLESSDASH) (\<not> quoted)
                  delim (p\<lparr>continuation_line := True\<rparr>) doc;
               Some (ok, p1\<lparr>redirects := (redirects p1)[i := Io_redirect n op name doc']\<rparr>) }
      | Io_redirect_at _ \<Rightarrow> None)"

text \<open>The loops over the pending here-documents; \<open>newlines\<close>: each one starts with a newline.\<close>

fun here_documents_loop :: "grammar \<Rightarrow> bool \<Rightarrow> nat list \<Rightarrow> mrsh_parser \<Rightarrow> bool parsing" where
  "here_documents_loop G newlines [] p = Some (True, p\<lparr>here_documents := []\<rparr>)"
| "here_documents_loop G newlines (i # is) p =
     do { (b, p1) \<leftarrow> (if newlines then newline p else Some (True, p));
          if \<not> b then Some (False, set_error p1 ''expected a newline followed by a here-document'')
          else do {
            name \<leftarrow> redirect_name (load_io_redirect_at (redirects p1) i);
            delim \<leftarrow> mrsh_word_str name;
            (ok, p2) \<leftarrow> expect_here_document G p1 i delim;
            if ok then here_documents_loop G newlines is p2 else Some (False, p2) } }"

section \<open>Compound lists\<close>

definition term_rule :: "grammar \<Rightarrow> mrsh_parser \<Rightarrow> mrsh_command_list option parsing" where
  "term_rule G p =
     do { (aol, p1) \<leftarrow> g_and_or G p;
          (case aol of
             None \<Rightarrow> Some (None, p1)
           | Some a \<Rightarrow>
               do { (sep, p2) \<leftarrow> separator p1;
                    (ok, p3) \<leftarrow> (if sep = Some NEWLINE_CHR \<and> here_documents p2 \<noteq> []
                                then here_documents_loop G False (here_documents p2) p2
                                else Some (True, p2));
                    Some (if ok then Some (Command_list a (sep = Some (CHR ''&''))) else None, p3) }) }"

fun term_loop :: "nat \<Rightarrow> grammar \<Rightarrow> mrsh_parser \<Rightarrow> mrsh_command_list list \<Rightarrow> mrsh_command_list list parsing" where
  "term_loop 0 G p cmds = None"
| "term_loop (Suc n) G p cmds =
     do { (l, p1) \<leftarrow> term_rule G p;
          (case l of None \<Rightarrow> Some (cmds, p1) | Some c \<Rightarrow> term_loop n G p1 (cmds @ [c])) }"

definition compound_list :: "grammar \<Rightarrow> mrsh_parser \<Rightarrow> mrsh_command_list list option parsing" where
  "compound_list G p =
     do { p1 \<leftarrow> linebreak (input_bound p + 2) p;
          (l, p2) \<leftarrow> term_rule G p1;
          (case l of
             None \<Rightarrow> Some (None, p2)
           | Some c \<Rightarrow> do { (cmds, p3) \<leftarrow> term_loop (g_fuel G) G p2 [c]; Some (Some cmds, p3) }) }"

definition expect_compound_list :: "grammar \<Rightarrow> mrsh_parser \<Rightarrow> mrsh_command_list list option parsing" where
  "expect_compound_list G p =
     do { (l, p1) \<leftarrow> compound_list G p;
          Some (l, if l = None then set_error p1 ''expected a compound list'' else p1) }"

end
