(* ===== verification/Wsh_Program_Parser.thy ===== *)
theory Wsh_Program_Parser
  imports Wsh_Command_Parser
begin

text \<open>
  The parser of programs: the second part of src/shell/mrsh/parser/program.c, from the compound commands to
  the entry points \<^verbatim>\<open>mrsh_parse_line\<close> and \<^verbatim>\<open>mrsh_parse_program\<close>, and the knot that ties the mutual
  recursion of the two files.
\<close>

section \<open>Groups\<close>

definition brace_group :: "grammar \<Rightarrow> mrsh_parser \<Rightarrow> mrsh_command option parsing" where
  "brace_group G p =
     do { (b, p1) \<leftarrow> token p ''{'';
          if \<not> b then Some (None, p1)
          else do {
            (body, p2) \<leftarrow> expect_compound_list G p1;
            (case body of
               None \<Rightarrow> Some (None, p2)
             | Some ls \<Rightarrow>
                 do { (ok, p3) \<leftarrow> expect_token p2 ''}'';
                      Some (if ok then Some (MRSH_BRACE_GROUP ls) else None, p3) }) } }"

definition subshell :: "grammar \<Rightarrow> mrsh_parser \<Rightarrow> mrsh_command option parsing" where
  "subshell G p =
     do { (b, p1) \<leftarrow> token p ''('';
          if \<not> b then Some (None, p1)
          else do {
            (body, p2) \<leftarrow> expect_compound_list G p1;
            (case body of
               None \<Rightarrow> Some (None, p2)
             | Some ls \<Rightarrow>
                 do { (ok, p3) \<leftarrow> expect_token p2 '')'';
                      Some (if ok then Some (MRSH_SUBSHELL ls) else None, p3) }) } }"

section \<open>Conditions\<close>

text \<open>The condition, \<^verbatim>\<open>then\<close> and the body, common to \<^verbatim>\<open>if\<close> and \<^verbatim>\<open>elif\<close>.\<close>

definition if_body ::
  "grammar \<Rightarrow> mrsh_parser \<Rightarrow> (mrsh_command_list list \<times> mrsh_command_list list) option parsing" where
  "if_body G p =
     do { (cond, p1) \<leftarrow> expect_compound_list G p;
          (case cond of
             None \<Rightarrow> Some (None, p1)
           | Some c \<Rightarrow>
               do { (ok, p2) \<leftarrow> expect_token p1 ''then'';
                    if \<not> ok then Some (None, p2)
                    else do { (body, p3) \<leftarrow> expect_compound_list G p2;
                              Some (map_option (Pair c) body, p3) } }) }"

definition else_part_rule :: "grammar \<Rightarrow> mrsh_parser \<Rightarrow> mrsh_command option parsing" where
  "else_part_rule G p =
     do { (b, p1) \<leftarrow> token p ''elif'';
          if b then do {
            (r, p2) \<leftarrow> if_body G p1;
            (case r of
               None \<Rightarrow> Some (None, p2)
             | Some (c, body) \<Rightarrow>
                 do { (ep, p3) \<leftarrow> g_else_part G p2; Some (Some (MRSH_IF_CLAUSE c body ep), p3) }) }
          else do {
            (b', p2) \<leftarrow> token p1 ''else'';
            if \<not> b' then Some (None, p2)
            else do { (body, p3) \<leftarrow> expect_compound_list G p2;
                      Some (map_option MRSH_BRACE_GROUP body, p3) } } }"

definition if_clause :: "grammar \<Rightarrow> mrsh_parser \<Rightarrow> mrsh_command option parsing" where
  "if_clause G p =
     do { (b, p1) \<leftarrow> token p ''if'';
          if \<not> b then Some (None, p1)
          else do {
            (r, p2) \<leftarrow> if_body G p1;
            (case r of
               None \<Rightarrow> Some (None, p2)
             | Some (c, body) \<Rightarrow>
                 do { (ep, p3) \<leftarrow> else_part_rule G p2;
                      (ok, p4) \<leftarrow> expect_token p3 ''fi'';
                      Some (if ok then Some (MRSH_IF_CLAUSE c body ep) else None, p4) }) } }"

section \<open>Loops\<close>

fun wordlist_loop :: "nat \<Rightarrow> grammar \<Rightarrow> mrsh_parser \<Rightarrow> mrsh_word list \<Rightarrow> mrsh_word list parsing" where
  "wordlist_loop 0 G p ws = None"
| "wordlist_loop (Suc n) G p ws =
     do { (w, p1) \<leftarrow> word_rule G p NUL;
          (case w of None \<Rightarrow> Some (ws, p1) | Some w' \<Rightarrow> wordlist_loop n G p1 (ws @ [w'])) }"

definition wordlist :: "grammar \<Rightarrow> mrsh_parser \<Rightarrow> mrsh_word list parsing" where
  "wordlist G p = wordlist_loop (g_fuel G) G p []"

definition expect_do_group :: "grammar \<Rightarrow> mrsh_parser \<Rightarrow> mrsh_command_list list option parsing" where
  "expect_do_group G p =
     do { (b, p1) \<leftarrow> token p ''do'';
          if \<not> b then Some (None, set_error p1 (''expected '' @ [CHR 0x27] @ ''do'' @ [CHR 0x27]))
          else do {
            (body, p2) \<leftarrow> expect_compound_list G p1;
            (case body of
               None \<Rightarrow> Some (None, p2)
             | Some ls \<Rightarrow>
                 do { (b', p3) \<leftarrow> token p2 ''done'';
                      if \<not> b' then Some (None, set_error p3 (''expected '' @ [CHR 0x27] @ ''done'' @ [CHR 0x27]))
                      else Some (Some ls, p3) }) } }"

definition for_clause :: "grammar \<Rightarrow> mrsh_parser \<Rightarrow> mrsh_command option parsing" where
  "for_clause G p =
     do { (b, p1) \<leftarrow> token p ''for'';
          if \<not> b then Some (None, p1)
          else do {
            (name_len, p2) \<leftarrow> peek_name p1 False;
            if name_len = 0 then Some (None, set_error p2 ''expected name'')
            else do {
              (tok, p3) \<leftarrow> read_token p2 name_len;
              name \<leftarrow> tok;
              p4 \<leftarrow> linebreak (input_bound p3 + 2) p3;
              (has_in, p5) \<leftarrow> token p4 ''in'';
              (ws, p6) \<leftarrow> (if has_in then wordlist G p5 else Some ([], p5));
              (sep, p7) \<leftarrow> sequential_sep p6;
              if has_in \<and> \<not> sep then Some (None, set_error p7 ''expected sequential separator'')
              else do { (body, p8) \<leftarrow> expect_do_group G p7;
                        Some (map_option (MRSH_FOR_CLAUSE name has_in ws) body, p8) } } } }"

definition loop_clause :: "grammar \<Rightarrow> mrsh_parser \<Rightarrow> mrsh_command option parsing" where
  "loop_clause G p =
     do { (b, p1) \<leftarrow> token p ''while'';
          (b', p2) \<leftarrow> (if b then Some (False, p1) else token p1 ''until'');
          if \<not> b \<and> \<not> b' then Some (None, p2)
          else do {
            (condition, p3) \<leftarrow> expect_compound_list G p2;
            (case condition of
               None \<Rightarrow> Some (None, p3)
             | Some c \<Rightarrow>
                 do { (body, p4) \<leftarrow> expect_do_group G p3;
                      Some (map_option (MRSH_LOOP_CLAUSE (if b then MRSH_LOOP_WHILE else MRSH_LOOP_UNTIL) c) body,
                            p4) }) } }"

section \<open>Cases\<close>

text \<open>The patterns after the first; nothing after an error.\<close>

fun patterns_loop :: "nat \<Rightarrow> grammar \<Rightarrow> mrsh_parser \<Rightarrow> mrsh_word list \<Rightarrow> mrsh_word list option parsing" where
  "patterns_loop 0 G p ws = None"
| "patterns_loop (Suc n) G p ws =
     do { (b, p1) \<leftarrow> token p ''|'';
          if \<not> b then Some (Some ws, p1)
          else do { (w, p2) \<leftarrow> word_rule G p1 NUL;
                    (case w of
                       None \<Rightarrow> Some (None, set_error p2 ''expected a word'')
                     | Some w' \<Rightarrow> patterns_loop n G p2 (ws @ [w'])) } }"

text \<open>The item, and whether it ends with a double semicolon.\<close>

definition expect_case_item :: "grammar \<Rightarrow> mrsh_parser \<Rightarrow> (mrsh_case_item \<times> bool) option parsing" where
  "expect_case_item G p =
     do { (_, p1) \<leftarrow> token p ''('';
          (w, p2) \<leftarrow> word_rule G p1 NUL;
          (case w of
             None \<Rightarrow> Some (None, set_error p2 ''expected a word'')
           | Some w' \<Rightarrow>
               do { (ps, p3) \<leftarrow> patterns_loop (g_fuel G) G p2 [w'];
                    (case ps of
                       None \<Rightarrow> Some (None, p3)
                     | Some patterns \<Rightarrow>
                         do { (ok, p4) \<leftarrow> expect_token p3 '')'';
                              if \<not> ok then Some (None, p4)
                              else do {
                                (body, p5) \<leftarrow> compound_list G p4;
                                if mrsh_parser_error p5 \<noteq> None then Some (None, p5)
                                else do {
                                  (dsemi, p6) \<leftarrow> operator_rule p5 DSEMI;
                                  p7 \<leftarrow> (if dsemi then linebreak (input_bound p6 + 2) p6 else Some p6);
                                  Some (Some (Case_item patterns (case body of None \<Rightarrow> [] | Some ls \<Rightarrow> ls), dsemi),
                                        p7) } } }) }) }"

fun case_items_loop :: "nat \<Rightarrow> grammar \<Rightarrow> mrsh_parser \<Rightarrow> mrsh_case_item list \<Rightarrow> mrsh_case_item list option parsing" where
  "case_items_loop 0 G p items = None"
| "case_items_loop (Suc n) G p items =
     do { (b, p1) \<leftarrow> token p ''esac'';
          if b then Some (Some items, p1)
          else do {
            (r, p2) \<leftarrow> expect_case_item G p1;
            (case r of
               None \<Rightarrow> Some (None, p2)
             | Some (item, dsemi) \<Rightarrow>
                 if \<not> dsemi then
                   do { (ok, p3) \<leftarrow> expect_token p2 ''esac'';
                        Some (if ok then Some (items @ [item]) else None, p3) }
                 else case_items_loop n G p2 (items @ [item])) } }"

definition case_clause :: "grammar \<Rightarrow> mrsh_parser \<Rightarrow> mrsh_command option parsing" where
  "case_clause G p =
     do { (b, p1) \<leftarrow> token p ''case'';
          if \<not> b then Some (None, p1)
          else do {
            (w, p2) \<leftarrow> word_rule G p1 NUL;
            (case w of
               None \<Rightarrow> Some (None, set_error p2 ''expected a word'')
             | Some w' \<Rightarrow>
                 do { p3 \<leftarrow> linebreak (input_bound p2 + 2) p2;
                      (ok, p4) \<leftarrow> expect_token p3 ''in'';
                      if \<not> ok then Some (None, p4)
                      else do {
                        p5 \<leftarrow> linebreak (input_bound p4 + 2) p4;
                        (items, p6) \<leftarrow> case_items_loop (g_fuel G) G p5 [];
                        Some (map_option (MRSH_CASE_CLAUSE w') items, p6) } }) } }"

section \<open>Function definitions\<close>

text \<open>Is the next character that is no blank an opening parenthesis?\<close>

fun peek_paren :: "nat \<Rightarrow> mrsh_parser \<Rightarrow> nat \<Rightarrow> bool parsing" where
  "peek_paren 0 p i = None"
| "peek_paren (Suc n) p i =
     do { (c, p1) \<leftarrow> peek_at p i;
          if c = CHR ''('' then Some (True, p1)
          else if \<not> c_isblank c then Some (False, p1)
          else peek_paren n p1 (i + 1) }"

fun io_redirects_loop ::
  "nat \<Rightarrow> grammar \<Rightarrow> mrsh_parser \<Rightarrow> mrsh_io_redirect list \<Rightarrow> mrsh_io_redirect list parsing" where
  "io_redirects_loop 0 G p rs = None"
| "io_redirects_loop (Suc n) G p rs =
     do { (r, p1) \<leftarrow> io_redirect G p;
          (case r of None \<Rightarrow> Some (rs, p1) | Some r' \<Rightarrow> io_redirects_loop n G p1 (rs @ [r'])) }"

definition function_definition :: "grammar \<Rightarrow> mrsh_parser \<Rightarrow> mrsh_command option parsing" where
  "function_definition G p =
     do { (name_len, p1) \<leftarrow> peek_name p False;
          if name_len = 0 then Some (None, p1)
          else do {
            (b, p2) \<leftarrow> peek_paren (input_bound p1 + 2) p1 name_len;
            if \<not> b then Some (None, p2)
            else do {
              (tok, p3) \<leftarrow> read_token p2 name_len;
              name \<leftarrow> tok;
              (ok, p4) \<leftarrow> expect_token p3 ''('';
              if \<not> ok then Some (None, p4)
              else do {
                (ok', p5) \<leftarrow> expect_token p4 '')'';
                if \<not> ok' then Some (None, p5)
                else do {
                  p6 \<leftarrow> linebreak (input_bound p5 + 2) p5;
                  (cmd, p7) \<leftarrow> g_compound_command G p6;
                  (case cmd of
                     None \<Rightarrow> Some (None, set_error p7 ''expected a compound command'')
                   | Some body \<Rightarrow>
                       do { (rs, p8) \<leftarrow> io_redirects_loop (g_fuel G) G p7 [];
                            Some (Some (MRSH_FUNCTION_DEFINITION name body rs), p8) }) } } } } }"

definition reserved_words :: "string list" where
  "reserved_words = [''[['', '']]'', ''function'', ''select'']"

definition unspecified_word :: "mrsh_parser \<Rightarrow> bool parsing" where
  "unspecified_word p =
     do { (word_len, p1) \<leftarrow> peek_word p NUL;
          if word_len = 0 then Some (False, p1)
          else
            let w = take word_len (buf p1) in
            if w \<in> set reserved_words
            then Some (True, set_error p1 (''keyword is reserved and causes unspecified results: '' @ w))
            else do {
              (name_len, p2) \<leftarrow> peek_name p1 False;
              if name_len = 0 then Some (False, p2)
              else do {
                (c, p3) \<leftarrow> peek_at p2 name_len;
                if c = CHR '':''
                then Some (True, set_error p3
                  ''words that are the concatenation of a name and a colon produce unspecified results'')
                else Some (False, p3) } } }"

section \<open>Commands and lists\<close>

text \<open>The next alternative is tried when the first one returns NULL and sets no error.\<close>

definition otherwise ::
  "'a option parsing \<Rightarrow> (mrsh_parser \<Rightarrow> 'a option parsing) \<Rightarrow> 'a option parsing" where
  "otherwise m k =
     do { (r, p) \<leftarrow> m; if r \<noteq> None \<or> mrsh_parser_error p \<noteq> None then Some (r, p) else k p }"

definition compound_command :: "grammar \<Rightarrow> mrsh_parser \<Rightarrow> mrsh_command option parsing" where
  "compound_command G p =
     otherwise (brace_group G p) (\<lambda>p.
     otherwise (subshell G p) (\<lambda>p.
     otherwise (if_clause G p) (\<lambda>p.
     otherwise (for_clause G p) (\<lambda>p.
     otherwise (loop_clause G p) (\<lambda>p.
     otherwise (case_clause G p) (\<lambda>p.
       do { (b, p1) \<leftarrow> unspecified_word p;
            if b then Some (None, p1) else function_definition G p1 }))))))"

definition command_rule :: "grammar \<Rightarrow> mrsh_parser \<Rightarrow> mrsh_command option parsing" where
  "command_rule G p =
     do { p1 \<leftarrow> apply_aliases G p; otherwise (compound_command G p1) (simple_command G) }"

fun pipeline_loop :: "nat \<Rightarrow> grammar \<Rightarrow> mrsh_parser \<Rightarrow> mrsh_command list \<Rightarrow> mrsh_command list option parsing" where
  "pipeline_loop 0 G p cmds = None"
| "pipeline_loop (Suc n) G p cmds =
     do { (b, p1) \<leftarrow> token p ''|'';
          if \<not> b then Some (Some cmds, p1)
          else do {
            p2 \<leftarrow> linebreak (input_bound p1 + 2) p1;
            (cmd, p3) \<leftarrow> command_rule G p2;
            (case cmd of
               None \<Rightarrow> Some (None, set_error p3 ''expected a command'')
             | Some c \<Rightarrow> pipeline_loop n G p3 (cmds @ [c])) } }"

definition pipeline :: "grammar \<Rightarrow> mrsh_parser \<Rightarrow> mrsh_and_or_list option parsing" where
  "pipeline G p =
     do { (bang, p1) \<leftarrow> token p ''!'';
          (cmd, p2) \<leftarrow> command_rule G p1;
          (case cmd of
             None \<Rightarrow> Some (None, p2)
           | Some c \<Rightarrow>
               do { (cmds, p3) \<leftarrow> pipeline_loop (g_fuel G) G p2 [c];
                    Some (map_option (\<lambda>cs. MRSH_AND_OR_LIST_PIPELINE cs bang) cmds, p3) }) }"

definition and_or :: "grammar \<Rightarrow> mrsh_parser \<Rightarrow> mrsh_and_or_list option parsing" where
  "and_or G p =
     do { (pl, p1) \<leftarrow> pipeline G p;
          (case pl of
             None \<Rightarrow> Some (None, p1)
           | Some l \<Rightarrow>
               do { (is_and, p2) \<leftarrow> operator_rule p1 AND_IF;
                    (is_or, p3) \<leftarrow> (if is_and then Some (False, p2) else operator_rule p2 OR_IF);
                    if \<not> is_and \<and> \<not> is_or then Some (Some l, p3)
                    else do {
                      p4 \<leftarrow> linebreak (input_bound p3 + 2) p3;
                      (aol, p5) \<leftarrow> g_and_or G p4;
                      (case aol of
                         None \<Rightarrow> Some (None, set_error p5 ''expected an AND-OR list'')
                       | Some r \<Rightarrow>
                           Some (Some (MRSH_AND_OR_LIST_BINOP (if is_and then MRSH_BINOP_AND else MRSH_BINOP_OR) l r),
                                 p5)) } }) }"

definition list_rule :: "grammar \<Rightarrow> mrsh_parser \<Rightarrow> mrsh_command_list option parsing" where
  "list_rule G p =
     do { (aol, p1) \<leftarrow> and_or G p;
          (case aol of
             None \<Rightarrow> Some (None, p1)
           | Some a \<Rightarrow>
               do { (sep, p2) \<leftarrow> separator_op p1;
                    Some (Some (Command_list a (sep = Some (CHR ''&''))), p2) }) }"

section \<open>Programs\<close>

fun list_loop :: "nat \<Rightarrow> grammar \<Rightarrow> mrsh_parser \<Rightarrow> mrsh_command_list list \<Rightarrow> mrsh_command_list list parsing" where
  "list_loop 0 G p cmds = None"
| "list_loop (Suc n) G p cmds =
     do { (l, p1) \<leftarrow> list_rule G p;
          (case l of None \<Rightarrow> Some (cmds, p1) | Some c \<Rightarrow> list_loop n G p1 (cmds @ [c])) }"

text \<open>The result and the array, to which the lists of the command are added.\<close>

definition complete_command ::
  "grammar \<Rightarrow> mrsh_parser \<Rightarrow> mrsh_command_list list \<Rightarrow> (bool \<times> mrsh_command_list list) parsing" where
  "complete_command G p cmds =
     do { (l, p1) \<leftarrow> list_rule G p;
          (case l of
             None \<Rightarrow> Some ((False, cmds), p1)
           | Some c \<Rightarrow>
               do { (cmds', p2) \<leftarrow> list_loop (g_fuel G) G p1 (cmds @ [c]);
                    (ok, p3) \<leftarrow> here_documents_loop G True (here_documents p2) p2;
                    Some ((ok, cmds'), p3) }) }"

definition expect_complete_command ::
  "grammar \<Rightarrow> mrsh_parser \<Rightarrow> mrsh_command_list list \<Rightarrow> (bool \<times> mrsh_command_list list) parsing" where
  "expect_complete_command G p cmds =
     do { ((ok, cmds'), p1) \<leftarrow> complete_command G p cmds;
          Some ((ok, cmds'), if ok then p1 else set_error p1 ''expected a complete command'') }"

fun program_loop :: "nat \<Rightarrow> grammar \<Rightarrow> mrsh_parser \<Rightarrow> mrsh_command_list list \<Rightarrow> mrsh_command_list list parsing" where
  "program_loop 0 G p body = None"
| "program_loop (Suc n) G p body =
     do { (b, p1) \<leftarrow> newline_list (input_bound p + 2) p;
          if \<not> b then do { p2 \<leftarrow> linebreak (input_bound p1 + 2) p1; Some (body, p2) }
          else do {
            (e, p2) \<leftarrow> eof_symbol p1;
            if e then Some (body, p2)
            else do {
              ((ok, body'), p3) \<leftarrow> complete_command G p2 body;
              if \<not> ok then do { p4 \<leftarrow> linebreak (input_bound p3 + 2) p3; Some (body', p4) }
              else program_loop n G p3 body' } } }"

definition program_rule :: "grammar \<Rightarrow> mrsh_parser \<Rightarrow> mrsh_program option parsing" where
  "program_rule G p =
     do { p1 \<leftarrow> linebreak (input_bound p + 2) p;
          (e, p2) \<leftarrow> eof_symbol p1;
          if e then Some (Some (Program []), p2)
          else do {
            ((ok, body), p3) \<leftarrow> expect_complete_command G p2 [];
            if \<not> ok then Some (None, p3)
            else do { (body', p4) \<leftarrow> program_loop (g_fuel G) G p3 body; Some (Some (Program body'), p4) } } }"

definition mrsh_parse_program :: "grammar \<Rightarrow> mrsh_parser \<Rightarrow> mrsh_program option parsing" where
  "mrsh_parse_program G p = program_rule G (parser_begin p)"

fun consume_line :: "nat \<Rightarrow> mrsh_parser \<Rightarrow> mrsh_parser option" where
  "consume_line 0 p = None"
| "consume_line (Suc n) p =
     (case parser_peek_char p of
        (c, p1) \<Rightarrow>
          if c = NUL then Some p1
          else do { p2 \<leftarrow> skip_char p1; if c = NEWLINE_CHR then Some p2 else consume_line n p2 })"

definition mrsh_parse_line :: "grammar \<Rightarrow> mrsh_parser \<Rightarrow> mrsh_program option parsing" where
  "mrsh_parse_line G p =
     do { (e, p1) \<leftarrow> eof_symbol (parser_begin p);
          if e then Some (None, p1)
          else do {
            (b, p2) \<leftarrow> newline p1;
            if b then Some (Some (Program []), p2)
            else do {
              ((ok, body), p3) \<leftarrow> expect_complete_command G p2 [];
              (ok', p4) \<leftarrow>
                (if \<not> ok then Some (False, p3)
                 else do {
                   (e', q) \<leftarrow> eof_symbol p3;
                   if e' then Some (True, q)
                   else do { (b', q') \<leftarrow> newline q;
                             Some (b', if b' then q' else set_error q' ''expected a newline'') } });
              if ok' then Some (Some (Program body), p4)
              else do { p5 \<leftarrow> consume_line (input_bound p4 + 2) p4; Some (None, p5\<lparr>has_sym := False\<rparr>) } } } }"

section \<open>The grammar\<close>

text \<open>
  The functions at a nesting of at most \<open>n\<close>. Without aliases every nested call comes after at least one
  character of the text, and so does every turn of a loop.
\<close>

fun grammar :: "nat \<Rightarrow> grammar" where
  "grammar 0 =
     \<lparr>g_fuel = 0, g_word = (\<lambda>_ _. None), g_arithmetic_word = (\<lambda>_ _. None), g_parse_program = (\<lambda>_. None),
      g_and_or = (\<lambda>_. None), g_compound_command = (\<lambda>_. None), g_else_part = (\<lambda>_. None)\<rparr>"
| "grammar (Suc n) =
     \<lparr>g_fuel = Suc n, g_word = word_rule (grammar n), g_arithmetic_word = arithmetic_word (grammar n),
      g_parse_program = mrsh_parse_program (grammar n), g_and_or = and_or (grammar n),
      g_compound_command = compound_command (grammar n), g_else_part = else_part_rule (grammar n)\<rparr>"

lemma grammar_Suc [simp]:
  "g_fuel (grammar (Suc n)) = Suc n"
  "g_word (grammar (Suc n)) = word_rule (grammar n)"
  "g_arithmetic_word (grammar (Suc n)) = arithmetic_word (grammar n)"
  "g_parse_program (grammar (Suc n)) = mrsh_parse_program (grammar n)"
  "g_and_or (grammar (Suc n)) = and_or (grammar n)"
  "g_compound_command (grammar (Suc n)) = compound_command (grammar n)"
  "g_else_part (grammar (Suc n)) = else_part_rule (grammar n)"
  by simp_all

text \<open>Code equations that unfold a level of the grammar only when it is called.\<close>

definition grammar_word :: "nat \<Rightarrow> mrsh_parser \<Rightarrow> char \<Rightarrow> mrsh_word option parsing" where
  "grammar_word n p c = g_word (grammar n) p c"

definition grammar_arithmetic_word :: "nat \<Rightarrow> mrsh_parser \<Rightarrow> char \<Rightarrow> mrsh_word option parsing" where
  "grammar_arithmetic_word n p c = g_arithmetic_word (grammar n) p c"

definition grammar_program :: "nat \<Rightarrow> mrsh_parser \<Rightarrow> mrsh_program option parsing" where
  "grammar_program n p = g_parse_program (grammar n) p"

definition grammar_and_or :: "nat \<Rightarrow> mrsh_parser \<Rightarrow> mrsh_and_or_list option parsing" where
  "grammar_and_or n p = g_and_or (grammar n) p"

definition grammar_compound_command :: "nat \<Rightarrow> mrsh_parser \<Rightarrow> mrsh_command option parsing" where
  "grammar_compound_command n p = g_compound_command (grammar n) p"

definition grammar_else_part :: "nat \<Rightarrow> mrsh_parser \<Rightarrow> mrsh_command option parsing" where
  "grammar_else_part n p = g_else_part (grammar n) p"

lemmas grammar_call_defs =
  grammar_word_def grammar_arithmetic_word_def grammar_program_def grammar_and_or_def
  grammar_compound_command_def grammar_else_part_def

lemma grammar_code [code]:
  "grammar n =
     \<lparr>g_fuel = n, g_word = grammar_word n, g_arithmetic_word = grammar_arithmetic_word n,
      g_parse_program = grammar_program n, g_and_or = grammar_and_or n,
      g_compound_command = grammar_compound_command n, g_else_part = grammar_else_part n\<rparr>"
  by (cases n) (simp_all add: fun_eq_iff grammar_call_defs)

lemma grammar_calls_code [code]:
  "grammar_word n p c = (if n = 0 then None else word_rule (grammar (n - 1)) p c)"
  "grammar_arithmetic_word n p c = (if n = 0 then None else arithmetic_word (grammar (n - 1)) p c)"
  "grammar_program n p = (if n = 0 then None else mrsh_parse_program (grammar (n - 1)) p)"
  "grammar_and_or n p = (if n = 0 then None else and_or (grammar (n - 1)) p)"
  "grammar_compound_command n p = (if n = 0 then None else compound_command (grammar (n - 1)) p)"
  "grammar_else_part n p = (if n = 0 then None else else_part_rule (grammar (n - 1)) p)"
  by (cases n; simp add: grammar_call_defs)+

declare grammar.simps(2) [simp del]

section \<open>Parsing a text\<close>

text \<open>
  How the callers of \<^verbatim>\<open>mrsh_parse_program\<close> (builtin/eval.c, builtin/dot.c, builtin/trap.c and wsh.c) and
  of \<^verbatim>\<open>parameter_expansion_word\<close> (shell/entry.c) use it: the error the parser has in the end, with its
  position, or else the result. None of them installs an alias function, so a nesting of the length of
  the text is enough.
\<close>

datatype parse_outcome = Parse_error string nat nat | Parsed "mrsh_program option"
datatype word_outcome = Word_error "(string \<times> nat \<times> nat) option" | Word_parsed mrsh_word

definition parse_fuel :: "nat \<Rightarrow> nat" where
  "parse_fuel n = 2 * n + 4"

definition parse_with :: "nat \<Rightarrow> mrsh_parser \<Rightarrow> parse_outcome option" where
  "parse_with n p =
     do { (prog, p1) \<leftarrow> mrsh_parse_program (grammar n) p;
          Some (case err p1 of
                  Some (msg, q) \<Rightarrow> Parse_error msg (pos_line q) (pos_column q)
                | None \<Rightarrow> Parsed (map_option (load_program (redirects p1)) prog)) }"

definition parse_text :: "string \<Rightarrow> parse_outcome option" where
  "parse_text str = parse_with (parse_fuel (length str)) (mrsh_parser_with_data str)"

text \<open>The \<^verbatim>\<open>read\<close> calls on a file return it in pieces of \<^verbatim>\<open>READ_SIZE\<close>.\<close>

definition READ_SIZE :: nat where "READ_SIZE = 4096"

function file_reads :: "char list \<Rightarrow> read_result list" where
  "file_reads data =
     (if data = [] then [] else Read_data (take READ_SIZE data) # file_reads (drop READ_SIZE data))"
  by pat_completeness auto
termination by (relation "measure length") (auto simp: READ_SIZE_def)

declare file_reads.simps [simp del]

definition parse_file :: "char list \<Rightarrow> parse_outcome option" where
  "parse_file data = parse_with (parse_fuel (length data)) (mrsh_parser_with_fd (file_reads data))"

definition parse_word_text :: "string \<Rightarrow> word_outcome option" where
  "parse_word_text src =
     do { (w, p1) \<leftarrow> parameter_expansion_word (grammar (parse_fuel (length src))) (mrsh_parser_with_data src);
          Some (case w of
                  None \<Rightarrow> Word_error (map_option (\<lambda>(msg, q). (msg, pos_line q, pos_column q)) (err p1))
                | Some w' \<Rightarrow> Word_parsed (load_word (redirects p1) w')) }"

end
