(* ===== verification/Wsh_Expand.thy ===== *)
theory Wsh_Expand
  imports Wsh_Arithm_Eval Wsh_Word Wsh_Program_Parser
begin

text \<open>
  Parameter expansion, command substitution and arithmetic expansion: src/shell/mrsh/shell/task/word.c,
  with the option letters of builtin/set.c that \<^verbatim>\<open>$-\<close> prints.

  The functions of the executor that the expansions call back (\<^verbatim>\<open>run_word\<close> itself, and
  \<^verbatim>\<open>mrsh_run_program\<close> for a command substitution) are the fields of the record \<open>execs\<close>; the theory of
  tasks ties the knot with a fuel argument. A run is \<open>None\<close> when it does not return in a defined way:
  the fuel is used up, the code aborts, or its behaviour is undefined. The \<open>int\<close> of a result is the
  status the C function returns; the word is the one the word pointer points to afterwards.

  The services of the host that the shell calls are the fields of \<open>sys\<close>.
\<close>

section \<open>Interfaces\<close>

text \<open>
  \<open>sys_applet\<close> is \<^verbatim>\<open>find_applet_by_name\<close> with \<^verbatim>\<open>applet_main\<close>: the main function of a BusyBox applet,
  which runs inside of the shell's process, so that it can change files, streams and environment.
\<close>

text \<open>
  \<open>sys_access\<close> is
  \<^verbatim>\<open>access\<close> for execution (or reading), \<open>sys_confstr\<close> the default path. The names of the world are paths as
  seen from the current directory, so \<open>sys_chdir\<close> gives a new world; \<open>sys_isdir\<close> is \<^verbatim>\<open>stat\<close> with
  \<^verbatim>\<open>S_ISDIR\<close> (\<open>None\<close> when \<^verbatim>\<open>stat\<close> fails). \<open>sys_errno\<close> is the value that earlier calls left in \<^verbatim>\<open>errno\<close>.
  \<open>sys_times\<close> gives the four times in ticks and the ticks of a second, or the name of the call that
  failed; \<open>sys_fmt_quotient\<close> prints a quotient with \<^verbatim>\<open>%f\<close>.
\<close>

text \<open>Why a call failed, as far as the texts of \<^verbatim>\<open>strerror\<close> depend on it.\<close>

datatype c_errno = E_none | E_inval | E_range | E_child | E_open string open_mode | E_call string

record sys =
  sys_getpid :: int
  sys_passwd :: passwd
  sys_glob :: "world \<Rightarrow> glob_func"
  sys_fnmatch :: "string \<Rightarrow> string \<Rightarrow> bool"
  sys_may_open :: "string \<Rightarrow> open_mode \<Rightarrow> bool"
  sys_applet :: "string \<Rightarrow> (string list \<Rightarrow> world \<Rightarrow> int \<times> world) option"
  sys_strerror :: "c_errno \<Rightarrow> string"
  sys_access :: "world \<Rightarrow> string \<Rightarrow> bool \<Rightarrow> bool"
  sys_confstr :: "string option"
  sys_chdir :: "string \<Rightarrow> world \<Rightarrow> world option"
  sys_getcwd :: "world \<Rightarrow> string option"
  sys_isdir :: "world \<Rightarrow> string \<Rightarrow> bool option"
  sys_errno :: "world \<Rightarrow> c_errno"
  sys_times :: "world \<Rightarrow> string + int list \<times> int"
  sys_fmt_quotient :: "int \<Rightarrow> int \<Rightarrow> string"

type_synonym word_run = "(int \<times> mrsh_word \<times> mrsh_state) option"

record execs =
  x_word :: "bool \<Rightarrow> mrsh_word \<Rightarrow> mrsh_state \<Rightarrow> word_run"
  x_list :: "mrsh_command_list list \<Rightarrow> mrsh_state \<Rightarrow> (int \<times> mrsh_command_list list \<times> mrsh_state) option"
  x_command :: "mrsh_command \<Rightarrow> mrsh_state \<Rightarrow> (int \<times> mrsh_command \<times> mrsh_state) option"
  x_and_or :: "mrsh_and_or_list \<Rightarrow> mrsh_state \<Rightarrow> (int \<times> mrsh_and_or_list \<times> mrsh_state) option"

definition TASK_STATUS_WAIT :: int where "TASK_STATUS_WAIT = - 1"
definition TASK_STATUS_ERROR :: int where "TASK_STATUS_ERROR = - 2"
definition TASK_STATUS_STOPPED :: int where "TASK_STATUS_STOPPED = - 3"
definition TASK_STATUS_INTERRUPTED :: int where "TASK_STATUS_INTERRUPTED = - 4"

lemmas task_status [wsh_defs] =
  TASK_STATUS_WAIT_def TASK_STATUS_ERROR_def TASK_STATUS_STOPPED_def TASK_STATUS_INTERRUPTED_def

text \<open>\<^verbatim>\<open>mrsh_run_program\<close>; \<^verbatim>\<open>run_pending_traps\<close> is a stub of shell/trap.c without effect.\<close>

definition mrsh_run_program :: "execs \<Rightarrow> mrsh_program \<Rightarrow> mrsh_state \<Rightarrow> (int \<times> mrsh_program \<times> mrsh_state) option" where
  "mrsh_run_program X prog st =
     (case prog of Program body \<Rightarrow>
        do { (ret, body', st1) \<leftarrow> x_list X body st; Some (ret, Program body', st1) })"

section \<open>Command substitution\<close>

definition cmdsub_tmpname :: "int \<Rightarrow> nat \<Rightarrow> string" where
  "cmdsub_tmpname pid n = ''/tmp/_wsh_cmdsub_'' @ show_int pid @ ''_'' @ show_nat n"

definition strip_newlines :: "string \<Rightarrow> string" where
  "strip_newlines s = rev (dropWhile (\<lambda>c. c = NEWLINE_CHR) (rev s))"

text \<open>What the substitution becomes: the output without trailing newlines, up to a NUL byte.\<close>

definition captured_string :: "string \<Rightarrow> string" where
  "captured_string output = takeWhile (\<lambda>c. c \<noteq> NUL) (strip_newlines output)"

text \<open>\<^verbatim>\<open>fopen(path, "r")\<close> and reading to the end; nothing when the file cannot be opened.\<close>

definition read_file :: "(string \<Rightarrow> open_mode \<Rightarrow> bool) \<Rightarrow> string \<Rightarrow> world \<Rightarrow> string" where
  "read_file ok path w =
     (case open_file ok path Read_mode w of (None, _) \<Rightarrow> [] | (Some i, _) \<Rightarrow> w_data w i)"

definition run_word_command ::
  "sys \<Rightarrow> execs \<Rightarrow> mrsh_program option \<Rightarrow> bool \<Rightarrow> mrsh_state \<Rightarrow> word_run" where
  "run_word_command S X program back_quoted st0 =
     (let tmpname = cmdsub_tmpname (sys_getpid S) (st_cmdsub_counter st0);
          st = st0\<lparr>st_cmdsub_counter := st_cmdsub_counter st0 + 1\<rparr>;
          prev_redirected = st_stdout_redirected st;
          prev_capture = st_capture_file st
      in case freopen_stdout (sys_may_open S) tmpname Write_mode (st_world st) of
           (False, w) \<Rightarrow>
             Some (TASK_STATUS_ERROR, MRSH_WORD_COMMAND program back_quoted,
               eprint (''wsh: command substitution freopen failed'' @ [NEWLINE_CHR]) (st\<lparr>st_world := w\<rparr>))
         | (True, w) \<Rightarrow>
             do { let st1 = st\<lparr>st_world := w, st_stdout_redirected := True, st_capture_file := Some tmpname\<rparr>;
                  st2 \<leftarrow> (case program of
                            None \<Rightarrow> Some st1
                          | Some prog \<Rightarrow> do { (_, _, s) \<leftarrow> mrsh_run_program X prog st1; Some s });
                  let st3 = st2\<lparr>st_stdout_redirected := prev_redirected, st_capture_file := prev_capture\<rparr>;
                  let st4 = (case prev_capture of
                               None \<Rightarrow> st3
                             | Some f \<Rightarrow> upd_world (snd \<circ> freopen_stdout (sys_may_open S) f Append_mode) st3);
                  let output = read_file (sys_may_open S) tmpname (st_world st4);
                  let st5 = upd_world (c_unlink tmpname) st4;
                  Some (st_last_status st5,
                    MRSH_WORD_STRING (captured_string output) False True, st5) })"

section \<open>Parameters\<close>

text \<open>The table of builtin/set.c: long name, letter, bit.\<close>

definition option_table :: "(string option \<times> char option \<times> uint) list" where
  "option_table =
     [(Some ''allexport'', Some (CHR ''a''), MRSH_OPT_ALLEXPORT),
      (Some ''notify'', Some (CHR ''b''), MRSH_OPT_NOTIFY),
      (Some ''noclobber'', Some (CHR ''C''), MRSH_OPT_NOCLOBBER),
      (Some ''errexit'', Some (CHR ''e''), MRSH_OPT_ERREXIT),
      (Some ''noglob'', Some (CHR ''f''), MRSH_OPT_NOGLOB),
      (None, Some (CHR ''h''), MRSH_OPT_PRELOOKUP),
      (Some ''monitor'', Some (CHR ''m''), MRSH_OPT_MONITOR),
      (Some ''noexec'', Some (CHR ''n''), MRSH_OPT_NOEXEC),
      (Some ''ignoreeof'', None, MRSH_OPT_IGNOREEOF),
      (Some ''nolog'', None, MRSH_OPT_NOLOG),
      (Some ''vi'', None, MRSH_OPT_VI),
      (Some ''nounset'', Some (CHR ''u''), MRSH_OPT_NOUNSET),
      (Some ''verbose'', Some (CHR ''v''), MRSH_OPT_VERBOSE),
      (Some ''xtrace'', Some (CHR ''x''), MRSH_OPT_XTRACE)]"

definition state_get_options :: "mrsh_state \<Rightarrow> string" where
  "state_get_options st =
     concat (map (\<lambda>(_, short, bit). case short of
       Some c \<Rightarrow> if has_flag (st_options st) bit then [c] else [] | None \<Rightarrow> []) option_table)"

text \<open>\<open>Some None\<close> is the NULL result. No job exists, so that \<^verbatim>\<open>$!\<close> is empty.\<close>

definition parameter_get_value :: "sys \<Rightarrow> mrsh_state \<Rightarrow> string \<Rightarrow> string option option" where
  "parameter_get_value S st name =
     (let fr = cur_frame st in
      if name = ''@'' \<or> name = ''*'' then Some None
      else if name = ''#'' then Some (Some (show_int (fr_argc fr - 1)))
      else if name = ''?'' then Some (Some (show_int (st_last_status st)))
      else if name = ''-'' then Some (Some (state_get_options st))
      else if name = ''$'' then Some (Some (show_int (sys_getpid S)))
      else if name = ''!'' then Some (Some '''')
      else
        (case c_strtol 10 name of
           (lvalue, rest, _) \<Rightarrow>
             if rest = [] \<and> rest \<noteq> name
             then (if lvalue \<ge> fr_argc fr then Some None
                   else if lvalue < 0 then None
                   else map_option Some (frame_arg fr (nat lvalue)))
             else Some (mrsh_env_get st name)))"

text \<open>\<^verbatim>\<open>$@\<close> and \<^verbatim>\<open>$*\<close>: the arguments, separated by the first character of \<^verbatim>\<open>IFS\<close>.\<close>

definition positional_args :: "call_frame \<Rightarrow> string list option" where
  "positional_args fr = those (map (frame_arg fr) [1..<nat (fr_argc fr)])"

definition ifs_separator :: "string option \<Rightarrow> string" where
  "ifs_separator ifs = (case ifs of None \<Rightarrow> '' '' | Some s \<Rightarrow> take 1 s)"

fun positional_words :: "string \<Rightarrow> bool \<Rightarrow> string list \<Rightarrow> mrsh_word list" where
  "positional_words sep quote [] = []"
| "positional_words sep quote [a] = [MRSH_WORD_STRING a quote True]"
| "positional_words sep quote (a # as) =
     MRSH_WORD_STRING a quote True
       # (if sep = [] then [] else [MRSH_WORD_STRING sep False True])
       @ positional_words sep quote as"

definition expand_positional_params :: "mrsh_state \<Rightarrow> bool \<Rightarrow> mrsh_word option" where
  "expand_positional_params st quote_args =
     map_option
       (\<lambda>as. MRSH_WORD_LIST (positional_words (ifs_separator (mrsh_env_get st ''IFS'')) quote_args as) False)
       (positional_args (cur_frame st))"

fun mark_word_split_fields :: "mrsh_word \<Rightarrow> mrsh_word" where
  "mark_word_split_fields (MRSH_WORD_STRING str sq sf) = MRSH_WORD_STRING str sq True"
| "mark_word_split_fields (MRSH_WORD_LIST ws dq) = MRSH_WORD_LIST (map mark_word_split_fields ws) dq"
| "mark_word_split_fields w = w"

definition create_word_string :: "string \<Rightarrow> mrsh_word" where
  "create_word_string str = mrsh_word_string_create str False"

definition copy_word_or_null :: "mrsh_word option \<Rightarrow> mrsh_word option" where
  "copy_word_or_null w = (case w of None \<Rightarrow> Some (create_word_string '''') | Some v \<Rightarrow> mrsh_word_copy v)"

fun is_null_word :: "mrsh_word \<Rightarrow> bool option"
  and are_null_words :: "mrsh_word list \<Rightarrow> bool option"
where
  "is_null_word (MRSH_WORD_STRING str sq sf) = Some (str = [])"
| "is_null_word (MRSH_WORD_LIST ws dq) = are_null_words ws"
| "is_null_word w = None"
| "are_null_words [] = Some True"
| "are_null_words (w # ws) = do { b \<leftarrow> is_null_word w; if b then are_null_words ws else Some False }"

text \<open>The test of the conditional operators: \<^verbatim>\<open>value == NULL || (wp->colon && is_null_word(value))\<close>.\<close>

definition is_unset_or_null :: "bool \<Rightarrow> mrsh_word option \<Rightarrow> bool option" where
  "is_unset_or_null colon v =
     (case v of None \<Rightarrow> Some True | Some w \<Rightarrow> if colon then is_null_word w else Some False)"

text \<open>Continue when a status is not negative, else return it.\<close>

definition apply_parameter_cond_op ::
  "execs \<Rightarrow> string \<Rightarrow> mrsh_word_parameter_op \<Rightarrow> bool \<Rightarrow> mrsh_word option \<Rightarrow> mrsh_word option \<Rightarrow> mrsh_state \<Rightarrow>
   (int \<times> mrsh_word option \<times> mrsh_state) option" where
  "apply_parameter_cond_op X name op colon arg v st =
     (case op of
        MRSH_PARAM_NONE \<Rightarrow> Some (0, v, st)
      | MRSH_PARAM_MINUS \<Rightarrow>
          do { u \<leftarrow> is_unset_or_null colon v;
               if u then do { r \<leftarrow> copy_word_or_null arg; Some (0, Some r, st) } else Some (0, v, st) }
      | MRSH_PARAM_EQUAL \<Rightarrow>
          do { u \<leftarrow> is_unset_or_null colon v;
               if u
               then do { r \<leftarrow> copy_word_or_null arg;
                         (ret, r', st1) \<leftarrow> x_word X False r st;
                         if ret < 0 then Some (ret, Some r', st1)
                         else do { str \<leftarrow> mrsh_word_str r';
                                   Some (0, Some r', mrsh_env_set st1 name str 0) } }
               else Some (0, v, st) }
      | MRSH_PARAM_QMARK \<Rightarrow>
          do { u \<leftarrow> is_unset_or_null colon v;
               if u
               then (case arg of
                  None \<Rightarrow>
                    do { a \<leftarrow> argv_0 st;
                         Some (TASK_STATUS_ERROR, None,
                           eprint (a @ '': '' @ name @ '': parameter not set or null'' @ [NEWLINE_CHR]) st) }
                | Some w \<Rightarrow>
                    do { c \<leftarrow> mrsh_word_copy w;
                         (ret, c', st1) \<leftarrow> x_word X False c st;
                         if ret < 0 then Some (ret, None, st1)
                         else do { msg \<leftarrow> mrsh_word_str c';
                                   a \<leftarrow> argv_0 st1;
                                   Some (TASK_STATUS_ERROR, None,
                                     eprint (a @ '': '' @ name @ '': '' @ msg @ [NEWLINE_CHR]) st1) } })
               else Some (0, v, st) }
      | MRSH_PARAM_PLUS \<Rightarrow>
          do { u \<leftarrow> is_unset_or_null colon v;
               if u then Some (0, Some (create_word_string ''''), st)
               else do { r \<leftarrow> copy_word_or_null arg; Some (0, Some r, st) } }
      | _ \<Rightarrow> None)"

definition trim_str :: "string \<Rightarrow> string \<Rightarrow> bool \<Rightarrow> string" where
  "trim_str str cut_str suffix =
     (if length cut_str \<le> length str then
        (if \<not> suffix \<and> take (length cut_str) str = cut_str then drop (length cut_str) str
         else if suffix \<and> drop (length str - length cut_str) str = cut_str then take (length str - length cut_str) str
         else str)
      else str)"

text \<open>The positions \<^verbatim>\<open>trim_pattern\<close> tries, in order; the end of the string is not among them.\<close>

definition trim_positions :: "nat \<Rightarrow> bool \<Rightarrow> bool \<Rightarrow> nat list" where
  "trim_positions len suffix largest =
     (if (\<not> suffix \<and> \<not> largest) \<or> (suffix \<and> largest) then [0..<len] else rev [0..<len])"

definition trim_pattern :: "sys \<Rightarrow> string \<Rightarrow> string \<Rightarrow> bool \<Rightarrow> bool \<Rightarrow> string" where
  "trim_pattern S str pattern suffix largest =
     (case find (\<lambda>i. sys_fnmatch S pattern (if suffix then drop i str else take i str))
             (trim_positions (length str) suffix largest) of
        None \<Rightarrow> str
      | Some i \<Rightarrow> if suffix then take i str else drop i str)"

definition apply_parameter_str_op ::
  "sys \<Rightarrow> execs \<Rightarrow> mrsh_word_parameter_op \<Rightarrow> mrsh_word option \<Rightarrow> string option \<Rightarrow> mrsh_state \<Rightarrow>
   (int \<times> mrsh_word option \<times> mrsh_state) option" where
  "apply_parameter_str_op S X op arg str st =
     (if op = MRSH_PARAM_LEADING_HASH then
        (if str = None \<and> has_flag (st_options st) MRSH_OPT_NOUNSET then Some (0, None, st)
         else Some (0, Some (create_word_string (show_nat (case str of None \<Rightarrow> 0 | Some s \<Rightarrow> length s))), st))
      else if op \<in> {MRSH_PARAM_PERCENT, MRSH_PARAM_DPERCENT, MRSH_PARAM_HASH, MRSH_PARAM_DHASH} then
        (case (str, arg) of
           (None, _) \<Rightarrow> Some (0, None, st)
         | (Some s, None) \<Rightarrow> Some (0, Some (create_word_string s), st)
         | (Some s, Some w) \<Rightarrow>
             let suffix = (op = MRSH_PARAM_PERCENT \<or> op = MRSH_PARAM_DPERCENT);
                 largest = (op = MRSH_PARAM_DPERCENT \<or> op = MRSH_PARAM_DHASH)
             in do { c \<leftarrow> mrsh_word_copy w;
                     (ret, pattern, st1) \<leftarrow> x_word X False c st;
                     if ret < 0 then Some (ret, None, st1)
                     else do { pattern_str \<leftarrow> word_to_pattern pattern;
                               (case pattern_str of
                                  None \<Rightarrow>
                                    do { cut_str \<leftarrow> mrsh_word_str pattern;
                                         Some (0, Some (mrsh_word_string_create (trim_str s cut_str suffix) False), st1) }
                                | Some pat \<Rightarrow>
                                    Some (0, Some (mrsh_word_string_create
                                      (trim_pattern S s pat suffix largest) False), st1)) } })
      else None)"

section \<open>Words\<close>

text \<open>
  \<^verbatim>\<open>_run_word\<close> on a parameter, in two parts: the value with its operator applied, and what becomes of
  the result. An unset parameter is an error only when \<^verbatim>\<open>set -u\<close> is on.
\<close>

definition parameter_result ::
  "sys \<Rightarrow> execs \<Rightarrow> bool \<Rightarrow> string \<Rightarrow> mrsh_word_parameter_op \<Rightarrow> bool \<Rightarrow> mrsh_word option \<Rightarrow> mrsh_position \<Rightarrow>
   mrsh_state \<Rightarrow> (int \<times> mrsh_word option \<times> mrsh_state) option" where
  "parameter_result S X double_quoted name op colon arg dollar st =
     do { v0 \<leftarrow> parameter_get_value S st name;
          let v = (if v0 = None \<and> name = ''LINENO'' then Some (show_nat (pos_line dollar)) else v0);
          if op \<in> {MRSH_PARAM_NONE, MRSH_PARAM_MINUS, MRSH_PARAM_EQUAL, MRSH_PARAM_QMARK, MRSH_PARAM_PLUS}
          then do { value_word \<leftarrow>
                      (if name = ''@'' then map_option Some (expand_positional_params st double_quoted)
                       else if name = ''*'' then map_option Some (expand_positional_params st False)
                       else Some (map_option create_word_string v));
                    apply_parameter_cond_op X name op colon arg value_word st }
          else if name = ''@'' \<or> name = ''*'' \<or> (op \<noteq> MRSH_PARAM_LEADING_HASH \<and> name = ''#'')
          then do { a \<leftarrow> argv_0 st;
                    Some (TASK_STATUS_ERROR, None,
                      eprint (a @ '': using this parameter operator on $'' @ name
                        @ '' is undefined behaviour'' @ [NEWLINE_CHR]) st) }
          else apply_parameter_str_op S X op arg v st }"

definition run_word_parameter ::
  "sys \<Rightarrow> execs \<Rightarrow> bool \<Rightarrow> string \<Rightarrow> mrsh_word_parameter_op \<Rightarrow> bool \<Rightarrow> mrsh_word option \<Rightarrow> mrsh_position \<Rightarrow>
   mrsh_state \<Rightarrow> word_run" where
  "run_word_parameter S X double_quoted name op colon arg dollar st =
     (let word = MRSH_WORD_PARAMETER name op colon arg dollar in
      do { (ret, result, st1) \<leftarrow> parameter_result S X double_quoted name op colon arg dollar st;
           if ret < 0 then Some (ret, word, st1)
           else if result = None \<and> has_flag (st_options st1) MRSH_OPT_NOUNSET
           then do { a \<leftarrow> argv_0 st1;
                     Some (TASK_STATUS_ERROR, word, eprint (unbound_message a name) st1) }
           else
             let r = mark_word_split_fields (case result of None \<Rightarrow> create_word_string '''' | Some w \<Rightarrow> w)
             in case r of
                  MRSH_WORD_STRING _ _ _ \<Rightarrow> Some (0, r, st1)
                | _ \<Rightarrow> do { (ret', r', st2) \<leftarrow> x_word X False r st1;
                            if ret' < 0 then Some (ret', word, st2) else Some (0, r', st2) } })"

definition arithmetic_error :: "string \<Rightarrow> string \<times> mrsh_position \<Rightarrow> string" where
  "arithmetic_error argv0 e =
     argv0 @ '' (arithmetic '' @ show_nat (pos_line (snd e)) @ '':'' @ show_nat (pos_column (snd e)) @ ''): ''
       @ fst e @ [NEWLINE_CHR]"

text \<open>An expression of blanks is 0 and is not parsed. A result that was never written is undefined.\<close>

definition run_word_arithmetic :: "sys \<Rightarrow> execs \<Rightarrow> mrsh_word \<Rightarrow> mrsh_state \<Rightarrow> word_run" where
  "run_word_arithmetic S X body st =
     do { (ret, body1, st1) \<leftarrow> x_word X False body st;
          if ret < 0 then Some (ret, MRSH_WORD_ARITHMETIC body1, st1)
          else do {
            body_str \<leftarrow> mrsh_word_str body1;
            if list_all (\<lambda>c. c = CHR '' '' \<or> c = TAB) body_str
            then Some (0, MRSH_WORD_STRING ''0'' False True, st1)
            else do {
              (expr, parser) \<leftarrow> mrsh_parse_arithm_expr (mrsh_parser_with_data body_str);
              (case expr of
                 None \<Rightarrow>
                   (case err parser of
                      None \<Rightarrow> Some (TASK_STATUS_ERROR, MRSH_WORD_ARITHMETIC body1,
                        eprint (''expected an arithmetic expression'' @ [NEWLINE_CHR]) st1)
                    | Some e \<Rightarrow>
                        do { a \<leftarrow> argv_0 st1;
                             Some (TASK_STATUS_ERROR, MRSH_WORD_ARITHMETIC body1,
                               eprint (arithmetic_error a e) st1) })
               | Some e \<Rightarrow>
                   do { (r, st2) \<leftarrow> mrsh_run_arithm_expr e st1;
                        (case r of
                           Fails \<Rightarrow> Some (TASK_STATUS_ERROR, MRSH_WORD_ARITHMETIC body1, st2)
                         | Returns v \<Rightarrow>
                             do { n \<leftarrow> v; Some (0, MRSH_WORD_STRING (show_int n) False True, st2) }) }) } } }"

text \<open>The children of a list, left to right; the run stops at the first negative status.\<close>

fun run_children ::
  "execs \<Rightarrow> bool \<Rightarrow> mrsh_word list \<Rightarrow> mrsh_state \<Rightarrow> (int \<times> mrsh_word list \<times> mrsh_state) option" where
  "run_children X double_quoted [] st = Some (0, [], st)"
| "run_children X double_quoted (c # cs) st =
     do { (ret, c', st1) \<leftarrow> x_word X double_quoted c st;
          if ret < 0 then Some (ret, c' # cs, st1)
          else do { (ret', cs', st2) \<leftarrow> run_children X double_quoted cs st1; Some (ret', c' # cs', st2) } }"

definition is_at_sign :: "mrsh_word \<Rightarrow> bool" where
  "is_at_sign w \<longleftrightarrow> (case w of MRSH_WORD_PARAMETER name _ _ _ _ \<Rightarrow> name = ''@'' | _ \<Rightarrow> False)"

text \<open>
  The expansions of \<^verbatim>\<open>$@\<close> are moved out of the double quotes; the words between them stay quoted. The
  flag of a pair says whether the word is such an expansion.
\<close>

definition flush_quoted :: "mrsh_word list \<Rightarrow> mrsh_word list" where
  "flush_quoted quoted = (if quoted = [] then [] else [MRSH_WORD_LIST quoted True])"

fun unquote_at_signs :: "(bool \<times> mrsh_word) list \<Rightarrow> mrsh_word list \<Rightarrow> mrsh_word list" where
  "unquote_at_signs [] quoted = flush_quoted quoted"
| "unquote_at_signs ((at, w) # ws) quoted =
     (if at then flush_quoted quoted @ w # unquote_at_signs ws []
      else unquote_at_signs ws (quoted @ [w]))"

definition run_word_list :: "execs \<Rightarrow> bool \<Rightarrow> mrsh_word list \<Rightarrow> bool \<Rightarrow> mrsh_state \<Rightarrow> word_run" where
  "run_word_list X double_quoted children dq st =
     do { (ret, cs, st1) \<leftarrow> run_children X (double_quoted \<or> dq) children st;
          if ret < 0 then Some (ret, MRSH_WORD_LIST cs dq, st1)
          else if dq \<and> list_ex is_at_sign children
          then Some (0, MRSH_WORD_LIST (unquote_at_signs (zip (map is_at_sign children) cs) []) False, st1)
          else Some (0, MRSH_WORD_LIST cs dq, st1) }"

text \<open>One activation of \<^verbatim>\<open>_run_word\<close>.\<close>

definition run_word_body :: "sys \<Rightarrow> execs \<Rightarrow> bool \<Rightarrow> mrsh_word \<Rightarrow> mrsh_state \<Rightarrow> word_run" where
  "run_word_body S X double_quoted word st =
     (case word of
        MRSH_WORD_STRING _ _ _ \<Rightarrow> Some (0, word, st)
      | MRSH_WORD_PARAMETER name op colon arg dollar \<Rightarrow>
          run_word_parameter S X double_quoted name op colon arg dollar st
      | MRSH_WORD_COMMAND program back_quoted \<Rightarrow> run_word_command S X program back_quoted st
      | MRSH_WORD_ARITHMETIC body \<Rightarrow> run_word_arithmetic S X body st
      | MRSH_WORD_LIST children dq \<Rightarrow> run_word_list X double_quoted children dq st
      | MRSH_WORD_NULL \<Rightarrow> None)"

section \<open>All expansions of a word\<close>

definition expand_word ::
  "sys \<Rightarrow> execs \<Rightarrow> mrsh_word \<Rightarrow> string list \<Rightarrow> mrsh_state \<Rightarrow> (int \<times> string list \<times> mrsh_state) option" where
  "expand_word S X word expanded st =
     do { w0 \<leftarrow> mrsh_word_copy word;
          (ret, w1, st1) \<leftarrow> x_word X False (expand_tilde (sys_passwd S) st False w0) st;
          if ret < 0 then Some (ret, expanded, st1)
          else do {
            fs \<leftarrow> split_fields w1 (mrsh_env_get st1 ''IFS'');
            if has_flag (st_options st1) MRSH_OPT_NOGLOB
            then do { strs \<leftarrow> get_fields_str fs; Some (ret, expanded @ strs, st1) }
            else do {
              (ok, code, names) \<leftarrow> expand_pathnames (sys_glob S (st_world st1)) fs expanded;
              if ok then Some (ret, names, st1)
              else Some (TASK_STATUS_ERROR, names,
                     eprint (''glob failed: '' @ show_int code @ [NEWLINE_CHR]) st1) } } }"

end
