(* ===== verification/Wsh_Builtin.thy ===== *)
theory Wsh_Builtin
  imports Wsh_Expand "HOL-Library.List_Lexorder" "HOL-Library.Char_ord"
begin

text \<open>
  The builtins of src/shell/mrsh/builtin and the path search of shell/path.c. A builtin takes its
  argument vector and the state; its result is the status it returns and the new state, or \<open>None\<close>
  when the run is undefined or aborts. Builtins that run programs (\<^verbatim>\<open>eval\<close>) call the executor
  through the record \<open>execs\<close>. The builtins \<^verbatim>\<open>.\<close>, \<^verbatim>\<open>bg\<close>, \<^verbatim>\<open>cd\<close>, \<^verbatim>\<open>fg\<close>, \<^verbatim>\<open>getopts\<close>, \<^verbatim>\<open>jobs\<close>, \<^verbatim>\<open>times\<close>, \<^verbatim>\<open>trap\<close>
  and \<^verbatim>\<open>wait\<close>, and the dispatch with \<^verbatim>\<open>command\<close>, follow in the theories \<open>Wsh_Builtin_Host\<close> and
  \<open>Wsh_Dispatch\<close>.
\<close>

type_synonym builtin_run = "(int \<times> mrsh_state) option"

abbreviation eprintln :: "string \<Rightarrow> mrsh_state \<Rightarrow> mrsh_state" where
  "eprintln s \<equiv> eprint (s @ [NEWLINE_CHR])"

section \<open>The table of builtins (builtin.c)\<close>

datatype builtin_func =
  builtin_dot | builtin_colon | builtin_alias | builtin_bg | builtin_break | builtin_cd | builtin_command
| builtin_eval | builtin_exec | builtin_exit | builtin_export | builtin_fg | builtin_getopts | builtin_hash
| builtin_jobs | builtin_read | builtin_return | builtin_set | builtin_shift | builtin_times | builtin_trap
| builtin_type | builtin_unalias | builtin_unset | builtin_wait | builtin_unspecified

definition builtins :: "(string \<times> builtin_func \<times> bool) list" where
  "builtins =
     [(''.'', builtin_dot, True), ('':'', builtin_colon, True), (''alias'', builtin_alias, False),
      (''bg'', builtin_bg, False), (''break'', builtin_break, True), (''cd'', builtin_cd, False),
      (''command'', builtin_command, False), (''continue'', builtin_break, True),
      (''eval'', builtin_eval, True), (''exec'', builtin_exec, True), (''exit'', builtin_exit, True),
      (''export'', builtin_export, True), (''fg'', builtin_fg, False), (''getopts'', builtin_getopts, False),
      (''hash'', builtin_hash, False), (''jobs'', builtin_jobs, False), (''read'', builtin_read, False),
      (''readonly'', builtin_export, True), (''return'', builtin_return, True), (''set'', builtin_set, True),
      (''shift'', builtin_shift, True), (''times'', builtin_times, True), (''trap'', builtin_trap, True),
      (''type'', builtin_type, False), (''unalias'', builtin_unalias, False), (''unset'', builtin_unset, True),
      (''wait'', builtin_wait, False)]"

definition unspecified_names :: "string list" where
  "unspecified_names =
     [''alloc'', ''autoload'', ''bind'', ''bindkey'', ''builtin'', ''bye'', ''caller'', ''cap'',
      ''chdir'', ''clone'', ''comparguments'', ''compcall'', ''compctl'', ''compdescribe'',
      ''compfiles'', ''compgen'', ''compgroups'', ''complete'', ''compquote'', ''comptags'',
      ''comptry'', ''compvalues'', ''declare'', ''dirs'', ''disable'', ''disown'', ''dosh'',
      ''echotc'', ''echoti'', ''help'', ''history'', ''hist'', ''let'', ''local'', ''login'',
      ''logout'', ''map'', ''mapfile'', ''popd'', ''print'', ''pushd'', ''readarray'', ''repeat'',
      ''savehistory'', ''source'', ''shopt'', ''stop'', ''suspend'', ''typeset'', ''whence'']"

text \<open>
  \<^verbatim>\<open>bsearch\<close> of the C library: the middle element of the rest of the array is compared until it is the
  key or nothing is left. Strings
  are ordered as by \<^verbatim>\<open>strcmp\<close>.
\<close>

function c_bsearch :: "('a \<Rightarrow> string) \<Rightarrow> string \<Rightarrow> 'a list \<Rightarrow> 'a option" where
  "c_bsearch name key xs =
     (if xs = [] then None
      else let m = length xs div 2; k = name (xs ! m) in
           if key < k then c_bsearch name key (take m xs)
           else if k < key then c_bsearch name key (drop (m + 1) xs)
           else Some (xs ! m))"
  by pat_completeness auto
termination by (relation "measure (\<lambda>(name, key, xs). length xs)") auto

declare c_bsearch.simps [simp del]

definition get_builtin :: "string \<Rightarrow> (builtin_func \<times> bool) option" where
  "get_builtin name =
     (if c_bsearch id name unspecified_names \<noteq> None then Some (builtin_unspecified, False)
      else map_option snd (c_bsearch fst name builtins))"

definition mrsh_has_builtin :: "string \<Rightarrow> bool" where
  "mrsh_has_builtin name \<longleftrightarrow> get_builtin name \<noteq> None"

definition mrsh_has_special_builtin :: "string \<Rightarrow> bool" where
  "mrsh_has_special_builtin name \<longleftrightarrow> (case get_builtin name of None \<Rightarrow> False | Some (_, special) \<Rightarrow> special)"

section \<open>Printing variables\<close>

definition is_safe_char :: "char \<Rightarrow> bool" where
  "is_safe_char c \<longleftrightarrow> c_isalnum c \<or> c \<in> set ''@%+=:,./-''"

definition escape_quote :: "char \<Rightarrow> string" where
  "escape_quote c = (if c = CHR 0x27 then [CHR 0x27, CHR 0x22, CHR 0x27, CHR 0x22, CHR 0x27] else [c])"

definition print_escaped :: "string \<Rightarrow> string" where
  "print_escaped v =
     (if list_all is_safe_char v \<and> v \<noteq> [] then v
      else [CHR 0x27] @ concat (map escape_quote v) @ [CHR 0x27])"

text \<open>The variables with one of the attributes (all of them for no attribute), sorted by name.\<close>

definition collect_vars :: "mrsh_state \<Rightarrow> uint \<Rightarrow> (string \<times> string) list" where
  "collect_vars st attribs =
     sort_key fst
       (mrsh_hashtable_for_each (st_variables st)
         (\<lambda>key var acc. if attribs \<noteq> MRSH_VAR_ATTRIB_NONE \<and> \<not> has_flag (var_attribs var) attribs then acc
                        else acc @ [(key, var_value var)]) [])"

section \<open>Control flow: break, continue, exit, return, shift\<close>

text \<open>\<^verbatim>\<open>strtol(argv[1], &end, 10)\<close> with the test that the whole argument was read.\<close>

definition run_builtin_break :: "string list \<Rightarrow> mrsh_state \<Rightarrow> builtin_run" where
  "run_builtin_break argv st =
     (if length argv > 2 then Some (1, eprintln (''usage: '' @ hd argv @ '' [n]'') st)
      else
        let (n, rest, _) = (if length argv = 2 then c_strtol 10 (argv ! 1) else (1, [], False)) in
        if length argv = 2 \<and> (rest \<noteq> [] \<or> hd argv = [] \<or> n < 0)
        then Some (1, eprintln (hd argv @ '': invalid loop number '' @ [CHR 0x27] @ argv ! 1 @ [CHR 0x27]) st)
        else
          Some (TASK_STATUS_INTERRUPTED,
            upd_frame (\<lambda>fr.
              let m = (if n > fr_nloops fr then fr_nloops fr else n) in
              fr\<lparr>fr_nloops := fr_nloops fr - (m - 1),
                 fr_branch_control := (if hd argv = ''break'' then MRSH_BRANCH_BREAK else MRSH_BRANCH_CONTINUE)\<rparr>) st))"

definition run_builtin_exit :: "string list \<Rightarrow> mrsh_state \<Rightarrow> builtin_run" where
  "run_builtin_exit argv st =
     (if length argv > 2 then Some (1, eprintln ''usage: exit [n]'' st)
      else
        let (status, rest, errno) = (if length argv > 1 then c_strtol 10 (argv ! 1) else (0, [], False)) in
        if rest \<noteq> [] \<or> errno \<or> status < 0 \<or> status > 255 then Some (1, eprintln ''usage: exit [n]'' st)
        else Some (TASK_STATUS_INTERRUPTED,
               upd_frame (fr_branch_control_update (\<lambda>_. MRSH_BRANCH_EXIT)) (st\<lparr>st_exit := status\<rparr>)))"

definition run_builtin_return :: "string list \<Rightarrow> mrsh_state \<Rightarrow> builtin_run" where
  "run_builtin_return argv st =
     (if length argv > 2 then Some (1, eprintln (''usage: '' @ hd argv @ '' [n]'') st)
      else
        let (n, rest, _) = (if length argv = 2 then c_strtol 10 (argv ! 1) else (0, [], False)) in
        if length argv = 2 \<and> (rest \<noteq> [] \<or> hd argv = [] \<or> n < 0 \<or> n > 255)
        then Some (1, eprintln (hd argv @ '': invalid return number '' @ [CHR 0x27] @ argv ! 1 @ [CHR 0x27]) st)
        else Some (TASK_STATUS_INTERRUPTED,
               upd_frame (\<lambda>fr. fr\<lparr>fr_nloops := 0, fr_branch_control := MRSH_BRANCH_RETURN\<rparr>)
                 (st\<lparr>st_last_status := n\<rparr>)))"

text \<open>A shell that is not interactive exits.\<close>

definition exit_unless_interactive :: "mrsh_state \<Rightarrow> mrsh_state" where
  "exit_unless_interactive st = (if st_interactive st then st else st\<lparr>st_exit := 1\<rparr>)"

text \<open>
  The loop of \<^verbatim>\<open>shift\<close>: with \<open>j = i + n\<close>, the pointer of argument \<open>j\<close> is copied down, or argument \<open>i\<close> is
  freed, depending on the bound \<^verbatim>\<open>argc - n\<close>.
\<close>

function shift_loop :: "nat \<Rightarrow> nat \<Rightarrow> nat \<Rightarrow> nat \<Rightarrow> arg list \<Rightarrow> arg list option" where
  "shift_loop i j argc n args =
     (if j < argc then
        (if j \<le> argc - n then shift_loop (i + 1) (j + 1) argc n (args[i := args ! j])
         else do { args' \<leftarrow> free_arg args i; shift_loop (i + 1) (j + 1) argc n args' })
      else Some args)"
  by pat_completeness auto
termination by (relation "measure (\<lambda>(i, j, argc, n, args). argc - j)") auto

declare shift_loop.simps [simp del]

definition run_builtin_shift :: "string list \<Rightarrow> mrsh_state \<Rightarrow> builtin_run" where
  "run_builtin_shift argv st =
     (if length argv > 2 then Some (1, eprintln ''usage: shift [n]'' st)
      else
        let (n, rest, errno) = (if length argv = 2 then c_strtol 10 (argv ! 1) else (1, [], False));
            fr = cur_frame st
        in
        if rest \<noteq> [] \<or> errno then Some (1, exit_unless_interactive (eprintln ''usage: shift [n]'' st))
        else if n = 0 then Some (0, st)
        else if n < 1 then Some (1, exit_unless_interactive (eprintln ''shift: [n] must be positive'' st))
        else if n > fr_argc fr - 1
        then Some (1, exit_unless_interactive (eprintln ''shift: [n] must be less than $#'' st))
        else do {
          args \<leftarrow> shift_loop 1 (nat n + 1) (nat (fr_argc fr)) (nat n) (fr_argv fr);
          Some (0, upd_frame (\<lambda>fr. fr\<lparr>fr_argv := args, fr_argc := fr_argc fr - n\<rparr>) st) })"

section \<open>Variables: export, readonly, unset\<close>

fun export_loop :: "passwd \<Rightarrow> string \<Rightarrow> uint \<Rightarrow> string list \<Rightarrow> mrsh_state \<Rightarrow> builtin_run" where
  "export_loop pw argv0 attrib [] st = Some (0, st)"
| "export_loop pw argv0 attrib (a # as) st =
     (let has_eql = (CHR ''='' \<in> set a);
          key = takeWhile (\<lambda>c. c \<noteq> CHR ''='') a;
          val = (if has_eql then tl (dropWhile (\<lambda>c. c \<noteq> CHR ''='') a)
                 else case mrsh_env_get st key of None \<Rightarrow> [] | Some v \<Rightarrow> v);
          prev_attribs = env_attribs st key 0
      in if has_flag prev_attribs MRSH_VAR_ATTRIB_READONLY
         then Some (1, eprintln (argv0 @ '': cannot modify readonly variable '' @ key) st)
         else do {
           new_val \<leftarrow> mrsh_word_str (expand_tilde pw st True (mrsh_word_string_create val False));
           export_loop pw argv0 attrib as (mrsh_env_set st key new_val (attrib OR prev_attribs)) })"

definition print_vars :: "string \<Rightarrow> (string \<times> string) list \<Rightarrow> string" where
  "print_vars prefix vars =
     concat (map (\<lambda>(key, v). prefix @ key @ ''='' @ print_escaped v @ [NEWLINE_CHR]) vars)"

definition run_builtin_export :: "passwd \<Rightarrow> string list \<Rightarrow> mrsh_state \<Rightarrow> builtin_run" where
  "run_builtin_export pw argv st =
     (let attrib = (if hd argv = ''readonly'' then MRSH_VAR_ATTRIB_READONLY else MRSH_VAR_ATTRIB_EXPORT) in
      if length argv < 2 then Some (1, eprintln (''usage: '' @ hd argv @ '' -p|name[=word]...'') st)
      else if length argv = 2 \<and> argv ! 1 = ''-p''
      then Some (0, oprint (print_vars (hd argv @ '' '') (collect_vars st attrib)) st)
      else export_loop pw (hd argv) attrib (tl argv) st)"

text \<open>The option loop of a builtin on the state; the flag says that no unknown option was met.\<close>

definition parse_flags ::
  "string list \<Rightarrow> string \<Rightarrow> string \<Rightarrow> mrsh_state \<Rightarrow> (bool \<times> string \<times> nat \<times> mrsh_state) option" where
  "parse_flags argv optstring stops st =
     do { (ok, seen, g) \<leftarrow> getopt_all argv optstring stops (st_getopt st);
          Some (ok, seen, g_optind g, st\<lparr>st_getopt := g\<rparr>) }"

definition unknown_option :: "string \<Rightarrow> string \<Rightarrow> mrsh_state \<Rightarrow> mrsh_state" where
  "unknown_option name usage st =
     eprintln usage (eprintln (name @ '': unknown option -- '' @ [g_optopt (st_getopt st)]) st)"

fun unset_loop :: "bool \<Rightarrow> string list \<Rightarrow> mrsh_state \<Rightarrow> builtin_run" where
  "unset_loop funcs [] st = Some (0, st)"
| "unset_loop funcs (a # as) st =
     (if funcs
      then case mrsh_hashtable_del (st_functions st) a of
             (oldfn, t) \<Rightarrow> unset_loop funcs as (function_destroy oldfn (st\<lparr>st_functions := t\<rparr>))
      else
        (case mrsh_env_get st a of
           None \<Rightarrow> unset_loop funcs as st
         | Some _ \<Rightarrow>
             if has_flag (env_attribs st a 0) MRSH_VAR_ATTRIB_READONLY
             then Some (1, eprintln (''unset: cannot modify readonly variable '' @ a) st)
             else unset_loop funcs as (mrsh_env_unset st a)))"

text \<open>The last of the two options counts.\<close>

definition run_builtin_unset :: "string list \<Rightarrow> mrsh_state \<Rightarrow> builtin_run" where
  "run_builtin_unset argv st0 =
     do { (ok, seen, i, st) \<leftarrow> parse_flags argv '':fv'' [] st0;
          if \<not> ok then Some (1, unknown_option ''unset'' ''usage: unset [-fv] name...'' st)
          else if i \<ge> length argv then Some (1, eprintln ''usage: unset [-fv] name...'' st)
          else unset_loop (seen \<noteq> [] \<and> last seen = CHR ''f'') (drop i argv) st }"

section \<open>Aliases: alias, unalias\<close>

fun alias_loop :: "string \<Rightarrow> string list \<Rightarrow> mrsh_state \<Rightarrow> builtin_run" where
  "alias_loop argv0 [] st = Some (0, st)"
| "alias_loop argv0 (a # as) st =
     (if CHR ''='' \<in> set a
      then alias_loop argv0 as
             (st\<lparr>st_aliases := ht_set (st_aliases st) (takeWhile (\<lambda>c. c \<noteq> CHR ''='') a)
                                  (tl (dropWhile (\<lambda>c. c \<noteq> CHR ''='') a))\<rparr>)
      else case mrsh_hashtable_get (st_aliases st) a of
             None \<Rightarrow> Some (1, eprintln (argv0 @ '': '' @ a @ '' not found'') st)
           | Some v \<Rightarrow> alias_loop argv0 as (oprint (print_vars [] [(a, v)]) st))"

definition run_builtin_alias :: "string list \<Rightarrow> mrsh_state \<Rightarrow> builtin_run" where
  "run_builtin_alias argv st0 =
     do { (r, g, _) \<leftarrow> mrsh_getopt argv '':'' ((st_getopt st0)\<lparr>g_optind := 0\<rparr>);
          let st = st0\<lparr>st_getopt := g\<rparr>;
          if r \<noteq> None then Some (1, unknown_option ''alias'' ''usage: alias [alias-name[=string]...]'' st)
          else if g_optind g = length argv
          then Some (0, mrsh_hashtable_for_each (st_aliases st)
                          (\<lambda>key v s. oprint (print_vars [] [(key, v)]) s) st)
          else alias_loop (hd argv) (drop (g_optind g) argv) st }"

definition run_builtin_unalias :: "string list \<Rightarrow> mrsh_state \<Rightarrow> builtin_run" where
  "run_builtin_unalias argv st0 =
     do { (ok, seen, i, st) \<leftarrow> parse_flags argv '':a'' [] st0;
          if \<not> ok then Some (1, unknown_option ''unalias'' ''usage: unalias -a|alias-name...'' st)
          else if seen \<noteq> []
          then (if i < length argv then Some (1, eprintln ''usage: unalias -a|alias-name...'' st)
                else Some (0, st\<lparr>st_aliases :=
                       mrsh_hashtable_for_each (st_aliases st) (\<lambda>key _ t. ht_del t key) (st_aliases st)\<rparr>))
          else if i = length argv then Some (1, eprintln ''usage: unalias -a|alias-name...'' st)
          else Some (0, st\<lparr>st_aliases := fold (\<lambda>a t. ht_del t a) (drop i argv) (st_aliases st)\<rparr>) }"

section \<open>Options and positional parameters: set\<close>

definition find_option :: "char \<Rightarrow> uint option" where
  "find_option c = map_option (snd \<circ> snd) (find (\<lambda>(_, short, _). short = Some c) option_table)"

definition find_long_option :: "string \<Rightarrow> uint option" where
  "find_long_option name = map_option (snd \<circ> snd) (find (\<lambda>(long, _, _). long = Some name) option_table)"

definition options_text :: "mrsh_state \<Rightarrow> string" where
  "options_text st =
     concat (map (\<lambda>(long, _, flag). case long of
       None \<Rightarrow> []
     | Some name \<Rightarrow> ''set '' @ [if has_flag (st_options st) flag then CHR ''-'' else CHR ''+'']
         @ ''o '' @ name @ [NEWLINE_CHR]) option_table)"

text \<open>Switch an option on (\<^verbatim>\<open>-\<close>) or off (\<^verbatim>\<open>+\<close>).\<close>

definition switch_option :: "char \<Rightarrow> uint \<Rightarrow> mrsh_state \<Rightarrow> mrsh_state" where
  "switch_option sign flag st =
     st\<lparr>st_options := (if sign = CHR ''-'' then st_options st OR flag else st_options st AND NOT flag)\<rparr>"

fun set_letters :: "char \<Rightarrow> string \<Rightarrow> uint \<Rightarrow> mrsh_state \<Rightarrow> bool \<times> uint \<times> mrsh_state" where
  "set_letters sign [] populated st = (True, populated, st)"
| "set_letters sign (c # cs) populated st =
     (case find_option c of
        None \<Rightarrow> (False, populated, st)
      | Some flag \<Rightarrow> set_letters sign cs (populated OR flag) (switch_option sign flag st))"

text \<open>
  The loop over the arguments. It ends with a usage error, at \<^verbatim>\<open>goto out\<close> after printing the options,
  or with the arguments that are left and whether \<^verbatim>\<open>--\<close> was seen.
\<close>

datatype set_end = Set_usage | Set_out | Set_rest "string list" bool

fun set_loop :: "string list \<Rightarrow> uint \<Rightarrow> mrsh_state \<Rightarrow> set_end \<times> uint \<times> mrsh_state" where
  "set_loop [] populated st = (Set_rest [] False, populated, st)"
| "set_loop (a # as) populated st =
     (if a = ''--'' then (Set_rest as True, populated, st)
      else if a = [] \<or> (hd a \<noteq> CHR ''-'' \<and> hd a \<noteq> CHR ''+'') then (Set_rest (a # as) False, populated, st)
      else if tl a = [] then (Set_usage, populated, st)
      else if hd (tl a) = CHR ''o'' then
        (case as of
           [] \<Rightarrow> (Set_out, populated, oprint (options_text st) st)
         | name # as' \<Rightarrow>
             (case find_long_option name of
                None \<Rightarrow> (Set_usage, populated, st)
              | Some flag \<Rightarrow> set_loop as' (populated OR flag) (switch_option (hd a) flag st)))
      else if hd (tl a) = CHR ''c'' \<or> hd (tl a) = CHR ''s'' then (Set_usage, populated, st)
      else
        (case set_letters (hd a) (tl a) populated st of
           (ok, populated', st') \<Rightarrow> if ok then set_loop as populated' st' else (Set_usage, populated', st')))"

definition set_usage :: string where
  "set_usage =
     ''usage: set [(-|+)abCefhmnuvx] [-o option] [args...]'' @ [NEWLINE_CHR]
     @ ''       set [(-|+)abCefhmnuvx] [+o option] [args...]'' @ [NEWLINE_CHR]
     @ ''       set -- [args...]'' @ [NEWLINE_CHR]
     @ ''       set -o'' @ [NEWLINE_CHR] @ ''       set +o'' @ [NEWLINE_CHR]"

text \<open>
  The function \<^verbatim>\<open>set\<close> without \<^verbatim>\<open>init_args\<close>. New positional parameters need the \<^verbatim>\<open>argv[0]\<close> of the
  current frame; the old vector is freed.
\<close>

definition set_builtin :: "string list \<Rightarrow> mrsh_state \<Rightarrow> (int \<times> uint \<times> mrsh_state) option" where
  "set_builtin argv st =
     (if length argv = 1 then Some (0, 0, oprint (print_vars [] (collect_vars st MRSH_VAR_ATTRIB_NONE)) st)
      else
        (case set_loop (tl argv) 0 st of
           (Set_usage, populated, st1) \<Rightarrow> Some (1, populated, eprint set_usage st1)
         | (Set_out, populated, st1) \<Rightarrow> Some (0, populated, st1)
         | (Set_rest args force, populated, st1) \<Rightarrow>
             if args = [] \<and> \<not> force then Some (0, populated, st1)
             else if fr_argv (cur_frame st1) = [] then Some (1, populated, eprint set_usage st1)
             else do { a0 \<leftarrow> argv_0 st1;
                       _ \<leftarrow> argv_free (cur_frame st1);
                       Some (0, populated, upd_frame (\<lambda>fr.
                         fr\<lparr>fr_argc := int (length args) + 1, fr_argv := dup_args (a0 # args)\<rparr>) st1) }))"

text \<open>\<^verbatim>\<open>mrsh_set_job_control\<close> is a stub that fails.\<close>

definition run_builtin_set :: "string list \<Rightarrow> mrsh_state \<Rightarrow> builtin_run" where
  "run_builtin_set argv st =
     do { (ret, populated, st1) \<leftarrow> set_builtin argv st;
          if ret \<noteq> 0 then Some (ret, st1)
          else if has_flag populated MRSH_OPT_MONITOR then Some (1, st1)
          else Some (0, st1) }"

section \<open>Reading a line: read\<close>

definition input_left :: "world \<Rightarrow> nat" where
  "input_left w =
     (case w_stdin w of
        In_host \<Rightarrow> length (w_host_in w) | In_file i off \<Rightarrow> length (w_data w i) - off | In_closed \<Rightarrow> 0)"

text \<open>The loop over the characters; the flag of the result is \<^verbatim>\<open>c == EOF\<close>.\<close>

fun read_loop :: "nat \<Rightarrow> bool \<Rightarrow> bool \<Rightarrow> string \<Rightarrow> mrsh_state \<Rightarrow> (bool \<times> string \<times> mrsh_state) option" where
  "read_loop 0 raw escaped line st = None"
| "read_loop (Suc n) raw escaped line st =
     (case c_getc (st_world st) of
        (None, w) \<Rightarrow> Some (True, line, st\<lparr>st_world := w\<rparr>)
      | (Some c, w) \<Rightarrow>
          let st1 = st\<lparr>st_world := w\<rparr> in
          if \<not> raw \<and> \<not> escaped \<and> c = CHR 0x5C then read_loop n raw True line st1
          else if c = NEWLINE_CHR then
            (if escaped
             then read_loop n raw False line
                    (eprint (case mrsh_env_get st1 ''PS2'' of None \<Rightarrow> ''> '' | Some p \<Rightarrow> p) st1)
             else Some (False, line, st1))
          else read_loop n raw False (line @ [c]) st1)"

fun join_spaces :: "string list \<Rightarrow> string" where
  "join_spaces [] = []"
| "join_spaces [s] = s"
| "join_spaces (s # ss) = s @ '' '' @ join_spaces ss"

text \<open>The values of the variables: one field each, the rest of the fields in the last one.\<close>

definition read_values :: "nat \<Rightarrow> string list \<Rightarrow> string list" where
  "read_values n fs =
     (if length fs \<le> n then fs @ replicate (n - length fs) []
      else take (n - 1) fs @ [join_spaces (drop (n - 1) fs)])"

fun env_set_all :: "(string \<times> string) list \<Rightarrow> mrsh_state \<Rightarrow> mrsh_state" where
  "env_set_all [] st = st"
| "env_set_all ((name, v) # vs) st = env_set_all vs (mrsh_env_set st name v MRSH_VAR_ATTRIB_NONE)"

lemma env_set_all_put_all: "env_set_all vs st = env.put_all vs MRSH_VAR_ATTRIB_NONE st"
  by (induction vs st rule: env_set_all.induct) simp_all

definition run_builtin_read :: "string list \<Rightarrow> mrsh_state \<Rightarrow> builtin_run" where
  "run_builtin_read argv st0 =
     do { (ok, seen, i, st) \<leftarrow> parse_flags argv '':r'' [] st0;
          if \<not> ok then Some (1, unknown_option ''read'' ''usage: read [-r] var...'' st)
          else if i = length argv then Some (1, eprintln ''usage: read [-r] var...'' st)
          else do {
            (eof, line, st1) \<leftarrow> read_loop (input_left (st_world st) + 1) (seen \<noteq> []) False [] st;
            fs \<leftarrow> split_fields (mrsh_word_string_create (takeWhile (\<lambda>c. c \<noteq> NUL) line) False)
                    (mrsh_env_get st1 ''IFS'');
            strs \<leftarrow> get_fields_str fs;
            let names = drop i argv;
            Some (if eof then 1 else 0,
              env_set_all (zip names (read_values (length names) strs)) st1) } }"

section \<open>Running text and commands: eval, exec, command, type, hash\<close>

text \<open>What \<^verbatim>\<open>eval\<close> and \<^verbatim>\<open>dot\<close> do with what they have parsed.\<close>

definition run_parsed :: "execs \<Rightarrow> string \<Rightarrow> mrsh_state \<Rightarrow> parse_outcome \<Rightarrow> builtin_run" where
  "run_parsed X name st r =
     (case r of
        Parse_error msg line column \<Rightarrow>
          Some (1, eprintln (name @ '' '' @ show_nat line @ '':'' @ show_nat column @ '': '' @ msg) st)
      | Parsed None \<Rightarrow> Some (0, st)
      | Parsed (Some prog) \<Rightarrow> do { (ret, _, st1) \<leftarrow> mrsh_run_program X prog st; Some (ret, st1) })"

definition run_builtin_eval :: "execs \<Rightarrow> string list \<Rightarrow> mrsh_state \<Rightarrow> builtin_run" where
  "run_builtin_eval X argv st =
     (if length argv = 1 then Some (1, eprintln ''usage: eval [cmds...]'' st)
      else
        Option.bind (parse_text (join_spaces (tl argv) @ [NEWLINE_CHR])) (run_parsed X (argv ! 1) st))"

text \<open>\<^verbatim>\<open>strtok(pathe, ":")\<close>: the non-empty pieces between colons.\<close>

function path_dirs :: "string \<Rightarrow> string list" where
  "path_dirs s =
     (if s = [] then []
      else let d = takeWhile (\<lambda>c. c \<noteq> CHR '':'') s; r = path_dirs (drop (length d + 1) s)
           in if d = [] then r else d # r)"
  by pat_completeness auto
termination by (relation "measure length") auto

declare path_dirs.simps [simp del]

definition join_path :: "string \<Rightarrow> string \<Rightarrow> string" where
  "join_path dir file = dir @ (if last dir = CHR ''/'' then [] else ''/'') @ file"

definition expand_path :: "sys \<Rightarrow> mrsh_state \<Rightarrow> string \<Rightarrow> bool \<Rightarrow> bool \<Rightarrow> string option" where
  "expand_path S st file exec default_path =
     (if CHR ''/'' \<in> set file then Some file
      else
        (case (if default_path then sys_confstr S else mrsh_env_get st ''PATH'') of
           None \<Rightarrow> None
         | Some pathe \<Rightarrow>
             find (\<lambda>p. sys_access S (st_world st) p exec) (map (\<lambda>d. join_path d file) (path_dirs pathe))))"

text \<open>\<^verbatim>\<open>execv\<close> is a stub that fails.\<close>

definition run_builtin_exec :: "sys \<Rightarrow> string list \<Rightarrow> mrsh_state \<Rightarrow> builtin_run" where
  "run_builtin_exec S argv st0 =
     do { (r, g, _) \<leftarrow> mrsh_getopt argv '':'' ((st_getopt st0)\<lparr>g_optind := 0\<rparr>);
          let st = st0\<lparr>st_getopt := g\<rparr>;
          let i = g_optind g;
          if r \<noteq> None then Some (1, unknown_option ''exec'' ''usage: exec [command [argument...]]'' st)
          else if i = length argv then Some (0, st)
          else
            (case expand_path S st (argv ! i) False False of
               None \<Rightarrow> Some (127, eprintln (''exec: '' @ argv ! i @ '': command not found'') st)
             | Some path \<Rightarrow>
                 if \<not> sys_access S (st_world st) path True
                 then Some (126, eprintln (''exec: '' @ path @ '': not executable'') st)
                 else Some (1, eprintln (''exec: '' @ sys_strerror S (E_call ''execv'')) st)) }"

definition verify_command :: "sys \<Rightarrow> mrsh_state \<Rightarrow> string \<Rightarrow> bool \<Rightarrow> int \<times> mrsh_state" where
  "verify_command S st name default_path =
     (case mrsh_hashtable_get (st_aliases st) name of
        Some v \<Rightarrow>
          (0, oprint (''alias '' @ name @ ''='' @ [CHR 0x27] @ v @ [CHR 0x27, NEWLINE_CHR]) st)
      | None \<Rightarrow>
          if mrsh_hashtable_get (st_functions st) name \<noteq> None \<or> mrsh_has_builtin name
             \<or> name \<in> set shell_keywords
          then (0, oprint (name @ [NEWLINE_CHR]) st)
          else case expand_path S st name True default_path of
                 Some path \<Rightarrow> (0, oprint (path @ [NEWLINE_CHR]) st)
               | None \<Rightarrow> (1, st))"

text \<open>\<^verbatim>\<open>hash\<close> remembers nothing; it only checks that the utilities exist.\<close>

fun hash_loop :: "sys \<Rightarrow> string list \<Rightarrow> mrsh_state \<Rightarrow> int \<times> mrsh_state" where
  "hash_loop S [] st = (0, st)"
| "hash_loop S (u # us) st =
     (if CHR ''/'' \<in> set u then (1, eprintln ''hash: undefined behaviour: utility contains a slash'' st)
      else if mrsh_has_builtin u then hash_loop S us st
      else case expand_path S st u True False of
             None \<Rightarrow> (1, eprintln (''hash: command not found: '' @ u) st)
           | Some _ \<Rightarrow> hash_loop S us st)"

definition run_builtin_hash :: "sys \<Rightarrow> string list \<Rightarrow> mrsh_state \<Rightarrow> builtin_run" where
  "run_builtin_hash S argv st0 =
     do { (ok, seen, _, st) \<leftarrow> parse_flags argv '':r'' ''r'' st0;
          if \<not> ok then Some (1, unknown_option ''hash'' ''usage: hash -r|utility...'' st)
          else if seen \<noteq> [] then Some (0, st)
          else Some (hash_loop S (tl argv) st) }"

fun type_loop :: "sys \<Rightarrow> string list \<Rightarrow> bool \<Rightarrow> mrsh_state \<Rightarrow> int \<times> mrsh_state" where
  "type_loop S [] error st = (if error then 1 else 0, st)"
| "type_loop S (name # names) error st =
     (case mrsh_hashtable_get (st_aliases st) name of
        Some v \<Rightarrow> type_loop S names error (oprint (name @ '' is an alias for '' @ v @ [NEWLINE_CHR]) st)
      | None \<Rightarrow>
          if mrsh_has_special_builtin name
          then type_loop S names error (oprint (name @ '' is a special shell builtin'' @ [NEWLINE_CHR]) st)
          else if mrsh_has_builtin name
          then type_loop S names error (oprint (name @ '' is a shell builtin'' @ [NEWLINE_CHR]) st)
          else case expand_path S st name True False of
                 Some path \<Rightarrow> type_loop S names error (oprint (name @ '' is '' @ path @ [NEWLINE_CHR]) st)
               | None \<Rightarrow> type_loop S names True (oprint (name @ '': not found'' @ [NEWLINE_CHR]) st))"

definition run_builtin_type :: "sys \<Rightarrow> string list \<Rightarrow> mrsh_state \<Rightarrow> builtin_run" where
  "run_builtin_type S argv st0 =
     do { (r, g, _) \<leftarrow> mrsh_getopt argv '':'' ((st_getopt st0)\<lparr>g_optind := 0\<rparr>);
          let st = st0\<lparr>st_getopt := g\<rparr>;
          if r \<noteq> None then Some (1, unknown_option ''type'' ''usage: type name...'' st)
          else if g_optind g = length argv then Some (1, eprintln ''usage: type name...'' st)
          else Some (type_loop S (drop (g_optind g) argv) False st) }"

definition run_builtin_unspecified :: "string list \<Rightarrow> mrsh_state \<Rightarrow> builtin_run" where
  "run_builtin_unspecified argv st =
     (if st_interactive st
      then Some (1, eprintln (hd argv @ '': The behavior of this command is undefined.'') st)
      else Some (1, (eprintln (hd argv @ '': The behavior of this command is undefined. This is an error in your script. Aborting.'') st)
                      \<lparr>st_exit := 1\<rparr>))"

end
