(* ===== verification/Wsh_Builtin_Host.thy ===== *)
theory Wsh_Builtin_Host
  imports Wsh_Builtin
begin

text \<open>
  The builtins of src/shell/mrsh/builtin that read files, change the directory, or were made for jobs
  and signals. Jobs and traps are stubs in this port (shell/job.c, shell/trap.c): \<^verbatim>\<open>job_by_id\<close> finds
  nothing, the list of processes is empty and \<^verbatim>\<open>set_trap\<close> fails.
\<close>

section \<open>Reading a script: dot\<close>

text \<open>The parser reads the file from its descriptor; nothing runs before the whole program is parsed.\<close>

definition run_builtin_dot :: "sys \<Rightarrow> execs \<Rightarrow> string list \<Rightarrow> mrsh_state \<Rightarrow> builtin_run" where
  "run_builtin_dot S X argv st =
     (if length argv \<noteq> 2 then Some (1, eprintln ''usage: . <path>'' st)
      else
        (case expand_path S st (argv ! 1) False False of
           None \<Rightarrow> Some (1, exit_unless_interactive (eprintln (argv ! 1 @ '': not found'') st))
         | Some path \<Rightarrow>
             (case open_file (sys_may_open S) path Read_mode (st_world st) of
                (None, _) \<Rightarrow>
                  Some (1, exit_unless_interactive
                    (eprintln (''unable to open '' @ argv ! 1 @ '' for reading: ''
                      @ sys_strerror S (E_open path Read_mode)) st))
              | (Some i, _) \<Rightarrow>
                  Option.bind (parse_file (w_data (st_world st) i)) (run_parsed X (argv ! 1) st))))"

section \<open>Jobs: bg, fg, jobs, wait\<close>

text \<open>One call of \<^verbatim>\<open>_mrsh_getopt(argc, argv, ":")\<close>, which knows no option.\<close>

definition no_options :: "string list \<Rightarrow> mrsh_state \<Rightarrow> (bool \<times> nat \<times> mrsh_state) option" where
  "no_options argv st =
     do { (r, g, _) \<leftarrow> mrsh_getopt argv '':'' ((st_getopt st)\<lparr>g_optind := 0\<rparr>);
          Some (r = None, g_optind g, st\<lparr>st_getopt := g\<rparr>) }"

text \<open>No job is found, with or without operands.\<close>

definition run_builtin_bg :: "string list \<Rightarrow> mrsh_state \<Rightarrow> builtin_run" where
  "run_builtin_bg argv st0 =
     do { (ok, i, st) \<leftarrow> no_options argv st0;
          if \<not> ok then Some (1, unknown_option ''bg'' ''usage: bg [job_id...]'' st) else Some (1, st) }"

definition run_builtin_fg :: "string list \<Rightarrow> mrsh_state \<Rightarrow> builtin_run" where
  "run_builtin_fg argv st0 =
     do { (ok, i, st) \<leftarrow> no_options argv st0;
          if \<not> ok then Some (1, unknown_option ''fg'' ''usage: fg [job_id]'' st)
          else if i = length argv \<or> i + 1 = length argv then Some (1, st)
          else Some (1, eprintln ''usage: fg [job_id]'' st) }"

text \<open>The letters that were seen before the loop ended; the two options exclude each other.\<close>

fun jobs_options :: "nat \<Rightarrow> string list \<Rightarrow> bool \<Rightarrow> bool \<Rightarrow> mrsh_state \<Rightarrow> (int option \<times> mrsh_state) option" where
  "jobs_options 0 argv pgids pids st = None"
| "jobs_options (Suc n) argv pgids pids st0 =
     do { (r, g, _) \<leftarrow> mrsh_getopt argv '':lp'' (st_getopt st0);
          let st = st0\<lparr>st_getopt := g\<rparr>;
          let exclusive = eprintln ''jobs: the -p and -l options are mutually exclusive'' st;
          (case r of
             None \<Rightarrow> Some (None, st)
           | Some c \<Rightarrow>
               if c = CHR ''l'' then
                 (if pids then Some (Some 1, exclusive) else jobs_options n argv True pids st)
               else if c = CHR ''p'' then
                 (if pgids then Some (Some 1, exclusive) else jobs_options n argv pgids True st)
               else Some (Some 1, unknown_option ''jobs'' ''usage: jobs [-l|-p] [job_id...]'' st)) }"

definition run_builtin_jobs :: "string list \<Rightarrow> mrsh_state \<Rightarrow> builtin_run" where
  "run_builtin_jobs argv st0 =
     do { (failed, st) \<leftarrow> jobs_options (total_chars argv + 1) argv False False
                           (st0\<lparr>st_getopt := (st_getopt st0)\<lparr>g_optind := 0\<rparr>\<rparr>);
          (case failed of
             Some ret \<Rightarrow> Some (ret, st)
           | None \<Rightarrow> Some (if g_optind (st_getopt st) = length argv then 0 else 1, st)) }"

text \<open>
  The operands of \<^verbatim>\<open>wait\<close>: every process is unknown, so its status is 127. \<^verbatim>\<open>waitpid\<close> is a stub that
  returns -1 and does not set \<^verbatim>\<open>errno\<close>.
\<close>

fun wait_operands :: "string list \<Rightarrow> mrsh_state \<Rightarrow> bool \<times> mrsh_state" where
  "wait_operands [] st = (True, st)"
| "wait_operands (a # as) st =
     (if a \<noteq> [] \<and> hd a = CHR ''%'' then (False, st)
      else case c_strtol 10 a of
        (pid, rest, _) \<Rightarrow>
          if rest \<noteq> [] \<or> a = []
          then (False, eprint (''wait: error parsing pid '' @ [CHR 0x27] @ a @ [CHR 0x27]) st)
          else if pid \<le> 0 then (False, eprintln ''wait: invalid process ID'' st)
          else wait_operands as st)"

definition run_builtin_wait :: "sys \<Rightarrow> string list \<Rightarrow> mrsh_state \<Rightarrow> builtin_run" where
  "run_builtin_wait S argv st =
     (if length argv = 1 then Some (0, st)
      else case wait_operands (tl argv) st of
        (False, st1) \<Rightarrow> Some (1, st1)
      | (True, st1) \<Rightarrow>
          let e = sys_errno S (st_world st1) in
          if e = E_child then Some (127, st1)
          else Some (1, eprintln (''wait: '' @ sys_strerror S e) st1))"

section \<open>Process times\<close>

definition run_builtin_times :: "sys \<Rightarrow> string list \<Rightarrow> mrsh_state \<Rightarrow> builtin_run" where
  "run_builtin_times S argv st =
     (if length argv > 1 then Some (1, eprintln ''usage: times'' st)
      else case sys_times S (st_world st) of
        Inl call \<Rightarrow> Some (1, eprintln (call @ '': '' @ sys_strerror S (E_call call)) st)
      | Inr (ticks, clk_tck) \<Rightarrow>
          (case map (\<lambda>t. show_int (t div clk_tck div 60) @ ''m'' @ sys_fmt_quotient S t clk_tck @ ''s'') ticks of
             [u, s, cu, cs] \<Rightarrow>
               Some (0, oprint (u @ '' '' @ s @ [NEWLINE_CHR] @ cu @ '' '' @ cs @ [NEWLINE_CHR]) st)
           | _ \<Rightarrow> None))"

section \<open>Changing the directory: cd\<close>

text \<open>Without a variable \<^verbatim>\<open>PWD\<close> the old directory is a NULL pointer, which \<^verbatim>\<open>strdup\<close> reads.\<close>

definition cd_to :: "sys \<Rightarrow> string \<Rightarrow> mrsh_state \<Rightarrow> builtin_run" where
  "cd_to S path st =
     (case sys_chdir S path (st_world st) of
        None \<Rightarrow> Some (1, eprintln (''cd: '' @ sys_strerror S (E_call ''chdir'')) st)
      | Some w \<Rightarrow>
          (let st1 = st\<lparr>st_world := w\<rparr> in
           case sys_getcwd S w of
             None \<Rightarrow>
               Some (1, eprintln (''current_working_dir failed: '' @ sys_strerror S (E_call ''getcwd'')) st1)
           | Some cwd \<Rightarrow>
               do { old \<leftarrow> mrsh_env_get st ''PWD'';
                    Some (0, mrsh_env_set (mrsh_env_set st1 ''OLDPWD'' old MRSH_VAR_ATTRIB_NONE)
                               ''PWD'' cwd MRSH_VAR_ATTRIB_EXPORT) }))"

definition cd_back :: "sys \<Rightarrow> mrsh_state \<Rightarrow> builtin_run" where
  "cd_back S st =
     (case (mrsh_env_get st ''PWD'', mrsh_env_get st ''OLDPWD'') of
        (None, _) \<Rightarrow> Some (1, eprintln ''cd: PWD is not set'' st)
      | (Some _, None) \<Rightarrow> Some (1, eprintln ''cd: OLDPWD is not set'' st)
      | (Some pwd, Some oldpwd) \<Rightarrow>
          (case sys_chdir S oldpwd (st_world st) of
             None \<Rightarrow> Some (1, eprintln (''cd: '' @ sys_strerror S (E_call ''chdir'')) st)
           | Some w \<Rightarrow>
               Some (0, mrsh_env_set
                 (mrsh_env_set (oprint (oldpwd @ [NEWLINE_CHR]) (st\<lparr>st_world := w\<rparr>))
                    ''PWD'' oldpwd MRSH_VAR_ATTRIB_EXPORT)
                 ''OLDPWD'' pwd MRSH_VAR_ATTRIB_NONE)))"

text \<open>
  The search along \<^verbatim>\<open>CDPATH\<close>, on the rest of its value. The last slash is searched in the whole rest,
  before the colon that ends the first entry is overwritten; the separator is left out when the
  character after that slash is the end of the rest or that colon. The rest after a colon may be
  empty, which is an entry of its own. An entry that \<^verbatim>\<open>stat\<close> cannot read leaves \<^verbatim>\<open>st_mode\<close> undefined.
\<close>

definition cdpath_sep :: "string \<Rightarrow> string \<Rightarrow> string" where
  "cdpath_sep rest entry =
     (let after = rev (takeWhile (\<lambda>c. c \<noteq> CHR ''/'') (rev rest)) in
      if entry = [] \<or> CHR ''/'' \<notin> set rest then ''/''
      else if after = [] \<or> (hd after = CHR '':'' \<and> length rest - length after = length entry) then ''''
      else ''/'')"

function cd_path :: "sys \<Rightarrow> string \<Rightarrow> string option \<Rightarrow> mrsh_state \<Rightarrow> string option option" where
  "cd_path S curpath c st =
     (case c of
        None \<Rightarrow> Some None
      | Some rest \<Rightarrow>
          let entry = takeWhile (\<lambda>x. x \<noteq> CHR '':'') rest;
              nxt = (if CHR '':'' \<in> set rest then Some (drop (length entry + 1) rest) else None);
              path = (if entry = [] then ''.'' else entry) @ cdpath_sep rest entry @ curpath
          in do { d \<leftarrow> sys_isdir S (st_world st) path;
                  if d then Some (Some path) else cd_path S curpath nxt st })"
  by pat_completeness auto
termination
  by (relation "measure (\<lambda>(S, curpath, c, st). case c of None \<Rightarrow> 0 | Some rest \<Rightarrow> Suc (length rest))")
    (auto split: if_splits dest: length_pos_if_in_set)

declare cd_path.simps [simp del]

definition run_builtin_cd :: "sys \<Rightarrow> string list \<Rightarrow> mrsh_state \<Rightarrow> builtin_run" where
  "run_builtin_cd S argv st0 =
     do { (r, g, _) \<leftarrow> mrsh_getopt argv '':LP'' ((st_getopt st0)\<lparr>g_optind := 0\<rparr>);
          let st = st0\<lparr>st_getopt := g\<rparr>;
          let i = g_optind g;
          if r = Some (CHR ''L'') \<or> r = Some (CHR ''P'')
          then Some (1, eprintln ''cd: `-L` and `-P` not yet implemented'' st)
          else if r \<noteq> None then Some (1, unknown_option ''cd'' ''usage: cd [-L|-P] [-|directory]'' st)
          else if i = length argv
          then (case mrsh_env_get st ''HOME'' of
                  Some (h # hs) \<Rightarrow> cd_to S (h # hs) st
                | _ \<Rightarrow> Some (1, eprintln ''cd: No arguments were given and $HOME is not defined.'' st))
          else
            let curpath = argv ! i in
            if curpath = ''-'' then cd_back S st
            else if take 1 curpath \<noteq> ''/'' \<and> take 2 curpath \<noteq> ''./'' \<and> take 3 curpath \<noteq> ''../''
            then do { found \<leftarrow> cd_path S curpath (mrsh_env_get st ''CDPATH'') st;
                      cd_to S (case found of None \<Rightarrow> curpath | Some path \<Rightarrow> path) st }
            else cd_to S curpath st }"

section \<open>Parsing options: getopts\<close>

text \<open>
  With fewer than two operands the names are read behind the end of \<^verbatim>\<open>argv\<close>; with more the usage is
  printed. So only the arguments of the frame are ever parsed.
\<close>

definition getopts_optarg :: "char option \<Rightarrow> string \<Rightarrow> getopt_state \<Rightarrow> mrsh_state \<Rightarrow> mrsh_state" where
  "getopts_optarg r optstring g st =
     (if g_optopt g \<noteq> NUL then
        (if r = Some (CHR '':'') then mrsh_env_set st ''OPTARG'' [g_optopt g] MRSH_VAR_ATTRIB_NONE
         else if optstring = [] \<or> hd optstring \<noteq> CHR '':'' then mrsh_env_unset st ''OPTARG''
         else if g_optopt g \<in> set optstring then mrsh_env_unset st ''OPTARG''
         else mrsh_env_set st ''OPTARG'' [g_optopt g] MRSH_VAR_ATTRIB_NONE)
      else case g_optarg g of
        Some v \<Rightarrow> mrsh_env_set st ''OPTARG'' v MRSH_VAR_ATTRIB_NONE
      | None \<Rightarrow> mrsh_env_unset st ''OPTARG'')"

definition run_builtin_getopts :: "string list \<Rightarrow> mrsh_state \<Rightarrow> builtin_run" where
  "run_builtin_getopts argv st0 =
     do { (ok, i, st) \<leftarrow> no_options argv st0;
          let usage = ''usage: getopts optstring name [arg...]'';
          if \<not> ok then Some (1, unknown_option ''getopts'' usage st)
          else if i + 2 < length argv then Some (1, eprintln usage st)
          else
            (case mrsh_env_get st ''OPTIND'' of
               None \<Rightarrow> Some (1, eprintln ''getopts: OPTIND is not defined'' st)
             | Some optind_str \<Rightarrow>
                 (case c_strtol 10 optind_str of
                    (n, rest, _) \<Rightarrow>
                      if rest \<noteq> [] \<or> n \<le> 0
                      then Some (1, eprintln ''getopts: OPTIND is not a positive integer'' st)
                      else if i + 2 > length argv then None
                      else do {
                        optv \<leftarrow> those (map (frame_arg (cur_frame st)) [0..<nat (fr_argc (cur_frame st))]);
                        (r, g, msg) \<leftarrow> mrsh_getopt optv (argv ! i)
                                         ((st_getopt st)\<lparr>g_optind := nat n, g_optopt := NUL\<rparr>);
                        let st1 = eprint msg (st\<lparr>st_getopt := g\<rparr>);
                        let st2 = mrsh_env_set st1 ''OPTIND'' (show_nat (g_optind g)) MRSH_VAR_ATTRIB_NONE;
                        let st3 = getopts_optarg r (argv ! i) g st2;
                        Some (if r = None then 1 else 0,
                          mrsh_env_set st3 (argv ! (i + 1)) [case r of None \<Rightarrow> CHR ''?'' | Some c \<Rightarrow> c]
                            MRSH_VAR_ATTRIB_NONE) })) }"

section \<open>Traps\<close>

definition sig_names :: "string list" where
  "sig_names =
     [''HUP'', ''INT'', ''QUIT'', ''ILL'', ''TRAP'', ''ABRT'', ''BUS'', ''FPE'', ''KILL'', ''USR1'', ''SEGV'',
      ''USR2'', ''PIPE'', ''ALRM'', ''TERM'', ''CHLD'', ''CONT'', ''STOP'', ''TSTP'', ''TTIN'', ''TTOU'', ''URG'',
      ''XCPU'', ''XFSZ'', ''VTALRM'', ''PROF'', ''SYS'']"

text \<open>
  \<^verbatim>\<open>parse_sig\<close>: the name of the signal, \<^verbatim>\<open>EXIT\<close> for 0. Only the two signals that cannot be caught are
  told apart from the others by the caller.
\<close>

definition parse_sig :: "string \<Rightarrow> string option" where
  "parse_sig str =
     (if str = ''0'' \<or> str = ''EXIT'' then Some ''EXIT''
      else case map_of [(''1'', ''HUP''), (''2'', ''INT''), (''3'', ''QUIT''), (''6'', ''ABRT''), (''9'', ''KILL''),
                        (''14'', ''ALRM''), (''15'', ''TERM'')] str of
        Some name \<Rightarrow> Some name
      | None \<Rightarrow> if str \<in> set sig_names then Some str else None)"

text \<open>\<^verbatim>\<open>set_trap\<close> fails, so the first condition ends the loop.\<close>

definition trap_conditions :: "string list \<Rightarrow> mrsh_state \<Rightarrow> int \<times> mrsh_state" where
  "trap_conditions conditions st =
     (case conditions of
        [] \<Rightarrow> (0, st)
      | c # _ \<Rightarrow>
          (case parse_sig c of
             None \<Rightarrow> (1, eprintln (''trap: failed to parse condition: '' @ c) st)
           | Some name \<Rightarrow>
               if name = ''KILL'' \<or> name = ''STOP''
               then (1, eprintln ''trap: setting a trap for SIGKILL or SIGSTOP produces undefined results'' st)
               else (1, st)))"

definition trap_catch :: "string list \<Rightarrow> mrsh_state \<Rightarrow> parse_outcome \<Rightarrow> int \<times> mrsh_state" where
  "trap_catch conditions st r =
     (case r of
        Parse_error msg line column \<Rightarrow>
          (1, eprintln (''trap: '' @ show_nat line @ '':'' @ show_nat column @ '': '' @ msg) st)
      | Parsed _ \<Rightarrow> trap_conditions conditions st)"

definition run_builtin_trap :: "string list \<Rightarrow> mrsh_state \<Rightarrow> builtin_run" where
  "run_builtin_trap argv st0 =
     do { (ok, i, st) \<leftarrow> no_options argv st0;
          if \<not> ok
          then Some (1, unknown_option ''trap''
                 (''usage: trap <n> [condition...]'' @ [NEWLINE_CHR] @ ''       trap [action condition...]'') st)
          else if i = length argv then Some (0, st)
          else
            let operand = argv ! i; decimal = list_all c_isdigit operand;
                action_str = (if decimal then ''-'' else operand);
                conditions = drop (if decimal then i else i + 1) argv
            in if action_str = [] \<or> action_str = ''-'' then Some (trap_conditions conditions st)
               else map_option (trap_catch conditions st) (parse_text action_str) }"

end
