(* ===== verification/Wsh_Dispatch.thy ===== *)
theory Wsh_Dispatch
  imports Wsh_Builtin_Host
begin

text \<open>
  The builtin \<^verbatim>\<open>command\<close> (src/shell/mrsh/builtin/command.c) and \<^verbatim>\<open>mrsh_run_builtin\<close> (builtin.c), which
  calls the function of the table.
\<close>

section \<open>Dispatch\<close>

text \<open>
  \<^verbatim>\<open>command\<close> passes its operands on, and \<^verbatim>\<open>run_command\<close> of command.c skips \<^verbatim>\<open>_mrsh_optind\<close> of them once
  more before it calls \<^verbatim>\<open>mrsh_run_builtin\<close> (\<open>run\<close> below). \<^verbatim>\<open>fork\<close> is a stub that fails.
\<close>

definition command_run ::
  "sys \<Rightarrow> (string list \<Rightarrow> mrsh_state \<Rightarrow> builtin_run) \<Rightarrow> string list \<Rightarrow> nat \<Rightarrow> bool \<Rightarrow> mrsh_state \<Rightarrow> builtin_run" where
  "command_run S run args optind default_path st =
     (if mrsh_has_builtin (hd args) then run (drop optind args) st
      else case expand_path S st (hd args) True default_path of
             None \<Rightarrow> Some (127, eprintln (hd args @ '': not found'') st)
           | Some _ \<Rightarrow> Some (126, eprintln (''fork: '' @ sys_strerror S (E_call ''fork'')) st))"

definition run_builtin_command ::
  "sys \<Rightarrow> (string list \<Rightarrow> mrsh_state \<Rightarrow> builtin_run) \<Rightarrow> string list \<Rightarrow> mrsh_state \<Rightarrow> builtin_run" where
  "run_builtin_command S run argv st0 =
     (let usage = ''usage: command [-v|-V|-p] command_name [argument...]'' in
      do { (ok, seen, i, st) \<leftarrow> parse_flags argv '':vVp'' ''V'' st0;
           if \<not> ok then Some (1, unknown_option ''command'' usage st)
           else if CHR ''V'' \<in> set seen
           then Some (0, eprintln (''command: `-V` has an unspecified output format, use `-v` instead'') st)
           else if i \<ge> length argv then Some (1, eprintln usage st)
           else if CHR ''v'' \<in> set seen
           then (if i \<noteq> length argv - 1 then Some (1, eprintln usage st)
                 else Some (verify_command S st (argv ! i) (CHR ''p'' \<in> set seen)))
           else command_run S run (drop i argv) i (CHR ''p'' \<in> set seen) st })"

text \<open>The recursion through \<^verbatim>\<open>command\<close> drops arguments; its depth is bounded by their number.\<close>

fun run_builtin_n :: "nat \<Rightarrow> sys \<Rightarrow> execs \<Rightarrow> string list \<Rightarrow> mrsh_state \<Rightarrow> builtin_run" where
  "run_builtin_n 0 S X argv st = None"
| "run_builtin_n (Suc n) S X argv st =
     (if argv = [] then None
      else case get_builtin (hd argv) of
        None \<Rightarrow> Some (- 1, st)
      | Some (func, _) \<Rightarrow>
          (case func of
             builtin_colon \<Rightarrow> Some (0, st)
           | builtin_dot \<Rightarrow> run_builtin_dot S X argv st
           | builtin_alias \<Rightarrow> run_builtin_alias argv st
           | builtin_break \<Rightarrow> run_builtin_break argv st
           | builtin_command \<Rightarrow> run_builtin_command S (run_builtin_n n S X) argv st
           | builtin_eval \<Rightarrow> run_builtin_eval X argv st
           | builtin_exec \<Rightarrow> run_builtin_exec S argv st
           | builtin_exit \<Rightarrow> run_builtin_exit argv st
           | builtin_export \<Rightarrow> run_builtin_export (sys_passwd S) argv st
           | builtin_hash \<Rightarrow> run_builtin_hash S argv st
           | builtin_read \<Rightarrow> run_builtin_read argv st
           | builtin_return \<Rightarrow> run_builtin_return argv st
           | builtin_set \<Rightarrow> run_builtin_set argv st
           | builtin_shift \<Rightarrow> run_builtin_shift argv st
           | builtin_type \<Rightarrow> run_builtin_type S argv st
           | builtin_unalias \<Rightarrow> run_builtin_unalias argv st
           | builtin_unset \<Rightarrow> run_builtin_unset argv st
           | builtin_unspecified \<Rightarrow> run_builtin_unspecified argv st
           | builtin_bg \<Rightarrow> run_builtin_bg argv st
           | builtin_cd \<Rightarrow> run_builtin_cd S argv st
           | builtin_fg \<Rightarrow> run_builtin_fg argv st
           | builtin_getopts \<Rightarrow> run_builtin_getopts argv st
           | builtin_jobs \<Rightarrow> run_builtin_jobs argv st
           | builtin_times \<Rightarrow> run_builtin_times S argv st
           | builtin_trap \<Rightarrow> run_builtin_trap argv st
           | builtin_wait \<Rightarrow> run_builtin_wait S argv st))"

definition mrsh_run_builtin :: "sys \<Rightarrow> execs \<Rightarrow> string list \<Rightarrow> mrsh_state \<Rightarrow> builtin_run" where
  "mrsh_run_builtin S X argv st = run_builtin_n (length argv) S X argv st"

end
