(* ===== verification/Wsh_Redir.thy ===== *)
theory Wsh_Redir
  imports Wsh_Expand
begin

text \<open>
  Redirections: src/shell/mrsh/shell/redir.c, and the loops of run_process and run_builtin
  (shell/task/simple_command.c) that apply the redirections of a simple command. \<^verbatim>\<open>dup2\<close> is a stub in
  WASI, so the port reopens the standard stream on the name of the redirection.
\<close>

section \<open>Opening the target (redir.c)\<close>

text \<open>
  A descriptor is one that was opened here, or the number of \<^verbatim>\<open>n>&m\<close>.
\<close>

datatype redir_target = Opened_fd | Parsed_fd int

definition heredoc_tmpname :: "int \<Rightarrow> string" where
  "heredoc_tmpname pid = ''/tmp/_wsh_heredoc_'' @ show_int pid"

text \<open>
  The lines of the here-document are written to a temporary file, which is opened for reading and
  unlinked. The writes are not short.
\<close>

definition here_document_text :: "mrsh_word list \<Rightarrow> string option" where
  "here_document_text lines =
     map_option concat (those (map (\<lambda>l. map_option (\<lambda>s. s @ [NEWLINE_CHR]) (mrsh_word_str l)) lines))"

definition create_here_document_fd ::
  "sys \<Rightarrow> mrsh_word list \<Rightarrow> mrsh_state \<Rightarrow> ((c_errno + redir_target) \<times> mrsh_state) option" where
  "create_here_document_fd S lines st =
     (let tmpname = heredoc_tmpname (sys_getpid S) in
      case open_file (sys_may_open S) tmpname Write_mode (st_world st) of
        (None, w) \<Rightarrow>
          Some (Inl (E_open tmpname Write_mode),
            eprint (''cannot create here-document temp file: ''
              @ sys_strerror S (E_open tmpname Write_mode) @ [NEWLINE_CHR]) (st\<lparr>st_world := w\<rparr>))
      | (Some i, w) \<Rightarrow>
          do { text \<leftarrow> here_document_text lines;
               let w1 = w\<lparr>w_data := (w_data w)(i := text)\<rparr>;
               (case open_file (sys_may_open S) tmpname Read_mode w1 of
                  (None, w2) \<Rightarrow>
                    Some (Inl (E_open tmpname Read_mode),
                      eprint (''cannot read here-document temp file: ''
                        @ sys_strerror S (E_open tmpname Read_mode) @ [NEWLINE_CHR])
                        (st\<lparr>st_world := c_unlink tmpname w2\<rparr>))
                | (Some _, w2) \<Rightarrow> Some (Inr Opened_fd, st\<lparr>st_world := c_unlink tmpname w2\<rparr>)) })"

definition parse_fd :: "string \<Rightarrow> c_errno + redir_target" where
  "parse_fd str =
     (case c_strtol 10 str of
        (fd, rest, errno) \<Rightarrow>
          if errno then Inl (if rest = str then E_inval else E_range)
          else if rest \<noteq> [] then Inl E_inval
          else if fd < 0 then Inl E_none
          else Inr (Parsed_fd fd))"

definition open_target ::
  "sys \<Rightarrow> string \<Rightarrow> open_mode \<Rightarrow> mrsh_state \<Rightarrow> ((c_errno + redir_target) \<times> mrsh_state) option" where
  "open_target S filename mode st =
     (case open_file (sys_may_open S) filename mode (st_world st) of
        (None, w) \<Rightarrow> Some (Inl (E_open filename mode), st\<lparr>st_world := w\<rparr>)
      | (Some _, w) \<Rightarrow> Some (Inr Opened_fd, st\<lparr>st_world := w\<rparr>))"

definition redir_open ::
  "sys \<Rightarrow> mrsh_io_redirect_op \<Rightarrow> string \<Rightarrow> mrsh_word list \<Rightarrow> mrsh_state \<Rightarrow>
   ((c_errno + redir_target) \<times> mrsh_state) option" where
  "redir_open S op filename here_document st =
     (case op of
        MRSH_IO_LESS \<Rightarrow> open_target S filename Read_mode st
      | MRSH_IO_GREAT \<Rightarrow> open_target S filename Write_mode st
      | MRSH_IO_CLOBBER \<Rightarrow> open_target S filename Write_mode st
      | MRSH_IO_DGREAT \<Rightarrow> open_target S filename Append_mode st
      | MRSH_IO_LESSAND \<Rightarrow> Some (parse_fd filename, st)
      | MRSH_IO_GREATAND \<Rightarrow> Some (parse_fd filename, st)
      | MRSH_IO_LESSGREAT \<Rightarrow> open_target S filename Update_mode st
      | MRSH_IO_DLESS \<Rightarrow> create_here_document_fd S here_document st
      | MRSH_IO_DLESSDASH \<Rightarrow> create_here_document_fd S here_document st)"

definition default_redir_fd :: "mrsh_io_redirect_op \<Rightarrow> int" where
  "default_redir_fd op =
     (if op \<in> {MRSH_IO_GREAT, MRSH_IO_CLOBBER, MRSH_IO_DGREAT, MRSH_IO_GREATAND} then 1 else 0)"

text \<open>The result is the descriptor and the \<^verbatim>\<open>redir_fd\<close> it stands for, or nothing on an error.\<close>

definition process_redir ::
  "sys \<Rightarrow> mrsh_io_redirect \<Rightarrow> mrsh_state \<Rightarrow> ((redir_target \<times> int) option \<times> mrsh_state) option" where
  "process_redir S redir st =
     (case redir of
        Io_redirect_at _ \<Rightarrow> None
      | Io_redirect io_number op name here_document \<Rightarrow>
        do { filename \<leftarrow> mrsh_word_str name;
             (fd, st1) \<leftarrow> redir_open S op filename here_document st;
             (case fd of
                Inl e \<Rightarrow>
                  Some (None, eprint (''cannot open '' @ filename @ '': '' @ sys_strerror S e @ [NEWLINE_CHR]) st1)
              | Inr t \<Rightarrow> Some (Some (t, if io_number < 0 then default_redir_fd op else io_number), st1)) })"

section \<open>Applying a redirection (simple_command.c)\<close>

text \<open>\<^verbatim>\<open>close(fd)\<close>: the number of \<^verbatim>\<open>n>&m\<close> may be that of a standard stream.\<close>

definition close_fd :: "redir_target \<Rightarrow> world \<Rightarrow> world" where
  "close_fd t w =
     (case t of
        Opened_fd \<Rightarrow> w
      | Parsed_fd n \<Rightarrow>
          if n = 0 then w\<lparr>w_stdin := In_closed\<rparr>
          else if n = 1 then w\<lparr>w_stdout := Out_closed\<rparr>
          else if n = 2 then w\<lparr>w_stderr := Out_closed\<rparr> else w)"

definition redir_mode :: "mrsh_io_redirect_op \<Rightarrow> open_mode" where
  "redir_mode op = (if op = MRSH_IO_DGREAT then Append_mode else Write_mode)"

text \<open>The stream that \<^verbatim>\<open>redir_fd\<close> names is reopened on the name; the flag is \<^verbatim>\<open>ok\<close>.\<close>

definition reopen_stream ::
  "sys \<Rightarrow> int \<Rightarrow> mrsh_io_redirect_op \<Rightarrow> string \<Rightarrow> mrsh_state \<Rightarrow> bool \<times> mrsh_state" where
  "reopen_stream S redir_fd op fname st =
     (if redir_fd = 1 then
        (case freopen_stdout (sys_may_open S) fname (redir_mode op) (st_world st) of
           (ok, w) \<Rightarrow> (ok, st\<lparr>st_world := w\<rparr>))
      else if redir_fd = 0 then
        (case freopen_stdin (sys_may_open S) fname (st_world st) of (ok, w) \<Rightarrow> (ok, st\<lparr>st_world := w\<rparr>))
      else if redir_fd = 2 then
        (case freopen_stderr (sys_may_open S) fname (redir_mode op) (st_world st) of
           (ok, w) \<Rightarrow> (ok, st\<lparr>st_world := w\<rparr>))
      else (False, eprint (''wsh: cannot redirect fd '' @ show_int redir_fd @ [NEWLINE_CHR]) st))"

definition apply_redirect :: "sys \<Rightarrow> mrsh_io_redirect \<Rightarrow> mrsh_state \<Rightarrow> (bool \<times> mrsh_state) option" where
  "apply_redirect S redir st =
     (case redir of
        Io_redirect_at _ \<Rightarrow> None
      | Io_redirect io_number op name here_document \<Rightarrow>
        do { (r, st1) \<leftarrow> process_redir S redir st;
             (case r of
                None \<Rightarrow> Some (False, st1)
              | Some (t, redir_fd) \<Rightarrow>
                  do { fname \<leftarrow> mrsh_word_str name;
                       (case reopen_stream S redir_fd op fname st1 of
                          (ok, st2) \<Rightarrow> Some (ok, upd_world (close_fd t) st2)) }) })"

fun apply_redirects :: "sys \<Rightarrow> mrsh_io_redirect list \<Rightarrow> mrsh_state \<Rightarrow> (bool \<times> mrsh_state) option" where
  "apply_redirects S [] st = Some (True, st)"
| "apply_redirects S (r # rs) st =
     do { (ok, st1) \<leftarrow> apply_redirect S r st;
          if ok then apply_redirects S rs st1 else Some (False, st1) }"

end
