(* ===== verification/Wsh_Simple.thy ===== *)
theory Wsh_Simple
  imports Wsh_Dispatch Wsh_Redir
begin

text \<open>
  Simple commands: src/shell/mrsh/shell/task/simple_command.c, with the prompt of \<^verbatim>\<open>set -x\<close> from
  shell/entry.c. A command is expanded on a copy of its tree, so the tree of the program is not
  changed by a run. A command that is neither a function nor a builtin is an applet of BusyBox, run in
  the same process (\<open>sys_applet\<close>, with its exit through \<^verbatim>\<open>xfunc_die\<close> and \<^verbatim>\<open>longjmp\<close>). The dispatch to
  component guests (\<^verbatim>\<open>COMPONENT_MODE\<close>) and the two file names kept only for it
  (\<^verbatim>\<open>wsh_stdout_file\<close>, \<^verbatim>\<open>wsh_stdin_file\<close>) are not modelled.
\<close>

type_synonym 'a run = "(int \<times> 'a \<times> mrsh_state) option"

section \<open>Words on their own (mrsh_run_word, entry.c)\<close>

definition run_word_tilde :: "sys \<Rightarrow> execs \<Rightarrow> bool \<Rightarrow> mrsh_word \<Rightarrow> mrsh_state \<Rightarrow> word_run" where
  "run_word_tilde S X assigned word st = x_word X False (expand_tilde (sys_passwd S) st assigned word) st"

definition mrsh_run_word :: "sys \<Rightarrow> execs \<Rightarrow> mrsh_word \<Rightarrow> mrsh_state \<Rightarrow> word_run" where
  "mrsh_run_word S X word st =
     do { (ret, word', st1) \<leftarrow> run_word_tilde S X False word st;
          Some (ret, word', st1\<lparr>st_last_status := st_last_status st\<rparr>) }"

definition expand_str :: "sys \<Rightarrow> execs \<Rightarrow> string \<Rightarrow> mrsh_state \<Rightarrow> (string option \<times> mrsh_state) option" where
  "expand_str S X src st =
     Option.bind (parse_word_text src) (\<lambda>r.
      case r of
        Word_error (Some (msg, line, column)) \<Rightarrow>
          Some (None, eprintln (show_nat line @ '':'' @ show_nat column @ '': syntax error: '' @ msg) st)
      | Word_error None \<Rightarrow> Some (None, eprintln ''expand_str: unknown error'' st)
      | Word_parsed word \<Rightarrow>
          do { (_, word', st1) \<leftarrow> mrsh_run_word S X word st;
               str \<leftarrow> mrsh_word_str word';
               Some (Some str, st1) })"

definition expand_ps :: "sys \<Rightarrow> execs \<Rightarrow> string \<Rightarrow> mrsh_state \<Rightarrow> (string option \<times> mrsh_state) option" where
  "expand_ps S X name st =
     (case mrsh_env_get st name of
        None \<Rightarrow> Some (None, st)
      | Some ps \<Rightarrow>
          do { (str, st1) \<leftarrow> expand_str S X ps st;
               Some (str, if str = None
                          then eprintln (''failed to expand '' @ [CHR 0x27] @ name @ [CHR 0x27]) st1 else st1) })"

definition mrsh_get_ps4 :: "sys \<Rightarrow> execs \<Rightarrow> mrsh_state \<Rightarrow> (string \<times> mrsh_state) option" where
  "mrsh_get_ps4 S X st =
     do { (str, st1) \<leftarrow> expand_ps S X ''PS4'' st;
          Some (case str of None \<Rightarrow> ''+ '' | Some s \<Rightarrow> s, st1) }"

section \<open>Expanding the parts of a command\<close>

fun expand_words ::
  "sys \<Rightarrow> execs \<Rightarrow> mrsh_word list \<Rightarrow> string list \<Rightarrow> mrsh_state \<Rightarrow> string list run" where
  "expand_words S X [] args st = Some (0, args, st)"
| "expand_words S X (w # ws) args st =
     do { (ret, args', st1) \<leftarrow> expand_word S X w args st;
          if ret < 0 then Some (ret, args', st1) else expand_words S X ws args' st1 }"

fun expand_assignments ::
  "sys \<Rightarrow> execs \<Rightarrow> mrsh_assignment list \<Rightarrow> mrsh_state \<Rightarrow> mrsh_assignment list run" where
  "expand_assignments S X [] st = Some (0, [], st)"
| "expand_assignments S X (Assignment name v # as) st =
     do { (ret, v', st1) \<leftarrow> run_word_tilde S X True v st;
          if ret < 0 then Some (ret, Assignment name v' # as, st1)
          else do { (ret', as', st2) \<leftarrow> expand_assignments S X as st1;
                    Some (ret', Assignment name v' # as', st2) } }"

fun expand_lines :: "sys \<Rightarrow> execs \<Rightarrow> mrsh_word list \<Rightarrow> mrsh_state \<Rightarrow> mrsh_word list run" where
  "expand_lines S X [] st = Some (0, [], st)"
| "expand_lines S X (l # ls) st =
     do { (ret, l', st1) \<leftarrow> run_word_tilde S X False l st;
          if ret < 0 then Some (ret, l' # ls, st1)
          else do { (ret', ls', st2) \<leftarrow> expand_lines S X ls st1; Some (ret', l' # ls', st2) } }"

fun expand_redirects ::
  "sys \<Rightarrow> execs \<Rightarrow> mrsh_io_redirect list \<Rightarrow> mrsh_state \<Rightarrow> mrsh_io_redirect list run" where
  "expand_redirects S X [] st = Some (0, [], st)"
| "expand_redirects S X (Io_redirect_at _ # rs) st = None"
| "expand_redirects S X (Io_redirect io_number op name here_document # rs) st =
     do { (ret, name', st1) \<leftarrow> run_word_tilde S X False name st;
          if ret < 0 then Some (ret, Io_redirect io_number op name' here_document # rs, st1)
          else do {
            (ret', lines, st2) \<leftarrow> expand_lines S X here_document st1;
            if ret' < 0 then Some (ret', Io_redirect io_number op name' lines # rs, st2)
            else do { (ret'', rs', st3) \<leftarrow> expand_redirects S X rs st2;
                      Some (ret'', Io_redirect io_number op name' lines # rs', st3) } } }"

section \<open>Assignments\<close>

definition is_readonly :: "mrsh_state \<Rightarrow> string \<Rightarrow> bool" where
  "is_readonly st name \<longleftrightarrow>
     mrsh_env_get st name \<noteq> None \<and> has_flag (env_attribs st name 0) MRSH_VAR_ATTRIB_READONLY"

definition readonly_message :: "string \<Rightarrow> string" where
  "readonly_message name = ''cannot modify readonly variable '' @ name"

text \<open>The assignments of a command without a name change the variables of the shell.\<close>

fun run_assignments :: "mrsh_assignment list \<Rightarrow> mrsh_state \<Rightarrow> (int \<times> mrsh_state) option" where
  "run_assignments [] st = Some (0, st)"
| "run_assignments (Assignment name v # as) st =
     do { new_value \<leftarrow> mrsh_word_str v;
          if is_readonly st name then Some (TASK_STATUS_ERROR, eprintln (readonly_message name) st)
          else run_assignments as
                 (mrsh_env_set st name new_value
                   (if has_flag (st_options st) MRSH_OPT_ALLEXPORT then MRSH_VAR_ATTRIB_EXPORT
                    else MRSH_VAR_ATTRIB_NONE)) }"

text \<open>Those of a command with a name change the environment of the process, and stay there.\<close>

fun process_assignments :: "mrsh_assignment list \<Rightarrow> mrsh_state \<Rightarrow> (bool \<times> mrsh_state) option" where
  "process_assignments [] st = Some (True, st)"
| "process_assignments (Assignment name v # as) st =
     (if is_readonly st name then Some (False, eprintln (readonly_message name) st)
      else do { val \<leftarrow> mrsh_word_str v; process_assignments as (upd_world (c_setenv name val) st) })"

definition populate_env_iterator :: "string \<Rightarrow> mrsh_variable \<Rightarrow> world \<Rightarrow> world" where
  "populate_env_iterator key var w =
     (if has_flag (var_attribs var) MRSH_VAR_ATTRIB_EXPORT then c_setenv key (var_value var) w else w)"

section \<open>Running an applet or a builtin\<close>

definition run_process ::
  "sys \<Rightarrow> mrsh_io_redirect list \<Rightarrow> mrsh_assignment list \<Rightarrow> string list \<Rightarrow> mrsh_state \<Rightarrow>
   (int \<times> mrsh_state) option" where
  "run_process S io_redirects assignments argv st =
     do { (assigned, st1) \<leftarrow> process_assignments assignments st;
          if \<not> assigned then Some (TASK_STATUS_ERROR, st1)
          else do {
            let st2 = upd_world (mrsh_hashtable_for_each (st_variables st1) populate_env_iterator) st1;
            (ok, st3) \<leftarrow> apply_redirects S io_redirects st2;
            if \<not> ok then Some (TASK_STATUS_ERROR, st3)
            else
              (case sys_applet S (hd argv) of
                 None \<Rightarrow> Some (127, eprintln (''wsh: '' @ hd argv @ '': applet not found'') st3)
               | Some main \<Rightarrow>
                   (case main argv (st_world st3) of (ret, w) \<Rightarrow> Some (ret, st3\<lparr>st_world := w\<rparr>))) } }"

definition run_builtin ::
  "sys \<Rightarrow> execs \<Rightarrow> mrsh_io_redirect list \<Rightarrow> string list \<Rightarrow> mrsh_state \<Rightarrow> (int \<times> mrsh_state) option" where
  "run_builtin S X io_redirects argv st =
     do { (ok, st1) \<leftarrow> apply_redirects S io_redirects st;
          if \<not> ok then Some (TASK_STATUS_ERROR, st1) else mrsh_run_builtin S X argv st1 }"

text \<open>
  A function runs on a copy of its body, in a frame of its own. The body is found at the address that
  the table holds; it is undefined when it was freed.
\<close>

definition call_function ::
  "execs \<Rightarrow> nat \<Rightarrow> string list \<Rightarrow> mrsh_state \<Rightarrow> (int \<times> mrsh_state) option" where
  "call_function X fn argv st =
     do { def \<leftarrow> st_bodies st fn;
          body \<leftarrow> mrsh_command_copy def;
          (ret, _, st1) \<leftarrow> x_command X body (push_frame argv st);
          st2 \<leftarrow> pop_frame st1;
          Some (ret, st2) }"

section \<open>The capture of standard output\<close>

definition capture_tmpname :: "int \<Rightarrow> nat \<Rightarrow> string" where
  "capture_tmpname pid n = ''/tmp/_wsh_c_'' @ show_int pid @ ''_'' @ show_nat n"

definition capture_setup :: "sys \<Rightarrow> mrsh_state \<Rightarrow> string option \<times> mrsh_state" where
  "capture_setup S st =
     (if st_stdout_redirected st then (None, st)
      else let tmp = capture_tmpname (sys_getpid S) (st_out_counter st);
               st1 = st\<lparr>st_out_counter := st_out_counter st + 1\<rparr>
           in case freopen_stdout (sys_may_open S) tmp Write_mode (st_world st1) of
                (ok, w) \<Rightarrow> (if ok then Some tmp else None, st1\<lparr>st_world := w\<rparr>))"

text \<open>What was written to the temporary file goes to standard error.\<close>

definition capture_emit :: "sys \<Rightarrow> string option \<Rightarrow> mrsh_state \<Rightarrow> mrsh_state" where
  "capture_emit S tmp st =
     (case tmp of
        None \<Rightarrow> st
      | Some t \<Rightarrow>
          upd_world (\<lambda>w. c_unlink t (c_stderr (read_file (sys_may_open S) t w) w)) st)"

section \<open>Simple commands\<close>

definition xtrace :: "sys \<Rightarrow> execs \<Rightarrow> string list \<Rightarrow> mrsh_state \<Rightarrow> mrsh_state option" where
  "xtrace S X argv st =
     (if has_flag (st_options st) MRSH_OPT_XTRACE
      then do { (ps4, st1) \<leftarrow> mrsh_get_ps4 S X st; Some (eprintln (ps4 @ join_spaces argv) st1) }
      else Some st)"

text \<open>A function is preferred to a builtin, a builtin to an applet.\<close>

definition dispatch ::
  "sys \<Rightarrow> execs \<Rightarrow> mrsh_io_redirect list \<Rightarrow> mrsh_assignment list \<Rightarrow> string list \<Rightarrow> mrsh_state \<Rightarrow>
   (int \<times> mrsh_state) option" where
  "dispatch S X io_redirects assignments argv st =
     (case mrsh_hashtable_get (st_functions st) (hd argv) of
        Some fn \<Rightarrow> call_function X fn argv st
      | None \<Rightarrow>
          if mrsh_has_builtin (hd argv) then run_builtin S X io_redirects argv st
          else run_process S io_redirects assignments argv st)"

definition run_captured ::
  "sys \<Rightarrow> (mrsh_state \<Rightarrow> (int \<times> mrsh_state) option) \<Rightarrow> mrsh_state \<Rightarrow> (int \<times> mrsh_state) option" where
  "run_captured S run st =
     (case capture_setup S st of
        (tmp, st1) \<Rightarrow> do { (ret, st2) \<leftarrow> run st1; Some (ret, capture_emit S tmp st2) })"

text \<open>The part after the copy of the tree: the expansions in order, the trace, the run.\<close>

definition run_named_command ::
  "sys \<Rightarrow> execs \<Rightarrow> mrsh_word list \<Rightarrow> mrsh_io_redirect list \<Rightarrow> mrsh_assignment list \<Rightarrow> mrsh_state \<Rightarrow>
   (int \<times> mrsh_state) option" where
  "run_named_command S X words io_redirects assignments st =
     do { (ret, argv, st1) \<leftarrow> expand_words S X words [] st;
          if ret < 0 then Some (ret, st1)
          else if argv = [] then None
          else do {
            (ret', assigns, st2) \<leftarrow> expand_assignments S X assignments st1;
            if ret' < 0 then Some (ret', st2)
            else do {
              (ret'', redirs, st3) \<leftarrow> expand_redirects S X io_redirects st2;
              if ret'' < 0 then Some (ret'', st3)
              else do {
                st4 \<leftarrow> xtrace S X argv st3;
                run_captured S (dispatch S X redirs assigns argv) st4 } } } }"

definition run_simple_command ::
  "sys \<Rightarrow> execs \<Rightarrow> mrsh_word option \<Rightarrow> mrsh_word list \<Rightarrow> mrsh_io_redirect list \<Rightarrow> mrsh_assignment list \<Rightarrow>
   mrsh_state \<Rightarrow> (int \<times> mrsh_state) option" where
  "run_simple_command S X name arguments io_redirects assignments st =
     (case name of
        None \<Rightarrow>
          do { as \<leftarrow> those (map mrsh_assignment_copy assignments);
               (ret, as', st1) \<leftarrow> expand_assignments S X as st;
               if ret < 0 then Some (ret, st1) else run_assignments as' st1 }
      | Some w \<Rightarrow>
          do { copy \<leftarrow> mrsh_command_copy (MRSH_SIMPLE_COMMAND (Some w) arguments io_redirects assignments);
               (case copy of
                  MRSH_SIMPLE_COMMAND (Some w') args redirs as \<Rightarrow>
                    run_named_command S X (w' # args) redirs as st
                | _ \<Rightarrow> None) })"

end
