(* ===== verification/Wsh_Task.thy ===== *)
theory Wsh_Task
  imports Wsh_Simple
begin

text \<open>
  The executor: pipelines (src/shell/mrsh/shell/task/pipeline.c), compound commands, and-or lists and
  command lists (shell/task/task.c), and the entry point (src/shell/wsh.c).

  A run returns the status, the tree as it is afterwards and the state: \<^verbatim>\<open>run_case_clause\<close> expands the
  patterns of a case item in place, so a tree can change while it runs. The mutual recursion of the C
  functions is open in the definitions (the record \<open>execs\<close>) and closed by \<open>exec\<close>, whose first argument
  bounds the depth of the recursion; \<open>None\<close> is a run that needs more depth, does not end, aborts or is
  undefined. A \<^verbatim>\<open>while\<close> loop is a partial function: it uses no depth, and a loop that does not end is
  \<open>None\<close>.
\<close>

section \<open>Pipelines\<close>

definition pipe_tmpname :: "int \<Rightarrow> nat \<Rightarrow> string" where
  "pipe_tmpname pid i = ''/tmp/_wsh_p_'' @ show_int pid @ ''_'' @ show_nat i"

text \<open>\<^verbatim>\<open>if (pl->bang && ret >= 0) ret = !ret\<close>\<close>

definition apply_bang :: "bool \<Rightarrow> int \<Rightarrow> int" where
  "apply_bang bang ret = (if bang \<and> ret \<ge> 0 then (if ret = 0 then 1 else 0) else ret)"

definition stage_stdin :: "sys \<Rightarrow> nat \<Rightarrow> world \<Rightarrow> bool \<times> world" where
  "stage_stdin S i w =
     (if i = 0 then (True, w) else freopen_stdin (sys_may_open S) (pipe_tmpname (sys_getpid S) (i - 1)) w)"

definition freopen_failed :: "sys \<Rightarrow> string \<Rightarrow> string \<Rightarrow> open_mode \<Rightarrow> mrsh_state \<Rightarrow> mrsh_state" where
  "freopen_failed S stream path mode st =
     eprintln (''wsh: pipeline freopen '' @ stream @ '' failed: '' @ sys_strerror S (E_open path mode)) st"

text \<open>
  The stages from number \<open>i\<close> on. The flag is set when a stream cannot be reopened, which ends the
  pipeline with status 1.
\<close>

fun run_stages ::
  "sys \<Rightarrow> execs \<Rightarrow> nat \<Rightarrow> int \<Rightarrow> mrsh_command list \<Rightarrow> mrsh_state \<Rightarrow>
   (bool \<times> int \<times> mrsh_command list \<times> mrsh_state) option" where
  "run_stages S X i ret [] st = Some (False, ret, [], st)"
| "run_stages S X i ret (c # cs) st =
     (let pid = sys_getpid S; tmpname = pipe_tmpname pid i; prev = pipe_tmpname pid (i - 1) in
      case stage_stdin S i (st_world st) of
        (False, w) \<Rightarrow>
          Some (True, 1, c # cs, freopen_failed S ''stdin'' prev Read_mode (st\<lparr>st_world := w\<rparr>))
      | (True, w) \<Rightarrow>
          (case freopen_stdout (sys_may_open S) tmpname Write_mode w of
             (False, w') \<Rightarrow>
               Some (True, 1, c # cs, freopen_failed S ''stdout'' tmpname Write_mode (st\<lparr>st_world := w'\<rparr>))
           | (True, w') \<Rightarrow>
               do { (ret', c', st1) \<leftarrow> x_command X c (st\<lparr>st_world := w'\<rparr>);
                    let st2 = (if i = 0 then st1 else upd_world (c_unlink prev) st1);
                    (failed, r, cs', st3) \<leftarrow> run_stages S X (i + 1) ret' cs st2;
                    Some (failed, r, c' # cs', st3) }))"

text \<open>\<^verbatim>\<open>fopen(path, "ab")\<close> and one write.\<close>

definition append_to_file :: "sys \<Rightarrow> string \<Rightarrow> string \<Rightarrow> world \<Rightarrow> world" where
  "append_to_file S path s w =
     (case open_file (sys_may_open S) path Append_mode w of
        (None, w') \<Rightarrow> w'
      | (Some i, w') \<Rightarrow> w'\<lparr>w_data := (w_data w')(i := w_data w' i @ s)\<rparr>)"

text \<open>The output of the last stage goes to the capture file or to standard error.\<close>

definition emit_output :: "sys \<Rightarrow> string \<Rightarrow> mrsh_state \<Rightarrow> mrsh_state" where
  "emit_output S final_tmp st =
     (let output = read_file (sys_may_open S) final_tmp (st_world st);
          st1 = upd_world (c_unlink final_tmp) st
      in if output = [] then st1
         else case st_capture_file st1 of
                Some f \<Rightarrow> upd_world (append_to_file S f output) st1
              | None \<Rightarrow> eprint output st1)"

definition run_multi_pipeline ::
  "sys \<Rightarrow> execs \<Rightarrow> mrsh_command list \<Rightarrow> bool \<Rightarrow> mrsh_state \<Rightarrow> mrsh_command list run" where
  "run_multi_pipeline S X commands bang st =
     (let prev_redirected = st_stdout_redirected st in
      do { (failed, ret, commands', st1) \<leftarrow> run_stages S X 0 0 commands (st\<lparr>st_stdout_redirected := True\<rparr>);
           let st2 = st1\<lparr>st_stdout_redirected := prev_redirected\<rparr>;
           if failed then Some (1, commands', st2)
           else
             let st3 = emit_output S (pipe_tmpname (sys_getpid S) (length commands - 1)) st2;
                 st4 = upd_world (snd \<circ> freopen_stdin (sys_may_open S) ''/dev/null'') st3
             in Some (apply_bang bang ret, commands', st4) })"

definition run_pipeline ::
  "sys \<Rightarrow> execs \<Rightarrow> mrsh_command list \<Rightarrow> bool \<Rightarrow> mrsh_state \<Rightarrow> mrsh_command list run" where
  "run_pipeline S X commands bang st =
     (case commands of
        [] \<Rightarrow> None
      | [c] \<Rightarrow> do { (ret, c', st1) \<leftarrow> x_command X c st; Some (apply_bang bang ret, [c'], st1) }
      | _ \<Rightarrow> run_multi_pipeline S X commands bang st)"

section \<open>Subshells\<close>

text \<open>
  The iterators copy a table into an empty one. A copied variable has its own value; a copied function
  shares the body.
\<close>

definition copy_table :: "'v mrsh_hashtable \<Rightarrow> 'v mrsh_hashtable" where
  "copy_table t = mrsh_hashtable_for_each t (\<lambda>key v acc. ht_set acc key v) mrsh_hashtable_empty"

definition enter_subshell :: "mrsh_state \<Rightarrow> mrsh_state" where
  "enter_subshell st =
     st\<lparr>st_variables := copy_table (st_variables st), st_functions := copy_table (st_functions st),
        st_aliases := copy_table (st_aliases st)\<rparr>"

definition leave_subshell :: "mrsh_state \<Rightarrow> mrsh_state \<Rightarrow> mrsh_state" where
  "leave_subshell saved st =
     st\<lparr>st_variables := st_variables saved, st_functions := st_functions saved,
        st_aliases := st_aliases saved, st_last_status := st_last_status saved\<rparr>"

definition run_subshell ::
  "execs \<Rightarrow> mrsh_command_list list \<Rightarrow> mrsh_state \<Rightarrow> mrsh_command_list list run" where
  "run_subshell X body st =
     do { (ret, body', st1) \<leftarrow> x_list X body (enter_subshell st);
          Some (ret, body', leave_subshell st st1) }"

section \<open>Conditionals and loops\<close>

definition run_if_clause ::
  "execs \<Rightarrow> mrsh_command_list list \<Rightarrow> mrsh_command_list list \<Rightarrow> mrsh_command option \<Rightarrow> mrsh_state \<Rightarrow>
   mrsh_command run" where
  "run_if_clause X condition body else_part st =
     do { (ret, condition', st1) \<leftarrow> x_list X condition st;
          if ret < 0 then Some (ret, MRSH_IF_CLAUSE condition' body else_part, st1)
          else if ret = 0
          then do { (ret', body', st2) \<leftarrow> x_list X body st1;
                    Some (ret', MRSH_IF_CLAUSE condition' body' else_part, st2) }
          else (case else_part of
                  None \<Rightarrow> Some (0, MRSH_IF_CLAUSE condition' body else_part, st1)
                | Some ep \<Rightarrow>
                    do { (ret', ep', st2) \<leftarrow> x_command X ep st1;
                         Some (ret', MRSH_IF_CLAUSE condition' body (Some ep'), st2) }) }"

definition break_loop :: "mrsh_loop_type \<Rightarrow> int \<Rightarrow> bool" where
  "break_loop type ret = (case type of MRSH_LOOP_WHILE \<Rightarrow> ret > 0 | MRSH_LOOP_UNTIL \<Rightarrow> ret = 0)"

text \<open>What an interrupted list means for the loop with number \<open>loop_num\<close>.\<close>

datatype interrupt = To_parent | Break_here | Continue_here

definition interrupt_kind :: "int \<Rightarrow> call_frame \<Rightarrow> interrupt" where
  "interrupt_kind loop_num fr =
     (if fr_nloops fr < loop_num then To_parent
      else if fr_branch_control fr = MRSH_BRANCH_CONTINUE then Continue_here
      else Break_here)"

text \<open>
  The loop, from the value of \<^verbatim>\<open>loop_ret\<close> on. The flag is set by a \<^verbatim>\<open>return\<close> out of the loop, which leaves
  the loop counter of the frame as it is. A \<^verbatim>\<open>continue\<close> in the condition reads \<^verbatim>\<open>break_loop\<close> before it was
  assigned. After a \<^verbatim>\<open>continue\<close> in the body \<^verbatim>\<open>loop_ret\<close> stays \<^verbatim>\<open>TASK_STATUS_INTERRUPTED\<close>.
\<close>

partial_function (option) loop_iterate ::
  "execs \<Rightarrow> mrsh_loop_type \<Rightarrow> int \<Rightarrow> int \<Rightarrow> mrsh_command_list list \<Rightarrow> mrsh_command_list list \<Rightarrow> mrsh_state \<Rightarrow>
   (bool \<times> int \<times> mrsh_command_list list \<times> mrsh_command_list list \<times> mrsh_state) option" where
  "loop_iterate X type loop_num loop_ret condition body st =
     (if st_exit st \<noteq> - 1 then Some (False, loop_ret, condition, body, st)
      else do {
        (ret, condition', st1) \<leftarrow> x_list X condition st;
        if ret = TASK_STATUS_INTERRUPTED
        then (case interrupt_kind loop_num (cur_frame st1) of
                To_parent \<Rightarrow> Some (False, TASK_STATUS_INTERRUPTED, condition', body, st1)
              | Break_here \<Rightarrow> Some (False, 0, condition', body, st1)
              | Continue_here \<Rightarrow> None)
        else if ret < 0 then Some (True, ret, condition', body, st1)
        else if break_loop type ret then Some (False, loop_ret, condition', body, st1)
        else do {
          (body_ret, body', st2) \<leftarrow> x_list X body st1;
          if body_ret = TASK_STATUS_INTERRUPTED
          then (case interrupt_kind loop_num (cur_frame st2) of
                  To_parent \<Rightarrow> Some (False, TASK_STATUS_INTERRUPTED, condition', body', st2)
                | Break_here \<Rightarrow> Some (False, 0, condition', body', st2)
                | Continue_here \<Rightarrow> loop_iterate X type loop_num body_ret condition' body' st2)
          else if body_ret < 0 then Some (True, body_ret, condition', body', st2)
          else loop_iterate X type loop_num body_ret condition' body' st2 } })"

declare loop_iterate.simps [code]

lemmas loop_induct = loop_iterate.raw_induct [rotated, consumes 1, case_names step]

definition enter_loop :: "mrsh_state \<Rightarrow> mrsh_state" where
  "enter_loop = upd_frame (fr_nloops_update (\<lambda>n. n + 1))"

definition leave_loop :: "mrsh_state \<Rightarrow> mrsh_state" where
  "leave_loop = upd_frame (fr_nloops_update (\<lambda>n. n - 1))"

definition run_loop_clause ::
  "execs \<Rightarrow> mrsh_loop_type \<Rightarrow> mrsh_command_list list \<Rightarrow> mrsh_command_list list \<Rightarrow> mrsh_state \<Rightarrow>
   mrsh_command run" where
  "run_loop_clause X type condition body st =
     do { let st1 = enter_loop st;
          (returned, ret, condition', body', st2) \<leftarrow>
            loop_iterate X type (fr_nloops (cur_frame st1)) 0 condition body st1;
          Some (ret, MRSH_LOOP_CLAUSE type condition' body', if returned then st2 else leave_loop st2) }"

fun for_iterate ::
  "execs \<Rightarrow> string \<Rightarrow> int \<Rightarrow> int \<Rightarrow> string list \<Rightarrow> mrsh_command_list list \<Rightarrow> mrsh_state \<Rightarrow>
   (bool \<times> int \<times> mrsh_command_list list \<times> mrsh_state) option" where
  "for_iterate X name loop_num loop_ret [] body st = Some (False, loop_ret, body, st)"
| "for_iterate X name loop_num loop_ret (f # fs) body st =
     (if st_exit st \<noteq> - 1 then Some (False, loop_ret, body, st)
      else do {
        (ret, body', st1) \<leftarrow> x_list X body (mrsh_env_set st name f MRSH_VAR_ATTRIB_NONE);
        if ret = TASK_STATUS_INTERRUPTED
        then (case interrupt_kind loop_num (cur_frame st1) of
                To_parent \<Rightarrow> Some (False, TASK_STATUS_INTERRUPTED, body', st1)
              | Break_here \<Rightarrow> Some (False, 0, body', st1)
              | Continue_here \<Rightarrow> for_iterate X name loop_num ret fs body' st1)
        else if ret < 0 then Some (True, ret, body', st1)
        else for_iterate X name loop_num ret fs body' st1 })"

text \<open>The list of words is used with and without \<^verbatim>\<open>in\<close>.\<close>

definition run_for_clause ::
  "sys \<Rightarrow> execs \<Rightarrow> string \<Rightarrow> bool \<Rightarrow> mrsh_word list \<Rightarrow> mrsh_command_list list \<Rightarrow> mrsh_state \<Rightarrow> mrsh_command run" where
  "run_for_clause S X name has_in word_list body st =
     do { let st1 = enter_loop st;
          (ret, fs, st2) \<leftarrow> expand_words S X word_list [] st1;
          if ret < 0 then Some (ret, MRSH_FOR_CLAUSE name has_in word_list body, st2)
          else do {
            (returned, ret', body', st3) \<leftarrow> for_iterate X name (fr_nloops (cur_frame st1)) 0 fs body st2;
            Some (ret', MRSH_FOR_CLAUSE name has_in word_list body', if returned then st3 else leave_loop st3) } }"

section \<open>Case clauses\<close>

definition pattern_selects :: "sys \<Rightarrow> string \<Rightarrow> mrsh_word \<Rightarrow> bool option" where
  "pattern_selects S word_str p =
     do { pattern \<leftarrow> word_to_pattern p;
          (case pattern of
             Some pat \<Rightarrow> Some (sys_fnmatch S pat word_str)
           | None \<Rightarrow> do { str \<leftarrow> mrsh_word_str p; Some (str = word_str) }) }"

text \<open>The patterns of an item, expanded in place up to the first that matches.\<close>

fun match_patterns ::
  "sys \<Rightarrow> execs \<Rightarrow> string \<Rightarrow> mrsh_word list \<Rightarrow> mrsh_state \<Rightarrow> (int \<times> bool \<times> mrsh_word list \<times> mrsh_state) option" where
  "match_patterns S X word_str [] st = Some (0, False, [], st)"
| "match_patterns S X word_str (p # ps) st =
     do { (ret, p', st1) \<leftarrow> run_word_tilde S X False p st;
          if ret < 0 then Some (ret, False, p' # ps, st1)
          else do {
            selected \<leftarrow> pattern_selects S word_str p';
            if selected then Some (0, True, p' # ps, st1)
            else do { (ret', sel, ps', st2) \<leftarrow> match_patterns S X word_str ps st1;
                      Some (ret', sel, p' # ps', st2) } } }"

fun run_case_items ::
  "sys \<Rightarrow> execs \<Rightarrow> string \<Rightarrow> mrsh_case_item list \<Rightarrow> mrsh_state \<Rightarrow> mrsh_case_item list run" where
  "run_case_items S X word_str [] st = Some (0, [], st)"
| "run_case_items S X word_str (Case_item patterns body # items) st =
     do { (ret, selected, patterns', st1) \<leftarrow> match_patterns S X word_str patterns st;
          if ret < 0 then Some (ret, Case_item patterns' body # items, st1)
          else if selected
          then do { (ret', body', st2) \<leftarrow> x_list X body st1;
                    Some (ret', Case_item patterns' body' # items, st2) }
          else do { (ret', items', st2) \<leftarrow> run_case_items S X word_str items st1;
                    Some (ret', Case_item patterns' body # items', st2) } }"

definition run_case_clause ::
  "sys \<Rightarrow> execs \<Rightarrow> mrsh_word \<Rightarrow> mrsh_case_item list \<Rightarrow> mrsh_state \<Rightarrow> mrsh_command run" where
  "run_case_clause S X word items st =
     do { w0 \<leftarrow> mrsh_word_copy word;
          (ret, w1, st1) \<leftarrow> run_word_tilde S X False w0 st;
          if ret < 0 then Some (ret, MRSH_CASE_CLAUSE word items, st1)
          else do {
            word_str \<leftarrow> mrsh_word_str w1;
            (ret', items', st2) \<leftarrow> run_case_items S X word_str items st1;
            Some (ret', MRSH_CASE_CLAUSE word items', st2) } }"

section \<open>Function definitions\<close>

definition run_function_definition :: "string \<Rightarrow> mrsh_command \<Rightarrow> mrsh_state \<Rightarrow> (int \<times> mrsh_state) option" where
  "run_function_definition name body st =
     do { copy \<leftarrow> mrsh_command_copy body;
          let a = st_next_body st;
          let st1 = st\<lparr>st_bodies := (st_bodies st)(a := Some copy), st_next_body := a + 1\<rparr>;
          (case mrsh_hashtable_set (st_functions st1) name a of
             (old_fn, t) \<Rightarrow> Some (0, function_destroy old_fn (st1\<lparr>st_functions := t\<rparr>))) }"

section \<open>Commands and lists\<close>

definition run_command :: "sys \<Rightarrow> execs \<Rightarrow> mrsh_command \<Rightarrow> mrsh_state \<Rightarrow> mrsh_command run" where
  "run_command S X cmd st =
     (case cmd of
        MRSH_SIMPLE_COMMAND name arguments io_redirects assignments \<Rightarrow>
          do { (ret, st1) \<leftarrow> run_simple_command S X name arguments io_redirects assignments st;
               Some (ret, cmd, st1) }
      | MRSH_BRACE_GROUP body \<Rightarrow>
          do { (ret, body', st1) \<leftarrow> x_list X body st; Some (ret, MRSH_BRACE_GROUP body', st1) }
      | MRSH_SUBSHELL body \<Rightarrow>
          do { (ret, body', st1) \<leftarrow> run_subshell X body st; Some (ret, MRSH_SUBSHELL body', st1) }
      | MRSH_IF_CLAUSE condition body else_part \<Rightarrow> run_if_clause X condition body else_part st
      | MRSH_LOOP_CLAUSE type condition body \<Rightarrow> run_loop_clause X type condition body st
      | MRSH_FOR_CLAUSE name has_in word_list body \<Rightarrow> run_for_clause S X name has_in word_list body st
      | MRSH_CASE_CLAUSE word items \<Rightarrow> run_case_clause S X word items st
      | MRSH_FUNCTION_DEFINITION name body io_redirects \<Rightarrow>
          do { (ret, st1) \<leftarrow> run_function_definition name body st; Some (ret, cmd, st1) })"

definition run_and_or_list :: "sys \<Rightarrow> execs \<Rightarrow> mrsh_and_or_list \<Rightarrow> mrsh_state \<Rightarrow> mrsh_and_or_list run" where
  "run_and_or_list S X aol st =
     (case aol of
        MRSH_AND_OR_LIST_PIPELINE commands bang \<Rightarrow>
          do { (ret, commands', st1) \<leftarrow> run_pipeline S X commands bang st;
               Some (ret, MRSH_AND_OR_LIST_PIPELINE commands' bang, st1) }
      | MRSH_AND_OR_LIST_BINOP type l r \<Rightarrow>
          do { (left_status, l', st1) \<leftarrow> x_and_or X l st;
               if (type = MRSH_BINOP_AND \<and> left_status \<noteq> 0) \<or> (type = MRSH_BINOP_OR \<and> left_status = 0)
               then Some (left_status, MRSH_AND_OR_LIST_BINOP type l' r, st1)
               else do { (ret, r', st2) \<leftarrow> x_and_or X r st1;
                         Some (ret, MRSH_AND_OR_LIST_BINOP type l' r', st2) } })"

text \<open>
  A list with an ampersand runs like any other, but its negative status does not end the array.
\<close>

fun run_lists ::
  "execs \<Rightarrow> int \<Rightarrow> mrsh_command_list list \<Rightarrow> mrsh_state \<Rightarrow> mrsh_command_list list run" where
  "run_lists X ret [] st = Some (ret, [], st)"
| "run_lists X ret (Command_list aol ampersand # ls) st =
     do { (ret', aol', st1) \<leftarrow> x_and_or X aol st;
          if \<not> ampersand \<and> ret' < 0 then Some (ret', Command_list aol' ampersand # ls, st1)
          else do {
            (ret'', ls', st2) \<leftarrow> run_lists X ret' ls
               (if ret' \<ge> 0 then st1\<lparr>st_last_status := ret'\<rparr> else st1);
            Some (ret'', Command_list aol' ampersand # ls', st2) } }"

definition run_command_list_array ::
  "execs \<Rightarrow> mrsh_command_list list \<Rightarrow> mrsh_state \<Rightarrow> mrsh_command_list list run" where
  "run_command_list_array X array st = run_lists X 0 array st"

section \<open>The executor\<close>

fun exec :: "nat \<Rightarrow> sys \<Rightarrow> execs" where
  "exec 0 S =
     \<lparr>x_word = (\<lambda>_ _ _. None), x_list = (\<lambda>_ _. None), x_command = (\<lambda>_ _. None), x_and_or = (\<lambda>_ _. None)\<rparr>"
| "exec (Suc n) S =
     \<lparr>x_word = run_word_body S (exec n S), x_list = run_command_list_array (exec n S),
      x_command = run_command S (exec n S), x_and_or = run_and_or_list S (exec n S)\<rparr>"

lemma exec_Suc [simp]:
  "x_word (exec (Suc n) S) = run_word_body S (exec n S)"
  "x_list (exec (Suc n) S) = run_command_list_array (exec n S)"
  "x_command (exec (Suc n) S) = run_command S (exec n S)"
  "x_and_or (exec (Suc n) S) = run_and_or_list S (exec n S)"
  by simp_all

text \<open>Code equations that unfold a level of the executor only when it is called.\<close>

definition exec_word :: "nat \<Rightarrow> sys \<Rightarrow> bool \<Rightarrow> mrsh_word \<Rightarrow> mrsh_state \<Rightarrow> word_run" where
  "exec_word n S dq w st = x_word (exec n S) dq w st"

definition exec_list :: "nat \<Rightarrow> sys \<Rightarrow> mrsh_command_list list \<Rightarrow> mrsh_state \<Rightarrow> mrsh_command_list list run" where
  "exec_list n S ls st = x_list (exec n S) ls st"

definition exec_command :: "nat \<Rightarrow> sys \<Rightarrow> mrsh_command \<Rightarrow> mrsh_state \<Rightarrow> mrsh_command run" where
  "exec_command n S c st = x_command (exec n S) c st"

definition exec_and_or :: "nat \<Rightarrow> sys \<Rightarrow> mrsh_and_or_list \<Rightarrow> mrsh_state \<Rightarrow> mrsh_and_or_list run" where
  "exec_and_or n S a st = x_and_or (exec n S) a st"

lemma exec_code [code]:
  "exec n S =
     \<lparr>x_word = exec_word n S, x_list = exec_list n S, x_command = exec_command n S, x_and_or = exec_and_or n S\<rparr>"
  by (cases n) (simp_all add: fun_eq_iff exec_word_def exec_list_def exec_command_def exec_and_or_def)

lemma exec_calls_code [code]:
  "exec_word n S dq w st = (if n = 0 then None else run_word_body S (exec (n - 1) S) dq w st)"
  "exec_list n S ls st = (if n = 0 then None else run_command_list_array (exec (n - 1) S) ls st)"
  "exec_command n S c st = (if n = 0 then None else run_command S (exec (n - 1) S) c st)"
  "exec_and_or n S a st = (if n = 0 then None else run_and_or_list S (exec (n - 1) S) a st)"
  by (cases n; simp add: exec_word_def exec_list_def exec_command_def exec_and_or_def)+

declare exec.simps(2) [simp del]

section \<open>The entry point (wsh.c)\<close>

text \<open>\<open>argv\<close> includes the name of the program; the result is the exit status and the final world.\<close>

definition wsh_main ::
  "nat \<Rightarrow> sys \<Rightarrow> int \<Rightarrow> string + string \<Rightarrow> string list \<Rightarrow> string list \<Rightarrow> world \<Rightarrow> (int \<times> world) option" where
  "wsh_main n S ppid cwd envp argv w =
     (if length argv < 3 \<or> argv ! 1 \<noteq> ''-c''
      then Some (1, c_stderr (''wsh: usage: wsh -c '' @ [CHR 0x22] @ ''command'' @ [CHR 0x22, NEWLINE_CHR]) w)
      else do {
        (_, st) \<leftarrow> mrsh_populate_env ppid cwd (mrsh_state_create w) envp;
        r \<leftarrow> parse_text (argv ! 2);
        (case r of
           Parse_error msg _ _ \<Rightarrow>
             Some (2, c_stderr (''wsh: syntax error: '' @ msg @ [NEWLINE_CHR]) (st_world st))
         | Parsed None \<Rightarrow> Some (0, st_world st)
         | Parsed (Some prog) \<Rightarrow>
             do { (ret, _, st1) \<leftarrow> mrsh_run_program (exec n S) prog st; Some (ret, st_world st1) }) })"

end
