(* ===== verification/Wsh_Example.thy ===== *)
theory Wsh_Example
  imports Wsh_Task
begin

text \<open>
  A concrete host, and short forms for syntax trees: the inputs on which the theorems about the
  executor are evaluated. The host grants every opening, has the applets \<^verbatim>\<open>echo\<close>, \<^verbatim>\<open>cat\<close>, \<^verbatim>\<open>true\<close> and
  \<^verbatim>\<open>false\<close>, and a parser that finds nothing.
\<close>

definition example_applet :: "string \<Rightarrow> (string list \<Rightarrow> world \<Rightarrow> int \<times> world) option" where
  "example_applet name =
     (if name = ''echo'' then Some (\<lambda>argv w. (0, c_stdout (join_spaces (tl argv) @ [NEWLINE_CHR]) w))
      else if name = ''cat''
      then Some (\<lambda>argv w. (0, c_stdout (case w_stdin w of In_host \<Rightarrow> w_host_in w
                | In_file i off \<Rightarrow> drop off (w_data w i) | In_closed \<Rightarrow> []) w))
      else if name = ''true'' then Some (\<lambda>argv w. (0, w))
      else if name = ''false'' then Some (\<lambda>argv w. (1, w))
      else None)"

definition example_sys :: sys where
  "example_sys =
     \<lparr>sys_getpid = 42, sys_passwd = (\<lambda>_. None), sys_glob = (\<lambda>_ _. Glob_nomatch),
      sys_fnmatch = (\<lambda>p s. p = s), sys_may_open = (\<lambda>_ _. True), sys_applet = example_applet,
      sys_strerror = (\<lambda>_. ''error''),
      sys_access = (\<lambda>_ _ _. False), sys_confstr = None, sys_chdir = (\<lambda>_ w. Some w),
      sys_getcwd = (\<lambda>_. Some ''/''), sys_isdir = (\<lambda>_ _. Some False), sys_errno = (\<lambda>_. E_none),
      sys_times = (\<lambda>_. Inl ''times''), sys_fmt_quotient = (\<lambda>_ _. ''0'')\<rparr>"

definition lit :: "string \<Rightarrow> mrsh_word" where
  "lit s = MRSH_WORD_STRING s False False"

definition cmd :: "string list \<Rightarrow> mrsh_command" where
  "cmd ws = MRSH_SIMPLE_COMMAND (Some (lit (hd ws))) (map lit (tl ws)) [] []"

definition single :: "mrsh_command \<Rightarrow> mrsh_and_or_list" where
  "single c = MRSH_AND_OR_LIST_PIPELINE [c] False"

definition seq :: "mrsh_command list \<Rightarrow> mrsh_command_list list" where
  "seq cs = map (\<lambda>c. Command_list (single c) False) cs"

abbreviation start_state :: mrsh_state where
  "start_state \<equiv> mrsh_state_create init_world"

text \<open>What a run returns and what it wrote to standard error.\<close>

definition result_of :: "(int \<times> 'a \<times> mrsh_state) option \<Rightarrow> (int \<times> string) option" where
  "result_of r = map_option (\<lambda>(ret, _, st). (ret, w_host_err (st_world st))) r"

lemma example_echo:
  "map_option fst (x_list (exec 5 example_sys) (seq [cmd [''echo'', ''hi'']]) start_state) = Some 0"
  by code_simp

end
