(* ===== verification/Wsh_Mono.thy ===== *)
theory Wsh_Mono
  imports Wsh_Example
begin

text \<open>
  The depth bound of the executor does not change a result: a run that returns with some depth returns
  the same with every greater depth. The locale states what the functions of the executor rely on when
  they are compared at two depths; every function is shown to be monotone inside of it, and the
  executor itself is the interpretation.
\<close>

lemma opt_le_case_interrupt [run_mono]:
  "opt_le a a' \<Longrightarrow> opt_le b b' \<Longrightarrow> opt_le c c' \<Longrightarrow>
   opt_le (case_interrupt a b c i) (case_interrupt a' b' c' i)"
  by (cases i) simp_all

lemma loop_iterate_mono:
  assumes lists: "\<And>ls st. opt_le (x_list X ls st) (x_list Y ls st)"
  shows "opt_le (loop_iterate X type num ret c b st) (loop_iterate Y type num ret c b st)"
proof -
  have "loop_iterate Y type num ret c b st = Some r"
    if "loop_iterate X type num ret c b st = Some r" for type num ret c b st r
    using that lists
  proof (induction X type num ret c b st r rule: loop_induct)
    case (step f X type num ret c b st r)
    have "opt_le (f X type num ret c b st) (loop_iterate Y type num ret c b st)" for type num ret c b st
      using step(1) step.prems by (simp add: opt_le_def)
    then show ?case
      by (intro opt_leD [OF _ step(2)], subst loop_iterate.simps) (intro run_mono step.prems)
  qed
  then show ?thesis by (simp add: opt_le_def)
qed

locale execs_below =
  fixes X Y :: execs
  assumes below_word: "opt_le (x_word X dq w st) (x_word Y dq w st)"
    and below_list: "opt_le (x_list X ls st) (x_list Y ls st)"
    and below_command: "opt_le (x_command X c st) (x_command Y c st)"
    and below_and_or: "opt_le (x_and_or X a st) (x_and_or Y a st)"
begin

lemmas below [run_mono] = below_word below_list below_command below_and_or

lemma below_program [run_mono]: "opt_le (mrsh_run_program X p st) (mrsh_run_program Y p st)"
  unfolding mrsh_run_program_def by (cases p) (auto intro!: run_mono)

subsection \<open>Words\<close>

lemma below_word_command [run_mono]: "opt_le (run_word_command S X p bq st) (run_word_command S Y p bq st)"
  unfolding run_word_command_def Let_def by (auto intro!: run_mono split: prod.split bool.split)

lemma below_cond_op [run_mono]:
  "opt_le (apply_parameter_cond_op X name op colon arg v st) (apply_parameter_cond_op Y name op colon arg v st)"
  unfolding apply_parameter_cond_op_def by (cases op) (auto intro!: run_mono)

lemma below_str_op [run_mono]:
  "opt_le (apply_parameter_str_op S X op arg v st) (apply_parameter_str_op S Y op arg v st)"
  unfolding apply_parameter_str_op_def Let_def prod.case by (intro run_mono)

lemma below_parameter_result [run_mono]:
  "opt_le (parameter_result S X dq name op colon arg d st) (parameter_result S Y dq name op colon arg d st)"
  unfolding parameter_result_def Let_def by (intro run_mono)

lemma below_word_parameter [run_mono]:
  "opt_le (run_word_parameter S X dq name op colon arg d st) (run_word_parameter S Y dq name op colon arg d st)"
  unfolding run_word_parameter_def Let_def
  by (intro run_mono) (auto intro!: run_mono split: mrsh_word.split)

lemma below_word_arithmetic [run_mono]: "opt_le (run_word_arithmetic S X body st) (run_word_arithmetic S Y body st)"
  unfolding run_word_arithmetic_def by (intro run_mono)

lemma below_children [run_mono]: "opt_le (run_children X dq cs st) (run_children Y dq cs st)"
  by (induction cs arbitrary: st) (auto intro!: run_mono)

lemma below_word_list [run_mono]: "opt_le (run_word_list X dq cs q st) (run_word_list Y dq cs q st)"
  unfolding run_word_list_def by (intro run_mono)

lemma below_word_body: "opt_le (run_word_body S X dq w st) (run_word_body S Y dq w st)"
  unfolding run_word_body_def by (cases w) (auto intro!: run_mono)

lemma below_expand_word [run_mono]: "opt_le (expand_word S X w acc st) (expand_word S Y w acc st)"
  unfolding expand_word_def by (intro run_mono)

subsection \<open>Builtins\<close>

lemma below_parsed [run_mono]: "opt_le (run_parsed X name st r) (run_parsed Y name st r)"
  unfolding run_parsed_def by (auto intro!: run_mono split: parse_outcome.split option.split)

lemma below_eval [run_mono]: "opt_le (run_builtin_eval X argv st) (run_builtin_eval Y argv st)"
  unfolding run_builtin_eval_def by (auto intro!: run_mono split: parse_outcome.split option.split)

lemma below_dot [run_mono]: "opt_le (run_builtin_dot S X argv st) (run_builtin_dot S Y argv st)"
  unfolding run_builtin_dot_def
  by (auto intro!: run_mono split: parse_outcome.split option.split prod.split)

lemma below_command_builtin [run_mono]:
  assumes "\<And>args st. opt_le (f args st) (g args st)"
  shows "opt_le (run_builtin_command S f argv st) (run_builtin_command S g argv st)"
  unfolding run_builtin_command_def Let_def command_run_def using assms by (intro run_mono)

lemma below_builtin_n: "opt_le (run_builtin_n n S X argv st) (run_builtin_n n S Y argv st)"
proof (induction n arbitrary: argv st)
  case (Suc n)
  then show ?case by (auto intro!: run_mono split: builtin_func.split option.split)
qed (simp add: opt_le_def)

lemma below_run_builtin [run_mono]: "opt_le (run_builtin S X rs argv st) (run_builtin S Y rs argv st)"
  unfolding run_builtin_def mrsh_run_builtin_def by (intro run_mono below_builtin_n)

subsection \<open>Simple commands\<close>

lemma below_word_tilde [run_mono]: "opt_le (run_word_tilde S X b w st) (run_word_tilde S Y b w st)"
  unfolding run_word_tilde_def by (rule below_word)

lemma below_xtrace [run_mono]: "opt_le (xtrace S X argv st) (xtrace S Y argv st)"
  unfolding xtrace_def mrsh_get_ps4_def expand_ps_def expand_str_def mrsh_run_word_def
  by (auto intro!: run_mono split: word_outcome.split option.split)

lemma below_expand_words [run_mono]: "opt_le (expand_words S X ws acc st) (expand_words S Y ws acc st)"
  by (induction ws arbitrary: acc st) (auto intro!: run_mono)

lemma below_expand_assignments [run_mono]:
  "opt_le (expand_assignments S X as st) (expand_assignments S Y as st)"
proof (induction as arbitrary: st)
  case (Cons e as)
  then show ?case by (cases e) (auto intro!: run_mono)
qed (simp add: opt_le_refl)

lemma below_expand_lines [run_mono]: "opt_le (expand_lines S X ls st) (expand_lines S Y ls st)"
  by (induction ls arbitrary: st) (auto intro!: run_mono)

lemma below_expand_redirects [run_mono]: "opt_le (expand_redirects S X rs st) (expand_redirects S Y rs st)"
proof (induction rs arbitrary: st)
  case (Cons e rs)
  then show ?case by (cases e) (auto intro!: run_mono)
qed (simp add: opt_le_refl)

lemma below_dispatch [run_mono]: "opt_le (dispatch S X rs as argv st) (dispatch S Y rs as argv st)"
  unfolding dispatch_def call_function_def by (intro run_mono)

lemma below_captured [run_mono]:
  "(\<And>st. opt_le (f st) (g st)) \<Longrightarrow> opt_le (run_captured S f st) (run_captured S g st)"
  unfolding run_captured_def by (intro run_mono)

lemma below_named_command [run_mono]:
  "opt_le (run_named_command S X ws rs as st) (run_named_command S Y ws rs as st)"
  unfolding run_named_command_def by (intro run_mono)

lemma below_simple_command [run_mono]:
  "opt_le (run_simple_command S X name args rs as st) (run_simple_command S Y name args rs as st)"
  unfolding run_simple_command_def
  by (intro run_mono) (auto intro!: run_mono split: mrsh_command.split option.split)

subsection \<open>Pipelines and compound commands\<close>

lemma below_stages [run_mono]: "opt_le (run_stages S X i ret cs st) (run_stages S Y i ret cs st)"
proof (induction cs arbitrary: i ret st)
  case (Cons c cs)
  then show ?case by (auto intro!: run_mono simp: Let_def split: prod.split bool.split)
qed (simp add: opt_le_refl)

lemma below_pipeline [run_mono]: "opt_le (run_pipeline S X cs bang st) (run_pipeline S Y cs bang st)"
  unfolding run_pipeline_def run_multi_pipeline_def Let_def by (intro run_mono)

lemma below_if_clause [run_mono]: "opt_le (run_if_clause X c b e st) (run_if_clause Y c b e st)"
  unfolding run_if_clause_def by (intro run_mono)

lemma below_for_iterate [run_mono]:
  "opt_le (for_iterate X name num ret fs body st) (for_iterate Y name num ret fs body st)"
  by (induction fs arbitrary: ret body st) (auto intro!: run_mono split: interrupt.split)

lemma below_for_clause [run_mono]:
  "opt_le (run_for_clause S X name i ws body st) (run_for_clause S Y name i ws body st)"
  unfolding run_for_clause_def Let_def by (intro run_mono)

lemmas below_loop_iterate [run_mono] = loop_iterate_mono [OF below_list]

lemma below_match_patterns [run_mono]:
  "opt_le (match_patterns S X str ps st) (match_patterns S Y str ps st)"
  by (induction ps arbitrary: st) (auto intro!: run_mono)

lemma below_case_items [run_mono]: "opt_le (run_case_items S X str cs st) (run_case_items S Y str cs st)"
proof (induction cs arbitrary: st)
  case (Cons e cs)
  then show ?case by (cases e) (auto intro!: run_mono)
qed (simp add: opt_le_refl)

lemma below_run_command: "opt_le (run_command S X c st) (run_command S Y c st)"
  unfolding run_command_def run_subshell_def run_loop_clause_def run_case_clause_def Let_def
  by (cases c) (auto intro!: run_mono)

lemma below_run_and_or: "opt_le (run_and_or_list S X a st) (run_and_or_list S Y a st)"
  unfolding run_and_or_list_def by (cases a) (auto intro!: run_mono)

lemma below_run_lists [run_mono]: "opt_le (run_lists X ret ls st) (run_lists Y ret ls st)"
proof (induction ls arbitrary: ret st)
  case (Cons e ls)
  then show ?case by (cases e) (auto intro!: run_mono)
qed (simp add: opt_le_refl)

lemma below_list_array: "opt_le (run_command_list_array X ls st) (run_command_list_array Y ls st)"
  unfolding run_command_list_array_def by (rule below_run_lists)

end

section \<open>The executor\<close>

lemma execs_below_exec: "execs_below (exec n S) (exec (Suc n) S)"
proof (induction n)
  case 0
  show ?case by unfold_locales (simp_all add: opt_le_def)
next
  case (Suc n)
  note rules = execs_below.below_word_body [OF Suc] execs_below.below_run_command [OF Suc]
    execs_below.below_run_and_or [OF Suc] execs_below.below_list_array [OF Suc]
  show ?case by unfold_locales (simp_all add: rules)
qed

interpretation depth: execs_below "exec n S" "exec (Suc n) S" for n S
  by (rule execs_below_exec)

lemma execs_below_trans: "execs_below X Y \<Longrightarrow> execs_below Y Z \<Longrightarrow> execs_below X Z"
  by (simp add: execs_below_def opt_le_def)

lemma execs_below_le: "n \<le> m \<Longrightarrow> execs_below (exec n S) (exec m S)"
proof (induction m rule: dec_induct)
  case base
  show ?case by unfold_locales (rule opt_le_refl)+
next
  case (step m)
  show ?case by (rule execs_below_trans [OF step.IH depth.execs_below_axioms])
qed



end
