(* ===== verification/Wsh_Big_Step.thy ===== *)
theory Wsh_Big_Step
  imports Wsh_Mono
begin

text \<open>
  A natural semantics of the control structures, as one inductive definition: lists, and-or lists,
  pipelines, groups, subshells, conditionals, loops and case clauses. The executor, with its depth bound and its partial
  function for loops, returns exactly what the rules derive. Theorems about loops follow from the
  rules, with no mention of depth.
\<close>

section \<open>Judgements of the executor\<close>

text \<open>A simple command, an expansion: what they are is left to the executor.\<close>

definition simple_runs ::
  "sys \<Rightarrow> mrsh_word option \<Rightarrow> mrsh_word list \<Rightarrow> mrsh_io_redirect list \<Rightarrow> mrsh_assignment list \<Rightarrow> mrsh_state \<Rightarrow>
   int \<times> mrsh_state \<Rightarrow> bool" where
  "simple_runs S name args rs as st r \<longleftrightarrow> (\<exists>n. run_simple_command S (exec n S) name args rs as st = Some r)"

definition words_expand :: "sys \<Rightarrow> mrsh_word list \<Rightarrow> mrsh_state \<Rightarrow> int \<times> string list \<times> mrsh_state \<Rightarrow> bool" where
  "words_expand S ws st r \<longleftrightarrow> (\<exists>n. expand_words S (exec n S) ws [] st = Some r)"

definition word_runs :: "sys \<Rightarrow> mrsh_word \<Rightarrow> mrsh_state \<Rightarrow> int \<times> mrsh_word \<times> mrsh_state \<Rightarrow> bool" where
  "word_runs S w st r \<longleftrightarrow> (\<exists>n. run_word_tilde S (exec n S) False w st = Some r)"

definition patterns_match ::
  "sys \<Rightarrow> string \<Rightarrow> mrsh_word list \<Rightarrow> mrsh_state \<Rightarrow> int \<times> bool \<times> mrsh_word list \<times> mrsh_state \<Rightarrow> bool" where
  "patterns_match S str ps st r \<longleftrightarrow> (\<exists>n. match_patterns S (exec n S) str ps st = Some r)"

text \<open>The body of a loop ended normally, or with a \<^verbatim>\<open>continue\<close> for this loop.\<close>

definition goes_on :: "int \<Rightarrow> int \<Rightarrow> mrsh_state \<Rightarrow> bool" where
  "goes_on num ret st \<longleftrightarrow>
     0 \<le> ret \<or> ret = TASK_STATUS_INTERRUPTED \<and> interrupt_kind num (cur_frame st) = Continue_here"

section \<open>The rules\<close>

inductive
  big_list :: "sys \<Rightarrow> int \<Rightarrow> mrsh_command_list list \<Rightarrow> mrsh_state \<Rightarrow> int \<Rightarrow> mrsh_command_list list \<Rightarrow> mrsh_state \<Rightarrow> bool" and
  big_and_or :: "sys \<Rightarrow> mrsh_and_or_list \<Rightarrow> mrsh_state \<Rightarrow> int \<Rightarrow> mrsh_and_or_list \<Rightarrow> mrsh_state \<Rightarrow> bool" and
  big_stages :: "sys \<Rightarrow> nat \<Rightarrow> int \<Rightarrow> mrsh_command list \<Rightarrow> mrsh_state \<Rightarrow> bool \<Rightarrow> int \<Rightarrow> mrsh_command list \<Rightarrow> mrsh_state \<Rightarrow> bool" and
  big_command :: "sys \<Rightarrow> mrsh_command \<Rightarrow> mrsh_state \<Rightarrow> int \<Rightarrow> mrsh_command \<Rightarrow> mrsh_state \<Rightarrow> bool" and
  big_loop :: "sys \<Rightarrow> mrsh_loop_type \<Rightarrow> int \<Rightarrow> int \<Rightarrow> mrsh_command_list list \<Rightarrow> mrsh_command_list list \<Rightarrow> mrsh_state \<Rightarrow>
    bool \<Rightarrow> int \<Rightarrow> mrsh_command_list list \<Rightarrow> mrsh_command_list list \<Rightarrow> mrsh_state \<Rightarrow> bool" and
  big_for :: "sys \<Rightarrow> string \<Rightarrow> int \<Rightarrow> int \<Rightarrow> string list \<Rightarrow> mrsh_command_list list \<Rightarrow> mrsh_state \<Rightarrow>
    bool \<Rightarrow> int \<Rightarrow> mrsh_command_list list \<Rightarrow> mrsh_state \<Rightarrow> bool" and
  big_items :: "sys \<Rightarrow> string \<Rightarrow> mrsh_case_item list \<Rightarrow> mrsh_state \<Rightarrow> int \<Rightarrow> mrsh_case_item list \<Rightarrow> mrsh_state \<Rightarrow> bool"
for S :: sys where
  List_end: "big_list S ret [] st ret [] st"
| List_stop:
    "big_and_or S a st ret1 a1 st1 \<Longrightarrow> ret1 < 0 \<Longrightarrow>
     big_list S ret (Command_list a False # ls) st ret1 (Command_list a1 False # ls) st1"
| List_next:
    "big_and_or S a st ret1 a1 st1 \<Longrightarrow> 0 \<le> ret1 \<Longrightarrow> big_list S ret1 ls (st1\<lparr>st_last_status := ret1\<rparr>) ret2 ls2 st2 \<Longrightarrow>
     big_list S ret (Command_list a amp # ls) st ret2 (Command_list a1 amp # ls2) st2"
| List_ampersand:
    "big_and_or S a st ret1 a1 st1 \<Longrightarrow> ret1 < 0 \<Longrightarrow> big_list S ret1 ls st1 ret2 ls2 st2 \<Longrightarrow>
     big_list S ret (Command_list a True # ls) st ret2 (Command_list a1 True # ls2) st2"
| Pipeline_single:
    "big_command S c st ret c1 st1 \<Longrightarrow>
     big_and_or S (MRSH_AND_OR_LIST_PIPELINE [c] bang) st (apply_bang bang ret) (MRSH_AND_OR_LIST_PIPELINE [c1] bang) st1"
| Pipeline_failed:
    "1 < length cs \<Longrightarrow> big_stages S 0 0 cs (st\<lparr>st_stdout_redirected := True\<rparr>) True ret cs1 st1 \<Longrightarrow>
     big_and_or S (MRSH_AND_OR_LIST_PIPELINE cs bang) st 1 (MRSH_AND_OR_LIST_PIPELINE cs1 bang)
       (st1\<lparr>st_stdout_redirected := st_stdout_redirected st\<rparr>)"
| Pipeline_done:
    "1 < length cs \<Longrightarrow> big_stages S 0 0 cs (st\<lparr>st_stdout_redirected := True\<rparr>) False ret cs1 st1 \<Longrightarrow>
     big_and_or S (MRSH_AND_OR_LIST_PIPELINE cs bang) st (apply_bang bang ret) (MRSH_AND_OR_LIST_PIPELINE cs1 bang)
       (upd_world (snd \<circ> freopen_stdin (sys_may_open S) ''/dev/null'')
         (emit_output S (pipe_tmpname (sys_getpid S) (length cs - 1))
           (st1\<lparr>st_stdout_redirected := st_stdout_redirected st\<rparr>)))"
| And_left:
    "big_and_or S l st ret l1 st1 \<Longrightarrow> ret \<noteq> 0 \<Longrightarrow>
     big_and_or S (MRSH_AND_OR_LIST_BINOP MRSH_BINOP_AND l r) st ret (MRSH_AND_OR_LIST_BINOP MRSH_BINOP_AND l1 r) st1"
| And_right:
    "big_and_or S l st 0 l1 st1 \<Longrightarrow> big_and_or S r st1 ret r1 st2 \<Longrightarrow>
     big_and_or S (MRSH_AND_OR_LIST_BINOP MRSH_BINOP_AND l r) st ret (MRSH_AND_OR_LIST_BINOP MRSH_BINOP_AND l1 r1) st2"
| Or_left:
    "big_and_or S l st 0 l1 st1 \<Longrightarrow>
     big_and_or S (MRSH_AND_OR_LIST_BINOP MRSH_BINOP_OR l r) st 0 (MRSH_AND_OR_LIST_BINOP MRSH_BINOP_OR l1 r) st1"
| Or_right:
    "big_and_or S l st ret1 l1 st1 \<Longrightarrow> ret1 \<noteq> 0 \<Longrightarrow> big_and_or S r st1 ret r1 st2 \<Longrightarrow>
     big_and_or S (MRSH_AND_OR_LIST_BINOP MRSH_BINOP_OR l r) st ret (MRSH_AND_OR_LIST_BINOP MRSH_BINOP_OR l1 r1) st2"
| Stages_end: "big_stages S i ret [] st False ret [] st"
| Stage_stdin:
    "stage_stdin S i (st_world st) = (False, w) \<Longrightarrow>
     big_stages S i ret (c # cs) st True 1 (c # cs)
       (freopen_failed S ''stdin'' (pipe_tmpname (sys_getpid S) (i - 1)) Read_mode (st\<lparr>st_world := w\<rparr>))"
| Stage_stdout:
    "stage_stdin S i (st_world st) = (True, w) \<Longrightarrow>
     freopen_stdout (sys_may_open S) (pipe_tmpname (sys_getpid S) i) Write_mode w = (False, w1) \<Longrightarrow>
     big_stages S i ret (c # cs) st True 1 (c # cs)
       (freopen_failed S ''stdout'' (pipe_tmpname (sys_getpid S) i) Write_mode (st\<lparr>st_world := w1\<rparr>))"
| Stage_next:
    "stage_stdin S i (st_world st) = (True, w) \<Longrightarrow>
     freopen_stdout (sys_may_open S) (pipe_tmpname (sys_getpid S) i) Write_mode w = (True, w1) \<Longrightarrow>
     big_command S c (st\<lparr>st_world := w1\<rparr>) ret1 c1 st1 \<Longrightarrow>
     big_stages S (i + 1) ret1 cs
       (if i = 0 then st1 else upd_world (c_unlink (pipe_tmpname (sys_getpid S) (i - 1))) st1) failed ret2 cs2 st2 \<Longrightarrow>
     big_stages S i ret (c # cs) st failed ret2 (c1 # cs2) st2"
| Simple:
    "simple_runs S name args rs as st (ret, st1) \<Longrightarrow>
     big_command S (MRSH_SIMPLE_COMMAND name args rs as) st ret (MRSH_SIMPLE_COMMAND name args rs as) st1"
| Brace: "big_list S 0 body st ret body1 st1 \<Longrightarrow> big_command S (MRSH_BRACE_GROUP body) st ret (MRSH_BRACE_GROUP body1) st1"
| Subshell:
    "big_list S 0 body (enter_subshell st) ret body1 st1 \<Longrightarrow>
     big_command S (MRSH_SUBSHELL body) st ret (MRSH_SUBSHELL body1) (leave_subshell st st1)"
| If_stop:
    "big_list S 0 c st ret c1 st1 \<Longrightarrow> ret < 0 \<Longrightarrow>
     big_command S (MRSH_IF_CLAUSE c b e) st ret (MRSH_IF_CLAUSE c1 b e) st1"
| If_then:
    "big_list S 0 c st 0 c1 st1 \<Longrightarrow> big_list S 0 b st1 ret b1 st2 \<Longrightarrow>
     big_command S (MRSH_IF_CLAUSE c b e) st ret (MRSH_IF_CLAUSE c1 b1 e) st2"
| If_none:
    "big_list S 0 c st ret c1 st1 \<Longrightarrow> 0 < ret \<Longrightarrow>
     big_command S (MRSH_IF_CLAUSE c b None) st 0 (MRSH_IF_CLAUSE c1 b None) st1"
| If_else:
    "big_list S 0 c st ret c1 st1 \<Longrightarrow> 0 < ret \<Longrightarrow> big_command S e st1 ret2 e1 st2 \<Longrightarrow>
     big_command S (MRSH_IF_CLAUSE c b (Some e)) st ret2 (MRSH_IF_CLAUSE c1 b (Some e1)) st2"
| Loop:
    "big_loop S type (fr_nloops (cur_frame (enter_loop st))) 0 c b (enter_loop st) False ret c1 b1 st1 \<Longrightarrow>
     big_command S (MRSH_LOOP_CLAUSE type c b) st ret (MRSH_LOOP_CLAUSE type c1 b1) (leave_loop st1)"
| Loop_returned:
    "big_loop S type (fr_nloops (cur_frame (enter_loop st))) 0 c b (enter_loop st) True ret c1 b1 st1 \<Longrightarrow>
     big_command S (MRSH_LOOP_CLAUSE type c b) st ret (MRSH_LOOP_CLAUSE type c1 b1) st1"
| For_stop:
    "words_expand S ws (enter_loop st) (ret, fs, st1) \<Longrightarrow> ret < 0 \<Longrightarrow>
     big_command S (MRSH_FOR_CLAUSE name i ws b) st ret (MRSH_FOR_CLAUSE name i ws b) st1"
| For:
    "words_expand S ws (enter_loop st) (ret1, fs, st1) \<Longrightarrow> 0 \<le> ret1 \<Longrightarrow>
     big_for S name (fr_nloops (cur_frame (enter_loop st))) 0 fs b st1 False ret b1 st2 \<Longrightarrow>
     big_command S (MRSH_FOR_CLAUSE name i ws b) st ret (MRSH_FOR_CLAUSE name i ws b1) (leave_loop st2)"
| For_returned:
    "words_expand S ws (enter_loop st) (ret1, fs, st1) \<Longrightarrow> 0 \<le> ret1 \<Longrightarrow>
     big_for S name (fr_nloops (cur_frame (enter_loop st))) 0 fs b st1 True ret b1 st2 \<Longrightarrow>
     big_command S (MRSH_FOR_CLAUSE name i ws b) st ret (MRSH_FOR_CLAUSE name i ws b1) st2"
| Case_stop:
    "mrsh_word_copy w = Some w0 \<Longrightarrow> word_runs S w0 st (ret, w1, st1) \<Longrightarrow> ret < 0 \<Longrightarrow>
     big_command S (MRSH_CASE_CLAUSE w items) st ret (MRSH_CASE_CLAUSE w items) st1"
| Case:
    "mrsh_word_copy w = Some w0 \<Longrightarrow> word_runs S w0 st (ret1, w1, st1) \<Longrightarrow> 0 \<le> ret1 \<Longrightarrow>
     mrsh_word_str w1 = Some str \<Longrightarrow> big_items S str items st1 ret items1 st2 \<Longrightarrow>
     big_command S (MRSH_CASE_CLAUSE w items) st ret (MRSH_CASE_CLAUSE w items1) st2"
| Function:
    "run_function_definition name body st = Some (ret, st1) \<Longrightarrow>
     big_command S (MRSH_FUNCTION_DEFINITION name body rs) st ret (MRSH_FUNCTION_DEFINITION name body rs) st1"
| Loop_exit: "st_exit st \<noteq> - 1 \<Longrightarrow> big_loop S type num ret c b st False ret c b st"
| Loop_cond_parent:
    "st_exit st = - 1 \<Longrightarrow> big_list S 0 c st TASK_STATUS_INTERRUPTED c1 st1 \<Longrightarrow>
     interrupt_kind num (cur_frame st1) = To_parent \<Longrightarrow>
     big_loop S type num ret c b st False TASK_STATUS_INTERRUPTED c1 b st1"
| Loop_cond_break:
    "st_exit st = - 1 \<Longrightarrow> big_list S 0 c st TASK_STATUS_INTERRUPTED c1 st1 \<Longrightarrow>
     interrupt_kind num (cur_frame st1) = Break_here \<Longrightarrow> big_loop S type num ret c b st False 0 c1 b st1"
| Loop_cond_error:
    "st_exit st = - 1 \<Longrightarrow> big_list S 0 c st ret1 c1 st1 \<Longrightarrow> ret1 < 0 \<Longrightarrow> ret1 \<noteq> TASK_STATUS_INTERRUPTED \<Longrightarrow>
     big_loop S type num ret c b st True ret1 c1 b st1"
| Loop_end:
    "st_exit st = - 1 \<Longrightarrow> big_list S 0 c st ret1 c1 st1 \<Longrightarrow> 0 \<le> ret1 \<Longrightarrow> break_loop type ret1 \<Longrightarrow>
     big_loop S type num ret c b st False ret c1 b st1"
| Loop_parent:
    "st_exit st = - 1 \<Longrightarrow> big_list S 0 c st ret1 c1 st1 \<Longrightarrow> 0 \<le> ret1 \<Longrightarrow> \<not> break_loop type ret1 \<Longrightarrow>
     big_list S 0 b st1 TASK_STATUS_INTERRUPTED b1 st2 \<Longrightarrow> interrupt_kind num (cur_frame st2) = To_parent \<Longrightarrow>
     big_loop S type num ret c b st False TASK_STATUS_INTERRUPTED c1 b1 st2"
| Loop_break:
    "st_exit st = - 1 \<Longrightarrow> big_list S 0 c st ret1 c1 st1 \<Longrightarrow> 0 \<le> ret1 \<Longrightarrow> \<not> break_loop type ret1 \<Longrightarrow>
     big_list S 0 b st1 TASK_STATUS_INTERRUPTED b1 st2 \<Longrightarrow> interrupt_kind num (cur_frame st2) = Break_here \<Longrightarrow>
     big_loop S type num ret c b st False 0 c1 b1 st2"
| Loop_error:
    "st_exit st = - 1 \<Longrightarrow> big_list S 0 c st ret1 c1 st1 \<Longrightarrow> 0 \<le> ret1 \<Longrightarrow> \<not> break_loop type ret1 \<Longrightarrow>
     big_list S 0 b st1 ret2 b1 st2 \<Longrightarrow> ret2 < 0 \<Longrightarrow> ret2 \<noteq> TASK_STATUS_INTERRUPTED \<Longrightarrow>
     big_loop S type num ret c b st True ret2 c1 b1 st2"
| Loop_next:
    "st_exit st = - 1 \<Longrightarrow> big_list S 0 c st ret1 c1 st1 \<Longrightarrow> 0 \<le> ret1 \<Longrightarrow> \<not> break_loop type ret1 \<Longrightarrow>
     big_list S 0 b st1 ret2 b1 st2 \<Longrightarrow> goes_on num ret2 st2 \<Longrightarrow>
     big_loop S type num ret2 c1 b1 st2 returned ret3 c2 b2 st3 \<Longrightarrow>
     big_loop S type num ret c b st returned ret3 c2 b2 st3"
| For_end: "big_for S name num ret [] b st False ret b st"
| For_exit: "st_exit st \<noteq> - 1 \<Longrightarrow> big_for S name num ret (f # fs) b st False ret b st"
| For_parent:
    "st_exit st = - 1 \<Longrightarrow> big_list S 0 b (mrsh_env_set st name f MRSH_VAR_ATTRIB_NONE) TASK_STATUS_INTERRUPTED b1 st1 \<Longrightarrow>
     interrupt_kind num (cur_frame st1) = To_parent \<Longrightarrow>
     big_for S name num ret (f # fs) b st False TASK_STATUS_INTERRUPTED b1 st1"
| For_break:
    "st_exit st = - 1 \<Longrightarrow> big_list S 0 b (mrsh_env_set st name f MRSH_VAR_ATTRIB_NONE) TASK_STATUS_INTERRUPTED b1 st1 \<Longrightarrow>
     interrupt_kind num (cur_frame st1) = Break_here \<Longrightarrow> big_for S name num ret (f # fs) b st False 0 b1 st1"
| For_error:
    "st_exit st = - 1 \<Longrightarrow> big_list S 0 b (mrsh_env_set st name f MRSH_VAR_ATTRIB_NONE) ret1 b1 st1 \<Longrightarrow>
     ret1 < 0 \<Longrightarrow> ret1 \<noteq> TASK_STATUS_INTERRUPTED \<Longrightarrow> big_for S name num ret (f # fs) b st True ret1 b1 st1"
| For_next:
    "st_exit st = - 1 \<Longrightarrow> big_list S 0 b (mrsh_env_set st name f MRSH_VAR_ATTRIB_NONE) ret1 b1 st1 \<Longrightarrow>
     goes_on num ret1 st1 \<Longrightarrow>
     big_for S name num ret1 fs b1 st1 returned ret2 b2 st2 \<Longrightarrow>
     big_for S name num ret (f # fs) b st returned ret2 b2 st2"
| Items_end: "big_items S str [] st 0 [] st"
| Item_error:
    "patterns_match S str ps st (ret, sel, ps1, st1) \<Longrightarrow> ret < 0 \<Longrightarrow>
     big_items S str (Case_item ps b # items) st ret (Case_item ps1 b # items) st1"
| Item_selected:
    "patterns_match S str ps st (ret1, True, ps1, st1) \<Longrightarrow> 0 \<le> ret1 \<Longrightarrow> big_list S 0 b st1 ret b1 st2 \<Longrightarrow>
     big_items S str (Case_item ps b # items) st ret (Case_item ps1 b1 # items) st2"
| Item_next:
    "patterns_match S str ps st (ret1, False, ps1, st1) \<Longrightarrow> 0 \<le> ret1 \<Longrightarrow> big_items S str items st1 ret items1 st2 \<Longrightarrow>
     big_items S str (Case_item ps b # items) st ret (Case_item ps1 b # items1) st2"

section \<open>The executor follows the rules\<close>

text \<open>Every result of a run satisfies \<open>P\<close>; the rules follow the structure of a definition.\<close>

definition all_results :: "('a \<Rightarrow> bool) \<Rightarrow> 'a option \<Rightarrow> bool" where
  "all_results P m \<longleftrightarrow> (\<forall>x. m = Some x \<longrightarrow> P x)"

lemma results_None: "all_results P None"
  by (simp add: all_results_def)

lemma results_Some: "P x \<Longrightarrow> all_results P (Some x)"
  by (simp add: all_results_def)

lemma results_bind: "(\<And>x. m = Some x \<Longrightarrow> all_results P (f x)) \<Longrightarrow> all_results P (Option.bind m f)"
  by (auto simp: all_results_def bind_Some_iff)

lemma results_if: "(c \<Longrightarrow> all_results P a) \<Longrightarrow> (\<not> c \<Longrightarrow> all_results P b) \<Longrightarrow> all_results P (if c then a else b)"
  by simp

lemma results_case_prod: "(\<And>x y. p = (x, y) \<Longrightarrow> all_results P (f x y)) \<Longrightarrow> all_results P (case_prod f p)"
  by (cases p) simp

lemma results_case_bool:
  "(v \<Longrightarrow> all_results P a) \<Longrightarrow> (\<not> v \<Longrightarrow> all_results P b) \<Longrightarrow> all_results P (case_bool a b v)"
  by (cases v) simp_all

lemma results_case_interrupt:
  "(i = To_parent \<Longrightarrow> all_results P a) \<Longrightarrow> (i = Break_here \<Longrightarrow> all_results P b) \<Longrightarrow>
   (i = Continue_here \<Longrightarrow> all_results P c) \<Longrightarrow> all_results P (case_interrupt a b c i)"
  by (cases i) simp_all

lemma results_case_option:
  "(v = None \<Longrightarrow> all_results P a) \<Longrightarrow> (\<And>x. v = Some x \<Longrightarrow> all_results P (f x)) \<Longrightarrow> all_results P (case_option a f v)"
  by (cases v) simp_all

lemma results_mono: "all_results Q m \<Longrightarrow> (\<And>x. Q x \<Longrightarrow> P x) \<Longrightarrow> all_results P m"
  by (simp add: all_results_def)

lemmas all_results = results_None results_Some results_bind results_if results_case_prod results_case_bool
  results_case_interrupt results_case_option

lemma all_resultsD: "all_results P m \<Longrightarrow> m = Some x \<Longrightarrow> P x"
  by (simp add: all_results_def)

text \<open>One level of the executor, given that the functions it calls follow the rules.\<close>

locale follows_rules =
  fixes S :: sys and X :: execs
  assumes list_follows: "x_list X ls st = Some (ret, ls', st') \<Longrightarrow> big_list S 0 ls st ret ls' st'"
    and and_or_follows: "x_and_or X a st = Some (ret, a', st') \<Longrightarrow> big_and_or S a st ret a' st'"
    and command_follows: "x_command X c st = Some (ret, c', st') \<Longrightarrow> big_command S c st ret c' st'"
    and simple_follows: "run_simple_command S X name args rs as st = Some r1 \<Longrightarrow> simple_runs S name args rs as st r1"
    and words_follow: "expand_words S X ws [] st = Some r2 \<Longrightarrow> words_expand S ws st r2"
    and word_follows: "run_word_tilde S X False w st = Some r3 \<Longrightarrow> word_runs S w st r3"
    and patterns_follow: "match_patterns S X str ps st = Some r4 \<Longrightarrow> patterns_match S str ps st r4"
begin

lemma lists_follow: "all_results (\<lambda>(ret', ls', st'). big_list S ret ls st ret' ls' st') (run_lists X ret ls st)"
proof (induction ls arbitrary: ret st)
  case (Cons e ls)
  obtain a amp where e: "e = Command_list a amp" by (cases e)
  show ?case unfolding e run_lists.simps
    by (intro all_results)
      (auto split: if_splits dest!: and_or_follows all_resultsD [OF Cons.IH] intro: List_stop List_next List_ampersand)
qed (simp add: List_end results_Some)

lemma stages_follow:
  "all_results (\<lambda>(failed, ret', cs', st'). big_stages S i ret cs st failed ret' cs' st') (run_stages S X i ret cs st)"
proof (induction cs arbitrary: i ret st)
  case (Cons c cs)
  show ?case unfolding run_stages.simps Let_def
    by (intro all_results)
      (auto simp del: One_nat_def dest!: command_follows all_resultsD [OF Cons.IH]
        intro: Stage_stdin Stage_stdout Stage_next)
qed (simp add: Stages_end results_Some)

lemma pipeline_follows:
  "all_results (\<lambda>(ret, cs', st'). big_and_or S (MRSH_AND_OR_LIST_PIPELINE cs bang) st ret
     (MRSH_AND_OR_LIST_PIPELINE cs' bang) st') (run_pipeline S X cs bang st)"
proof -
  have multi: "all_results (\<lambda>(ret, cs', st'). big_and_or S (MRSH_AND_OR_LIST_PIPELINE cs bang) st ret
     (MRSH_AND_OR_LIST_PIPELINE cs' bang) st') (run_multi_pipeline S X cs bang st)" if "1 < length cs"
    unfolding run_multi_pipeline_def Let_def
    by (intro all_results)
      (auto simp del: One_nat_def dest!: all_resultsD [OF stages_follow]
        intro: Pipeline_failed [OF that] Pipeline_done [OF that])
  consider "cs = []" | c where "cs = [c]" | c c' cs1 where "cs = c # c' # cs1" by (metis list.exhaust)
  then show ?thesis
  proof cases
    case 2
    then show ?thesis
      by (simp add: run_pipeline_def, intro all_results) (auto dest!: command_follows intro: Pipeline_single)
  next
    case 3
    with multi show ?thesis by (simp add: run_pipeline_def)
  qed (simp add: run_pipeline_def results_None)
qed

lemma run_and_or_follows: "all_results (\<lambda>(ret, a', st'). big_and_or S a st ret a' st') (run_and_or_list S X a st)"
proof (cases a)
  case (MRSH_AND_OR_LIST_PIPELINE cs bang)
  then show ?thesis
    unfolding run_and_or_list_def
    by (simp, intro all_results) (auto dest!: all_resultsD [OF pipeline_follows])
next
  case (MRSH_AND_OR_LIST_BINOP type l r)
  then show ?thesis
    unfolding run_and_or_list_def
    by (simp only: mrsh_and_or_list.case, intro all_results; cases type)
      (auto dest!: and_or_follows intro: And_left And_right Or_left Or_right)
qed

lemma for_follows:
  "all_results (\<lambda>(returned, ret', b', st'). big_for S name num ret fs b st returned ret' b' st')
     (for_iterate X name num ret fs b st)"
proof (induction fs arbitrary: ret b st)
  case (Cons f fs)
  show ?case unfolding for_iterate.simps
    by (intro all_results)
      (auto simp: not_less goes_on_def dest!: list_follows intro!: results_mono [OF Cons.IH]
        intro: For_exit For_parent For_break For_error For_next)
qed (simp add: For_end results_Some)

lemma items_follow: "all_results (\<lambda>(ret, cs', st'). big_items S str cs st ret cs' st') (run_case_items S X str cs st)"
proof (induction cs arbitrary: st)
  case (Cons e cs)
  obtain ps b where e: "e = Case_item ps b" by (cases e)
  show ?case unfolding e run_case_items.simps
    by (intro all_results)
      (auto dest!: list_follows patterns_follow all_resultsD [OF Cons.IH] intro: Item_error Item_selected Item_next)
qed (simp add: Items_end results_Some)

lemma loop_follows:
  "all_results (\<lambda>(returned, ret', c', b', st'). big_loop S type num ret c b st returned ret' c' b' st')
     (loop_iterate X type num ret c b st)"
proof -
  have "(\<lambda>(returned, ret', c', b', st'). big_loop S type num ret c b st returned ret' c' b' st') r"
    if "loop_iterate Y type num ret c b st = Some r" "Y = X" for Y type num ret c b st r
    using that
  proof (induction Y type num ret c b st r rule: loop_induct)
    case (step f Y type num ret c b st r)
    have IH: "all_results (\<lambda>(returned, ret', c', b', st'). big_loop S type num ret c b st returned ret' c' b' st')
        (f X type num ret c b st)" for type num ret c b st
      using step(1) step.prems by (simp add: all_results_def)
    show ?case
      by (rule all_resultsD [OF _ step(2)], simp only: step.prems, intro all_results)
        (auto simp: not_less goes_on_def dest!: list_follows intro!: results_mono [OF IH]
          intro: Loop_exit Loop_cond_parent Loop_cond_break Loop_cond_error Loop_end Loop_parent Loop_break
            Loop_error Loop_next)
  qed
  then show ?thesis by (simp add: all_results_def)
qed

lemma run_command_follows: "all_results (\<lambda>(ret, c', st'). big_command S c st ret c' st') (run_command S X c st)"
proof (cases c)
  case (MRSH_IF_CLAUSE condition body else_part)
  then show ?thesis
    unfolding run_command_def run_if_clause_def
    by (simp only: mrsh_command.case, intro all_results)
      (auto simp: not_less dest!: list_follows command_follows intro: If_stop If_then If_none If_else)
next
  case (MRSH_LOOP_CLAUSE type condition body)
  then show ?thesis
    unfolding run_command_def run_loop_clause_def Let_def
    by (simp only: mrsh_command.case, intro all_results)
      (auto dest!: all_resultsD [OF loop_follows] intro: Loop Loop_returned)
next
  case (MRSH_FOR_CLAUSE name has_in ws body)
  then show ?thesis
    unfolding run_command_def run_for_clause_def Let_def
    by (simp only: mrsh_command.case, intro all_results)
      (auto simp: not_less dest!: words_follow all_resultsD [OF for_follows] intro: For_stop For For_returned)
next
  case (MRSH_CASE_CLAUSE w items)
  then show ?thesis
    unfolding run_command_def run_case_clause_def
    by (simp only: mrsh_command.case, intro all_results)
      (auto simp: not_less dest!: word_follows all_resultsD [OF items_follow] intro: Case_stop Case)
next
  case (MRSH_SUBSHELL body)
  then show ?thesis
    unfolding run_command_def run_subshell_def
    by (simp only: mrsh_command.case, intro all_results) (auto simp: bind_Some_iff dest!: list_follows intro: Subshell)
qed (simp only: run_command_def mrsh_command.case, intro all_results,
     auto dest!: simple_follows list_follows intro: Simple Brace Function)+

end

lemma follows_rules_exec: "follows_rules S (exec n S)"
proof (induction n)
  case 0
  have "x_list (exec 0 S) ls st = None" "x_and_or (exec 0 S) a st = None" "x_command (exec 0 S) c st = None"
    for ls a c st by simp_all
  then show ?case
    by unfold_locales
      (auto simp: simple_runs_def words_expand_def word_runs_def patterns_match_def simp del: exec.simps)
next
  case (Suc n)
  note rules = all_resultsD [OF follows_rules.lists_follow [OF Suc]]
    all_resultsD [OF follows_rules.run_and_or_follows [OF Suc]]
    all_resultsD [OF follows_rules.run_command_follows [OF Suc]]
  show ?case
    by unfold_locales
      (auto simp: run_command_list_array_def simple_runs_def words_expand_def word_runs_def patterns_match_def
        dest: rules)
qed

interpretation rules: follows_rules S "exec n S" for S n
  by (rule follows_rules_exec)

section \<open>Derivations are runs\<close>

text \<open>The function of the executor returns \<open>r\<close> at every depth that is large enough.\<close>

definition deep_runs :: "(nat \<Rightarrow> 'a option) \<Rightarrow> 'a \<Rightarrow> bool" where
  "deep_runs f r \<longleftrightarrow> eventually (\<lambda>n. f n = Some r) sequentially"

lemma deep_const [simp]: "deep_runs (\<lambda>n. v) r \<longleftrightarrow> v = Some r"
  by (simp add: deep_runs_def)

lemma deep_bind: "deep_runs m x \<Longrightarrow> deep_runs (\<lambda>n. Option.bind (m n) (f n)) r = deep_runs (\<lambda>n. f n x) r"
proof -
  assume "deep_runs m x"
  then have "eventually (\<lambda>n. (Option.bind (m n) (f n) = Some r) = (f n x = Some r)) sequentially"
    unfolding deep_runs_def by (rule eventually_mono) simp
  then show ?thesis unfolding deep_runs_def by (rule eventually_subst)
qed

lemma deep_Suc: "(\<And>n. f (Suc n) = g n) \<Longrightarrow> deep_runs f r = deep_runs g r"
  unfolding deep_runs_def by (subst eventually_sequentially_Suc [symmetric]) simp

lemma deep_exec:
  "deep_runs (\<lambda>n. x_list (exec n S) ls st) r1 = deep_runs (\<lambda>n. run_lists (exec n S) 0 ls st) r1"
  "deep_runs (\<lambda>n. x_and_or (exec n S) a st) r2 = deep_runs (\<lambda>n. run_and_or_list S (exec n S) a st) r2"
  "deep_runs (\<lambda>n. x_command (exec n S) c st) r3 = deep_runs (\<lambda>n. run_command S (exec n S) c st) r3"
  by (rule deep_Suc, simp add: run_command_list_array_def)+

lemma deepI:
  assumes "f (exec n S) = Some r" and "\<And>X Y. execs_below X Y \<Longrightarrow> opt_le (f X) (f Y)"
  shows "deep_runs (\<lambda>n. f (exec n S)) r"
  unfolding deep_runs_def eventually_sequentially
  using opt_leD [OF assms(2) [OF execs_below_le] assms(1)] by blast

lemma deepD: "deep_runs f r \<Longrightarrow> \<exists>n. f n = Some r"
  by (auto simp: deep_runs_def eventually_sequentially)

lemma deep_judgements:
  "deep_runs (\<lambda>n. run_simple_command S (exec n S) name args rs as st) r1 \<longleftrightarrow> simple_runs S name args rs as st r1"
  "deep_runs (\<lambda>n. expand_words S (exec n S) ws [] st) r2 \<longleftrightarrow> words_expand S ws st r2"
  "deep_runs (\<lambda>n. run_word_tilde S (exec n S) False w st) r3 \<longleftrightarrow> word_runs S w st r3"
  "deep_runs (\<lambda>n. match_patterns S (exec n S) str ps st) r4 \<longleftrightarrow> patterns_match S str ps st r4"
  unfolding simple_runs_def words_expand_def word_runs_def patterns_match_def
  using execs_below.below_simple_command execs_below.below_expand_words execs_below.below_word_tilde
    execs_below.below_match_patterns
  by (auto intro: deepI dest: deepD)

lemmas run_command_simps = run_command_def [of S X "MRSH_SIMPLE_COMMAND n as rs bs" for S X n as rs bs, simplified]
  run_command_def [of S X "MRSH_BRACE_GROUP b" for S X b, simplified]
  run_command_def [of S X "MRSH_SUBSHELL b" for S X b, simplified]
  run_command_def [of S X "MRSH_IF_CLAUSE c b e" for S X c b e, simplified]
  run_command_def [of S X "MRSH_LOOP_CLAUSE t c b" for S X t c b, simplified]
  run_command_def [of S X "MRSH_FOR_CLAUSE n i ws b" for S X n i ws b, simplified]
  run_command_def [of S X "MRSH_CASE_CLAUSE w is" for S X w "is", simplified]
  run_command_def [of S X "MRSH_FUNCTION_DEFINITION n b rs" for S X n b rs, simplified]
  run_and_or_list_def [of S X "MRSH_AND_OR_LIST_PIPELINE cs b" for S X cs b, simplified]
  run_and_or_list_def [of S X "MRSH_AND_OR_LIST_BINOP t l r" for S X t l r, simplified]
  run_subshell_def run_if_clause_def run_loop_clause_def run_for_clause_def run_case_clause_def run_multi_pipeline_def

lemma not_interrupted: "0 \<le> ret \<Longrightarrow> ret \<noteq> TASK_STATUS_INTERRUPTED"
  by (simp add: wsh_defs)

lemmas deep_rules = not_interrupted deep_exec deep_bind deep_judgements

lemma pipeline_multi: "1 < length cs \<Longrightarrow> run_pipeline S X cs bang st = run_multi_pipeline S X cs bang st"
  by (auto simp: run_pipeline_def split: list.split)

lemma pipeline_single:
  "run_pipeline S X [c] bang st = do { (ret, c', st1) \<leftarrow> x_command X c st; Some (apply_bang bang ret, [c'], st1) }"
  by (simp add: run_pipeline_def)

lemma derivations_run:
  "big_list S ret ls st ret' ls' st' \<Longrightarrow> deep_runs (\<lambda>n. run_lists (exec n S) ret ls st) (ret', ls', st')"
  "big_and_or S a st ret a' st' \<Longrightarrow> deep_runs (\<lambda>n. run_and_or_list S (exec n S) a st) (ret, a', st')"
  "big_stages S i ret cs st failed ret' cs' st' \<Longrightarrow> deep_runs (\<lambda>n. run_stages S (exec n S) i ret cs st) (failed, ret', cs', st')"
  "big_command S c st ret c' st' \<Longrightarrow> deep_runs (\<lambda>n. run_command S (exec n S) c st) (ret, c', st')"
  "big_loop S type num ret lc lb st returned ret' lc' lb' st' \<Longrightarrow>
     deep_runs (\<lambda>n. loop_iterate (exec n S) type num ret lc lb st) (returned, ret', lc', lb', st')"
  "big_for S name num ret fs b st returned ret' b' st' \<Longrightarrow>
     deep_runs (\<lambda>n. for_iterate (exec n S) name num ret fs b st) (returned, ret', b', st')"
  "big_items S str items st ret items' st' \<Longrightarrow>
     deep_runs (\<lambda>n. run_case_items S (exec n S) str items st) (ret, items', st')"
proof (induction rule: big_list_big_and_or_big_stages_big_command_big_loop_big_for_big_items.inducts)
  case (Loop_next st c ret1 c1 st1 type b ret2 b1 st2 num returned ret3 c2 b2 st3 ret)
  then show ?case
    by (subst loop_iterate.simps) (cases "0 \<le> ret2"; simp add: deep_rules goes_on_def)
next
  case (For_next st b name f ret1 b1 st1 num fs returned ret2 b2 st2 ret)
  then show ?case by (cases "0 \<le> ret1"; simp add: deep_rules goes_on_def)
qed (simp_all add: run_command_simps deep_rules Let_def pipeline_single pipeline_multi del: One_nat_def,
     (subst loop_iterate.simps, simp add: deep_rules)+)

text \<open>
  C1: The executor computes the natural semantics of the shell's control structures: a list of commands
  returns a status, a tree and a state at some depth exactly when the rules derive them. This covers
  and-or lists, pipelines, groups, subshells, conditionals, while, until and for loops with break and
  continue, case clauses and the early returns of errors.
\<close>

theorem exec_is_big_step:
  "(\<exists>n. x_list (exec n S) ls st = Some (ret, ls', st')) \<longleftrightarrow> big_list S 0 ls st ret ls' st'"
proof
  assume "\<exists>n. x_list (exec n S) ls st = Some (ret, ls', st')"
  then show "big_list S 0 ls st ret ls' st'" by (blast intro: rules.list_follows)
next
  assume "big_list S 0 ls st ret ls' st'"
  then show "\<exists>n. x_list (exec n S) ls st = Some (ret, ls', st')"
    by (intro deepD) (simp add: deep_exec derivations_run(1))
qed

end
