(* ===== verification/Wsh_Invariant.thy ===== *)
theory Wsh_Invariant
  imports Wsh_Example
begin

text \<open>
  What every run of the executor keeps: the hash tables stay well formed, the stack of call frames has
  the same height afterwards, and the two variables that say where standard output goes
  (\<^verbatim>\<open>wsh_stdout_redirected\<close>, \<^verbatim>\<open>wsh_capture_file\<close>) have their old values again, on every path and every
  error. The locale states this for the functions an activation calls; the executor is its
  interpretation, by induction on the depth.
\<close>

definition kept :: "mrsh_state \<Rightarrow> mrsh_state \<Rightarrow> bool" where
  "kept st st' \<longleftrightarrow> (state_inv st \<longrightarrow> state_inv st'
     \<and> length (st_frames st') = length (st_frames st)
     \<and> st_stdout_redirected st' = st_stdout_redirected st
     \<and> st_capture_file st' = st_capture_file st)"

named_theorems kept_rules \<open>runs that keep the state in order\<close>

lemma kept_refl [simp]: "kept st st"
  by (simp add: kept_def)

lemma kept_trans: "kept a b \<Longrightarrow> kept b c \<Longrightarrow> kept a c"
  by (simp add: kept_def)

section \<open>Updates of the state\<close>

lemma state_inv_updates [simp]:
  "state_inv (st\<lparr>st_world := w\<rparr>) = state_inv st"
  "state_inv (st\<lparr>st_getopt := g\<rparr>) = state_inv st"
  "state_inv (st\<lparr>st_last_status := n\<rparr>) = state_inv st"
  "state_inv (st\<lparr>st_exit := n\<rparr>) = state_inv st"
  "state_inv (st\<lparr>st_options := opts\<rparr>) = state_inv st"
  "state_inv (st\<lparr>st_stdout_redirected := b\<rparr>) = state_inv st"
  "state_inv (st\<lparr>st_capture_file := f\<rparr>) = state_inv st"
  "state_inv (st\<lparr>st_out_counter := n1\<rparr>) = state_inv st"
  "state_inv (st\<lparr>st_cmdsub_counter := n1\<rparr>) = state_inv st"
  "state_inv (st\<lparr>st_bodies := bs, st_next_body := n1\<rparr>) = state_inv st"
  by (simp_all add: state_inv_def)

lemma upd_world_fields [simp]:
  "st_frames (upd_world f st) = st_frames st"
  "st_stdout_redirected (upd_world f st) = st_stdout_redirected st"
  "st_capture_file (upd_world f st) = st_capture_file st"
  "st_options (upd_world f st) = st_options st"
  "st_variables (upd_world f st) = st_variables st"
  "st_functions (upd_world f st) = st_functions st"
  "st_aliases (upd_world f st) = st_aliases st"
  "st_exit (upd_world f st) = st_exit st"
  "st_last_status (upd_world f st) = st_last_status st"
  "st_getopt (upd_world f st) = st_getopt st"
  by (simp_all add: upd_world_def)

lemma env_set_fields [simp]:
  "st_frames (mrsh_env_set st k v a) = st_frames st"
  "st_stdout_redirected (mrsh_env_set st k v a) = st_stdout_redirected st"
  "st_capture_file (mrsh_env_set st k v a) = st_capture_file st"
  "st_frames (mrsh_env_unset st k) = st_frames st"
  "st_stdout_redirected (mrsh_env_unset st k) = st_stdout_redirected st"
  "st_capture_file (mrsh_env_unset st k) = st_capture_file st"
  by (simp_all add: mrsh_env_set_def mrsh_env_unset_def)

lemma upd_frame_fields [simp]:
  "state_inv st \<Longrightarrow> length (st_frames (upd_frame f st)) = length (st_frames st)"
  "st_stdout_redirected (upd_frame f st) = st_stdout_redirected st"
  "st_capture_file (upd_frame f st) = st_capture_file st"
  by (simp_all add: upd_frame_def state_inv_def)

lemma function_destroy_fields [simp]:
  "st_frames (function_destroy fn st) = st_frames st"
  "st_stdout_redirected (function_destroy fn st) = st_stdout_redirected st"
  "st_capture_file (function_destroy fn st) = st_capture_file st"
  by (simp_all add: function_destroy_def split: option.split)

lemma kept_upd_world [simp]: "kept st (upd_world f st')  = kept st st'"
  by (simp add: kept_def)

lemma kept_updates [simp]:
  "kept st (st'\<lparr>st_world := w\<rparr>) = kept st st'"
  "kept st (st'\<lparr>st_getopt := g\<rparr>) = kept st st'"
  "kept st (st'\<lparr>st_last_status := n\<rparr>) = kept st st'"
  "kept st (st'\<lparr>st_exit := n\<rparr>) = kept st st'"
  "kept st (st'\<lparr>st_options := opts\<rparr>) = kept st st'"
  "kept st (st'\<lparr>st_out_counter := n1\<rparr>) = kept st st'"
  "kept (st\<lparr>st_world := w\<rparr>) st' = kept st st'"
  "kept (upd_world f st) st' = kept st st'"
  "kept (st\<lparr>st_getopt := g\<rparr>) st' = kept st st'"
  "kept (st\<lparr>st_last_status := n\<rparr>) st' = kept st st'"
  "kept (st\<lparr>st_out_counter := n1\<rparr>) st' = kept st st'"
  by (simp_all add: kept_def)

lemma kept_env_set [simp]: "kept st st' \<Longrightarrow> kept st (mrsh_env_set st' k v a)"
  by (simp add: kept_def)

lemma kept_env_unset [simp]: "kept st st' \<Longrightarrow> kept st (mrsh_env_unset st' k)"
  by (simp add: kept_def)

lemma kept_upd_frame [simp]: "kept st st' \<Longrightarrow> kept st (upd_frame f st')"
  by (simp add: kept_def)

lemma kept_tables:
  "kept st st' \<Longrightarrow> (state_inv st' \<Longrightarrow> ht_inv t) \<Longrightarrow> kept st (st'\<lparr>st_aliases := t\<rparr>)"
  "kept st st' \<Longrightarrow> (state_inv st' \<Longrightarrow> ht_inv u) \<Longrightarrow> kept st (st'\<lparr>st_functions := u\<rparr>)"
  by (simp_all add: kept_def state_inv_def)

lemma kept_function_destroy [simp]: "kept st (function_destroy fn st') = kept st st'"
  by (simp add: kept_def)

section \<open>Tables under iteration\<close>

lemma for_each_inv:
  assumes "P s" and "\<And>k v s. P s \<Longrightarrow> P (f k v s)"
  shows "P (mrsh_hashtable_for_each t f s)"
proof -
  have chain: "P (fold (\<lambda>e. f (entry_key e) (entry_value e)) c s)" if "P s" for c s
    using that by (induction c arbitrary: s) (simp_all add: assms(2))
  have "P (fold (fold (\<lambda>e. f (entry_key e) (entry_value e))) bs s)" if "P s" for bs s
    using that by (induction bs arbitrary: s) (simp_all add: chain)
  with assms(1) show ?thesis by (simp add: mrsh_hashtable_for_each_def)
qed

lemma ht_inv_copy_table [simp]: "ht_inv (copy_table t)"
  unfolding copy_table_def by (rule for_each_inv) (simp_all add: ht_inv_empty ht.inv_upd)

lemma ht_inv_fold_del: "ht_inv t \<Longrightarrow> ht_inv (fold (\<lambda>a t. ht_del t a) as t)"
  by (induction as arbitrary: t) (simp_all add: ht.inv_rem)

lemma ht_inv_del_pair: "mrsh_hashtable_del t k = (old, t') \<Longrightarrow> ht_inv t \<Longrightarrow> ht_inv t'"
  using ht.inv_rem [of t k] by (simp add: ht_del_def)

lemma ht_inv_set_pair: "mrsh_hashtable_set t k v = (old, t') \<Longrightarrow> ht_inv t \<Longrightarrow> ht_inv t'"
  using ht.inv_upd [of t k v] by (simp add: ht_set_def)

section \<open>Builtins\<close>

lemma kept_getopt [kept_rules]:
  "parse_flags argv opts stops st = Some (ok, seen, i, st') \<Longrightarrow> kept st st'"
  "no_options argv st = Some (ok, i, st') \<Longrightarrow> kept st st'"
  by (auto simp: parse_flags_def no_options_def bind_Some_iff)

lemma kept_messages [simp]:
  "kept st (unknown_option name usage st') = kept st st'"
  "kept st (exit_unless_interactive st') = kept st st'"
  by (simp_all add: unknown_option_def exit_unless_interactive_def)

lemma kept_control [kept_rules]:
  "run_builtin_break argv st = Some (ret, st') \<Longrightarrow> kept st st'"
  "run_builtin_exit argv st = Some (ret, st') \<Longrightarrow> kept st st'"
  "run_builtin_return argv st = Some (ret, st') \<Longrightarrow> kept st st'"
  "run_builtin_shift argv st = Some (ret, st') \<Longrightarrow> kept st st'"
  by (auto simp: run_builtin_break_def run_builtin_exit_def run_builtin_return_def run_builtin_shift_def
        Let_def bind_Some_iff split: if_splits prod.splits)

lemma kept_alias_set: "kept st st' \<Longrightarrow> kept st (st'\<lparr>st_aliases := ht_set (st_aliases st') k v\<rparr>)"
  by (rule kept_tables) (simp_all add: state_inv_def ht.inv_upd)

lemma kept_function_del:
  "mrsh_hashtable_del (st_functions st') k = (old, t) \<Longrightarrow> kept st st' \<Longrightarrow> kept st (st'\<lparr>st_functions := t\<rparr>)"
  by (rule kept_tables) (auto simp: state_inv_def dest: ht_inv_del_pair)

lemma kept_export_loop:
  "export_loop pw a0 attrib as st = Some (ret, st') \<Longrightarrow> kept st0 st \<Longrightarrow> kept st0 st'"
proof (induction as arbitrary: st)
  case (Cons a as)
  then show ?case by (auto simp: Let_def bind_Some_iff split: if_splits intro: Cons.IH)
qed simp

lemma kept_unset_loop: "unset_loop funcs as st = Some (ret, st') \<Longrightarrow> kept st0 st \<Longrightarrow> kept st0 st'"
proof (induction as arbitrary: st)
  case (Cons a as)
  then show ?case
    by (auto split: if_splits prod.splits option.splits intro!: Cons.IH intro: kept_function_del)
qed simp

lemma kept_alias_loop: "alias_loop a0 as st = Some (ret, st') \<Longrightarrow> kept st0 st \<Longrightarrow> kept st0 st'"
proof (induction as arbitrary: st)
  case (Cons a as)
  then show ?case by (auto split: if_splits option.splits intro: Cons.IH kept_alias_set)
qed simp

lemmas kept_loops = kept_export_loop [OF _ kept_refl] kept_unset_loop [OF _ kept_refl]
  kept_alias_loop [OF _ kept_refl]

lemma kept_variables [kept_rules]:
  "run_builtin_export pw argv st = Some (ret, st') \<Longrightarrow> kept st st'"
  "run_builtin_unset argv st = Some (ret, st') \<Longrightarrow> kept st st'"
  by (auto simp: run_builtin_export_def run_builtin_unset_def Let_def bind_Some_iff split: if_splits
        dest!: kept_rules dest: kept_loops intro: kept_trans)

lemma kept_aliases [kept_rules]:
  "run_builtin_alias argv st = Some (ret, st') \<Longrightarrow> kept st st'"
  "run_builtin_unalias argv st = Some (ret, st') \<Longrightarrow> kept st st'"
proof -
  have print: "kept st (mrsh_hashtable_for_each t (\<lambda>key v s. oprint (f key v) s) st1)" if "kept st st1" for st st1 t f
    by (rule for_each_inv) (simp_all add: that)
  show "run_builtin_alias argv st = Some (ret, st') \<Longrightarrow> kept st st'"
    by (auto simp: run_builtin_alias_def Let_def bind_Some_iff print split: if_splits dest!: kept_loops)
  have "ht_inv (mrsh_hashtable_for_each t (\<lambda>key _ t. ht_del t key) t)" if "ht_inv t" for t :: "string mrsh_hashtable"
    by (rule for_each_inv) (simp_all add: that ht.inv_rem)
  then show "run_builtin_unalias argv st = Some (ret, st') \<Longrightarrow> kept st st'"
    by (auto simp: run_builtin_unalias_def bind_Some_iff state_inv_def split: if_splits
          intro!: kept_tables ht_inv_fold_del dest!: kept_getopt)
qed

lemma kept_switch_option [simp]: "kept st (switch_option sign flag st') = kept st st'"
  by (simp add: switch_option_def)

lemma kept_set_letters: "kept st0 st \<Longrightarrow> kept st0 (snd (snd (set_letters sign cs pop st)))"
  by (induction cs arbitrary: pop st) (simp_all split: option.split)

lemma kept_set_loop: "kept st0 st \<Longrightarrow> kept st0 (snd (snd (set_loop as pop st)))"
proof (induction "length as" arbitrary: as pop st rule: less_induct)
  case less
  show ?case
  proof (cases as)
    case (Cons a as')
    note IH = less.hyps [unfolded Cons]
    have letters: "kept st0 (snd (snd (set_letters (hd a) (tl a) pop st)))"
      using less.prems by (rule kept_set_letters)
    show ?thesis unfolding Cons
      by (subst set_loop.simps(2))
        (simp add: IH less.prems letters case_prod_unfold split: option.split list.split del: set_loop.simps)
  qed (simp add: less.prems)
qed

lemma kept_set_loop_pair: "set_loop as pop st = (e, pop', st') \<Longrightarrow> kept st st'"
  using kept_set_loop [OF kept_refl, of st as pop] by simp

lemma kept_set [kept_rules]: "run_builtin_set argv st = Some (ret, st') \<Longrightarrow> kept st st'"
  by (auto simp: run_builtin_set_def set_builtin_def bind_Some_iff
        split: if_splits prod.splits set_end.splits dest!: kept_set_loop_pair)

lemma kept_read_loop: "read_loop n raw esc line st = Some (eof, line', st') \<Longrightarrow> kept st0 st \<Longrightarrow> kept st0 st'"
  by (induction n arbitrary: esc line st)
    (auto simp: Let_def split: prod.splits option.splits if_splits)

lemma kept_env_set_all: "kept st0 st \<Longrightarrow> kept st0 (env_set_all vs st)"
  by (induction vs st rule: env_set_all.induct) simp_all

lemma kept_read [kept_rules]: "run_builtin_read argv st = Some (ret, st') \<Longrightarrow> kept st st'"
  by (auto simp: run_builtin_read_def bind_Some_iff Let_def simp del: read_loop.simps split: if_splits
        intro!: kept_env_set_all dest!: kept_getopt dest: kept_read_loop)

lemma kept_hash_loop: "hash_loop S us st = (ret, st') \<Longrightarrow> kept st0 st \<Longrightarrow> kept st0 st'"
  by (induction us arbitrary: st) (auto split: if_splits option.splits)

lemma kept_type_loop: "type_loop S ns e st = (ret, st') \<Longrightarrow> kept st0 st \<Longrightarrow> kept st0 st'"
  by (induction ns arbitrary: e st) (auto split: if_splits option.splits)

lemma kept_lookups [kept_rules]:
  "run_builtin_exec S argv st = Some (ret, st') \<Longrightarrow> kept st st'"
  "run_builtin_hash S argv st = Some (ret, st') \<Longrightarrow> kept st st'"
  "run_builtin_type S argv st = Some (ret, st') \<Longrightarrow> kept st st'"
  "run_builtin_unspecified argv st = Some (ret, st') \<Longrightarrow> kept st st'"
  by (auto simp: run_builtin_exec_def run_builtin_hash_def run_builtin_type_def run_builtin_unspecified_def
        bind_Some_iff Let_def split: if_splits option.splits dest!: kept_getopt
        dest: kept_hash_loop dest!: kept_type_loop [OF _ kept_refl])

lemma kept_jobs_options: "jobs_options n argv l p st = Some (r, st') \<Longrightarrow> kept st0 st \<Longrightarrow> kept st0 st'"
  by (induction n arbitrary: l p st) (auto simp: bind_Some_iff Let_def split: if_splits option.splits)

lemma kept_wait_operands: "wait_operands as st = (ok, st') \<Longrightarrow> kept st0 st \<Longrightarrow> kept st0 st'"
  by (induction as arbitrary: st) (auto split: if_splits prod.splits)

lemma kept_trap_conditions: "trap_conditions conditions st = (ret, st') \<Longrightarrow> kept st st'"
  by (auto simp: trap_conditions_def split: list.splits option.splits if_splits)

lemma kept_trap_catch: "trap_catch conditions st r = (ret, st') \<Longrightarrow> kept st st'"
  by (cases r) (auto simp: trap_catch_def dest: kept_trap_conditions)

lemma kept_trap [kept_rules]: "run_builtin_trap argv st = Some (ret, st') \<Longrightarrow> kept st st'"
  by (auto simp: run_builtin_trap_def bind_Some_iff Let_def split: if_splits
        dest!: kept_getopt kept_trap_conditions kept_trap_catch intro: kept_trans)

lemma kept_jobs [kept_rules]:
  "run_builtin_bg argv st = Some (ret, st') \<Longrightarrow> kept st st'"
  "run_builtin_fg argv st = Some (ret, st') \<Longrightarrow> kept st st'"
  "run_builtin_jobs argv st = Some (ret, st') \<Longrightarrow> kept st st'"
  "run_builtin_wait S argv st = Some (ret, st') \<Longrightarrow> kept st st'"
  "run_builtin_times S argv st = Some (ret, st') \<Longrightarrow> kept st st'"
  by (auto simp: run_builtin_bg_def run_builtin_fg_def run_builtin_jobs_def run_builtin_wait_def
        run_builtin_times_def bind_Some_iff Let_def
        simp del: jobs_options.simps
        split: if_splits option.splits prod.splits bool.splits sum.splits list.splits
        dest!: kept_getopt kept_jobs_options [OF _ kept_refl] kept_wait_operands [OF _ kept_refl])

lemma kept_cd_to: "cd_to S path st = Some (ret, st') \<Longrightarrow> kept st st'"
  by (auto simp: cd_to_def Let_def bind_Some_iff split: option.splits)

lemma kept_cd_back: "cd_back S st = Some (ret, st') \<Longrightarrow> kept st st'"
  by (auto simp: cd_back_def split: option.splits)

lemma kept_cd [kept_rules]: "run_builtin_cd S argv st = Some (ret, st') \<Longrightarrow> kept st st'"
  by (auto simp: run_builtin_cd_def bind_Some_iff Let_def split: if_splits option.splits list.splits
        dest!: kept_cd_to kept_cd_back)

lemma kept_getopts_optarg: "kept st0 st \<Longrightarrow> kept st0 (getopts_optarg r opts g st)"
  by (simp add: getopts_optarg_def split: option.split)

lemma kept_getopts [kept_rules]: "run_builtin_getopts argv st = Some (ret, st') \<Longrightarrow> kept st st'"
  by (auto simp: run_builtin_getopts_def kept_getopts_optarg bind_Some_iff Let_def
        split: if_splits option.splits prod.splits dest!: kept_getopt)

section \<open>Rules for runs\<close>

text \<open>
  \<open>keeps sel st0 r\<close>: when the run \<open>r\<close> returns, the state \<open>sel\<close> picks from its result is one that
  \<open>st0\<close> keeps. The rules follow the structure of a definition; what is left are claims about states.
\<close>

definition keeps :: "('a \<Rightarrow> mrsh_state) \<Rightarrow> mrsh_state \<Rightarrow> 'a option \<Rightarrow> bool" where
  "keeps sel st0 r \<longleftrightarrow> (\<forall>x. r = Some x \<longrightarrow> kept st0 (sel x))"

named_theorems run_kept \<open>runs that keep the state in order\<close>

lemma keeps_None [simp, run_kept]: "keeps sel st0 None"
  by (simp add: keeps_def)

lemma keeps_Some [run_kept]: "kept st0 (sel x) \<Longrightarrow> keeps sel st0 (Some x)"
  by (simp add: keeps_def)

text \<open>The rule for a bind depends on the place of the state in the result of the first run.\<close>

lemma keeps_bind5:
  "keeps (snd \<circ> snd \<circ> snd \<circ> snd) st0 m \<Longrightarrow> (\<And>a b c d s. kept st0 s \<Longrightarrow> keeps sel st0 (f (a, b, c, d, s))) \<Longrightarrow>
   keeps sel st0 (Option.bind m f)"
  by (auto simp: keeps_def bind_Some_iff)

lemma keeps_bind4:
  "keeps (snd \<circ> snd \<circ> snd) st0 m \<Longrightarrow> (\<And>a b c s. kept st0 s \<Longrightarrow> keeps sel st0 (f (a, b, c, s))) \<Longrightarrow>
   keeps sel st0 (Option.bind m f)"
  by (auto simp: keeps_def bind_Some_iff)

lemma keeps_bind3:
  "keeps (snd \<circ> snd) st0 m \<Longrightarrow> (\<And>a b s. kept st0 s \<Longrightarrow> keeps sel st0 (f (a, b, s))) \<Longrightarrow>
   keeps sel st0 (Option.bind m f)"
  by (auto simp: keeps_def bind_Some_iff)

lemma keeps_bind2:
  "keeps snd st0 m \<Longrightarrow> (\<And>a s. kept st0 s \<Longrightarrow> keeps sel st0 (f (a, s))) \<Longrightarrow> keeps sel st0 (Option.bind m f)"
  by (auto simp: keeps_def bind_Some_iff)

lemma keeps_bind1:
  "keeps id st0 m \<Longrightarrow> (\<And>s. kept st0 s \<Longrightarrow> keeps sel st0 (f s)) \<Longrightarrow> keeps sel st0 (Option.bind m f)"
  by (auto simp: keeps_def bind_Some_iff)

lemma keeps_bind0: "(\<And>x. keeps sel st0 (f x)) \<Longrightarrow> keeps sel st0 (Option.bind m f)"
  by (auto simp: keeps_def bind_Some_iff)

lemmas keeps_binds = keeps_bind5 keeps_bind4 keeps_bind3 keeps_bind2 keeps_bind1 keeps_bind0

lemma keeps_if [run_kept]:
  "(c \<Longrightarrow> keeps sel st0 a) \<Longrightarrow> (\<not> c \<Longrightarrow> keeps sel st0 b) \<Longrightarrow> keeps sel st0 (if c then a else b)"
  by simp

lemma keeps_case_prod [run_kept]:
  "(\<And>x y. p = (x, y) \<Longrightarrow> keeps sel st0 (f x y)) \<Longrightarrow> keeps sel st0 (case_prod f p)"
  by (cases p) simp

lemma keeps_case_option [run_kept]:
  "keeps sel st0 a \<Longrightarrow> (\<And>x. keeps sel st0 (f x)) \<Longrightarrow> keeps sel st0 (case_option a f v)"
  by (cases v) simp_all

lemma keeps_case_list [run_kept]:
  "keeps sel st0 a \<Longrightarrow> (\<And>x xs. keeps sel st0 (f x xs)) \<Longrightarrow> keeps sel st0 (case_list a f v)"
  by (cases v) simp_all

lemma keeps_case_sum [run_kept]:
  "(\<And>x. keeps sel st0 (f x)) \<Longrightarrow> (\<And>x. keeps sel st0 (g x)) \<Longrightarrow> keeps sel st0 (case_sum f g v)"
  by (cases v) simp_all

lemma keeps_case_bool [run_kept]: "keeps sel st0 a \<Longrightarrow> keeps sel st0 b \<Longrightarrow> keeps sel st0 (case_bool a b v)"
  by (cases v) simp_all

lemma keepsD: "keeps sel st0 m \<Longrightarrow> m = Some x \<Longrightarrow> kept st0 (sel x)"
  by (simp add: keeps_def)

lemma keepsI:
  "(\<And>ret st'. m = Some (ret, st') \<Longrightarrow> kept st st') \<Longrightarrow> kept st0 st \<Longrightarrow> keeps snd st0 m"
  by (auto simp: keeps_def intro: kept_trans)

section \<open>Redirections and assignments\<close>

lemma keeps_redir_open [run_kept]:
  assumes "kept st0 st"
  shows "keeps snd st0 (redir_open S op f lines st)"
proof -
  have "keeps snd st0 (open_target S f mode st)" for mode
    unfolding open_target_def by (intro keeps_binds run_kept) (simp_all add: assms)
  moreover have "keeps snd st0 (create_here_document_fd S lines st)"
    unfolding create_here_document_fd_def Let_def by (intro keeps_binds run_kept) (simp_all add: assms)
  ultimately show ?thesis
    unfolding redir_open_def using assms by (cases op) (simp_all add: keeps_def)
qed

lemma keeps_process_redir [run_kept]: "kept st0 st \<Longrightarrow> keeps snd st0 (process_redir S r st)"
  unfolding process_redir_def by (cases r) (simp only: mrsh_io_redirect.case, intro keeps_binds run_kept, auto)

lemma kept_reopen_stream: "kept st0 st \<Longrightarrow> reopen_stream S fd op f st = (ok, st') \<Longrightarrow> kept st0 st'"
  by (auto simp: reopen_stream_def split: if_splits prod.splits)

lemma keeps_apply_redirect [run_kept]: "kept st0 st \<Longrightarrow> keeps snd st0 (apply_redirect S r st)"
  unfolding apply_redirect_def
  by (cases r)
    (simp only: mrsh_io_redirect.case, intro keeps_binds run_kept, auto dest: kept_reopen_stream)

lemma keeps_apply_redirects [run_kept]: "kept st0 st \<Longrightarrow> keeps snd st0 (apply_redirects S rs st)"
proof (induction rs arbitrary: st)
  case (Cons r rs)
  then show ?case by (simp only: apply_redirects.simps, intro keeps_binds run_kept Cons.IH) auto
qed (simp add: run_kept)

lemma keeps_assignments [run_kept]:
  "kept st0 st \<Longrightarrow> keeps snd st0 (run_assignments as st)"
  "kept st0 st \<Longrightarrow> keeps snd st0 (process_assignments as st)"
proof (induction as arbitrary: st)
  case (Cons a as)
  {
    case 1 show ?case by (cases a) (simp only: run_assignments.simps, intro keeps_binds run_kept Cons.IH, simp_all add: 1)
  next
    case 2 show ?case by (cases a) (simp only: process_assignments.simps, intro keeps_binds run_kept Cons.IH, simp_all add: 2)
  }
qed (simp_all add: run_kept)

lemma keeps_run_process [run_kept]: "kept st0 st \<Longrightarrow> keeps snd st0 (run_process S rs as argv st)"
  unfolding run_process_def Let_def by (intro keeps_binds run_kept) auto

lemma kept_capture_setup: "kept st0 st \<Longrightarrow> capture_setup S st = (tmp, st') \<Longrightarrow> kept st0 st'"
  by (auto simp: capture_setup_def Let_def split: if_splits prod.splits)

lemma kept_capture_emit [simp]: "kept st (capture_emit S tmp st') = kept st st'"
  by (simp add: capture_emit_def split: option.split)

lemma keeps_run_captured [run_kept]:
  assumes "\<And>st. kept st0 st \<Longrightarrow> keeps snd st0 (run st)" and "kept st0 st"
  shows "keeps snd st0 (run_captured S run st)"
  unfolding run_captured_def
  by (intro keeps_binds run_kept assms(1)) (auto dest: kept_capture_setup [OF assms(2)])

section \<open>Function calls\<close>

lemma kept_push_pop:
  assumes "kept (push_frame argv st) st1" and "pop_frame st1 = Some st2"
  shows "kept st st2"
  using assms
  by (auto simp: kept_def push_frame_def pop_frame_def state_inv_def bind_Some_iff split: list.splits)

section \<open>Arithmetic\<close>

lemma keeps_with_operand:
  "keeps snd st0 m \<Longrightarrow> (\<And>v s. kept st0 s \<Longrightarrow> keeps snd st0 (k v s)) \<Longrightarrow> keeps snd st0 (with_operand m k)"
  unfolding with_operand_def by (erule keeps_bind2) (simp add: keeps_Some split: arith_result.split)

lemma keeps_run_variable [run_kept]: "kept st0 st \<Longrightarrow> keeps snd st0 (run_variable st name)"
  by (auto simp: keeps_def run_variable_def bind_Some_iff split: option.splits prod.splits if_splits dvalue.splits)

lemma keeps_return_long [run_kept]: "kept st0 st \<Longrightarrow> keeps snd st0 (return_long v st)"
  by (cases v) (simp_all add: return_long_def keeps_def)

lemma keeps_binop [run_kept]: "kept st0 st \<Longrightarrow> keeps snd st0 (run_binop st type a b)"
  by (cases type; auto simp: run_binop_def intro!: keeps_bind0 run_kept)

lemma keeps_unop [run_kept]: "kept st0 st \<Longrightarrow> keeps snd st0 (run_unop st type v)"
  by (cases type; auto simp: run_unop_def intro!: keeps_bind0 run_kept)

lemma keeps_assign_op [run_kept]: "kept st0 st \<Longrightarrow> keeps snd st0 (run_arithm_assign_op st op a b)"
  by (cases op; auto simp: run_arithm_assign_op_def intro!: keeps_bind0 run_kept)

lemma keeps_arithm_assign [run_kept]: "kept st0 st \<Longrightarrow> keeps snd st0 (run_arithm_assign st op name v)"
  unfolding run_arithm_assign_def Let_def by (intro keeps_with_operand keeps_bind0 run_kept) auto

lemma keeps_arithm_expr [run_kept]: "kept st0 st \<Longrightarrow> keeps snd st0 (mrsh_run_arithm_expr e st)"
proof (induction e arbitrary: st)
  case (MRSH_ARITHM_COND c b e)
  then show ?case by (auto intro!: keeps_with_operand keeps_bind0 run_kept)
qed (auto intro!: keeps_with_operand keeps_bind0 run_kept)

section \<open>The functions of the executor\<close>

lemma keeps_case_interrupt [run_kept]:
  "keeps sel st0 a \<Longrightarrow> keeps sel st0 b \<Longrightarrow> keeps sel st0 c \<Longrightarrow> keeps sel st0 (case_interrupt a b c i)"
  by (cases i) simp_all

lemma keeps_case_parse_outcome [run_kept]:
  "(\<And>m l c. keeps sel st0 (f m l c)) \<Longrightarrow> (\<And>p. keeps sel st0 (g p)) \<Longrightarrow> keeps sel st0 (case_parse_outcome f g o')"
  by (cases o') simp_all

lemma keeps_case_word_outcome [run_kept]:
  "(\<And>e. keeps sel st0 (f e)) \<Longrightarrow> (\<And>w. keeps sel st0 (g w)) \<Longrightarrow> keeps sel st0 (case_word_outcome f g o')"
  by (cases o') simp_all

lemma keeps_case_arith_result [run_kept]:
  "keeps sel st0 a \<Longrightarrow> (\<And>v. keeps sel st0 (f v)) \<Longrightarrow> keeps sel st0 (case_arith_result a f r)"
  by (cases r) simp_all

lemma kept_run_again:
  assumes "keeps sel st m" and "kept st0 st"
  shows "keeps sel st0 m"
  using assms by (auto simp: keeps_def intro: kept_trans)

locale kept_execs =
  fixes X :: execs
  assumes kept_word: "keeps (snd \<circ> snd) st (x_word X dq w st)"
    and kept_list: "keeps (snd \<circ> snd) st (x_list X ls st)"
    and kept_command: "keeps (snd \<circ> snd) st (x_command X c st)"
    and kept_and_or: "keeps (snd \<circ> snd) st (x_and_or X a st)"
begin

lemmas run_again [run_kept] = kept_word [THEN kept_run_again] kept_list [THEN kept_run_again]
  kept_command [THEN kept_run_again] kept_and_or [THEN kept_run_again]

lemma kept_program [run_kept]: "kept st0 st \<Longrightarrow> keeps (snd \<circ> snd) st0 (mrsh_run_program X p st)"
  unfolding mrsh_run_program_def by (cases p) (simp only: mrsh_program.case, intro keeps_binds run_kept, auto)

subsection \<open>Words\<close>

lemma kept_cond_op [run_kept]:
  "kept st0 st \<Longrightarrow> keeps (snd \<circ> snd) st0 (apply_parameter_cond_op X name op colon arg v st)"
  unfolding apply_parameter_cond_op_def
  by (cases op; simp only: mrsh_word_parameter_op.case; intro keeps_binds run_kept; simp)

lemma kept_str_op [run_kept]:
  "kept st0 st \<Longrightarrow> keeps (snd \<circ> snd) st0 (apply_parameter_str_op S X op arg s st)"
  unfolding apply_parameter_str_op_def Let_def prod.case by (intro keeps_binds run_kept) auto

lemma kept_parameter_result [run_kept]:
  "kept st0 st \<Longrightarrow> keeps (snd \<circ> snd) st0 (parameter_result S X dq name op colon arg d st)"
  unfolding parameter_result_def Let_def by (intro keeps_binds run_kept) auto

lemma kept_word_parameter [run_kept]:
  "kept st0 st \<Longrightarrow> keeps (snd \<circ> snd) st0 (run_word_parameter S X dq name op colon arg d st)"
proof -
  have expand: "keeps (snd \<circ> snd) st0 (case r of MRSH_WORD_STRING _ _ _ \<Rightarrow> Some (0, r, st1)
      | _ \<Rightarrow> do { (ret', r', st2) \<leftarrow> x_word X False r st1;
                  if ret' < 0 then Some (ret', word, st2) else Some (0, r', st2) })"
    if "kept st0 st1" for r word st1
    using that by (cases r; simp only: mrsh_word.case; intro keeps_binds run_kept; simp)
  show "kept st0 st \<Longrightarrow> ?thesis"
    unfolding run_word_parameter_def Let_def by (intro keeps_binds run_kept expand) auto
qed

lemma kept_word_command [run_kept]:
  assumes "kept st0 st"
  shows "keeps (snd \<circ> snd) st0 (run_word_command S X p bq st)"
proof -
  have prog: "kept st1 s" if "mrsh_run_program X prog st1 = Some (ret, prog', s)" for st1 prog ret prog' s
    using that kept_program [OF kept_refl, of st1 prog] by (simp add: keeps_def)
  show ?thesis
    using assms
    by (cases "st_capture_file st")
      (auto simp: run_word_command_def Let_def keeps_def bind_Some_iff kept_def state_inv_def
        split: prod.splits bool.splits option.splits dest!: prog)
qed

lemma kept_word_arithmetic [run_kept]:
  "kept st0 st \<Longrightarrow> keeps (snd \<circ> snd) st0 (run_word_arithmetic S X body st)"
  unfolding run_word_arithmetic_def by (intro keeps_binds run_kept) auto

lemma kept_children [run_kept]: "kept st0 st \<Longrightarrow> keeps (snd \<circ> snd) st0 (run_children X dq cs st)"
proof (induction cs arbitrary: st)
  case (Cons c cs)
  then show ?case by (simp only: run_children.simps, intro keeps_binds run_kept Cons.IH) auto
qed (simp add: run_kept)

lemma kept_word_list [run_kept]: "kept st0 st \<Longrightarrow> keeps (snd \<circ> snd) st0 (run_word_list X dq cs q st)"
  unfolding run_word_list_def by (intro keeps_binds run_kept) auto

lemma kept_word_body: "keeps (snd \<circ> snd) st (run_word_body S X dq w st)"
  unfolding run_word_body_def by (cases w) (auto intro!: run_kept)

lemma kept_expand_word [run_kept]: "kept st0 st \<Longrightarrow> keeps (snd \<circ> snd) st0 (expand_word S X w acc st)"
  unfolding expand_word_def by (intro keeps_binds run_kept) auto

subsection \<open>Builtins\<close>

lemma kept_parsed [run_kept]: "kept st0 st \<Longrightarrow> keeps snd st0 (run_parsed X name st r)"
  unfolding run_parsed_def by (intro keeps_binds run_kept) auto

lemma kept_eval [run_kept]: "kept st0 st \<Longrightarrow> keeps snd st0 (run_builtin_eval X argv st)"
  unfolding run_builtin_eval_def by (intro keeps_binds run_kept) auto

lemma kept_dot [run_kept]: "kept st0 st \<Longrightarrow> keeps snd st0 (run_builtin_dot S X argv st)"
  unfolding run_builtin_dot_def by (intro keeps_binds run_kept) auto

lemma kept_verify_command: "verify_command S st name d = (ret, st') \<Longrightarrow> kept st st'"
  by (auto simp: verify_command_def split: option.splits if_splits)

lemma kept_command_builtin [run_kept]:
  assumes run: "\<And>args st. kept st0 st \<Longrightarrow> keeps snd st0 (run args st)" and "kept st0 st"
  shows "keeps snd st0 (run_builtin_command S run argv st)"
proof -
  have flags: "keeps (snd \<circ> snd \<circ> snd) st0 (parse_flags argv opts stops st)" for opts stops
    using assms(2) by (auto simp: keeps_def dest!: kept_getopt intro: kept_trans)
  have verify: "kept st0 (snd (verify_command S st1 name d))" if "kept st0 st1" for st1 name d
    using that kept_verify_command [of S st1 name d] by (metis kept_trans prod.collapse)
  show ?thesis
    unfolding run_builtin_command_def Let_def command_run_def
    by (intro keeps_binds run_kept run flags) (auto intro: verify)
qed

lemma kept_builtin_n: "kept st0 st \<Longrightarrow> keeps snd st0 (run_builtin_n n S X argv st)"
proof (induction n arbitrary: argv st)
  case (Suc n)
  have "keeps snd st0 (run_builtin_command S (run_builtin_n n S X) argv st)"
    by (rule kept_command_builtin) (simp_all add: Suc)
  with Suc.prems show ?case
    by (auto simp: run_kept split: option.split builtin_func.split
        intro!: keepsI [OF _ Suc.prems] run_kept dest: kept_rules)
qed (simp add: run_kept)

lemma kept_run_builtin [run_kept]: "kept st0 st \<Longrightarrow> keeps snd st0 (run_builtin S X rs argv st)"
  unfolding run_builtin_def mrsh_run_builtin_def by (intro keeps_binds run_kept kept_builtin_n) auto

subsection \<open>Simple commands\<close>

lemma kept_word_tilde [run_kept]: "kept st0 st \<Longrightarrow> keeps (snd \<circ> snd) st0 (run_word_tilde S X b w st)"
  unfolding run_word_tilde_def by (rule run_kept)

lemma kept_xtrace [run_kept]:
  assumes "kept st0 st"
  shows "keeps id st0 (xtrace S X argv st)"
proof -
  have word: "keeps (snd \<circ> snd) st0 (mrsh_run_word S X w st1)" if "kept st0 st1" for w st1
    unfolding mrsh_run_word_def using that by (intro keeps_binds run_kept) auto
  have str: "keeps snd st0 (expand_str S X src st1)" if "kept st0 st1" for src st1
    unfolding expand_str_def using that by (intro keeps_binds run_kept word) (auto split: option.split)
  have ps: "keeps snd st0 (expand_ps S X name st1)" if "kept st0 st1" for name st1
    unfolding expand_ps_def using that by (intro keeps_binds run_kept str) auto
  have "keeps snd st0 (mrsh_get_ps4 S X st)"
    unfolding mrsh_get_ps4_def using assms by (intro keeps_binds run_kept ps) auto
  with assms show ?thesis
    unfolding xtrace_def by (intro keeps_if keeps_bind2) (auto intro: run_kept)
qed

lemma kept_expand_words [run_kept]: "kept st0 st \<Longrightarrow> keeps (snd \<circ> snd) st0 (expand_words S X ws acc st)"
proof (induction ws arbitrary: acc st)
  case (Cons w ws)
  then show ?case by (simp only: expand_words.simps, intro keeps_binds run_kept Cons.IH) auto
qed (simp add: run_kept)

lemma kept_expand_assignments [run_kept]:
  "kept st0 st \<Longrightarrow> keeps (snd \<circ> snd) st0 (expand_assignments S X as st)"
proof (induction as arbitrary: st)
  case (Cons a as)
  then show ?case
    by (cases a) (simp only: expand_assignments.simps, intro keeps_binds run_kept Cons.IH, auto)
qed (simp add: run_kept)

lemma kept_expand_lines [run_kept]: "kept st0 st \<Longrightarrow> keeps (snd \<circ> snd) st0 (expand_lines S X ls st)"
proof (induction ls arbitrary: st)
  case (Cons l ls)
  then show ?case by (simp only: expand_lines.simps, intro keeps_binds run_kept Cons.IH) auto
qed (simp add: run_kept)

lemma kept_expand_redirects [run_kept]:
  "kept st0 st \<Longrightarrow> keeps (snd \<circ> snd) st0 (expand_redirects S X rs st)"
proof (induction rs arbitrary: st)
  case (Cons r rs)
  then show ?case
    by (cases r) (simp only: expand_redirects.simps, intro keeps_binds run_kept Cons.IH, auto)
qed (simp add: run_kept)

lemma kept_call_function [run_kept]:
  assumes "kept st0 st"
  shows "keeps snd st0 (call_function X fn argv st)"
proof -
  have "kept (push_frame argv st) st1" if "x_command X body (push_frame argv st) = Some (ret, body', st1)" for body ret body' st1
    using that kept_command [of "push_frame argv st" body] by (simp add: keeps_def)
  from kept_push_pop [OF this] assms show ?thesis
    by (auto simp: call_function_def keeps_def bind_Some_iff intro: kept_trans)
qed

lemma kept_dispatch [run_kept]: "kept st0 st \<Longrightarrow> keeps snd st0 (dispatch S X rs as argv st)"
  unfolding dispatch_def by (intro keeps_binds run_kept)

lemma kept_named_command [run_kept]: "kept st0 st \<Longrightarrow> keeps snd st0 (run_named_command S X ws rs as st)"
  unfolding run_named_command_def by (intro keeps_binds run_kept) auto

lemma kept_simple_command [run_kept]:
  "kept st0 st \<Longrightarrow> keeps snd st0 (run_simple_command S X name args rs as st)"
  unfolding run_simple_command_def
  by (intro keeps_binds run_kept) (auto intro!: run_kept split: mrsh_command.split option.split)

subsection \<open>Pipelines and compound commands\<close>

lemma kept_freopen_failed [simp]: "kept st (freopen_failed S stream path mode st') = kept st st'"
  by (simp add: freopen_failed_def)

lemma kept_emit_output [simp]: "kept st (emit_output S tmp st') = kept st st'"
  by (simp add: emit_output_def Let_def split: option.split)

lemma kept_stages [run_kept]: "kept st0 st \<Longrightarrow> keeps (snd \<circ> snd \<circ> snd) st0 (run_stages S X i ret cs st)"
proof (induction cs arbitrary: i ret st)
  case (Cons c cs)
  then show ?case
    by (simp only: run_stages.simps Let_def, intro keeps_binds run_kept Cons.IH) auto
qed (simp add: run_kept)

lemma kept_multi_pipeline [run_kept]:
  assumes "kept st0 st"
  shows "keeps (snd \<circ> snd) st0 (run_multi_pipeline S X cs bang st)"
proof -
  have "keeps (snd \<circ> snd \<circ> snd) (st\<lparr>st_stdout_redirected := True\<rparr>) (run_stages S X 0 0 cs (st\<lparr>st_stdout_redirected := True\<rparr>))"
    by (rule kept_stages) simp
  moreover have "kept st0 (s\<lparr>st_stdout_redirected := st_stdout_redirected st\<rparr>)"
    if "kept (st\<lparr>st_stdout_redirected := True\<rparr>) s" for s
    using that assms by (simp add: kept_def)
  ultimately show ?thesis
    by (auto simp: run_multi_pipeline_def Let_def keeps_def bind_Some_iff)
qed

lemma kept_pipeline [run_kept]: "kept st0 st \<Longrightarrow> keeps (snd \<circ> snd) st0 (run_pipeline S X cs bang st)"
  unfolding run_pipeline_def by (intro keeps_binds run_kept) auto

lemma kept_subshell [run_kept]:
  assumes "kept st0 st"
  shows "keeps (snd \<circ> snd) st0 (run_subshell X body st)"
proof -
  have "kept st0 (leave_subshell st st1)" if "kept (enter_subshell st) st1" for st1
    using that assms by (auto simp: kept_def enter_subshell_def leave_subshell_def state_inv_def)
  then show ?thesis
    using kept_list [of "enter_subshell st" body] by (auto simp: run_subshell_def keeps_def bind_Some_iff)
qed

lemma kept_if_clause [run_kept]: "kept st0 st \<Longrightarrow> keeps (snd \<circ> snd) st0 (run_if_clause X c b e st)"
  unfolding run_if_clause_def by (intro keeps_binds run_kept) auto

lemma kept_enter_leave [simp]:
  "kept st0 st \<Longrightarrow> kept st0 (enter_loop st)" "kept st0 st \<Longrightarrow> kept st0 (leave_loop st)"
  by (simp_all add: enter_loop_def leave_loop_def)

lemma kept_loop_iterate [run_kept]:
  assumes "kept st0 st"
  shows "keeps (snd \<circ> snd \<circ> snd \<circ> snd) st0 (loop_iterate X type num ret c b st)"
proof -
  have "kept st0 st \<longrightarrow> kept st0 ((snd \<circ> snd \<circ> snd \<circ> snd) r)"
    if "loop_iterate Y type num ret c b st = Some r" "Y = X" for Y type num ret c b st r
    using that
  proof (induction Y type num ret c b st r rule: loop_induct)
    case (step f Y type num ret c b st r)
    have IH: "keeps (snd \<circ> snd \<circ> snd \<circ> snd) st0 (f X type num ret c b st)"
      if "kept st0 st" for type num ret c b st
      using step(1) step.prems that by (auto simp: keeps_def)
    show ?case
      by (intro impI, rule keepsD [OF _ step(2)], simp only: step.prems, intro keeps_binds run_kept IH) auto
  qed
  with assms show ?thesis by (auto simp: keeps_def)
qed

lemma kept_loop_clause [run_kept]: "kept st0 st \<Longrightarrow> keeps (snd \<circ> snd) st0 (run_loop_clause X type c b st)"
  unfolding run_loop_clause_def Let_def by (intro keeps_binds run_kept) auto

lemma kept_for_iterate [run_kept]:
  "kept st0 st \<Longrightarrow> keeps (snd \<circ> snd \<circ> snd) st0 (for_iterate X name num ret fs body st)"
proof (induction fs arbitrary: ret body st)
  case (Cons f fs)
  then show ?case by (simp only: for_iterate.simps, intro keeps_binds run_kept Cons.IH) auto
qed (simp add: run_kept)

lemma kept_for_clause [run_kept]:
  "kept st0 st \<Longrightarrow> keeps (snd \<circ> snd) st0 (run_for_clause S X name i ws body st)"
  unfolding run_for_clause_def Let_def by (intro keeps_binds run_kept) auto

lemma kept_match_patterns [run_kept]:
  "kept st0 st \<Longrightarrow> keeps (snd \<circ> snd \<circ> snd) st0 (match_patterns S X str ps st)"
proof (induction ps arbitrary: st)
  case (Cons p ps)
  then show ?case by (simp only: match_patterns.simps, intro keeps_binds run_kept Cons.IH) auto
qed (simp add: run_kept)

lemma kept_case_items [run_kept]: "kept st0 st \<Longrightarrow> keeps (snd \<circ> snd) st0 (run_case_items S X str cs st)"
proof (induction cs arbitrary: st)
  case (Cons e cs)
  then show ?case by (cases e) (simp only: run_case_items.simps, intro keeps_binds run_kept Cons.IH, auto)
qed (simp add: run_kept)

lemma kept_case_clause [run_kept]: "kept st0 st \<Longrightarrow> keeps (snd \<circ> snd) st0 (run_case_clause S X w cs st)"
  unfolding run_case_clause_def by (intro keeps_binds run_kept) auto

lemma kept_function_definition [run_kept]:
  assumes "kept st0 st"
  shows "keeps snd st0 (run_function_definition name body st)"
proof -
  have "kept st0 (st\<lparr>st_bodies := bs, st_next_body := n, st_functions := t\<rparr>)"
    if "mrsh_hashtable_set (st_functions st) name a = (old, t)" for a old t bs n
    using assms ht_inv_set_pair [OF that] by (auto simp: kept_def state_inv_def)
  then show ?thesis
    unfolding run_function_definition_def Let_def by (intro keeps_bind0 run_kept) auto
qed

lemma kept_run_command: "keeps (snd \<circ> snd) st (run_command S X c st)"
  unfolding run_command_def
  by (cases c; simp only: mrsh_command.case; intro keeps_binds run_kept; simp)

lemma kept_run_and_or: "keeps (snd \<circ> snd) st (run_and_or_list S X a st)"
  unfolding run_and_or_list_def
  by (cases a; simp only: mrsh_and_or_list.case; intro keeps_binds run_kept; simp)

lemma kept_run_lists [run_kept]: "kept st0 st \<Longrightarrow> keeps (snd \<circ> snd) st0 (run_lists X ret ls st)"
proof (induction ls arbitrary: ret st)
  case (Cons e ls)
  then show ?case by (cases e) (simp only: run_lists.simps, intro keeps_binds run_kept Cons.IH, auto)
qed (simp add: run_kept)

lemma kept_list_array: "keeps (snd \<circ> snd) st (run_command_list_array X ls st)"
  unfolding run_command_list_array_def by (intro run_kept) simp

end

section \<open>The executor\<close>

lemma kept_execs_exec: "kept_execs (exec n S)"
proof (induction n)
  case 0
  show ?case by unfold_locales (simp_all add: run_kept)
next
  case (Suc n)
  note rules = kept_execs.kept_word_body [OF Suc] kept_execs.kept_run_command [OF Suc]
    kept_execs.kept_run_and_or [OF Suc] kept_execs.kept_list_array [OF Suc]
  show ?case by unfold_locales (simp_all add: rules)
qed

interpretation kept: kept_execs "exec n S" for n S
  by (rule kept_execs_exec)

text \<open>
  C2: Every run leaves the state in order. Whatever list of commands runs, with whatever host, and
  however it ends, the variable, function and alias tables are well-formed hash tables afterwards, the
  stack of call frames is as high as before, and the flag and the file that say where standard output
  goes have their old values again.
\<close>

theorem exec_keeps_state:
  assumes "state_inv st" and "x_list (exec n S) ls st = Some (ret, ls', st')"
  shows "state_inv st' \<and> length (st_frames st') = length (st_frames st)
    \<and> st_stdout_redirected st' = st_stdout_redirected st \<and> st_capture_file st' = st_capture_file st"
  using keepsD [OF kept.kept_list assms(2)] assms(1) by (simp add: kept_def)

theorem exec_keeps_state_witness:
  "\<exists>r st'. x_list (exec 5 example_sys) (seq [cmd [''echo'', ''hi'']]) start_state = Some (0, r, st')
     \<and> state_inv st' \<and> length (st_frames st') = 1 \<and> \<not> st_stdout_redirected st' \<and> st_capture_file st' = None"
proof -
  obtain r st' where run: "x_list (exec 5 example_sys) (seq [cmd [''echo'', ''hi'']]) start_state = Some (0, r, st')"
    using example_echo by auto
  have "state_inv start_state" by (simp add: state_inv_create)
  from exec_keeps_state [OF this run] run show ?thesis by (auto simp: mrsh_state_create_def)
qed

end
