(* ===== verification/Wsh_Control.thy ===== *)
theory Wsh_Control
  imports Wsh_Big_Step Wsh_Invariant
begin

text \<open>
  What the control structures do to trees, tables and loops: consequences of the natural semantics and
  of the invariant.
\<close>

section \<open>Trees\<close>

text \<open>A command without the patterns of its case clauses, which a run replaces by their expansions.\<close>

fun erase_command :: "mrsh_command \<Rightarrow> mrsh_command"
  and erase_item :: "mrsh_case_item \<Rightarrow> mrsh_case_item"
  and erase_and_or :: "mrsh_and_or_list \<Rightarrow> mrsh_and_or_list"
  and erase_list :: "mrsh_command_list \<Rightarrow> mrsh_command_list"
where
  "erase_command (MRSH_BRACE_GROUP b) = MRSH_BRACE_GROUP (map erase_list b)"
| "erase_command (MRSH_SUBSHELL b) = MRSH_SUBSHELL (map erase_list b)"
| "erase_command (MRSH_IF_CLAUSE c b e) =
     MRSH_IF_CLAUSE (map erase_list c) (map erase_list b) (map_option erase_command e)"
| "erase_command (MRSH_FOR_CLAUSE x i ws b) = MRSH_FOR_CLAUSE x i ws (map erase_list b)"
| "erase_command (MRSH_LOOP_CLAUSE t c b) = MRSH_LOOP_CLAUSE t (map erase_list c) (map erase_list b)"
| "erase_command (MRSH_CASE_CLAUSE w items) = MRSH_CASE_CLAUSE w (map erase_item items)"
| "erase_command c = c"
| "erase_item (Case_item ps b) = Case_item [] (map erase_list b)"
| "erase_and_or (MRSH_AND_OR_LIST_PIPELINE cs bang) = MRSH_AND_OR_LIST_PIPELINE (map erase_command cs) bang"
| "erase_and_or (MRSH_AND_OR_LIST_BINOP t l r) = MRSH_AND_OR_LIST_BINOP t (erase_and_or l) (erase_and_or r)"
| "erase_list (Command_list a amp) = Command_list (erase_and_or a) amp"

lemma derivation_keeps_tree:
  "big_list S ret ls st ret' ls' st' \<Longrightarrow> map erase_list ls' = map erase_list ls"
  "big_and_or S a st ret a' st' \<Longrightarrow> erase_and_or a' = erase_and_or a"
  "big_stages S i ret cs st failed ret' cs' st' \<Longrightarrow> map erase_command cs' = map erase_command cs"
  "big_command S c st ret c' st' \<Longrightarrow> erase_command c' = erase_command c"
  "big_loop S type num ret lc lb st returned ret' lc' lb' st' \<Longrightarrow>
     map erase_list lc' = map erase_list lc \<and> map erase_list lb' = map erase_list lb"
  "big_for S name num ret fs b st returned ret' b' st' \<Longrightarrow> map erase_list b' = map erase_list b"
  "big_items S str items st ret items' st' \<Longrightarrow> map erase_item items' = map erase_item items"
  by (induction rule: big_list_big_and_or_big_stages_big_command_big_loop_big_for_big_items.inducts) simp_all



section \<open>Subshells\<close>

lemma look_copy_table:
  assumes "ht_inv t"
  shows "mrsh_hashtable_get (copy_table t) = mrsh_hashtable_get t"
proof -
  have "copy_table t = fold (\<lambda>(k, v) acc. ht_set acc k v) (ht_entries t) mrsh_hashtable_empty"
    by (simp add: copy_table_def for_each_entries case_prod_unfold)
  with ht.copy_all(2) [OF assms, of id] show ?thesis by (simp add: option.map_id0)
qed


lemma example_subshell:
  "map_option fst (x_command (exec 6 example_sys) (MRSH_SUBSHELL (seq [cmd [''true'']])) start_state) = Some 0"
  by code_simp


section \<open>Loops\<close>

text \<open>
  The rule for the total correctness of a \<^verbatim>\<open>while\<close> loop, on derivations: an invariant that holds before every
  test, a measure that every round decreases, and a test that ends the loop only in good states.
\<close>

lemma loop_total:
  fixes m :: "mrsh_state \<Rightarrow> nat"
  assumes "holds st"
    and test: "\<And>st. holds st \<Longrightarrow> st_exit st = - 1 \<and>
      (\<exists>ret st1. big_list S 0 c st ret c st1 \<and> 0 \<le> ret
        \<and> (break_loop type ret \<longrightarrow> good st1)
        \<and> (\<not> break_loop type ret \<longrightarrow>
             (\<exists>ret' st2. big_list S 0 b st1 ret' b st2 \<and> goes_on num ret' st2 \<and> holds st2
                \<and> m st2 < m st)))"
  shows "\<exists>ret' st'. big_loop S type num ret c b st False ret' c b st' \<and> good st'"
  using assms(1)
proof (induction "m st" arbitrary: st ret rule: less_induct)
  case less
  from test [OF less.prems] obtain ret1 st1 where t: "st_exit st = - 1" "big_list S 0 c st ret1 c st1" "0 \<le> ret1"
    and stop: "break_loop type ret1 \<longrightarrow> good st1"
    and go: "\<not> break_loop type ret1 \<longrightarrow> (\<exists>ret' st2. big_list S 0 b st1 ret' b st2 \<and> goes_on num ret' st2 \<and> holds st2
                \<and> m st2 < m st)" by blast
  show ?case
  proof (cases "break_loop type ret1")
    case True
    with t stop show ?thesis by (blast intro: Loop_end)
  next
    case False
    with go obtain ret' st2 where body: "big_list S 0 b st1 ret' b st2" "goes_on num ret' st2" "holds st2" "m st2 < m st"
      by auto
    from less.hyps [OF body(4,3)] show ?thesis
      using Loop_next [OF t False body(1,2)] by blast
  qed
qed


lemma example_false:
  "map_option (\<lambda>(ret, ls, st). (ret, ls)) (x_list (exec 5 example_sys) (seq [cmd [''false'']]) (enter_loop start_state))
     = Some (1, seq [cmd [''false'']])"
  by code_simp


section \<open>Where the control flow leaves POSIX\<close>

definition for_loop :: "string list \<Rightarrow> mrsh_command list \<Rightarrow> mrsh_command" where
  "for_loop ws body = MRSH_FOR_CLAUSE ''x'' True (map lit ws) (seq body)"


text \<open>
  A \<^verbatim>\<open>return\<close> in a function does the same: the status of the interrupted body is the status of the call,
  so the caller's list stops. After the definition of \<^verbatim>\<open>f\<close> with the body \<^verbatim>\<open>return\<close>, the list \<^verbatim>\<open>f; echo hi\<close>
  prints nothing and returns -4.
\<close>

theorem return_ends_the_caller:
  "result_of (x_list (exec 8 example_sys)
     (seq [MRSH_FUNCTION_DEFINITION ''f'' (MRSH_BRACE_GROUP (seq [cmd [''return'']])) [], cmd [''f''], cmd [''echo'', ''hi'']])
     start_state) = Some (TASK_STATUS_INTERRUPTED, [])"
  by code_simp

end
