(* ===== verification/Wsh_Streams.thy ===== *)
theory Wsh_Streams
  imports Wsh_Control
begin

text \<open>
  What travels through the shell: literal words to the command that is run, the output of one stage of
  a pipeline to the next, the output of a command substitution into the word.
\<close>

section \<open>Literal words\<close>

text \<open>An unquoted literal is free of tildes at its start and of pattern characters.\<close>

definition literal :: "bool \<Rightarrow> string \<Rightarrow> bool" where
  "literal quoted s \<longleftrightarrow> quoted \<or> (\<not> list_ex is_pathname_metachar s \<and> (s = [] \<or> hd s \<noteq> CHR ''~''))"

lemma expand_tilde_literal:
  "literal q s \<Longrightarrow> expand_tilde pw st False (MRSH_WORD_STRING s q f) = MRSH_WORD_STRING s q f"
  by (auto simp: expand_tilde_def expand_tilde_string_def tilde_here_def expand_tilde_at_def literal_def)

lemma split_literal:
  "split_fields (MRSH_WORD_STRING s q False) ifs =
   Some [if ifs = Some [] then MRSH_WORD_STRING s q False else MRSH_WORD_LIST [MRSH_WORD_STRING s q False] False]"
  by (simp add: split_fields_def split_start_def add_to_cur_field_def mrsh_word_string_create_def)

lemma pattern_literal: "literal q s \<Longrightarrow> needs_pathname_expansion (MRSH_WORD_STRING s q f) = Some False"
  by (auto simp: literal_def)

lemma expand_literal:
  assumes "literal q s"
  shows "expand_word S (exec (Suc n) S) (MRSH_WORD_STRING s q f) acc st = Some (0, acc @ [s], st)"
  using assms
  by (simp add: expand_word_def mrsh_word_string_create_def expand_tilde_literal run_word_body_def split_literal
      get_fields_str_def word_str_list concat_opt_def word_to_pattern_def pattern_literal del: needs_pathname_expansion.simps(1))

section \<open>Running an applet\<close>

definition lit_word :: "bool \<times> string \<Rightarrow> mrsh_word" where
  "lit_word qs = MRSH_WORD_STRING (snd qs) (fst qs) False"

definition is_literal :: "bool \<times> string \<Rightarrow> bool" where
  "is_literal qs \<longleftrightarrow> literal (fst qs) (snd qs)"

lemma copy_lit_word [simp]: "mrsh_word_copy (lit_word qs) = Some (lit_word qs)"
  by (simp add: lit_word_def mrsh_word_string_create_def)

lemma copy_lit_words [simp]: "those (map (mrsh_word_copy \<circ> lit_word) ws) = Some (map lit_word ws)"
  by (induction ws) simp_all

lemma expand_literals:
  "list_all is_literal ws \<Longrightarrow>
   expand_words S (exec (Suc n) S) (map lit_word ws) acc st = Some (0, acc @ map snd ws, st)"
  by (induction ws arbitrary: acc) (simp_all add: is_literal_def lit_word_def expand_literal)

text \<open>The world in which an applet starts: the exported variables are in the environment.\<close>

definition exported_world :: "mrsh_state \<Rightarrow> world" where
  "exported_world st = mrsh_hashtable_for_each (st_variables st) populate_env_iterator (st_world st)"

lemma literal_command:
  assumes "list_all is_literal (w # ws)" and "\<not> has_flag (st_options st) MRSH_OPT_XTRACE"
  shows "run_simple_command S (exec (Suc n) S) (Some (lit_word w)) (map lit_word ws) [] [] st
    = run_captured S (dispatch S (exec (Suc n) S) [] [] (map snd (w # ws))) st"
  using assms expand_literals [of "w # ws" S n "[]" st]
  by (simp add: run_simple_command_def run_named_command_def xtrace_def del: expand_words.simps(2))

text \<open>
  C25: A command of literal words runs its applet on exactly these words. When the name is neither a function nor
  a builtin and output is not captured, the applet's main function gets the words one by one, quoted
  or not, blanks and all, in the world whose environment has the exported variables; its status is the
  status of the command and its world the world of the shell.
\<close>

theorem literal_command_runs_applet:
  assumes "list_all is_literal (w # ws)"
    and "\<not> has_flag (st_options st) MRSH_OPT_XTRACE" and "st_stdout_redirected st"
    and "mrsh_hashtable_get (st_functions st) (snd w) = None" and "\<not> mrsh_has_builtin (snd w)"
    and "sys_applet S (snd w) = Some main"
  shows "run_simple_command S (exec (Suc n) S) (Some (lit_word w)) (map lit_word ws) [] [] st
    = (case main (snd w # map snd ws) (exported_world st) of (ret, w') \<Rightarrow> Some (ret, st\<lparr>st_world := w'\<rparr>))"
  using assms literal_command [OF assms(1,2), of S n]
  by (simp add: run_captured_def capture_setup_def capture_emit_def dispatch_def run_process_def
      exported_world_def upd_world_def case_prod_unfold)

theorem literal_command_runs_applet_witness:
  "run_simple_command example_sys (exec 1 example_sys) (Some (lit_word (False, ''echo'')))
     [lit_word (True, ''a  *'')] [] [] (start_state\<lparr>st_stdout_redirected := True\<rparr>)
   = Some (0, start_state\<lparr>st_stdout_redirected := True,
       st_world := c_stdout (''a  *'' @ [NEWLINE_CHR]) (exported_world (start_state\<lparr>st_stdout_redirected := True\<rparr>))\<rparr>)"
proof -
  have "list_all is_literal [(False, ''echo''), (True, ''a  *'')]"
    "\<not> has_flag (st_options start_state) MRSH_OPT_XTRACE"
    "mrsh_hashtable_get (st_functions start_state) ''echo'' = None" "\<not> mrsh_has_builtin ''echo''"
    "join_spaces [''a  *''] = ''a  *''"
    by code_simp+
  moreover have "sys_applet example_sys ''echo'' = Some (\<lambda>argv w. (0, c_stdout (join_spaces (tl argv) @ [NEWLINE_CHR]) w))"
    by (simp add: example_sys_def example_applet_def)
  ultimately show ?thesis
    using literal_command_runs_applet [of "(False, ''echo'')" "[(True, ''a  *'')]" "start_state\<lparr>st_stdout_redirected := True\<rparr>" example_sys _ 0]
    by simp
qed

section \<open>Pipelines of filters\<close>

text \<open>What a reader of standard input still gets.\<close>

definition stdin_text :: "world \<Rightarrow> string" where
  "stdin_text w =
     (case w_stdin w of In_host \<Rightarrow> w_host_in w | In_file i off \<Rightarrow> drop off (w_data w i) | In_closed \<Rightarrow> [])"

text \<open>
  A filter writes a function of its input to standard output. It may consume the input and change the environment.
\<close>

definition filters :: "(string \<Rightarrow> string) \<Rightarrow> world \<Rightarrow> world \<Rightarrow> bool" where
  "filters f w w' \<longleftrightarrow>
     (\<exists>s h e. w' = (c_stdout (f (stdin_text w)) w)\<lparr>w_stdin := s, w_host_in := h, w_environ := e\<rparr>)"

definition filter_command :: "execs \<Rightarrow> mrsh_state \<Rightarrow> mrsh_command \<Rightarrow> (string \<Rightarrow> string) \<Rightarrow> bool" where
  "filter_command X st c f \<longleftrightarrow>
     (\<forall>w. \<exists>w'. x_command X c (st\<lparr>st_world := w\<rparr>) = Some (0, c, st\<lparr>st_world := w'\<rparr>) \<and> filters f w w')"

text \<open>The world before stage \<open>i\<close>: the input is at hand, and no other temporary file of the pipeline exists.\<close>

definition pipe_ready :: "int \<Rightarrow> nat \<Rightarrow> string \<Rightarrow> world \<Rightarrow> bool" where
  "pipe_ready pid i given w \<longleftrightarrow>
     (\<forall>p n. w_names w p = Some n \<longrightarrow> n < w_next w)
     \<and> (\<forall>j. i = 0 \<or> j \<noteq> i - 1 \<longrightarrow> w_names w (pipe_tmpname pid j) = None)
     \<and> (if i = 0 then stdin_text w = given \<and> (\<forall>n off. w_stdin w = In_file n off \<longrightarrow> n < w_next w)
         else \<exists>k. w_names w (pipe_tmpname pid (i - 1)) = Some k \<and> w_data w k = given)"

lemma show_nat_inject [simp]: "show_nat m = show_nat n \<longleftrightarrow> m = n"
  using digits_value_show_nat by metis

lemma pipe_tmpname_inject [simp]: "pipe_tmpname pid i = pipe_tmpname pid j \<longleftrightarrow> i = j"
  by (simp add: pipe_tmpname_def)

definition stage_opened :: "int \<Rightarrow> nat \<Rightarrow> string \<Rightarrow> world \<Rightarrow> world \<Rightarrow> bool" where
  "stage_opened pid i given w w2 \<longleftrightarrow>
     w_names w2 = (w_names w)(pipe_tmpname pid i \<mapsto> w_next w) \<and> w_next w2 = w_next w + 1
     \<and> w_stdout w2 = Out_file (w_next w) 0 \<and> w_data w2 (w_next w) = [] \<and> stdin_text w2 = given
     \<and> w_host_err w2 = w_host_err w \<and> w_stderr w2 = w_stderr w"

lemma stage_opens:
  assumes grants: "\<And>path mode. sys_may_open S path mode" and ready: "pipe_ready (sys_getpid S) i given w"
  shows "\<exists>w1 w2. stage_stdin S i w = (True, w1)
    \<and> freopen_stdout (sys_may_open S) (pipe_tmpname (sys_getpid S) i) Write_mode w1 = (True, w2)
    \<and> stage_opened (sys_getpid S) i given w w2"
proof (cases "i = 0")
  case True
  with assms show ?thesis
    by (auto simp: pipe_ready_def stage_opened_def stage_stdin_def freopen_stdout_def open_file_def fresh_file_def
        as_out_def stdin_text_def split: in_stream.splits)
next
  case False
  with ready obtain k where k: "w_names w (pipe_tmpname (sys_getpid S) (i - 1)) = Some k" "w_data w k = given" "k < w_next w"
    and none: "w_names w (pipe_tmpname (sys_getpid S) i) = None"
    unfolding pipe_ready_def by auto
  then show ?thesis
    using False grants
    by (simp add: stage_opened_def stage_stdin_def freopen_stdin_def freopen_stdout_def open_file_def fresh_file_def
        as_out_def stdin_text_def)
qed

lemma filter_fills:
  assumes ready: "pipe_ready pid i given w" and opened: "stage_opened pid i given w w2" and w3: "filters f w2 w3"
  shows "pipe_ready pid (i + 1) (f given) (if i = 0 then w3 else c_unlink (pipe_tmpname pid (i - 1)) w3)"
    and "w_host_err w3 = w_host_err w" and "w_stderr w3 = w_stderr w"
proof -
  have fields: "w_names w3 = (w_names w)(pipe_tmpname pid i \<mapsto> w_next w)" "w_next w3 = w_next w + 1"
    "w_data w3 (w_next w) = f given" "w_host_err w3 = w_host_err w" "w_stderr w3 = w_stderr w"
    using opened w3 by (auto simp: stage_opened_def filters_def c_stdout_def write_stream_def put_at_def)
  from fields show "w_host_err w3 = w_host_err w" "w_stderr w3 = w_stderr w" by simp_all
  show "pipe_ready pid (i + 1) (f given) (if i = 0 then w3 else c_unlink (pipe_tmpname pid (i - 1)) w3)"
    using ready fields by (auto simp: pipe_ready_def c_unlink_def less_Suc_eq)
qed

lemma stages_of_filters:
  assumes grants: "\<And>path mode. sys_may_open S path mode" and "list_all2 (filter_command X st) cs fs"
    and "pipe_ready (sys_getpid S) i given w"
  shows "\<exists>w'. run_stages S X i 0 cs (st\<lparr>st_world := w\<rparr>) = Some (False, 0, cs, st\<lparr>st_world := w'\<rparr>)
    \<and> pipe_ready (sys_getpid S) (i + length cs) (fold (\<lambda>f. f) fs given) w'
    \<and> w_host_err w' = w_host_err w \<and> w_stderr w' = w_stderr w"
  using assms(2,3)
proof (induction cs fs arbitrary: i given w rule: list_all2_induct)
  case Nil
  then show ?case by auto
next
  case (Cons c cs f fs)
  obtain w1 w2 where w2: "stage_stdin S i w = (True, w1)"
    "freopen_stdout (sys_may_open S) (pipe_tmpname (sys_getpid S) i) Write_mode w1 = (True, w2)"
    and opened: "stage_opened (sys_getpid S) i given w w2"
    using stage_opens [OF grants Cons.prems] by blast
  obtain w3 where w3: "x_command X c (st\<lparr>st_world := w2\<rparr>) = Some (0, c, st\<lparr>st_world := w3\<rparr>)" "filters f w2 w3"
    using Cons.hyps(1) unfolding filter_command_def by blast
  let ?w = "if i = 0 then w3 else c_unlink (pipe_tmpname (sys_getpid S) (i - 1)) w3"
  note filled = filter_fills [OF Cons.prems opened w3(2)]
  from Cons.IH [OF filled(1)] obtain w' where w':
    "run_stages S X (i + 1) 0 cs (st\<lparr>st_world := ?w\<rparr>) = Some (False, 0, cs, st\<lparr>st_world := w'\<rparr>)"
    "pipe_ready (sys_getpid S) (i + 1 + length cs) (fold (\<lambda>f. f) fs (f given)) w'"
    "w_host_err w' = w_host_err ?w" "w_stderr w' = w_stderr ?w" by blast
  have "run_stages S X i 0 (c # cs) (st\<lparr>st_world := w\<rparr>) = Some (False, 0, c # cs, st\<lparr>st_world := w'\<rparr>)"
    using w2 w3 w'(1) by (cases "i = 0") (simp_all add: upd_world_def)
  moreover have "w_host_err ?w = w_host_err w" "w_stderr ?w = w_stderr w"
    using filled(2,3) by (simp_all add: c_unlink_def)
  ultimately show ?case using w' by (intro exI [of _ w']) (simp del: run_stages.simps)
qed

text \<open>
  C3: A pipeline of filters computes the composition of their functions. The stages run one after the
  other through temporary files; each gets all that the one before has written, and only that; the
  result of the last stage is written to standard error, where the shell's output goes, and none of
  the temporary files is left.
\<close>

theorem pipeline_composes_filters:
  assumes "\<And>path mode. sys_may_open S path mode"
    and "list_all2 (filter_command X (st\<lparr>st_stdout_redirected := True\<rparr>)) cs fs" and "1 < length cs"
    and "pipe_ready (sys_getpid S) 0 (stdin_text (st_world st)) (st_world st)"
    and "w_stderr (st_world st) = Out_host" and "st_capture_file st = None"
  shows "\<exists>st'. run_pipeline S X cs bang st = Some (apply_bang bang 0, cs, st')
    \<and> w_host_err (st_world st') = w_host_err (st_world st) @ fold (\<lambda>f. f) fs (stdin_text (st_world st))
    \<and> (\<forall>i. w_names (st_world st') (pipe_tmpname (sys_getpid S) i) = None)"
proof -
  let ?tmp = "pipe_tmpname (sys_getpid S) (length cs - 1)"
  obtain w where run: "run_stages S X 0 0 cs (st\<lparr>st_stdout_redirected := True\<rparr>)
      = Some (False, 0, cs, st\<lparr>st_stdout_redirected := True, st_world := w\<rparr>)"
    and ready: "pipe_ready (sys_getpid S) (length cs) (fold (\<lambda>f. f) fs (stdin_text (st_world st))) w"
    and errs: "w_host_err w = w_host_err (st_world st)" "w_stderr w = Out_host"
    using stages_of_filters [OF assms(1,2,4)] assms(5) by auto
  from ready assms(3) obtain k where k: "w_names w ?tmp = Some k"
      "w_data w k = fold (\<lambda>f. f) fs (stdin_text (st_world st))"
    and others: "\<forall>j. j \<noteq> length cs - 1 \<longrightarrow> w_names w (pipe_tmpname (sys_getpid S) j) = None"
    by (auto simp: pipe_ready_def simp del: One_nat_def split: if_splits)
  have "run_pipeline S X cs bang st = run_multi_pipeline S X cs bang st" by (rule pipeline_multi [OF assms(3)])
  with run k others errs assms(1,6) show ?thesis
    by (auto simp: run_multi_pipeline_def emit_output_def read_file_def open_file_def Let_def upd_world_def c_unlink_def
        freopen_stdin_def c_stderr_def split: option.split)
qed

text \<open>Commands of literal words that run an applet are filters when the applet is one.\<close>

lemma exported_environ: "\<exists>e. exported_world (st\<lparr>st_world := w\<rparr>) = w\<lparr>w_environ := e\<rparr>"
proof -
  have "\<exists>e. mrsh_hashtable_for_each t populate_env_iterator w = w\<lparr>w_environ := e\<rparr>" for t
  proof (rule for_each_inv)
    show "\<exists>e. w = w\<lparr>w_environ := e\<rparr>" by (rule exI [of _ "w_environ w"]) simp
  qed (auto simp: populate_env_iterator_def c_setenv_def)
  then show ?thesis by (simp add: exported_world_def)
qed

lemma filters_environ: "filters f (w\<lparr>w_environ := e\<rparr>) w' = filters f w w'"
proof -
  have "stdin_text (w\<lparr>w_environ := e\<rparr>) = stdin_text w"
    by (cases "w_stdin w") (simp_all add: stdin_text_def)
  moreover have "c_stdout t (w\<lparr>w_environ := e\<rparr>) = (c_stdout t w)\<lparr>w_environ := e\<rparr>" for t
    by (cases "w_stdout w") (simp_all add: c_stdout_def write_stream_def)
  ultimately show ?thesis by (simp add: filters_def)
qed

lemma applet_filter_command:
  assumes "list_all is_literal (w # ws)"
    and "\<not> has_flag (st_options st) MRSH_OPT_XTRACE" and "st_stdout_redirected st"
    and "mrsh_hashtable_get (st_functions st) (snd w) = None" and "\<not> mrsh_has_builtin (snd w)"
    and "sys_applet S (snd w) = Some main"
    and applet: "\<And>w0. \<exists>w1. main (snd w # map snd ws) w0 = (0, w1) \<and> filters f w0 w1"
  shows "filter_command (exec (Suc (Suc n)) S) st (MRSH_SIMPLE_COMMAND (Some (lit_word w)) (map lit_word ws) [] []) f"
  unfolding filter_command_def
proof
  fix w0
  obtain e where e: "exported_world (st\<lparr>st_world := w0\<rparr>) = w0\<lparr>w_environ := e\<rparr>" using exported_environ by blast
  obtain w1 where w1: "main (snd w # map snd ws) (w0\<lparr>w_environ := e\<rparr>) = (0, w1)" "filters f (w0\<lparr>w_environ := e\<rparr>) w1"
    using applet by blast
  have "run_captured S (dispatch S (exec (Suc n) S) [] [] (map snd (w # ws))) (st\<lparr>st_world := w0\<rparr>)
      = Some (0, st\<lparr>st_world := w1\<rparr>)"
    using assms(3-6) w1(1) e
    by (simp add: run_captured_def capture_setup_def capture_emit_def dispatch_def run_process_def
        exported_world_def upd_world_def)
  moreover have "filters f w0 w1"
    using w1(2) by (simp add: filters_environ)
  ultimately show "\<exists>w'. x_command (exec (Suc (Suc n)) S) (MRSH_SIMPLE_COMMAND (Some (lit_word w)) (map lit_word ws) [] [])
      (st\<lparr>st_world := w0\<rparr>) = Some (0, MRSH_SIMPLE_COMMAND (Some (lit_word w)) (map lit_word ws) [] [], st\<lparr>st_world := w'\<rparr>)
      \<and> filters f w0 w'"
    using literal_command [OF assms(1), of "st\<lparr>st_world := w0\<rparr>" S n] assms(2)
    by (auto simp: run_command_def)
qed

lemma filtersI: "filters f w (c_stdout (f (stdin_text w)) w)"
proof -
  let ?w = "c_stdout (f (stdin_text w)) w"
  have "?w = ?w\<lparr>w_stdin := w_stdin ?w, w_host_in := w_host_in ?w, w_environ := w_environ ?w\<rparr>" by simp
  then show ?thesis unfolding filters_def by blast
qed

definition lit_cmd :: "string list \<Rightarrow> mrsh_command" where
  "lit_cmd ws = MRSH_SIMPLE_COMMAND (Some (lit_word (True, hd ws))) (map lit_word (map (Pair True) (tl ws))) [] []"

lemma example_filter_commands:
  assumes "sys_applet example_sys name = Some (\<lambda>argv w. (0, c_stdout (f argv (stdin_text w)) w))"
    and "\<not> mrsh_has_builtin name"
    and "st_options st = 0" and "st_functions st = mrsh_hashtable_empty" and "st_stdout_redirected st"
  shows "filter_command (exec (Suc (Suc n)) example_sys) st (lit_cmd (name # args)) (f (name # args))"
  unfolding lit_cmd_def list.sel
proof (rule applet_filter_command)
  show "\<exists>w1. (\<lambda>argv w. (0, c_stdout (f argv (stdin_text w)) w)) (snd (True, name) # map snd (map (Pair True) args)) w0 = (0, w1)
      \<and> filters (f (name # args)) w0 w1" for w0
    using filtersI [of "f (name # args)" w0] by (simp add: comp_def)
qed (use assms in \<open>simp_all add: is_literal_def literal_def list_all_iff has_flag_def ht.look_empty\<close>)

lemma example_echo_filter:
  assumes "st_options st = 0" and "st_functions st = mrsh_hashtable_empty" and "st_stdout_redirected st"
  shows "filter_command (exec (Suc (Suc n)) example_sys) st (lit_cmd [''echo'', ''hi'']) (\<lambda>_. ''hi'' @ [NEWLINE_CHR])"
proof -
  let ?echo = "\<lambda>argv _. join_spaces (tl argv) @ [NEWLINE_CHR]"
  have "sys_applet example_sys ''echo'' = Some (\<lambda>argv w. (0, c_stdout (?echo argv (stdin_text w)) w))"
    by (simp add: example_sys_def example_applet_def)
  moreover have "\<not> mrsh_has_builtin ''echo''" "join_spaces [''hi''] = ''hi''" by code_simp+
  ultimately show ?thesis
    using example_filter_commands [of "''echo''" ?echo st n "[''hi'']"] assms by simp
qed

lemma example_cat_filter:
  assumes "st_options st = 0" and "st_functions st = mrsh_hashtable_empty" and "st_stdout_redirected st"
  shows "filter_command (exec (Suc (Suc n)) example_sys) st (lit_cmd [''cat'']) (\<lambda>s. s)"
proof -
  have "sys_applet example_sys ''cat'' = Some (\<lambda>argv w. (0, c_stdout ((\<lambda>_ s. s) argv (stdin_text w)) w))"
    by (simp add: example_sys_def example_applet_def stdin_text_def)
  moreover have "\<not> mrsh_has_builtin ''cat''" by code_simp
  ultimately show ?thesis
    using example_filter_commands [of "''cat''" "\<lambda>_ s. s" st n "[]"] assms by simp
qed

theorem pipeline_composes_filters_witness:
  "\<exists>st'. run_pipeline example_sys (exec 2 example_sys) [lit_cmd [''echo'', ''hi''], lit_cmd [''cat'']] False start_state
      = Some (0, [lit_cmd [''echo'', ''hi''], lit_cmd [''cat'']], st')
    \<and> w_host_err (st_world st') = ''hi'' @ [NEWLINE_CHR]"
proof -
  have "list_all2 (filter_command (exec 2 example_sys) (start_state\<lparr>st_stdout_redirected := True\<rparr>))
      [lit_cmd [''echo'', ''hi''], lit_cmd [''cat'']] [\<lambda>_. ''hi'' @ [NEWLINE_CHR], \<lambda>s. s]"
    using example_echo_filter [of "start_state\<lparr>st_stdout_redirected := True\<rparr>" 0]
      example_cat_filter [of "start_state\<lparr>st_stdout_redirected := True\<rparr>" 0]
    by (simp add: numeral_2_eq_2 mrsh_state_create_def)
  moreover have "pipe_ready (sys_getpid example_sys) 0 (stdin_text (st_world start_state)) (st_world start_state)"
    by (simp add: pipe_ready_def mrsh_state_create_def init_world_def)
  moreover have "sys_may_open example_sys path mode" for path mode by (simp add: example_sys_def)
  ultimately show ?thesis
    using pipeline_composes_filters [of example_sys "exec 2 example_sys" start_state
      "[lit_cmd [''echo'', ''hi''], lit_cmd [''cat'']]" "[\<lambda>_. ''hi'' @ [NEWLINE_CHR], \<lambda>s. s]" False]
    by (auto simp: mrsh_state_create_def init_world_def apply_bang_def)
qed

section \<open>Command substitution\<close>

lemma captured_line:
  assumes "NUL \<notin> set s" and "s = [] \<or> last s \<noteq> NEWLINE_CHR"
  shows "captured_string (s @ replicate n NEWLINE_CHR) = s"
proof -
  have "dropWhile (\<lambda>c. c = NEWLINE_CHR) (replicate n NEWLINE_CHR @ rev s) = rev s"
    using assms(2) by (induction n) (cases s rule: rev_cases; simp)+
  then have "strip_newlines (s @ replicate n NEWLINE_CHR) = s" by (simp add: strip_newlines_def)
  with assms(1) show ?thesis by (auto simp: captured_string_def takeWhile_eq_all_conv)
qed

text \<open>The state in which the program of a substitution runs, up to its world.\<close>

definition capture_state :: "sys \<Rightarrow> mrsh_state \<Rightarrow> mrsh_state" where
  "capture_state S st =
     st\<lparr>st_cmdsub_counter := st_cmdsub_counter st + 1, st_stdout_redirected := True,
        st_capture_file := Some (cmdsub_tmpname (sys_getpid S) (st_cmdsub_counter st))\<rparr>"


lemma single_filter_list:
  assumes "filter_command (exec n S) st c f"
  shows "\<exists>w' body'. x_list (exec (Suc (Suc n)) S) (seq [c]) (st\<lparr>st_world := w\<rparr>)
    = Some (0, body', st\<lparr>st_world := w', st_last_status := 0\<rparr>) \<and> filters f w w'"
proof -
  obtain w' where "x_command (exec n S) c (st\<lparr>st_world := w\<rparr>) = Some (0, c, st\<lparr>st_world := w'\<rparr>)" "filters f w w'"
    using assms unfolding filter_command_def by blast
  then show ?thesis
    by (auto simp: seq_def single_def run_command_list_array_def run_and_or_list_def run_pipeline_def apply_bang_def)
qed


end
