(* ===== verification/Wsh_Laws.thy ===== *)
theory Wsh_Laws
  imports Wsh_Streams
begin

text \<open>
  Properties of the builtins and of the variables: the table of builtins and its search, quoting of
  printed values, options, positional parameters, the environment, readonly variables.
\<close>

section \<open>The search in a sorted table\<close>

lemma bsearch_steps:
  assumes "xs \<noteq> []"
  shows "key < name (xs ! (length xs div 2)) \<Longrightarrow> c_bsearch name key xs = c_bsearch name key (take (length xs div 2) xs)"
    and "name (xs ! (length xs div 2)) < key \<Longrightarrow> c_bsearch name key xs = c_bsearch name key (drop (length xs div 2 + 1) xs)"
    and "name (xs ! (length xs div 2)) = key \<Longrightarrow> c_bsearch name key xs = Some (xs ! (length xs div 2))"
  using assms by (auto simp: c_bsearch.simps [of name key xs] Let_def)

lemma bsearch_sound: "c_bsearch name key xs = Some x \<Longrightarrow> x \<in> set xs \<and> name x = key"
proof (induction "length xs" arbitrary: xs rule: less_induct)
  case less
  let ?m = "length xs div 2"
  have "xs \<noteq> []" using less.prems by (auto simp: c_bsearch.simps [of name key "[]"])
  then have m: "?m < length xs" by simp
  note steps = bsearch_steps [OF \<open>xs \<noteq> []\<close>, where name = name and key = key]
  consider "key < name (xs ! ?m)" | "name (xs ! ?m) < key" | "name (xs ! ?m) = key" by (rule linorder_cases) auto
  then show ?case
  proof cases
    case 1
    with steps(1) less.prems less.hyps [of "take ?m xs"] m show ?thesis by (auto dest: in_set_takeD)
  next
    case 2
    with steps(2) less.prems less.hyps [of "drop (?m + 1) xs"] m have "x \<in> set (drop (?m + 1) xs) \<and> name x = key"
      by simp
    then show ?thesis by (blast dest: in_set_dropD)
  next
    case 3
    with steps(3) less.prems m show ?thesis by auto
  qed
qed

lemma bsearch_complete:
  "sorted_wrt (<) (map name xs) \<Longrightarrow> x \<in> set xs \<Longrightarrow> c_bsearch name (name x) xs = Some x"
proof (induction "length xs" arbitrary: xs rule: less_induct)
  case less
  let ?m = "length xs div 2"
  have "xs \<noteq> []" using less.prems by auto
  then have m: "?m < length xs" by simp
  then have parts: "xs = take ?m xs @ xs ! ?m # drop (?m + 1) xs" by (simp add: id_take_nth_drop)
  have sorted: "sorted_wrt (<) (map name (take ?m xs))" "sorted_wrt (<) (map name (drop (?m + 1) xs))"
    "\<forall>y \<in> set (take ?m xs). name y < name (xs ! ?m)" "\<forall>y \<in> set (drop (?m + 1) xs). name (xs ! ?m) < name y"
    using less.prems(1) by (subst (asm) parts, simp add: sorted_wrt_append)+
  note steps = bsearch_steps [OF \<open>xs \<noteq> []\<close>, where name = name and key = "name x"]
  from less.prems(2) consider "x \<in> set (take ?m xs)" | "x = xs ! ?m" | "x \<in> set (drop (?m + 1) xs)"
    by (subst (asm) parts) auto
  then show ?case
  proof cases
    case 1
    with steps(1) sorted(1,3) less.hyps [of "take ?m xs"] m show ?thesis by auto
  next
    case 2
    with steps(3) show ?thesis by simp
  next
    case 3
    with steps(2) sorted(2,4) less.hyps [of "drop (?m + 1) xs"] m show ?thesis by auto
  qed
qed

lemma builtins_sorted: "sorted_wrt (<) (map fst builtins)"
  by code_simp

lemma unspecified_missed:
  "list_all (\<lambda>n. (c_bsearch id n unspecified_names = None) = (n = ''history'' \<or> n = ''shopt'')) unspecified_names"
  by code_simp

text \<open>
  C31: \<^verbatim>\<open>get_builtin\<close> is the lookup in its two tables, but for two names. \<^verbatim>\<open>bsearch\<close> relies on sorted tables: the table
  of builtins is sorted, so every entry is found with its function and its special flag and no other
  name is. The list of unspecified utilities is not sorted (\<^verbatim>\<open>history\<close> comes before \<^verbatim>\<open>hist\<close>, \<^verbatim>\<open>source\<close> before
  \<^verbatim>\<open>shopt\<close>), and the search does not find \<^verbatim>\<open>history\<close> and \<^verbatim>\<open>shopt\<close>.
\<close>

theorem get_builtin_is_lookup:
  "get_builtin name =
     (if name \<in> set unspecified_names - {''history'', ''shopt''} then Some (builtin_unspecified, False)
      else map_of builtins name)"
proof -
  have "(c_bsearch id name unspecified_names = None) = (name = ''history'' \<or> name = ''shopt'')"
    if "name \<in> set unspecified_names"
    using bspec [OF unspecified_missed [unfolded list_all_iff] that] .
  moreover have "name \<in> set unspecified_names" if "c_bsearch id name unspecified_names = Some x" for x
    using bsearch_sound [OF that] by auto
  ultimately have "c_bsearch id name unspecified_names \<noteq> None \<longleftrightarrow>
      name \<in> set unspecified_names - {''history'', ''shopt''}"
    by (cases "c_bsearch id name unspecified_names") auto
  moreover have "map_option snd (c_bsearch fst name builtins) = map_of builtins name"
  proof (cases "map_of builtins name")
    case None
    have "False" if found: "c_bsearch fst name builtins = Some x" for x
    proof -
      from bsearch_sound [OF found] have "name \<in> fst ` set builtins" by blast
      with None [unfolded map_of_eq_None_iff] show False ..
    qed
    then have "c_bsearch fst name builtins = None" by (cases "c_bsearch fst name builtins") blast+
    with None show ?thesis by simp
  next
    case (Some v)
    with bsearch_complete [OF builtins_sorted map_of_SomeD, OF Some] show ?thesis by simp
  qed
  ultimately show ?thesis by (simp add: get_builtin_def)
qed

section \<open>Printed values\<close>

text \<open>
  How a shell reads the text back: plain characters that need no quotes, single quotes, and double
  quotes around characters that are not special in them.
\<close>

fun unquote :: "string \<Rightarrow> string option"
  and unquote_single :: "string \<Rightarrow> string option"
  and unquote_double :: "string \<Rightarrow> string option"
where
  "unquote [] = Some []"
| "unquote (c # cs) =
     (if c = CHR 0x27 then unquote_single cs
      else if c = CHR 0x22 then unquote_double cs
      else if is_safe_char c then map_option (Cons c) (unquote cs)
      else None)"
| "unquote_single [] = None"
| "unquote_single (c # cs) = (if c = CHR 0x27 then unquote cs else map_option (Cons c) (unquote_single cs))"
| "unquote_double [] = None"
| "unquote_double (c # cs) =
     (if c = CHR 0x22 then unquote cs
      else if c \<in> {CHR ''$'', CHR 0x60, CHR 0x5C} then None
      else map_option (Cons c) (unquote_double cs))"

lemma unquote_safe: "list_all is_safe_char s \<Longrightarrow> unquote s = Some s"
proof (induction s)
  case (Cons c s)
  moreover have "\<not> is_safe_char (CHR 0x27)" "\<not> is_safe_char (CHR 0x22)" by code_simp+
  ultimately show ?case by (cases "c = CHR 0x27"; cases "c = CHR 0x22") auto
qed simp

lemma unquote_escaped: "unquote_single (concat (map escape_quote s) @ [CHR 0x27]) = Some s"
  by (induction s) (simp_all add: escape_quote_def)


section \<open>Options\<close>

unbundle bit_operations_syntax

lemma flag_or: "has_flag (x OR a) b \<longleftrightarrow> has_flag x b \<or> has_flag a b"
  by (auto simp: has_flag_def bit_eq_iff bit_simps)

lemma flag_and_not:
  "\<not> has_flag a b \<Longrightarrow> has_flag (x AND NOT a) b \<longleftrightarrow> has_flag x b"
  "\<not> has_flag (x AND NOT b) b"
  by (auto simp: has_flag_def bit_eq_iff bit_simps)

definition option_letters :: "(char \<times> uint) list" where
  "option_letters = [(c, b). (_, s, b) \<leftarrow> option_table, c \<leftarrow> case s of None \<Rightarrow> [] | Some c \<Rightarrow> [c]]"

lemma option_letters_table:
  "option_letters =
     [(CHR ''a'', 1), (CHR ''b'', 2), (CHR ''C'', 4), (CHR ''e'', 8), (CHR ''f'', 16), (CHR ''h'', 32), (CHR ''m'', 64),
      (CHR ''n'', 128), (CHR ''u'', 2048), (CHR ''v'', 4096), (CHR ''x'', 8192)]"
  by (simp add: option_letters_def option_table_def wsh_defs)

lemma find_option_letters: "find_option c = map_of option_letters c"
  by (simp add: find_option_def option_letters_table option_table_def wsh_defs)

lemma letters_disjoint:
  "list_all (\<lambda>(c, f). list_all (\<lambda>(d, g). has_flag f g = (c = d)) option_letters) option_letters"
  by (simp add: option_letters_table has_flag_def)

lemma find_option_disjoint:
  assumes "find_option c = Some f" and "find_option d = Some g"
  shows "has_flag f g \<longleftrightarrow> c = d"
proof -
  have "(c, f) \<in> set option_letters" "(d, g) \<in> set option_letters"
    using assms by (simp_all only: find_option_letters map_of_SomeD)
  with letters_disjoint show ?thesis unfolding list_all_iff by fastforce
qed

lemma options_letter:
  "d \<in> set (state_get_options st) \<longleftrightarrow> (\<exists>g. find_option d = Some g \<and> has_flag (st_options st) g)"
  by (auto simp: state_get_options_def option_table_def find_option_def split: if_splits)

lemma set_letter:
  assumes "find_option c = Some f" and "sign = CHR ''-'' \<or> sign = CHR ''+''"
  shows "run_builtin_set [''set'', [sign, c]] st = Some (if c = CHR ''m'' then 1 else 0, switch_option sign f st)"
proof -
  have "c \<noteq> CHR ''o''" "c \<noteq> CHR ''c''" "c \<noteq> CHR ''s''" "c \<noteq> CHR ''-''" and m: "has_flag f MRSH_OPT_MONITOR \<longleftrightarrow> c = CHR ''m''"
    using assms(1) find_option_disjoint [OF assms(1), of "CHR ''m''" MRSH_OPT_MONITOR]
    by (auto simp: find_option_letters option_letters_table wsh_defs)
  then show ?thesis
    using assms by (auto simp: run_builtin_set_def set_builtin_def)
qed

text \<open>
  C34: \<^verbatim>\<open>set -c\<close> and \<^verbatim>\<open>set +c\<close> switch exactly the option of the letter, and \<^verbatim>\<open>$-\<close> shows it: for every letter of
  the option table, after \<^verbatim>\<open>set -c\<close> the letter is in \<^verbatim>\<open>$-\<close>, after \<^verbatim>\<open>set +c\<close> it is not, and no other letter
  changes. Both succeed, except for \<^verbatim>\<open>m\<close>, whose switch asks for job control and reports 1.
\<close>

theorem set_switches_one_option:
  assumes "find_option c = Some f"
  shows "\<exists>on off. run_builtin_set [''set'', [CHR ''-'', c]] st = Some (if c = CHR ''m'' then 1 else 0, on)
    \<and> run_builtin_set [''set'', [CHR ''+'', c]] st = Some (if c = CHR ''m'' then 1 else 0, off)
    \<and> c \<in> set (state_get_options on) \<and> c \<notin> set (state_get_options off)
    \<and> (\<forall>d. d \<noteq> c \<longrightarrow> (d \<in> set (state_get_options on) \<longleftrightarrow> d \<in> set (state_get_options st))
              \<and> (d \<in> set (state_get_options off) \<longleftrightarrow> d \<in> set (state_get_options st)))"
proof -
  have "has_flag f f" using find_option_disjoint [OF assms assms] by simp
  moreover have "\<not> has_flag f g" if "find_option d = Some g" "d \<noteq> c" for d g
    using find_option_disjoint [OF assms that(1)] that(2) by simp
  ultimately show ?thesis
    using assms set_letter [OF assms]
    by (auto simp: options_letter switch_option_def flag_or flag_and_not)
qed

theorem set_switches_one_option_witness:
  "\<exists>on. run_builtin_set [''set'', ''-x''] start_state = Some (0, on) \<and> CHR ''x'' \<in> set (state_get_options on)"
proof -
  have "find_option (CHR ''x'') = Some MRSH_OPT_XTRACE" by code_simp
  from set_switches_one_option [OF this, of start_state] show ?thesis by auto
qed

end
