(* ===== verification/Wsh_Vars.thy ===== *)
theory Wsh_Vars
  imports Wsh_Laws
begin

text \<open>
  Properties of variables, of the environment and of positional parameters.
\<close>

section \<open>Assignments\<close>

lemma env_attribs_set:
  "state_inv st \<Longrightarrow> env_attribs (mrsh_env_set st k v a) k' old = (if k' = k then a else env_attribs st k' old)"
  by (simp add: env_attribs_def mrsh_env_set_def upd_world_def state_inv_def ht.look_upd)

lemma readonly_env_set:
  "state_inv st \<Longrightarrow> k' \<noteq> k \<Longrightarrow> is_readonly (mrsh_env_set st k' v a) k = is_readonly st k"
  by (simp add: is_readonly_def env_get_set env_attribs_set)

lemma is_readonly_upd_world [simp]: "is_readonly (upd_world f st) k = is_readonly st k"
  by (simp add: is_readonly_def env_attribs_def)

lemma assignments_readonly:
  "state_inv st \<Longrightarrow> is_readonly st k \<Longrightarrow> run_assignments as st = Some (ret, st') \<Longrightarrow>
   mrsh_env_get st' k = mrsh_env_get st k \<and> is_readonly st' k"
proof (induction as arbitrary: st)
  case (Cons a as)
  obtain name v where a: "a = Assignment name v" by (cases a)
  show ?case
  proof (cases "is_readonly st name")
    case True
    with Cons.prems a show ?thesis by (auto simp: bind_Some_iff)
  next
    case False
    with Cons.prems(2) have "name \<noteq> k" by auto
    with False Cons.prems a Cons.IH [of "mrsh_env_set st name _ _"] show ?thesis
      by (auto simp: bind_Some_iff env_get_set readonly_env_set)
  qed
qed auto

lemma assignments_values:
  "state_inv st \<Longrightarrow> run_assignments as st = Some (0, st') \<Longrightarrow>
   \<exists>kvs. list_all2 (\<lambda>a (k, s). \<exists>v. a = Assignment k v \<and> mrsh_word_str v = Some s) as kvs
     \<and> mrsh_env_get st' = mrsh_env_get st ++ map_of (rev kvs)"
proof (induction as arbitrary: st)
  case (Cons a as)
  obtain name v where a: "a = Assignment name v" by (cases a)
  let ?attr = "if has_flag (st_options st) MRSH_OPT_ALLEXPORT then MRSH_VAR_ATTRIB_EXPORT else MRSH_VAR_ATTRIB_NONE"
  from Cons.prems a obtain s where s: "mrsh_word_str v = Some s"
    and run: "run_assignments as (mrsh_env_set st name s ?attr) = Some (0, st')"
    by (auto simp: bind_Some_iff wsh_defs split: if_splits)
  from Cons.IH [OF _ run] Cons.prems(1) obtain kvs where kvs:
      "list_all2 (\<lambda>a (k, s). \<exists>v. a = Assignment k v \<and> mrsh_word_str v = Some s) as kvs"
      "mrsh_env_get st' = mrsh_env_get (mrsh_env_set st name s ?attr) ++ map_of (rev kvs)" by auto
  from kvs(2) Cons.prems(1) have "mrsh_env_get st' = mrsh_env_get st ++ map_of (rev ((name, s) # kvs))"
    by (simp add: env_get_set map_add_def fun_eq_iff split: option.split)
  with kvs(1) a s show ?case by (intro exI [of _ "(name, s) # kvs"]) simp
qed auto

text \<open>
  C24: Assignments set their variables and never a readonly one. A command of assignments that succeeds
  leaves every variable with the value of its last assignment, or its old value when it has none;
  whether it succeeds or not, a readonly variable keeps its value and stays readonly.
\<close>

theorem assignments_respect_readonly:
  assumes "state_inv st" and "run_assignments as st = Some (ret, st')"
  shows "(ret = 0 \<longrightarrow> (\<exists>kvs. list_all2 (\<lambda>a (k, s). \<exists>v. a = Assignment k v \<and> mrsh_word_str v = Some s) as kvs
             \<and> mrsh_env_get st' = mrsh_env_get st ++ map_of (rev kvs)))
    \<and> (\<forall>k. is_readonly st k \<longrightarrow> mrsh_env_get st' k = mrsh_env_get st k \<and> is_readonly st' k)"
  using assignments_values [OF assms(1)] assignments_readonly [OF assms(1) _ assms(2)] assms(2) by blast

theorem assignments_respect_readonly_witness:
  "mrsh_env_get (snd (the (run_assignments [Assignment ''x'' (lit ''2'')]
     (mrsh_env_set start_state ''x'' ''1'' MRSH_VAR_ATTRIB_READONLY)))) ''x'' = Some ''1''"
proof -
  let ?st = "mrsh_env_set start_state ''x'' ''1'' MRSH_VAR_ATTRIB_READONLY"
  have inv: "state_inv ?st" by simp
  have ro: "is_readonly ?st ''x''"
    by (simp add: is_readonly_def env_get_set env_attribs_set has_flag_def MRSH_VAR_ATTRIB_READONLY_def)
  then obtain ret st' where run: "run_assignments [Assignment ''x'' (lit ''2'')] ?st = Some (ret, st')"
    by (simp add: lit_def)
  from assignments_respect_readonly [OF inv run] ro run show ?thesis by (simp add: env_get_set)
qed

section \<open>Numbers in variables\<close>

text \<open>
  C33: A number assigned to a variable is the number that arithmetic reads: for every value of a C \<^verbatim>\<open>long\<close>, the
  assignment \<^verbatim>\<open>x = n\<close> of an arithmetic expansion returns the value and stores its decimal digits, and the evaluation
  of \<^verbatim>\<open>x\<close> afterwards gives the value again.
\<close>

theorem arithmetic_variable_roundtrip:
  assumes "state_inv st" and "in_long n"
  shows "\<exists>st'. mrsh_run_arithm_expr (MRSH_ARITHM_ASSIGN MRSH_ARITHM_ASSIGN_NONE x (MRSH_ARITHM_LITERAL n)) st
      = Some (Returns (Some n), st')
    \<and> mrsh_env_get st' x = Some (show_int n)
    \<and> mrsh_run_arithm_expr (MRSH_ARITHM_VARIABLE x) st' = Some (Returns (Some n), st')"
proof -
  have "[] \<noteq> show_int n" by (metis list.discI show_int_def show_nat_nonempty)
  with assms show ?thesis
    by (simp add: with_operand_def run_arithm_assign_def run_arithm_assign_op_def run_variable_def env_get_set
        strtod_show_int to_long_def)
qed

theorem arithmetic_variable_roundtrip_witness:
  "\<exists>st'. mrsh_run_arithm_expr (MRSH_ARITHM_ASSIGN MRSH_ARITHM_ASSIGN_NONE ''x'' (MRSH_ARITHM_LITERAL (- 7))) start_state
      = Some (Returns (Some (- 7)), st')
    \<and> mrsh_run_arithm_expr (MRSH_ARITHM_VARIABLE ''x'') st' = Some (Returns (Some (- 7)), st')"
  using arithmetic_variable_roundtrip [of start_state "- 7" "''x''"] by (auto simp: in_long_def INT_MIN_def INT_MAX_def)

section \<open>The environment\<close>

lemma env_get_populate:
  assumes "state_inv st" and "\<forall>(k, v) \<in> set kvs. CHR ''='' \<notin> set k"
  shows "\<exists>st1. populate_from (map (\<lambda>(k, v). k @ ''='' @ v) kvs) st = Some st1 \<and> state_inv st1
    \<and> mrsh_env_get st1 = mrsh_env_get st ++ map_of (rev kvs)"
proof -
  have "map (\<lambda>e. (takeWhile (\<lambda>c. c \<noteq> CHR ''='') e, tl (dropWhile (\<lambda>c. c \<noteq> CHR ''='') e))) (map (\<lambda>(k, v). k @ ''='' @ v) kvs) = kvs"
    using assms(2)
  proof (induction kvs)
    case (Cons kv kvs)
    then show ?case by (cases kv) (auto simp: takeWhile_append dropWhile_append)
  qed simp
  then show ?thesis
    using env.put_all_spec [OF assms(1), of kvs MRSH_VAR_ATTRIB_EXPORT]
    by (auto simp: populate_from_put_all)
qed



section \<open>Positional parameters\<close>

lemma those_map_Some [simp]: "those (map Some xs) = Some xs"
  by (induction xs) simp_all

text \<open>A frame with the arguments \<open>as\<close>, as a function call or \<^verbatim>\<open>set --\<close> leaves it.\<close>

lemma shift_one_loop:
  "length pre = i \<Longrightarrow> i + 1 + length xs = argc \<Longrightarrow>
   shift_loop i (i + 1) argc 1 (pre @ x # xs) = Some (pre @ (case xs of [] \<Rightarrow> [x] | _ \<Rightarrow> xs @ [last xs]))"
proof (induction xs arbitrary: i pre x)
  case Nil
  then show ?case by (subst shift_loop.simps) simp
next
  case (Cons y ys)
  have "shift_loop i (i + 1) argc 1 (pre @ x # y # ys) = shift_loop (i + 1) (i + 1 + 1) argc 1 ((pre @ [y]) @ y # ys)"
    using Cons.prems by (subst shift_loop.simps) (auto simp: nth_append list_update_append)
  with Cons.IH [of "pre @ [y]" "i + 1" y] Cons.prems show ?case by (cases ys) simp_all
qed

text \<open>
  \<^verbatim>\<open>shift\<close> drops the first positional parameter: in a frame with the name \<open>f\<close> and the parameters \<open>a # as\<close>, it
  succeeds, \<^verbatim>\<open>$#\<close> is one less, and the parameters are \<open>as\<close>.
\<close>

theorem shift_drops_first:
  assumes "state_inv st" and "fr_argv (cur_frame st) = dup_args (f # a # as)"
    and "fr_argc (cur_frame st) = int (length as) + 2"
  shows "\<exists>st'. run_builtin_shift [''shift''] st = Some (0, st')
    \<and> positional_args (cur_frame st') = Some as \<and> fr_argc (cur_frame st') = fr_argc (cur_frame st) - 1"
proof -
  define xs where "xs = map2 Arg [2..<Suc (Suc (length as))] as"
  have argv: "dup_args (f # a # as) = [Arg 0 f] @ Arg 1 a # xs"
    by (simp add: dup_args_def xs_def upt_conv_Cons numeral_2_eq_2 del: upt_Suc)
  have len: "length xs = length as" by (simp add: xs_def del: upt_Suc)
  have nth: "xs ! i = Arg (i + 2) (as ! i)" if "i < length as" for i
    using that by (simp add: xs_def nth_append del: upt_Suc)
  obtain rest where rest: "(case xs of [] \<Rightarrow> [Arg 1 a] | _ \<Rightarrow> xs @ [last xs]) = xs @ rest" by (cases xs) auto
  have loop: "shift_loop 1 2 (length as + 2) 1 (dup_args (f # a # as)) = Some (Arg 0 f # xs @ rest)"
    using shift_one_loop [of "[Arg 0 f]" 1 xs "length as + 2" "Arg 1 a"] len argv rest by (simp add: numeral_2_eq_2)
  have args: "those (map (frame_arg (fr\<lparr>fr_argv := Arg 0 f # xs @ rest, fr_argc := n\<rparr>)) [1..<Suc (length as)]) = Some as" for fr n
  proof -
    have "map (frame_arg (fr\<lparr>fr_argv := Arg 0 f # xs @ rest, fr_argc := n\<rparr>)) [1..<Suc (length as)] = map Some as"
      by (rule nth_equalityI) (simp_all add: frame_arg_def nth_append nth len del: upt_Suc)
    then show ?thesis by (simp only: those_map_Some)
  qed
  show ?thesis
    using assms loop args [where fr = "cur_frame st"]
    by (simp add: run_builtin_shift_def positional_args_def upd_frame_def nat_add_distrib numeral_2_eq_2 del: upt_Suc)
qed

theorem shift_drops_first_witness:
  "\<exists>st'. run_builtin_shift [''shift''] (push_frame [''f'', ''a'', ''b''] start_state) = Some (0, st')
     \<and> positional_args (cur_frame st') = Some [''b'']"
  using shift_drops_first [of "push_frame [''f'', ''a'', ''b''] start_state" "''f''" "''a''" "[''b'']"]
  by (auto simp: push_frame_def state_inv_def mrsh_state_create_def ht_inv_empty)

text \<open>
  \<^verbatim>\<open>shift 2\<close> loses parameters that are left: the loop frees strings that it has just moved down, so with
  the parameters \<^verbatim>\<open>a b c d\<close> the next reading of \<^verbatim>\<open>$@\<close> reads freed memory.
\<close>

theorem shift_two_dangles:
  "\<exists>st'. run_builtin_shift [''shift'', ''2''] (push_frame [''f'', ''a'', ''b'', ''c'', ''d''] start_state) = Some (0, st')
     \<and> positional_args (cur_frame st') = None"
proof -
  have "map_option (\<lambda>(ret, st'). (ret, positional_args (cur_frame st')))
      (run_builtin_shift [''shift'', ''2''] (push_frame [''f'', ''a'', ''b'', ''c'', ''d''] start_state)) = Some (0, None)"
    by code_simp
  then show ?thesis by auto
qed

section \<open>Reading and trimming\<close>

text \<open>
  \<^verbatim>\<open>read\<close> does not split its line: the string is not marked for field splitting, so with two names
  or more the first variable gets the whole line, blanks included, and the others are empty, whatever
  \<^verbatim>\<open>IFS\<close> is.
\<close>

theorem read_never_splits:
  "Option.bind (split_fields (mrsh_word_string_create line False) ifs) get_fields_str = Some [line]
   \<and> read_values (n + 2) [line] = line # replicate (n + 1) []"
  by (simp add: split_fields_def split_start_def add_to_cur_field_def mrsh_word_string_create_def get_fields_str_def
      word_str_list concat_opt_def read_values_def)

text \<open>
  \<^verbatim>\<open>${x##pattern}\<close> never removes the whole value: the loop of \<^verbatim>\<open>trim_pattern\<close> does not try the prefix that is
  the whole string, so a pattern that matches everything leaves the last character.
\<close>

theorem trim_pattern_leaves_last:
  assumes "\<And>s. sys_fnmatch S pat s" and "v \<noteq> []"
  shows "trim_pattern S v pat False True = [last v]"
proof -
  have "trim_positions (length v) False True = (length v - 1) # rev [0..<length v - 1]"
    using assms(2) by (cases v rule: rev_cases) (simp_all add: trim_positions_def)
  with assms show ?thesis
    by (cases v rule: rev_cases) (simp_all add: trim_pattern_def)
qed

theorem trim_pattern_leaves_last_witness:
  "trim_pattern (example_sys\<lparr>sys_fnmatch := (\<lambda>_ _. True)\<rparr>) ''abc'' ''*'' False True = ''c''"
  using trim_pattern_leaves_last [of "example_sys\<lparr>sys_fnmatch := (\<lambda>_ _. True)\<rparr>" "''*''" "''abc''"] by simp

section \<open>The exit status\<close>


end
