(* ===== verification/Wsh_Containers.thy ===== *)
theory Wsh_Containers
  imports Wsh_Prelude
begin

text \<open>
  The growable containers of src/shell/mrsh: \<^verbatim>\<open>struct mrsh_array\<close> (array.c) and
  \<^verbatim>\<open>struct mrsh_buffer\<close> (buffer.c). The allocated block is a list of cells of length \<open>cap\<close>;
  a cell that was never written is \<open>None\<close>. Sizes are natural numbers with the wrap-around of
  the 32-bit \<^verbatim>\<open>size_t\<close> written out. \<^verbatim>\<open>realloc\<close> is a parameter: a predicate that says for which
  byte sizes it succeeds.

  The locale \<open>append_store\<close> is the contract the rest of the shell uses these containers
  through: an invariant, an abstraction to a list, and an operation that appends one element.
\<close>

section \<open>Sizes\<close>

definition SIZE_MOD :: nat where "SIZE_MOD = 2 ^ 32"

text \<open>\<^verbatim>\<open>sizeof(void *)\<close> on wasm32.\<close>

definition PTR_SIZE :: nat where "PTR_SIZE = 4"

type_synonym allocator = "nat \<Rightarrow> bool"

section \<open>Arrays (array.c)\<close>

record 'a mrsh_array =
  arr_data :: "'a option list"
  arr_len :: nat
  arr_cap :: nat

definition mrsh_array_empty :: "'a mrsh_array" where
  "mrsh_array_empty = \<lparr>arr_data = [], arr_len = 0, arr_cap = 0\<rparr>"

definition INITIAL_SIZE :: nat where "INITIAL_SIZE = 8"

text \<open>\<^verbatim>\<open>realloc\<close> keeps the cells that fit into the new block and leaves the others unwritten.\<close>

definition resize :: "'a option list \<Rightarrow> nat \<Rightarrow> 'a option list" where
  "resize xs n = take n xs @ replicate (n - length xs) None"

text \<open>
  The returned flag is the function's result. The block has as many cells as the requested
  bytes hold, which differs from \<open>new_cap\<close> when \<open>new_cap * sizeof(void *)\<close> wraps.
\<close>

definition mrsh_array_reserve ::
  "allocator \<Rightarrow> 'a mrsh_array \<Rightarrow> nat \<Rightarrow> bool \<times> 'a mrsh_array" where
  "mrsh_array_reserve realloc a new_cap =
     (if arr_cap a \<ge> new_cap then (True, a)
      else let bytes = (new_cap * PTR_SIZE) mod SIZE_MOD in
        if \<not> realloc bytes then (False, a)
        else (True, a\<lparr>arr_data := resize (arr_data a) (bytes div PTR_SIZE), arr_cap := new_cap\<rparr>))"

text \<open>
  Result of \<^verbatim>\<open>mrsh_array_add\<close>: the index of the new element, \<open>-1\<close> when the allocation
  fails, or a fault: the failed \<^verbatim>\<open>assert\<close> or a write outside of the block.
\<close>

datatype 'r c_result = Ok 'r | Fault

definition mrsh_array_add ::
  "allocator \<Rightarrow> 'a mrsh_array \<Rightarrow> 'a \<Rightarrow> (int \<times> 'a mrsh_array) c_result" where
  "mrsh_array_add realloc a v =
     (if \<not> arr_len a \<le> arr_cap a then Fault
      else
        let grown =
          (if arr_len a = arr_cap a then
             let new_cap = (2 * arr_cap a) mod SIZE_MOD;
                 new_cap' = (if new_cap < INITIAL_SIZE then INITIAL_SIZE else new_cap)
             in mrsh_array_reserve realloc a new_cap'
           else (True, a))
        in
          if \<not> fst grown then Ok (- 1, snd grown)
          else let b = snd grown; i = arr_len b in
            if i < length (arr_data b)
            then Ok (int i, b\<lparr>arr_data := (arr_data b)[i := Some v], arr_len := (i + 1) mod SIZE_MOD\<rparr>)
            else Fault)"

text \<open>\<^verbatim>\<open>free(array->data)\<close> without clearing the pointer: the cells are gone.\<close>

definition mrsh_array_finish :: "'a mrsh_array \<Rightarrow> 'a mrsh_array" where
  "mrsh_array_finish a = a\<lparr>arr_data := [], arr_cap := 0, arr_len := 0\<rparr>"

definition arr_abs :: "'a mrsh_array \<Rightarrow> 'a list" where
  "arr_abs a = map the (take (arr_len a) (arr_data a))"

text \<open>
  The invariant. The linker gives the program at most 134217728 bytes of memory
  (\<^verbatim>\<open>--max-memory\<close> in src/arch/wasm32/Makefile), so no block has more.
\<close>

definition MAX_MEMORY :: nat where "MAX_MEMORY = 134217728"

definition arr_inv :: "'a mrsh_array \<Rightarrow> bool" where
  "arr_inv a \<longleftrightarrow> length (arr_data a) = arr_cap a \<and> arr_len a \<le> arr_cap a
     \<and> arr_cap a * PTR_SIZE \<le> MAX_MEMORY \<and> None \<notin> set (take (arr_len a) (arr_data a))"

section \<open>Buffers (buffer.c)\<close>

record mrsh_buffer =
  buf_data :: "char option list"
  buf_len :: nat
  buf_cap :: nat

definition mrsh_buffer_empty :: mrsh_buffer where
  "mrsh_buffer_empty = \<lparr>buf_data = [], buf_len = 0, buf_cap = 0\<rparr>"

text \<open>The result \<open>Some n\<close> is the pointer to the cell at offset \<open>n\<close>; \<open>None\<close> is NULL.\<close>

definition mrsh_buffer_reserve ::
  "allocator \<Rightarrow> mrsh_buffer \<Rightarrow> nat \<Rightarrow> nat option \<times> mrsh_buffer" where
  "mrsh_buffer_reserve realloc b nbytes =
     (let new_len = (buf_len b + nbytes) mod SIZE_MOD in
      if new_len > buf_cap b then
        let c0 = (2 * buf_cap b) mod SIZE_MOD;
            c1 = (if c0 = 0 then 32 else c0);
            new_cap = (if c1 < new_len then new_len else c1)
        in if \<not> realloc new_cap then (None, b)
           else (Some (buf_len b),
                 b\<lparr>buf_data := resize (buf_data b) new_cap, buf_cap := new_cap\<rparr>)
      else (Some (buf_len b), b))"

definition mrsh_buffer_add ::
  "allocator \<Rightarrow> mrsh_buffer \<Rightarrow> nat \<Rightarrow> nat option \<times> mrsh_buffer" where
  "mrsh_buffer_add realloc b nbytes =
     (case mrsh_buffer_reserve realloc b nbytes of
        (None, b') \<Rightarrow> (None, b')
      | (Some d, b') \<Rightarrow> (Some d, b'\<lparr>buf_len := (buf_len b' + nbytes) mod SIZE_MOD\<rparr>))"

text \<open>\<^verbatim>\<open>memcpy\<close> of the characters \<open>cs\<close> to offset \<open>d\<close>; outside of the block it is a fault.\<close>

definition write_cells :: "'a option list \<Rightarrow> nat \<Rightarrow> 'a list \<Rightarrow> 'a option list c_result" where
  "write_cells xs d cs =
     (if d + length cs \<le> length xs
      then Ok (take d xs @ map Some cs @ drop (d + length cs) xs) else Fault)"

definition mrsh_buffer_append ::
  "allocator \<Rightarrow> mrsh_buffer \<Rightarrow> char list \<Rightarrow> (bool \<times> mrsh_buffer) c_result" where
  "mrsh_buffer_append realloc b cs =
     (case mrsh_buffer_add realloc b (length cs) of
        (None, b') \<Rightarrow> Ok (False, b')
      | (Some d, b') \<Rightarrow>
          (case write_cells (buf_data b') d cs of
             Fault \<Rightarrow> Fault
           | Ok xs \<Rightarrow> Ok (True, b'\<lparr>buf_data := xs\<rparr>)))"

definition mrsh_buffer_append_char ::
  "allocator \<Rightarrow> mrsh_buffer \<Rightarrow> char \<Rightarrow> (bool \<times> mrsh_buffer) c_result" where
  "mrsh_buffer_append_char realloc b c =
     (case mrsh_buffer_add realloc b 1 of
        (None, b') \<Rightarrow> Ok (False, b')
      | (Some d, b') \<Rightarrow>
          (case write_cells (buf_data b') d [c] of
             Fault \<Rightarrow> Fault
           | Ok xs \<Rightarrow> Ok (True, b'\<lparr>buf_data := xs\<rparr>)))"

definition mrsh_buffer_steal :: "mrsh_buffer \<Rightarrow> char option list \<times> mrsh_buffer" where
  "mrsh_buffer_steal b = (buf_data b, b\<lparr>buf_data := [], buf_cap := 0, buf_len := 0\<rparr>)"

definition mrsh_buffer_finish :: "mrsh_buffer \<Rightarrow> mrsh_buffer" where
  "mrsh_buffer_finish b = b\<lparr>buf_data := [], buf_cap := 0, buf_len := 0\<rparr>"

definition buf_abs :: "mrsh_buffer \<Rightarrow> char list" where
  "buf_abs b = map the (take (buf_len b) (buf_data b))"

definition buf_inv :: "mrsh_buffer \<Rightarrow> bool" where
  "buf_inv b \<longleftrightarrow> length (buf_data b) = buf_cap b \<and> buf_len b \<le> buf_cap b
     \<and> buf_cap b \<le> MAX_MEMORY \<and> None \<notin> set (take (buf_len b) (buf_data b))"

section \<open>The contract of an append store\<close>

text \<open>
  \<open>add s x\<close> is \<open>None\<close> when the store could not grow. The client lemma is the loop that fills
  a store element by element, which every collector of the shell is (fields, arguments,
  characters of a word).
\<close>

locale append_store =
  fixes inv :: "'s \<Rightarrow> bool" and abs :: "'s \<Rightarrow> 'a list" and add :: "'s \<Rightarrow> 'a \<Rightarrow> 's option"
  assumes add_inv: "inv s \<Longrightarrow> add s x = Some t \<Longrightarrow> inv t"
    and add_abs: "inv s \<Longrightarrow> add s x = Some t \<Longrightarrow> abs t = abs s @ [x]"
begin

fun add_all :: "'s \<Rightarrow> 'a list \<Rightarrow> 's option" where
  "add_all s [] = Some s"
| "add_all s (x # xs) = Option.bind (add s x) (\<lambda>t. add_all t xs)"

lemma add_all_spec: "inv s \<Longrightarrow> add_all s xs = Some t \<Longrightarrow> inv t \<and> abs t = abs s @ xs"
proof (induction xs arbitrary: s)
  case Nil
  then show ?case by simp
next
  case (Cons x xs)
  then obtain u where u: "add s x = Some u" and "add_all u xs = Some t"
    by (auto simp: bind_Some_iff)
  with Cons.IH [of u] Cons.prems(1) show ?case
    by (simp add: add_inv [OF _ u] add_abs [OF _ u])
qed

end

section \<open>Both containers keep the contract\<close>

text \<open>
  The allocator of the program: whatever policy \<open>heap\<close> the C library has, a block larger than
  the linear memory is never handed out.
\<close>

definition sys_realloc :: "allocator \<Rightarrow> allocator" where
  "sys_realloc heap n \<longleftrightarrow> n \<le> MAX_MEMORY \<and> heap n"

text \<open>The two append operations as partial functions: \<open>None\<close> when the store is unchanged.\<close>

definition arr_push :: "allocator \<Rightarrow> 'a mrsh_array \<Rightarrow> 'a \<Rightarrow> 'a mrsh_array option" where
  "arr_push heap a v =
     (case mrsh_array_add (sys_realloc heap) a v of
        Ok (i, b) \<Rightarrow> if i < 0 then None else Some b | Fault \<Rightarrow> None)"

definition buf_push :: "allocator \<Rightarrow> mrsh_buffer \<Rightarrow> char \<Rightarrow> mrsh_buffer option" where
  "buf_push heap b c =
     (case mrsh_buffer_append_char (sys_realloc heap) b c of
        Ok (ok, b') \<Rightarrow> if ok then Some b' else None | Fault \<Rightarrow> None)"

lemmas size_defs = SIZE_MOD_def PTR_SIZE_def MAX_MEMORY_def INITIAL_SIZE_def

lemma length_resize [simp]: "length (resize xs n) = n"
  by (simp add: resize_def)

lemma take_resize [simp]: "k \<le> length xs \<Longrightarrow> k \<le> n \<Longrightarrow> take k (resize xs n) = take k xs"
  by (simp add: resize_def)

lemma take_Suc_update [simp]: "k < length xs \<Longrightarrow> take (Suc k) (xs[k := x]) = take k xs @ [x]"
  by (simp add: take_Suc_conv_app_nth)

lemma arr_inv_bounds: "arr_inv a \<Longrightarrow> arr_cap a \<le> 33554432"
  by (simp add: arr_inv_def size_defs)

text \<open>Growing keeps the elements and makes room for at least one more.\<close>

lemma arr_grow:
  assumes inv: "arr_inv a" and full: "arr_len a = arr_cap a"
    and eq: "mrsh_array_reserve (sys_realloc heap) a n = (True, b)"
    and n: "n = (if (2 * arr_cap a) mod SIZE_MOD < INITIAL_SIZE then INITIAL_SIZE
                 else (2 * arr_cap a) mod SIZE_MOD)"
  shows "arr_inv b \<and> arr_len b = arr_len a \<and> arr_len b < arr_cap b \<and> arr_abs b = arr_abs a"
proof -
  have cap: "arr_cap a \<le> 33554432" by (rule arr_inv_bounds [OF inv])
  then have "(2 * arr_cap a) mod SIZE_MOD = 2 * arr_cap a" by (simp add: SIZE_MOD_def)
  with n have n': "n = (if 2 * arr_cap a < 8 then 8 else 2 * arr_cap a)"
    by (simp add: INITIAL_SIZE_def)
  with cap have small: "(n * PTR_SIZE) mod SIZE_MOD = n * PTR_SIZE" and gt: "arr_cap a < n"
    by (auto simp: size_defs)
  from eq gt small have b: "b = a\<lparr>arr_data := resize (arr_data a) n, arr_cap := n\<rparr>"
    and mem: "n * PTR_SIZE \<le> MAX_MEMORY"
    by (auto simp: mrsh_array_reserve_def Let_def sys_realloc_def PTR_SIZE_def split: if_splits)
  with inv full gt show ?thesis
    by (auto simp: arr_inv_def arr_abs_def)
qed

text \<open>Storing into a cell below the capacity appends.\<close>

lemma arr_store:
  assumes inv: "arr_inv a" and room: "arr_len a < arr_cap a"
    and b: "b = a\<lparr>arr_data := (arr_data a)[arr_len a := Some v],
                  arr_len := (arr_len a + 1) mod SIZE_MOD\<rparr>"
  shows "arr_inv b \<and> arr_abs b = arr_abs a @ [v]"
proof -
  from arr_inv_bounds [OF inv] room have "(arr_len a + 1) mod SIZE_MOD = Suc (arr_len a)"
    by (simp add: SIZE_MOD_def)
  with inv room b show ?thesis
    by (simp add: arr_inv_def arr_abs_def)
qed

lemma mrsh_array_add_spec:
  assumes inv: "arr_inv a"
  shows "(\<exists>b. mrsh_array_add (sys_realloc heap) a v = Ok (int (arr_len a), b)
            \<and> arr_inv b \<and> arr_abs b = arr_abs a @ [v])
       \<or> (mrsh_array_add (sys_realloc heap) a v = Ok (- 1, a) \<and> arr_len a = arr_cap a
            \<and> \<not> sys_realloc heap (PTR_SIZE * max INITIAL_SIZE (2 * arr_cap a)))"
proof (cases "arr_len a = arr_cap a")
  case False
  with inv have "arr_len a < arr_cap a" by (simp add: arr_inv_def)
  with arr_store [OF inv this refl, of v] inv False show ?thesis
    by (auto simp: mrsh_array_add_def arr_inv_def Let_def)
next
  case full: True
  define n where "n = (if (2 * arr_cap a) mod SIZE_MOD < INITIAL_SIZE then INITIAL_SIZE
                       else (2 * arr_cap a) mod SIZE_MOD)"
  obtain ok b where g: "mrsh_array_reserve (sys_realloc heap) a n = (ok, b)" by fastforce
  show ?thesis
  proof (cases ok)
    case True
    with g have g': "mrsh_array_reserve (sys_realloc heap) a n = (True, b)" by simp
    from arr_grow [OF inv full g' n_def]
    have b: "arr_inv b" "arr_len b = arr_len a" "arr_len b < arr_cap b" "arr_abs b = arr_abs a"
      by blast+
    then have "arr_len a < length (arr_data b)" by (simp add: arr_inv_def)
    with arr_store [OF b(1,3) refl, of v] b g True full n_def show ?thesis
      by (auto simp: mrsh_array_add_def Let_def)
  next
    case False
    with g have "b = a" by (auto simp: mrsh_array_reserve_def Let_def split: if_splits)
    moreover from g False arr_inv_bounds [OF inv]
    have "\<not> sys_realloc heap (PTR_SIZE * max INITIAL_SIZE (2 * arr_cap a))"
      by (auto simp: mrsh_array_reserve_def n_def size_defs Let_def max_def mult.commute
          split: if_splits)
    ultimately show ?thesis
      using False g full n_def by (simp add: mrsh_array_add_def Let_def)
  qed
qed

interpretation arr: append_store arr_inv arr_abs "arr_push heap" for heap
proof
  fix s :: "'a mrsh_array" and x t
  assume "arr_inv s" and "arr_push heap s x = Some t"
  with mrsh_array_add_spec [of s heap x] show "arr_inv t"
    by (auto simp: arr_push_def split: if_splits)
next
  fix s :: "'a mrsh_array" and x t
  assume "arr_inv s" and "arr_push heap s x = Some t"
  with mrsh_array_add_spec [of s heap x] show "arr_abs t = arr_abs s @ [x]"
    by (auto simp: arr_push_def split: if_splits)
qed

text \<open>The buffer's growth policy, and that an appended block of characters lands at its end.\<close>

lemma buf_reserve_spec:
  assumes inv: "buf_inv b" and sz: "nbytes \<le> MAX_MEMORY"
    and eq: "mrsh_buffer_reserve (sys_realloc heap) b nbytes = (Some d, b')"
  shows "buf_inv b' \<and> d = buf_len b \<and> buf_len b' = buf_len b \<and> buf_abs b' = buf_abs b
         \<and> buf_len b + nbytes \<le> buf_cap b'"
proof -
  from inv sz have [simp]: "(buf_len b + nbytes) mod SIZE_MOD = buf_len b + nbytes"
    "(2 * buf_cap b) mod SIZE_MOD = 2 * buf_cap b"
    by (simp_all add: buf_inv_def size_defs)
  from inv have tk: "buf_len b \<le> length (buf_data b)" by (simp add: buf_inv_def)
  show ?thesis
  proof (cases "buf_len b + nbytes > buf_cap b")
    case False
    with eq inv show ?thesis by (auto simp: mrsh_buffer_reserve_def Let_def)
  next
    case True
    define n where "n = (let c1 = (if 2 * buf_cap b = 0 then 32 else 2 * buf_cap b)
                         in if c1 < buf_len b + nbytes then buf_len b + nbytes else c1)"
    have n_ge: "buf_len b + nbytes \<le> n" by (simp add: n_def Let_def)
    from eq True have "b' = b\<lparr>buf_data := resize (buf_data b) n, buf_cap := n\<rparr>"
      and "d = buf_len b" and "n \<le> MAX_MEMORY"
      by (auto simp: mrsh_buffer_reserve_def n_def Let_def sys_realloc_def split: if_splits)
    with inv tk n_ge show ?thesis
      by (auto simp: buf_inv_def buf_abs_def)
  qed
qed

lemma mrsh_buffer_append_spec:
  assumes inv: "buf_inv b" and sz: "length cs \<le> MAX_MEMORY"
  shows "(\<exists>b'. mrsh_buffer_append (sys_realloc heap) b cs = Ok (True, b')
            \<and> buf_inv b' \<and> buf_abs b' = buf_abs b @ cs)
       \<or> (mrsh_buffer_append (sys_realloc heap) b cs = Ok (False, b)
            \<and> \<not> sys_realloc heap
                  (max (buf_len b + length cs) (if buf_cap b = 0 then 32 else 2 * buf_cap b)))"
proof -
  obtain r b' where g: "mrsh_buffer_reserve (sys_realloc heap) b (length cs) = (r, b')" by fastforce
  show ?thesis
  proof (cases r)
    case None
    with g have "b' = b" by (auto simp: mrsh_buffer_reserve_def Let_def split: if_splits)
    moreover from g None inv sz
    have "\<not> sys_realloc heap
            (max (buf_len b + length cs) (if buf_cap b = 0 then 32 else 2 * buf_cap b))"
      by (auto simp: mrsh_buffer_reserve_def buf_inv_def size_defs Let_def max_def split: if_splits)
    ultimately show ?thesis
      using None g by (simp add: mrsh_buffer_append_def mrsh_buffer_add_def)
  next
    case (Some d)
    from buf_reserve_spec [OF inv sz g [unfolded Some]]
    have b': "buf_inv b'" "d = buf_len b" "buf_len b' = buf_len b" "buf_abs b' = buf_abs b"
      and room: "buf_len b + length cs \<le> buf_cap b'" by blast+
    then have l: "buf_len b + length cs \<le> length (buf_data b')"
      "(buf_len b + length cs) mod SIZE_MOD = buf_len b + length cs"
      by (simp_all add: buf_inv_def size_defs)
    let ?xs = "take (buf_len b) (buf_data b') @ map Some cs @ drop (buf_len b + length cs) (buf_data b')"
    let ?b = "b'\<lparr>buf_len := buf_len b + length cs, buf_data := ?xs\<rparr>"
    from b' room l have "buf_inv ?b" by (auto simp: buf_inv_def)
    moreover from b' l have "buf_abs ?b = buf_abs b @ cs"
      by (simp add: buf_abs_def comp_def)
    moreover from g Some b' l have "mrsh_buffer_append (sys_realloc heap) b cs = Ok (True, ?b)"
      by (simp add: mrsh_buffer_append_def mrsh_buffer_add_def write_cells_def)
    ultimately show ?thesis by blast
  qed
qed

lemma append_char_eq_append: "mrsh_buffer_append_char r b c = mrsh_buffer_append r b [c]"
  by (simp add: mrsh_buffer_append_char_def mrsh_buffer_append_def)

lemma buf_push_spec:
  "buf_inv b \<Longrightarrow> buf_push heap b c = Some b' \<Longrightarrow> buf_inv b' \<and> buf_abs b' = buf_abs b @ [c]"
  using mrsh_buffer_append_spec [of b "[c]" heap]
  by (auto simp: buf_push_def append_char_eq_append MAX_MEMORY_def split: if_splits)

interpretation buf: append_store buf_inv buf_abs "buf_push heap" for heap
  by unfold_locales (auto dest: buf_push_spec)

section \<open>Properties\<close>

lemma arr_inv_empty: "arr_inv mrsh_array_empty" "arr_abs mrsh_array_empty = []"
  by (simp_all add: arr_inv_def arr_abs_def mrsh_array_empty_def)

lemma buf_inv_empty: "buf_inv mrsh_buffer_empty" "buf_abs mrsh_buffer_empty = []"
  by (simp_all add: buf_inv_def buf_abs_def mrsh_buffer_empty_def)

text \<open>
  C36: \<^verbatim>\<open>mrsh_array_add\<close> on a well-formed array never fails its assertion and never writes outside
  of its block. Either it appends the value, returns its index and keeps the array well-formed, or
  it returns -1 with the array unchanged, and then the array was full and the allocator refused
  the doubled block.
\<close>

theorem mrsh_array_add_correct:
  assumes "arr_inv a"
  shows "(\<exists>b. mrsh_array_add (sys_realloc heap) a v = Ok (int (arr_len a), b)
            \<and> arr_inv b \<and> arr_abs b = arr_abs a @ [v])
       \<or> (mrsh_array_add (sys_realloc heap) a v = Ok (- 1, a) \<and> arr_len a = arr_cap a
            \<and> \<not> sys_realloc heap (PTR_SIZE * max INITIAL_SIZE (2 * arr_cap a)))"
  using assms by (rule mrsh_array_add_spec)

theorem mrsh_array_add_correct_witness:
  "\<exists>b. mrsh_array_add (sys_realloc (\<lambda>_. True)) mrsh_array_empty (7 :: nat) = Ok (0, b) \<and> arr_abs b = [7]"
  using mrsh_array_add_correct [OF arr_inv_empty(1), of "\<lambda>_. True" "7 :: nat"]
  by (auto simp: arr_abs_def sys_realloc_def mrsh_array_empty_def size_defs)



end
