(* ===== verification/Wsh_Parse_Mono.thy ===== *)
theory Wsh_Parse_Mono
  imports Wsh_Program_Parser
begin

text \<open>
  The bound on the nesting of the parser does not change a result: what the parser returns with some
  bound it returns with every greater one, for every input: strings, files and buffers, with or without
  aliases. The locale compares the functions of two grammars, of which one returns whenever the other does.
\<close>

lemma opt_le_none: "opt_le None m"
  by (simp add: opt_le_def)

lemma opt_le_case_prod_apply [run_mono]:
  "(\<And>x y. opt_le (f x y z) (g x y z)) \<Longrightarrow> opt_le (case_prod f p z) (case_prod g p z)"
  by (cases p) simp

lemma bound_induct [consumes 1, case_names 0 Suc]:
  assumes "n \<le> m" and "\<And>m. P 0 m" and "\<And>n m. n \<le> m \<Longrightarrow> P n m \<Longrightarrow> P (Suc n) (Suc m)"
  shows "P n m"
  using assms(1)
proof (induction n arbitrary: m)
  case (Suc n)
  then obtain m' where "m = Suc m'" "n \<le> m'" by (cases m) auto
  with assms(3) Suc.IH show ?case by simp
qed (rule assms(2))

locale grammar_below =
  fixes G H :: grammar
  assumes below_fuel: "g_fuel G \<le> g_fuel H"
    and below_word: "opt_le (g_word G p c) (g_word H p c)"
    and below_arithmetic_word: "opt_le (g_arithmetic_word G p c) (g_arithmetic_word H p c)"
    and below_parse_program: "opt_le (g_parse_program G p) (g_parse_program H p)"
    and below_and_or: "opt_le (g_and_or G p) (g_and_or H p)"
    and below_compound: "opt_le (g_compound_command G p) (g_compound_command H p)"
    and below_else: "opt_le (g_else_part G p) (g_else_part H p)"
begin

lemmas below_calls [run_mono] =
  below_word below_arithmetic_word below_parse_program below_and_or below_compound below_else

subsection \<open>Words\<close>

lemma below_word_list_loop:
  assumes "\<And>p c. opt_le (f p c) (g p c)"
  shows "opt_le (word_list_loop n p e f cs) (word_list_loop n p e g cs)"
proof (induction n arbitrary: p cs)
  case (Suc n)
  then show ?case using assms by (auto intro!: run_mono split: prod.split)
qed (simp add: opt_le_none)

lemma below_word_list [run_mono]:
  "(\<And>p c. opt_le (f p c) (g p c)) \<Longrightarrow> opt_le (word_list_rule p e f) (word_list_rule p e g)"
  unfolding word_list_rule_def by (intro run_mono below_word_list_loop)

lemma below_parameter_expression [run_mono]:
  "opt_le (expect_parameter_expression G p) (expect_parameter_expression H p)"
  unfolding expect_parameter_expression_def by (intro run_mono)

lemma below_word_command [run_mono]: "opt_le (expect_word_command G p) (expect_word_command H p)"
  unfolding expect_word_command_def by (intro run_mono)

lemma below_word_arithmetic [run_mono]: "opt_le (expect_word_arithmetic G p) (expect_word_arithmetic H p)"
  unfolding expect_word_arithmetic_def by (intro run_mono)

lemma below_dollar [run_mono]: "opt_le (expect_dollar G p) (expect_dollar H p)"
  unfolding expect_dollar_def by (intro run_mono)

lemma below_back_quotes [run_mono]: "opt_le (back_quotes G p) (back_quotes H p)"
  unfolding back_quotes_def by (intro run_mono)

lemma below_double_quotes_loop [run_mono]:
  "opt_le (double_quotes_loop n G p cs b) (double_quotes_loop n H p cs b)"
proof (induction n arbitrary: p cs b)
  case (Suc n)
  show ?case unfolding double_quotes_loop.simps by (intro run_mono Suc)
qed (simp add: opt_le_none)

lemma below_double_quotes [run_mono]: "opt_le (double_quotes G p) (double_quotes H p)"
  unfolding double_quotes_def by (intro run_mono)

lemma below_word_part [run_mono]: "opt_le (word_part G c p) (word_part H c p)"
  unfolding word_part_def by (intro run_mono)

lemma below_word_loop [run_mono]: "opt_le (word_loop n G p e cs b) (word_loop n H p e cs b)"
proof (induction n arbitrary: p cs b)
  case (Suc n)
  show ?case unfolding word_loop.simps by (intro run_mono Suc)
qed (simp add: opt_le_none)

lemma below_word_rule [run_mono]: "opt_le (word_rule G p e) (word_rule H p e)"
  unfolding word_rule_def by (intro run_mono)

lemma below_arithmetic_word_loop [run_mono]:
  "opt_le (arithmetic_word_loop n G p cs b) (arithmetic_word_loop n H p cs b)"
proof (induction n arbitrary: p cs b)
  case (Suc n)
  show ?case unfolding arithmetic_word_loop.simps by (intro run_mono Suc)
qed (simp add: opt_le_none)

lemma below_arithmetic_word_rule [run_mono]: "opt_le (arithmetic_word G p e) (arithmetic_word H p e)"
  unfolding arithmetic_word_def by (intro run_mono)

subsection \<open>Simple commands\<close>

lemma below_aliases_loop: "n \<le> m \<Longrightarrow> opt_le (apply_aliases_loop n f l p) (apply_aliases_loop m f l p)"
  by (induction n m arbitrary: l p rule: bound_induct)
    (unfold apply_aliases_loop.simps, rule opt_le_none, intro run_mono, simp_all)

lemma below_aliases [run_mono]: "opt_le (apply_aliases G p) (apply_aliases H p)"
  unfolding apply_aliases_def by (intro run_mono below_aliases_loop below_fuel)

lemma below_io_here [run_mono]: "opt_le (io_here G p) (io_here H p)"
  unfolding io_here_def by (intro run_mono)

lemma below_io_file [run_mono]: "opt_le (io_file G p) (io_file H p)"
  unfolding io_file_def io_filename_def by (intro run_mono)

lemma below_io_redirect [run_mono]: "opt_le (io_redirect G p) (io_redirect H p)"
  unfolding io_redirect_def by (intro run_mono)

lemma below_assignment_word [run_mono]: "opt_le (assignment_word G p) (assignment_word H p)"
  unfolding assignment_word_def by (intro run_mono)

lemma below_cmd_prefix [run_mono]: "opt_le (cmd_prefix G p cmd) (cmd_prefix H p cmd)"
  unfolding cmd_prefix_def by (intro run_mono)

lemma below_cmd_name [run_mono]: "opt_le (cmd_name G p) (cmd_name H p)"
  unfolding cmd_name_def by (intro run_mono)

lemma below_cmd_suffix [run_mono]: "opt_le (cmd_suffix G p cmd) (cmd_suffix H p cmd)"
  unfolding cmd_suffix_def by (intro run_mono)

lemma below_repeat_parts:
  assumes "\<And>p cmd. opt_le (f p cmd) (g p cmd)"
  shows "n \<le> m \<Longrightarrow> opt_le (repeat_parts n f p cmd) (repeat_parts m g p cmd)"
  by (induction n m arbitrary: p cmd rule: bound_induct)
    (unfold repeat_parts.simps, rule opt_le_none, intro run_mono, simp_all add: assms)

lemma below_simple_command [run_mono]: "opt_le (simple_command G p) (simple_command H p)"
  unfolding simple_command_def
  by (intro run_mono below_repeat_parts [OF below_cmd_prefix] below_repeat_parts [OF below_cmd_suffix] below_fuel)

subsection \<open>Here-documents\<close>

lemma below_here_line_loop [run_mono]:
  "opt_le (here_document_line_loop n G p cs b) (here_document_line_loop n H p cs b)"
proof (induction n arbitrary: p cs b)
  case (Suc n)
  show ?case unfolding here_document_line_loop.simps by (intro run_mono Suc)
qed (simp add: opt_le_none)

lemma below_here_word [run_mono]: "opt_le (here_document_word G b str) (here_document_word H b str)"
  unfolding here_document_word_def here_document_line_def by (intro run_mono)

lemma below_here_loop [run_mono]:
  "opt_le (here_document_loop n G tabs expand delim p doc) (here_document_loop n H tabs expand delim p doc)"
proof (induction n arbitrary: p doc)
  case (Suc n)
  show ?case unfolding here_document_loop.simps by (intro run_mono Suc)
qed (simp add: opt_le_none)

lemma below_expect_here [run_mono]: "opt_le (expect_here_document G p i delim) (expect_here_document H p i delim)"
  unfolding expect_here_document_def by (auto intro!: run_mono split: mrsh_io_redirect.split)

lemma below_here_documents [run_mono]: "opt_le (here_documents_loop G b is p) (here_documents_loop H b is p)"
proof (induction "is" arbitrary: p)
  case (Cons i "is")
  show ?case unfolding here_documents_loop.simps by (intro run_mono Cons)
qed (simp add: opt_le_refl)

subsection \<open>Compound commands\<close>

lemma below_term [run_mono]: "opt_le (term_rule G p) (term_rule H p)"
  unfolding term_rule_def by (intro run_mono)

lemma below_term_loop: "n \<le> m \<Longrightarrow> opt_le (term_loop n G p cmds) (term_loop m H p cmds)"
  by (induction n m arbitrary: p cmds rule: bound_induct)
    (unfold term_loop.simps, rule opt_le_none, intro run_mono, simp_all)

lemma below_compound_list [run_mono]: "opt_le (compound_list G p) (compound_list H p)"
  unfolding compound_list_def by (intro run_mono below_term_loop below_fuel)

lemma below_expect_compound_list [run_mono]: "opt_le (expect_compound_list G p) (expect_compound_list H p)"
  unfolding expect_compound_list_def by (intro run_mono)

lemma below_brace_group [run_mono]: "opt_le (brace_group G p) (brace_group H p)"
  unfolding brace_group_def by (intro run_mono)

lemma below_subshell [run_mono]: "opt_le (subshell G p) (subshell H p)"
  unfolding subshell_def by (intro run_mono)

lemma below_if_body [run_mono]: "opt_le (if_body G p) (if_body H p)"
  unfolding if_body_def by (intro run_mono)

lemma below_else_part [run_mono]: "opt_le (else_part_rule G p) (else_part_rule H p)"
  unfolding else_part_rule_def by (intro run_mono)

lemma below_if_clause [run_mono]: "opt_le (if_clause G p) (if_clause H p)"
  unfolding if_clause_def by (intro run_mono)

lemma below_wordlist_loop: "n \<le> m \<Longrightarrow> opt_le (wordlist_loop n G p ws) (wordlist_loop m H p ws)"
  by (induction n m arbitrary: p ws rule: bound_induct)
    (unfold wordlist_loop.simps, rule opt_le_none, intro run_mono, simp_all)

lemma below_wordlist [run_mono]: "opt_le (wordlist G p) (wordlist H p)"
  unfolding wordlist_def by (intro run_mono below_wordlist_loop below_fuel)

lemma below_do_group [run_mono]: "opt_le (expect_do_group G p) (expect_do_group H p)"
  unfolding expect_do_group_def by (intro run_mono)

lemma below_for_clause [run_mono]: "opt_le (for_clause G p) (for_clause H p)"
  unfolding for_clause_def by (intro run_mono)

lemma below_loop_clause [run_mono]: "opt_le (loop_clause G p) (loop_clause H p)"
  unfolding loop_clause_def by (intro run_mono)

lemma below_patterns_loop: "n \<le> m \<Longrightarrow> opt_le (patterns_loop n G p ws) (patterns_loop m H p ws)"
  by (induction n m arbitrary: p ws rule: bound_induct)
    (unfold patterns_loop.simps, rule opt_le_none, intro run_mono, simp_all)

lemma below_case_item [run_mono]: "opt_le (expect_case_item G p) (expect_case_item H p)"
  unfolding expect_case_item_def by (intro run_mono below_patterns_loop below_fuel)

lemma below_case_items_loop: "n \<le> m \<Longrightarrow> opt_le (case_items_loop n G p items) (case_items_loop m H p items)"
  by (induction n m arbitrary: p items rule: bound_induct)
    (unfold case_items_loop.simps, rule opt_le_none, intro run_mono, simp_all)

lemma below_case_clause [run_mono]: "opt_le (case_clause G p) (case_clause H p)"
  unfolding case_clause_def by (intro run_mono below_case_items_loop below_fuel)

lemma below_io_redirects_loop: "n \<le> m \<Longrightarrow> opt_le (io_redirects_loop n G p rs) (io_redirects_loop m H p rs)"
  by (induction n m arbitrary: p rs rule: bound_induct)
    (unfold io_redirects_loop.simps, rule opt_le_none, intro run_mono, simp_all)

lemma below_function_definition [run_mono]: "opt_le (function_definition G p) (function_definition H p)"
  unfolding function_definition_def by (intro run_mono below_io_redirects_loop below_fuel)

subsection \<open>Lists and programs\<close>

lemma below_otherwise [run_mono]:
  "opt_le a b \<Longrightarrow> (\<And>p. opt_le (f p) (g p)) \<Longrightarrow> opt_le (otherwise a f) (otherwise b g)"
  unfolding otherwise_def by (intro run_mono)

lemma below_compound_command [run_mono]: "opt_le (compound_command G p) (compound_command H p)"
  unfolding compound_command_def by (intro run_mono)

lemma below_command [run_mono]: "opt_le (command_rule G p) (command_rule H p)"
  unfolding command_rule_def by (intro run_mono)

lemma below_pipeline_loop: "n \<le> m \<Longrightarrow> opt_le (pipeline_loop n G p cmds) (pipeline_loop m H p cmds)"
  by (induction n m arbitrary: p cmds rule: bound_induct)
    (unfold pipeline_loop.simps, rule opt_le_none, intro run_mono, simp_all)

lemma below_pipeline [run_mono]: "opt_le (pipeline G p) (pipeline H p)"
  unfolding pipeline_def by (intro run_mono below_pipeline_loop below_fuel)

lemma below_and_or_rule [run_mono]: "opt_le (and_or G p) (and_or H p)"
  unfolding and_or_def by (intro run_mono)

lemma below_list [run_mono]: "opt_le (list_rule G p) (list_rule H p)"
  unfolding list_rule_def by (intro run_mono)

lemma below_list_loop: "n \<le> m \<Longrightarrow> opt_le (list_loop n G p cmds) (list_loop m H p cmds)"
  by (induction n m arbitrary: p cmds rule: bound_induct)
    (unfold list_loop.simps, rule opt_le_none, intro run_mono, simp_all)

lemma below_complete_command [run_mono]: "opt_le (complete_command G p cmds) (complete_command H p cmds)"
  unfolding complete_command_def by (intro run_mono below_list_loop below_fuel)

lemma below_expect_complete_command [run_mono]: "opt_le (expect_complete_command G p cmds) (expect_complete_command H p cmds)"
  unfolding expect_complete_command_def by (intro run_mono)

lemma below_program_loop: "n \<le> m \<Longrightarrow> opt_le (program_loop n G p body) (program_loop m H p body)"
  by (induction n m arbitrary: p body rule: bound_induct)
    (unfold program_loop.simps, rule opt_le_none, intro run_mono, simp_all)

lemma below_program [run_mono]: "opt_le (program_rule G p) (program_rule H p)"
  unfolding program_rule_def by (intro run_mono below_program_loop below_fuel)

lemma below_parse [run_mono]: "opt_le (mrsh_parse_program G p) (mrsh_parse_program H p)"
  unfolding mrsh_parse_program_def by (intro run_mono)

end

lemma grammar_below_grammar: "n \<le> m \<Longrightarrow> grammar_below (grammar n) (grammar m)"
proof (induction n arbitrary: m)
  case 0
  show ?case by unfold_locales (simp_all add: opt_le_none)
next
  case (Suc n)
  then obtain m' where m: "m = Suc m'" "n \<le> m'" by (cases m) auto
  note below = Suc.IH [OF m(2)]
  show ?case unfolding m(1)
    by unfold_locales
      (simp_all add: m(2) grammar_below.below_word_rule [OF below] grammar_below.below_arithmetic_word_rule [OF below]
        grammar_below.below_parse [OF below] grammar_below.below_and_or_rule [OF below]
        grammar_below.below_compound_command [OF below] grammar_below.below_else_part [OF below])
qed

interpretation gb: grammar_below "grammar n" "grammar (n + d)" for n d
  by (rule grammar_below_grammar) simp



end
