(* ===== verification/Wsh_Parse_Errors.thy ===== *)
theory Wsh_Parse_Errors
  imports Wsh_Program_Parser
begin

text \<open>
  Texts on which the parser does not do what POSIX asks for, by evaluation. No property rests on them;
  each one shows a deviation of the grammar that the model reproduces.
\<close>

abbreviation plain_word :: "string \<Rightarrow> mrsh_word" where
  "plain_word str \<equiv> MRSH_WORD_STRING str False False"

abbreviation one_command :: "mrsh_command \<Rightarrow> mrsh_program" where
  "one_command c \<equiv> Program [Command_list (MRSH_AND_OR_LIST_PIPELINE [c] False) False]"

text \<open>The line after a here-document at the top level is dropped.\<close>

lemma here_document_hides_rest:
  "parse_text (''a <<E'' @ [NEWLINE_CHR] @ ''E'' @ [NEWLINE_CHR] @ ''rm'')
   = Some (Parsed (Some (one_command
       (MRSH_SIMPLE_COMMAND (Some (plain_word ''a'')) [] [Io_redirect (- 1) MRSH_IO_DLESS (plain_word ''E'') []] []))))"
  by code_simp

text \<open>Two here-documents of one command are refused.\<close>

lemma two_here_documents_refused:
  "parse_text (''a <<E <<F'' @ [NEWLINE_CHR] @ ''E'' @ [NEWLINE_CHR] @ ''F'')
   = Some (Parse_error ''expected a newline followed by a here-document'' 3 1)"
  by code_simp

text \<open>A subshell after \<^verbatim>\<open>then\<close> makes the keyword the name of a function.\<close>

lemma subshell_after_then_refused:
  "parse_text ''if a;then (b);fi'' = Some (Parse_error (''expected '' @ [CHR 0x27] @ '')'' @ [CHR 0x27]) 1 12)"
  by code_simp

text \<open>An assignment of nothing takes the next word as its value.\<close>

lemma empty_assignment_takes_word:
  "parse_text ''A= b''
   = Some (Parsed (Some (one_command (MRSH_SIMPLE_COMMAND None [] [] [Assignment ''A'' (plain_word ''b'')]))))"
  by code_simp

text \<open>The redirection of a compound command is a command of its own.\<close>

lemma compound_redirection_is_command:
  "parse_text ''(a)>b''
   = Some (Parsed (Some (Program
       [Command_list (MRSH_AND_OR_LIST_PIPELINE [MRSH_SUBSHELL [Command_list (MRSH_AND_OR_LIST_PIPELINE
          [MRSH_SIMPLE_COMMAND (Some (plain_word ''a'')) [] [] []] False) False]] False) False,
        Command_list (MRSH_AND_OR_LIST_PIPELINE
          [MRSH_SIMPLE_COMMAND None [] [Io_redirect (- 1) MRSH_IO_GREAT (plain_word ''b'') []] []] False) False])))"
  by code_simp

text \<open>A parameter expansion that is not closed reads past the end of the text.\<close>

lemma open_parameter_reads_end: "parse_text ''${x'' = None"
  by code_simp

end
