(* ===== verification/Wsh_Format.thy ===== *)
theory Wsh_Format
  imports Wsh_Ast
begin

text \<open>
  The text of a tree: \<^verbatim>\<open>mrsh_node_format\<close> of src/shell/mrsh/ast.c, which \<^verbatim>\<open>trap\<close> and \<^verbatim>\<open>jobs\<close> use to show
  commands. The C function \<^verbatim>\<open>node_format\<close> is a switch over the types of nodes, with one function here
  for each of them. It prints nothing for redirections, assignments, \<^verbatim>\<open>for\<close> and \<^verbatim>\<open>case\<close> clauses, and not the
  name of a parameter; a NULL pointer among the nodes is dereferenced (\<open>None\<close>).
\<close>

fun binop_type_str :: "mrsh_binop_type \<Rightarrow> string" where
  "binop_type_str MRSH_BINOP_AND = ''&&''"
| "binop_type_str MRSH_BINOP_OR = ''||''"

text \<open>The texts of the nodes of an array, with a separator between them.\<close>

fun node_array_format :: "string \<Rightarrow> string option list \<Rightarrow> string option" where
  "node_array_format sep [] = Some []"
| "node_array_format sep [t] = t"
| "node_array_format sep (t # ts) =
     do { str \<leftarrow> t; rest \<leftarrow> node_array_format sep ts; Some (str @ sep @ rest) }"

fun format_word :: "mrsh_word \<Rightarrow> string option"
  and format_command :: "mrsh_command \<Rightarrow> string option"
  and format_and_or_list :: "mrsh_and_or_list \<Rightarrow> string option"
  and format_command_list :: "mrsh_command_list \<Rightarrow> string option"
  and format_program :: "mrsh_program \<Rightarrow> string option"
where
  "format_word (MRSH_WORD_STRING str single_quoted _) =
     Some (if single_quoted then [CHR 0x27] @ str @ [CHR 0x27] else str)"
| "format_word (MRSH_WORD_PARAMETER name op colon arg _) =
     do { str \<leftarrow> (case arg of None \<Rightarrow> Some [] | Some w \<Rightarrow> format_word w); Some (''${'' @ str @ ''}'') }"
| "format_word (MRSH_WORD_COMMAND prog back_quoted) =
     do { str \<leftarrow> (case prog of None \<Rightarrow> Some [] | Some pr \<Rightarrow> format_program pr);
          Some ((if back_quoted then ''`'' else ''$('') @ str @ (if back_quoted then ''`'' else '')'')) }"
| "format_word (MRSH_WORD_ARITHMETIC body) = format_word body"
| "format_word (MRSH_WORD_LIST children double_quoted) =
     do { str \<leftarrow> node_array_format [] (map format_word children);
          Some (if double_quoted then [CHR 0x22] @ str @ [CHR 0x22] else str) }"
| "format_word MRSH_WORD_NULL = None"
| "format_command (MRSH_SIMPLE_COMMAND name args _ _) =
     do { str \<leftarrow> (case name of None \<Rightarrow> Some [] | Some w \<Rightarrow> do { str \<leftarrow> format_word w; Some (str @ '' '') });
          rest \<leftarrow> node_array_format '' '' (map format_word args);
          Some (str @ rest) }"
| "format_command (MRSH_BRACE_GROUP body) =
     do { str \<leftarrow> node_array_format '' '' (map format_command_list body); Some (''{ '' @ str @ ''; }'') }"
| "format_command (MRSH_SUBSHELL body) =
     do { str \<leftarrow> node_array_format '' '' (map format_command_list body); Some (''('' @ str @ '')'') }"
| "format_command (MRSH_IF_CLAUSE condition body else_part) =
     do { c \<leftarrow> node_array_format '' '' (map format_command_list condition);
          b \<leftarrow> node_array_format '' '' (map format_command_list body);
          e \<leftarrow> (case else_part of None \<Rightarrow> Some [] | Some cmd \<Rightarrow> do { str \<leftarrow> format_command cmd; Some (''else '' @ str) });
          Some (''if '' @ c @ ''then '' @ b @ e @ ''fi'') }"
| "format_command (MRSH_FOR_CLAUSE name has_in word_list body) = Some []"
| "format_command (MRSH_LOOP_CLAUSE type condition body) =
     do { c \<leftarrow> node_array_format '' '' (map format_command_list condition);
          b \<leftarrow> node_array_format '' '' (map format_command_list body);
          Some ((if type = MRSH_LOOP_WHILE then ''while '' else ''until '') @ c @ ''do '' @ b @ ''done'') }"
| "format_command (MRSH_CASE_CLAUSE w items) = Some []"
| "format_command (MRSH_FUNCTION_DEFINITION name body _) =
     do { str \<leftarrow> format_command body; Some (name @ ''()'' @ str) }"
| "format_and_or_list (MRSH_AND_OR_LIST_BINOP type left right) =
     do { l \<leftarrow> format_and_or_list left;
          r \<leftarrow> format_and_or_list right;
          Some (l @ '' '' @ binop_type_str type @ '' '' @ r) }"
| "format_and_or_list (MRSH_AND_OR_LIST_PIPELINE commands bang) =
     do { str \<leftarrow> node_array_format '' | '' (map format_command commands);
          Some ((if bang then ''! '' else []) @ str) }"
| "format_command_list (Command_list a ampersand) =
     do { str \<leftarrow> format_and_or_list a; Some (str @ (if ampersand then '' &'' else '';'')) }"
| "format_program (Program body) = node_array_format '' '' (map format_command_list body)"

end
