(* ===== verification/Wsh_Parse_Text.thy ===== *)
theory Wsh_Parse_Text
  imports Wsh_Program_Parser
begin

text \<open>
  What the operations of the parser core do to the text that is left to parse, for a parser over a
  string: each one returns, and its result is a function of the text. The proofs about the grammar rest
  on these facts only and never look into the buffer.
\<close>

section \<open>Outcomes of a parsing function\<close>

definition post :: "'a parsing \<Rightarrow> ('a \<Rightarrow> mrsh_parser \<Rightarrow> bool) \<Rightarrow> bool" where
  "post m Q \<longleftrightarrow> (\<exists>r q. m = Some (r, q) \<and> Q r q)"

lemma post_Some: "post (Some (r, q)) Q \<longleftrightarrow> Q r q"
  by (simp add: post_def)

lemma post_bind:
  "post m P \<Longrightarrow> (\<And>r q. P r q \<Longrightarrow> post (f r q) Q) \<Longrightarrow> post (Option.bind m (\<lambda>(r, q). f r q)) Q"
  by (auto simp: post_def)

lemma post_weaken: "post m P \<Longrightarrow> (\<And>r q. P r q \<Longrightarrow> Q r q) \<Longrightarrow> post m Q"
  by (auto simp: post_def)

text \<open>What no operation of the core changes.\<close>

definition same_frame :: "mrsh_parser \<Rightarrow> mrsh_parser \<Rightarrow> bool" where
  "same_frame p q \<longleftrightarrow> err q = err p \<and> redirects q = redirects p \<and> here_documents q = here_documents p
     \<and> alias_func q = alias_func p \<and> arith_nested_parens q = arith_nested_parens p"

lemma same_frame_refl [simp]: "same_frame p p"
  by (simp add: same_frame_def)

lemma same_frame_trans: "same_frame p q \<Longrightarrow> same_frame q r \<Longrightarrow> same_frame p r"
  by (simp add: same_frame_def)

text \<open>The parser \<open>q\<close> has the text \<open>t\<close> left, and the frame of \<open>p\<close>.\<close>

definition moved :: "mrsh_parser \<Rightarrow> string \<Rightarrow> mrsh_parser \<Rightarrow> bool" where
  "moved p t q \<longleftrightarrow> parser_wf q \<and> ptext q = t \<and> same_frame p q"

definition same_sym :: "mrsh_parser \<Rightarrow> mrsh_parser \<Rightarrow> bool" where
  "same_sym p q \<longleftrightarrow> has_sym q = has_sym p \<and> sym q = sym p"

lemma same_sym_refl [simp]: "same_sym p p"
  by (simp add: same_sym_def)

lemma same_sym_trans: "same_sym p q \<Longrightarrow> same_sym q r \<Longrightarrow> same_sym p r"
  by (simp add: same_sym_def)

lemma moved_wf: "moved p t q \<Longrightarrow> parser_wf q"
  by (simp add: moved_def)

lemma moved_text: "moved p t q \<Longrightarrow> ptext q = t"
  by (simp add: moved_def)

lemma moved_trans: "moved p t q \<Longrightarrow> moved q u r \<Longrightarrow> moved p u r"
  by (auto simp: moved_def intro: same_frame_trans)

lemma moved_refl: "parser_wf p \<Longrightarrow> moved p (ptext p) p"
  by (simp add: moved_def)

lemma moved_consume [simp]: "moved p t (consume_symbol q) = moved p t q"
  by (simp add: moved_def consume_symbol_def parser_wf_def ptext_def same_frame_def)

lemma consume_no_sym [simp]: "has_sym (consume_symbol p) = False"
  by (simp add: consume_symbol_def)

lemma peeked_moved: "peeked p q \<Longrightarrow> parser_wf p \<Longrightarrow> moved p (ptext p) q \<and> same_sym p q"
  using peeked_wf [of p q] peeked_ptext [of p q]
  by (auto simp: moved_def same_sym_def same_frame_def peeked_def)

section \<open>Characters\<close>

definition head :: "string \<Rightarrow> char" where
  "head t = (case t of [] \<Rightarrow> NUL | c # _ \<Rightarrow> c)"

lemma head_simps [simp]: "head [] = NUL" "head (c # t) = c"
  by (simp_all add: head_def)

lemma head_NUL: "parser_wf p \<Longrightarrow> head (ptext p) = NUL \<longleftrightarrow> ptext p = []"
  using NUL_notin_ptext [of p] by (cases "ptext p") auto

lemma peek_char_text:
  assumes "parser_wf p" and "parser_peek_char p = (c, q)"
  shows "c = head (ptext p)" and "moved p (ptext p) q" and "same_sym p q"
  using peek_char_wf [OF assms] peeked_moved [OF _ assms(1), of q] by (simp_all add: head_def)

lemma peek_two_text:
  assumes "parser_wf p" and "peek_two p = (cs, q)"
  shows "cs = [head (ptext p), if ptext p = [] then cs ! 1 else head (tl (ptext p))]"
    and "moved p (ptext p) q" and "same_sym p q"
proof -
  obtain ds q' where pk: "parser_peek p 2 = (ds, q')" by fastforce
  with assms(2) have q: "q' = q" and cs: "cs = take 2 (ds @ [NUL, NUL])"
    by (simp_all add: peek_two_def)
  from peek_wf [OF assms(1) pk] have pq: "peeked p q" and ds: "ds = take 2 (buf q)"
    by (simp_all add: q)
  obtain rest where b: "buf q = ptext p @ NUL # rest"
    using wf_buf_decomp [OF peeked_wf [OF pq assms(1)]] peeked_ptext [OF pq assms(1)] by metis
  show "moved p (ptext p) q" and "same_sym p q" using peeked_moved [OF pq assms(1)] by simp_all
  show "cs = [head (ptext p), if ptext p = [] then cs ! 1 else head (tl (ptext p))]"
  proof (cases "ptext p")
    case Nil
    then show ?thesis using cs ds b by (cases rest) auto
  next
    case (Cons c t)
    then show ?thesis using cs ds b by (cases t) auto
  qed
qed

lemma read_text:
  assumes wf: "parser_wf p" and n: "n \<le> length (ptext p)"
  shows "post (parser_read p n)
           (\<lambda>cs q. cs = take n (ptext p) \<and> moved p (drop n (ptext p)) q \<and> same_sym p q)"
proof -
  obtain q where q: "parser_read p n = Some (take n (ptext p), q)" "parser_wf q" "ptext q = drop n (ptext p)"
    using parser_read_wf [OF wf n] by blast
  obtain p1 where pk: "parser_peek p n = (take n (ptext p), p1)" "peeked p p1"
  proof -
    obtain cs p1 where "parser_peek p n = (cs, p1)" by fastforce
    moreover from this q(1) have "cs = take n (ptext p)"
      by (auto simp: parser_read_def split: if_splits)
    ultimately show ?thesis using that peek_wf [OF wf] by metis
  qed
  from q(1) pk have "same_frame p q \<and> same_sym p q"
    by (auto simp: parser_read_def same_frame_def same_sym_def peeked_def split: if_splits)
  with q show ?thesis by (simp add: post_def moved_def)
qed

lemma read_char_text:
  assumes "parser_wf p" and "ptext p = c # t"
  shows "post (parser_read_char p) (\<lambda>d q. d = c \<and> moved p t q \<and> same_sym p q)"
  using read_text [OF assms(1), of 1] assms(2) by (auto simp: post_def parser_read_char_def)

lemma skip_char_text:
  assumes "parser_wf p" and "ptext p = c # t"
  obtains q where "parser_read_char p = Some (c, q)" and "moved p t q" and "same_sym p q"
  using read_char_text [OF assms] by (auto simp: post_def)

lemma continuation_line_text:
  assumes "parser_wf p" and "ptext p = NEWLINE_CHR # t"
  obtains q where "read_continuation_line p = Some q" and "moved p t q" and "same_sym p q"
proof -
  obtain q where "parser_read_char p = Some (NEWLINE_CHR, q)" "moved p t q" "same_sym p q"
    using read_char_text [OF assms] by (auto simp: post_def)
  then show ?thesis
    by (intro that [of "q\<lparr>continuation_line := True\<rparr>"])
      (simp_all add: read_continuation_line_def moved_def parser_wf_def ptext_def same_frame_def same_sym_def)
qed

lemma peek_at_text:
  assumes "parser_wf p" and "i \<le> length (ptext p)"
  shows "post (peek_at p i) (\<lambda>c q. c = (ptext p @ [NUL]) ! i \<and> peeked p q)"
  using peek_at_wf [OF assms] by (auto simp: post_def)

section \<open>Symbols\<close>

definition starts_with :: "string \<Rightarrow> string \<Rightarrow> bool" where
  "starts_with t str \<longleftrightarrow> take (length str) t = str"

lemma starts_with_Nil [simp]: "starts_with t []"
  by (simp add: starts_with_def)

lemma starts_with_Cons [simp]:
  "starts_with (c # t) (d # str) \<longleftrightarrow> c = d \<and> starts_with t str" "\<not> starts_with [] (d # str)"
  by (auto simp: starts_with_def)

lemma starts_with_append [simp]: "starts_with (str @ t) str"
  by (simp add: starts_with_def)

lemma starts_with_decomp: "starts_with t str \<Longrightarrow> t = str @ drop (length str) t"
  unfolding starts_with_def by (metis append_take_drop_id)

lemma starts_with_length: "starts_with t str \<Longrightarrow> length str \<le> length t"
  unfolding starts_with_def by (metis length_take min.cobounded1)

lemma peek_operator_text:
  assumes "parser_wf p" "peek_operator p str j = (b, q)" "j \<le> length (ptext p)" "NUL \<notin> set str"
  shows "b \<longleftrightarrow> starts_with (drop j (ptext p)) str"
  using assms
proof (induction p str j rule: peek_operator.induct)
  case (2 p c str j)
  obtain cs p1 where pk: "parser_peek p (j + 1) = (cs, p1)" by fastforce
  from peek_wf [OF "2.prems"(1) pk] have p1: "peeked p p1" "cs = take (j + 1) (buf p1)" by simp_all
  note wf1 = peeked_wf [OF p1(1) "2.prems"(1)] and tx1 = peeked_ptext [OF p1(1) "2.prems"(1)]
  obtain rest where b1: "buf p1 = ptext p @ NUL # rest" using wf_buf_decomp [OF wf1] tx1 by metis
  have len: "length cs = j + 1" using "2.prems"(3) p1(2) b1 by simp
  have nth: "buf p1 ! j = (ptext p @ [NUL]) ! j" using "2.prems"(3) b1 by (simp add: nth_append)
  show ?case
  proof (cases "buf p1 ! j = c")
    case False
    have "\<not> starts_with (drop j (ptext p)) (c # str)"
    proof (cases "j < length (ptext p)")
      case True
      with False nth show ?thesis by (simp add: nth_append Cons_nth_drop_Suc [symmetric])
    qed simp
    with False pk "2.prems"(2) show ?thesis by simp
  next
    case True
    have j: "j < length (ptext p)"
      using True nth "2.prems"(3,4) by (auto simp: nth_append split: if_splits)
    then have "drop j (ptext p) = c # drop (Suc j) (ptext p)"
      using True nth by (simp add: nth_append Cons_nth_drop_Suc [symmetric])
    moreover have "b \<longleftrightarrow> starts_with (drop (j + 1) (ptext p1)) str"
      by (rule "2.IH" [OF pk [symmetric]]) (use True len pk "2.prems" wf1 tx1 j in simp_all)
    ultimately show ?thesis using tx1 by simp
  qed
qed simp

lemma find_operator_text:
  assumes "parser_wf p" "find_operator p ops = (r, q)" "\<forall>(s, str) \<in> set ops. NUL \<notin> set str"
  shows "r = map_option fst (find (\<lambda>(s, str). starts_with (ptext p) str) ops)"
  using assms
proof (induction p ops arbitrary: r rule: find_operator.induct)
  case (2 p name str ops)
  obtain b p1 where pk: "peek_operator p str 0 = (b, p1)" by fastforce
  from peek_operator_wf [OF "2.prems"(1) pk] have p1: "peeked p p1" .
  have b: "b \<longleftrightarrow> starts_with (ptext p) str"
    using peek_operator_text [OF "2.prems"(1) pk] "2.prems"(3) by simp
  show ?case
  proof (cases b)
    case True
    with "2.prems"(2) pk b show ?thesis by simp
  next
    case False
    with "2.prems"(2) pk have "find_operator p1 ops = (r, q)" by simp
    with "2.IH" [OF pk [symmetric] _ peeked_wf [OF p1 "2.prems"(1)]] False "2.prems"(3)
    have "r = map_option fst (find (\<lambda>(s, str). starts_with (ptext p1) str) ops)" by simp
    with b False peeked_ptext [OF p1 "2.prems"(1)] show ?thesis by simp
  qed
qed simp

text \<open>Blanks and comments before a symbol are skipped.\<close>

primrec skip_blanks :: "string \<Rightarrow> string" where
  "skip_blanks [] = []"
| "skip_blanks (c # t) =
     (if c_isblank c then skip_blanks t
      else if c = CHR ''#'' then dropWhile (\<lambda>d. d \<noteq> NEWLINE_CHR) t else c # t)"

definition first_symbol :: "string \<Rightarrow> symbol_name" where
  "first_symbol t =
     (case t of
        [] \<Rightarrow> EOF_TOKEN
      | c # _ \<Rightarrow>
          if c = NEWLINE_CHR then NEWLINE
          else (case find (\<lambda>(s, str). starts_with t str) operators of None \<Rightarrow> TOKEN | Some (s, _) \<Rightarrow> s))"

lemma operators_NUL: "\<forall>(s, str) \<in> set operators. NUL \<notin> set str"
  by (simp add: operators_def)

lemma no_operator: "\<not> is_operator_start c \<Longrightarrow> find (\<lambda>(s, str). starts_with (c # t) str) operators = None"
  by (auto simp: operators_def is_operator_start_def)

lemma skip_comment_text:
  "parser_wf p \<Longrightarrow> length (ptext p) < n \<Longrightarrow>
   \<exists>q. skip_comment n p = Some q \<and> moved p (dropWhile (\<lambda>d. d \<noteq> NEWLINE_CHR) (ptext p)) q \<and> same_sym p q"
proof (induction n arbitrary: p)
  case (Suc n)
  obtain c q where pk: "parser_peek_char p = (c, q)" by fastforce
  note q = peek_char_text [OF Suc.prems(1) pk]
  show ?case
  proof (cases "ptext p")
    case Nil
    with pk q show ?thesis by auto
  next
    case (Cons d t)
    have d: "d \<noteq> NUL" using NUL_notin_ptext [of p] Cons by auto
    show ?thesis
    proof (cases "d = NEWLINE_CHR")
      case True
      with pk q Cons show ?thesis by auto
    next
      case False
      obtain r where r: "parser_read_char q = Some (d, r)" "moved q t r" "same_sym q r"
        using read_char_text [OF moved_wf [OF q(2)], of d t] moved_text [OF q(2)] Cons by (auto simp: post_def)
      from Suc.IH [OF moved_wf [OF r(2)]] Suc.prems(2) Cons moved_text [OF r(2)]
      obtain s where "skip_comment n r = Some s" "moved r (dropWhile (\<lambda>d. d \<noteq> NEWLINE_CHR) t) s" "same_sym r s"
        by auto
      with False d pk q r Cons show ?thesis
        by (auto intro: moved_trans same_sym_trans)
    qed
  qed
qed simp

lemma next_symbol_text:
  "parser_wf p \<Longrightarrow> length (ptext p) < n \<Longrightarrow>
   \<exists>q. next_symbol n p = Some q \<and> moved p (skip_blanks (ptext p)) q \<and> has_sym q
     \<and> sym q = first_symbol (skip_blanks (ptext p))"
proof (induction n arbitrary: p)
  case (Suc n)
  let ?p = "p\<lparr>has_sym := True\<rparr>"
  have wf: "parser_wf ?p" and tx: "ptext ?p = ptext p" and fr: "moved ?p t s = moved p t s" for t s
    using Suc.prems(1) by (simp_all add: parser_wf_def ptext_def moved_def same_frame_def)
  obtain c q where pk: "parser_peek_char ?p = (c, q)" by fastforce
  note q = peek_char_text [OF wf pk, unfolded tx fr]
  have hs: "has_sym q" using q(3) by (simp add: same_sym_def)
  have upd: "moved p t (s\<lparr>sym := x\<rparr>) = moved p t s" for t s x
    by (simp add: parser_wf_def ptext_def moved_def same_frame_def)
  show ?case
  proof (cases "ptext p")
    case Nil
    with pk q hs show ?thesis by (simp add: upd first_symbol_def)
  next
    case (Cons d t)
    have d: "c = d" "d \<noteq> NUL" using NUL_notin_ptext [of p] Cons q(1) by auto
    obtain r q2 where ops: "(if is_operator_start c then find_operator q operators else (None, q)) = (r, q2)"
      by fastforce
    have "peeked q q2"
      using ops find_operator_wf [OF moved_wf [OF q(2)], of operators r q2] by (auto split: if_splits)
    then have q2: "moved p (d # t) q2" "same_sym q q2"
      using peeked_moved [OF _ moved_wf [OF q(2)], of q2] moved_text [OF q(2)] moved_trans [OF q(2)] Cons
      by auto
    have hs2: "has_sym q2" using q2(2) hs by (simp add: same_sym_def)
    have r: "r = map_option fst (find (\<lambda>(s, str). starts_with (d # t) str) operators)"
    proof (cases "is_operator_start c")
      case True
      with ops find_operator_text [OF moved_wf [OF q(2)] _ operators_NUL] moved_text [OF q(2)] Cons show ?thesis
        by simp
    next
      case False
      with ops d no_operator [of d t] show ?thesis by simp
    qed
    have fs: "first_symbol (d # t) = (if d = NEWLINE_CHR then NEWLINE else case r of None \<Rightarrow> TOKEN | Some s \<Rightarrow> s)"
      unfolding r first_symbol_def by (auto split: option.split)
    have plain: "\<not> c_isblank d" "d \<noteq> CHR ''#''" if "d = NEWLINE_CHR \<or> r \<noteq> None"
      using that no_operator [of d t] unfolding r by (auto simp: ctype_defs is_operator_start_def)
    consider (stop) "d = NEWLINE_CHR \<or> r \<noteq> None \<or> (\<not> c_isblank d \<and> d \<noteq> CHR ''#'')"
      | (blank) "d \<noteq> NEWLINE_CHR" "r = None" "c_isblank d"
      | (comment) "d \<noteq> NEWLINE_CHR" "r = None" "\<not> c_isblank d" "d = CHR ''#''"
      by blast
    then show ?thesis
    proof cases
      case stop
      then have skip: "skip_blanks (ptext p) = d # t" using plain Cons by auto
      show ?thesis
      proof (cases "d = NEWLINE_CHR")
        case True
        with pk q d hs fs skip Cons show ?thesis by (auto simp: upd)
      next
        case False
        with stop pk ops q2 d hs2 fs skip show ?thesis by (cases r) (auto simp: upd)
      qed
    next
      case blank
      obtain s where s: "parser_read_char q2 = Some (d, s)" "moved q2 t s"
        using read_char_text [OF moved_wf [OF q2(1)] moved_text [OF q2(1)]] by (auto simp: post_def)
      note ms = moved_trans [OF q2(1) s(2)]
      from Suc.IH [OF moved_wf [OF ms]] Suc.prems(2) Cons moved_text [OF ms]
      obtain u where u: "next_symbol n s = Some u" "moved s (skip_blanks t) u" "has_sym u"
        "sym u = first_symbol (skip_blanks t)"
        by auto
      from blank pk ops s d u Cons moved_trans [OF ms u(2)] show ?thesis by simp
    next
      case comment
      obtain s where s: "skip_comment (Suc n) q2 = Some s"
        "moved q2 (dropWhile (\<lambda>d. d \<noteq> NEWLINE_CHR) (d # t)) s"
        using skip_comment_text [OF moved_wf [OF q2(1)], of "Suc n"] moved_text [OF q2(1)] Suc.prems(2) Cons
        by auto
      let ?t = "dropWhile (\<lambda>d. d \<noteq> NEWLINE_CHR) t"
      have ms: "moved p ?t s" using moved_trans [OF q2(1) s(2)] comment by simp
      have "length ?t \<le> length t" by (rule length_dropWhile_le)
      with Suc.IH [OF moved_wf [OF ms]] Suc.prems(2) Cons moved_text [OF ms]
      obtain u where u: "next_symbol n s = Some u" "moved s (skip_blanks ?t) u" "has_sym u"
        "sym u = first_symbol (skip_blanks ?t)"
        by auto
      have "skip_blanks ?t = ?t"
        using hd_dropWhile [of "\<lambda>d. d \<noteq> NEWLINE_CHR" t] by (cases ?t) (auto simp: ctype_defs)
      with comment pk ops s d u Cons moved_trans [OF ms u(2)] show ?thesis
        by (simp del: skip_comment.simps)
    qed
  qed
qed simp

text \<open>The next symbol and the text from it on.\<close>

definition cur_text :: "mrsh_parser \<Rightarrow> string" where
  "cur_text p = (if has_sym p then ptext p else skip_blanks (ptext p))"

definition cur_sym :: "mrsh_parser \<Rightarrow> symbol_name" where
  "cur_sym p = (if has_sym p then sym p else first_symbol (cur_text p))"

definition lexed :: "mrsh_parser \<Rightarrow> mrsh_parser \<Rightarrow> bool" where
  "lexed p q \<longleftrightarrow> moved p (cur_text p) q \<and> has_sym q \<and> sym q = cur_sym p"

lemma lexed_wf: "lexed p q \<Longrightarrow> parser_wf q"
  by (simp add: lexed_def moved_def)

lemma lexed_cur: "lexed p q \<Longrightarrow> cur_text q = cur_text p \<and> cur_sym q = cur_sym p"
  by (simp add: lexed_def cur_text_def cur_sym_def moved_def)

lemma lexed_text: "lexed p q \<Longrightarrow> ptext q = cur_text p"
  by (simp add: lexed_def moved_def)

lemma lexed_frame: "lexed p q \<Longrightarrow> same_frame p q"
  by (simp add: lexed_def moved_def)

lemma lexed_trans: "lexed p q \<Longrightarrow> lexed q r \<Longrightarrow> lexed p r"
  using lexed_cur [of p q] by (auto simp: lexed_def intro: moved_trans)

lemma lexed_moved: "lexed p q \<Longrightarrow> moved q t r \<Longrightarrow> moved p t r"
  by (auto simp: lexed_def intro: moved_trans)

lemma lexed_peek: "lexed p q \<Longrightarrow> moved q (ptext q) r \<Longrightarrow> same_sym q r \<Longrightarrow> lexed p r"
  using lexed_text [of p q] by (auto simp: lexed_def same_sym_def intro: moved_trans)

lemma lexed_peeked: "lexed p q \<Longrightarrow> peeked q r \<Longrightarrow> lexed p r"
  using peeked_moved [of q r] lexed_wf [of p q] lexed_peek [of p q r] by blast

lemma symbol_text:
  assumes "parser_wf p"
  shows "post (symbol p s) (\<lambda>b q. b = (cur_sym p = s) \<and> lexed p q)"
proof (cases "has_sym p")
  case True
  with assms show ?thesis
    by (simp add: symbol_def get_symbol_def post_def cur_text_def cur_sym_def lexed_def moved_refl)
next
  case False
  have "length (ptext p) < input_bound p + 2" using ptext_bound [of p] by simp
  with next_symbol_text [OF assms this] False show ?thesis
    by (auto simp: symbol_def get_symbol_def post_def cur_text_def cur_sym_def lexed_def simp del: next_symbol.simps)
qed

lemma operator_text:
  assumes "parser_wf p" and "operator_str s = Some str" and "cur_sym p = s \<Longrightarrow> starts_with (cur_text p) str"
  shows "post (operator_rule p s)
           (\<lambda>b q. b = (cur_sym p = s)
             \<and> (if b then moved p (drop (length str) (cur_text p)) q \<and> \<not> has_sym q else lexed p q))"
  unfolding operator_rule_def
proof (rule post_bind [OF symbol_text [OF assms(1)]])
  fix b q
  assume q: "b = (cur_sym p = s) \<and> lexed p q"
  note wf = lexed_wf [OF conjunct2 [OF q]] and tx = lexed_text [OF conjunct2 [OF q]]
  show "post (if \<not> b then Some (False, q)
          else do { str \<leftarrow> operator_str s; (cs, p2) \<leftarrow> parser_read q (length str);
                    if take (length str) cs \<noteq> str then None else Some (True, consume_symbol p2) })
          (\<lambda>b q. b = (cur_sym p = s)
             \<and> (if b then moved p (drop (length str) (cur_text p)) q \<and> \<not> has_sym q else lexed p q))"
  proof (cases b)
    case True
    with q assms(3) have st: "starts_with (cur_text p) str" by simp
    from read_text [OF wf, of "length str"] starts_with_length [OF st] tx obtain r where
      r: "parser_read q (length str) = Some (take (length str) (cur_text p), r)"
      "moved q (drop (length str) (cur_text p)) r"
      by (auto simp: post_def)
    from lexed_moved [OF conjunct2 [OF q] r(2)] r(1) st True q assms(2) show ?thesis
      by (simp add: post_Some starts_with_def)
  qed (use q in \<open>simp add: post_Some\<close>)
qed

lemma newline_text:
  assumes "parser_wf p" and "cur_sym p = NEWLINE \<Longrightarrow> head (cur_text p) = NEWLINE_CHR"
  shows "post (newline p)
           (\<lambda>b q. b = (cur_sym p = NEWLINE)
             \<and> (if b then moved p (tl (cur_text p)) q \<and> \<not> has_sym q else lexed p q))"
  unfolding newline_def
proof (rule post_bind [OF symbol_text [OF assms(1)]])
  fix b q
  assume q: "b = (cur_sym p = NEWLINE) \<and> lexed p q"
  note wf = lexed_wf [OF conjunct2 [OF q]] and tx = lexed_text [OF conjunct2 [OF q]]
  show "post (if \<not> b then Some (False, q)
          else do { (c, p2) \<leftarrow> parser_read_char q;
                    if c = NEWLINE_CHR then Some (True, consume_symbol p2) else None })
          (\<lambda>b q. b = (cur_sym p = NEWLINE)
             \<and> (if b then moved p (tl (cur_text p)) q \<and> \<not> has_sym q else lexed p q))"
  proof (cases b)
    case True
    with q assms(2) have "ptext q = NEWLINE_CHR # tl (cur_text p)"
      unfolding tx by (cases "cur_text p") auto
    from read_char_text [OF wf this] obtain r where
      r: "parser_read_char q = Some (NEWLINE_CHR, r)" "moved q (tl (cur_text p)) r"
      by (auto simp: post_def)
    from lexed_moved [OF conjunct2 [OF q] r(2)] r(1) True q show ?thesis by (simp add: post_Some)
  qed (use q in \<open>simp add: post_Some\<close>)
qed

section \<open>Names and words\<close>

abbreviation name_char :: "char \<Rightarrow> bool" where
  "name_char c \<equiv> c = CHR ''_'' \<or> c_isalnum c"

definition name_len :: "bool \<Rightarrow> string \<Rightarrow> nat" where
  "name_len in_braces t =
     (if \<not> in_braces \<and> c_isdigit (head t) then 0 else length (takeWhile name_char t))"

fun word_len_from :: "char \<Rightarrow> string \<Rightarrow> nat \<Rightarrow> nat" where
  "word_len_from e [] i = i"
| "word_len_from e (c # t) i =
     (if c \<in> {NEWLINE_CHR, CHR '')''} then i
      else if c \<in> {CHR ''$'', CHR ''`'', CHR 0x27, CHR 0x22, CHR 0x5C} then 0
      else if is_operator_start c \<or> c_isblank c \<or> c = e then i else word_len_from e t (i + 1))"

abbreviation word_len :: "string \<Rightarrow> nat" where
  "word_len t \<equiv> word_len_from NUL t 0"

lemma word_len_le: "word_len_from e t i \<le> i + length t"
  by (induction e t i rule: word_len_from.induct) auto

text \<open>The loop of \<^verbatim>\<open>peek_name\<close> from a position on.\<close>

definition name_from :: "bool \<Rightarrow> string \<Rightarrow> nat \<Rightarrow> nat" where
  "name_from in_braces t i =
     (if i = 0 then name_len in_braces t else i + length (takeWhile name_char (drop i t)))"

lemma name_from_stop:
  assumes "i \<le> length t" and "\<not> is_name_char in_braces i ((t @ [NUL]) ! i)"
  shows "name_from in_braces t i = i"
proof (cases "i < length t")
  case True
  then have "drop i t = t ! i # drop (Suc i) t" by (simp add: Cons_nth_drop_Suc)
  with True assms(2) show ?thesis
    by (cases i; cases t) (auto simp: name_from_def name_len_def is_name_char_def nth_append)
next
  case False
  with assms(1) have "i = length t" by simp
  then show ?thesis by (cases t) (simp_all add: name_from_def name_len_def)
qed

lemma name_from_step:
  assumes "i < length t" and "is_name_char in_braces i (t ! i)"
  shows "name_from in_braces t i = name_from in_braces t (Suc i)"
proof -
  have "takeWhile name_char (drop i t) = t ! i # takeWhile name_char (drop (Suc i) t)"
    using assms by (simp add: is_name_char_def Cons_nth_drop_Suc [symmetric])
  with assms show ?thesis
    by (cases i; cases t) (auto simp: name_from_def name_len_def is_name_char_def)
qed

lemma peek_name_loop_text:
  "parser_wf p \<Longrightarrow> i \<le> length (ptext p) \<Longrightarrow> length (ptext p) - i < n \<Longrightarrow>
   post (peek_name_loop n p in_braces i) (\<lambda>k q. peeked p q \<and> k = name_from in_braces (ptext p) i)"
proof (induction n arbitrary: p i)
  case (Suc n)
  let ?t = "ptext p"
  obtain q where q: "peek_at p i = Some ((?t @ [NUL]) ! i, q)" "peeked p q"
    using peek_at_text [OF Suc.prems(1,2)] by (auto simp: post_def)
  note q' = peeked_wf [OF q(2) Suc.prems(1)] peeked_ptext [OF q(2) Suc.prems(1)]
  show ?case
  proof (cases "is_name_char in_braces i ((?t @ [NUL]) ! i)")
    case False
    with q name_from_stop [OF Suc.prems(2) False] show ?thesis by (simp add: post_def)
  next
    case True
    then have i: "i < length ?t"
      using Suc.prems(2) by (cases "i = length ?t") (auto simp: is_name_char_def)
    with Suc.prems q' have "i + 1 \<le> length (ptext q)" "length (ptext q) - (i + 1) < n" by auto
    from Suc.IH [OF q'(1) this] q' obtain r where
      r: "peek_name_loop n q in_braces (i + 1) = Some (name_from in_braces ?t (i + 1), r)" "peeked q r"
      by (auto simp: post_def)
    from True i have "name_from in_braces ?t i = name_from in_braces ?t (i + 1)"
      using name_from_step [OF i] by (simp add: nth_append)
    with True q r show ?thesis by (auto simp: post_def intro: peeked_trans)
  qed
qed simp

lemma peek_name_text:
  assumes "parser_wf p"
  shows "post (peek_name p in_braces)
           (\<lambda>k q. k = (if cur_sym p = TOKEN then name_len in_braces (cur_text p) else 0) \<and> lexed p q)"
  unfolding peek_name_def
proof (rule post_bind [OF symbol_text [OF assms]])
  fix b q
  assume q: "b = (cur_sym p = TOKEN) \<and> lexed p q"
  note wf = lexed_wf [OF conjunct2 [OF q]] and tx = lexed_text [OF conjunct2 [OF q]]
  have "length (ptext q) - 0 < input_bound q + 2" using ptext_bound [of q] by simp
  from peek_name_loop_text [OF wf le0 this, of in_braces] q tx
  show "post (if \<not> b then Some (0, q) else peek_name_loop (input_bound q + 2) q in_braces 0)
          (\<lambda>k q. k = (if cur_sym p = TOKEN then name_len in_braces (cur_text p) else 0) \<and> lexed p q)"
    by (auto simp: post_def name_from_def simp del: peek_name_loop.simps intro: lexed_peeked)
qed

lemma peek_word_loop_text:
  "parser_wf p \<Longrightarrow> i \<le> length (ptext p) \<Longrightarrow> length (ptext p) - i < n \<Longrightarrow>
   post (peek_word_loop n p e i) (\<lambda>k q. peeked p q \<and> k = word_len_from e (drop i (ptext p)) i)"
proof (induction n arbitrary: p i)
  case (Suc n)
  let ?t = "ptext p"
  obtain q where q: "peek_at p i = Some ((?t @ [NUL]) ! i, q)" "peeked p q"
    using peek_at_text [OF Suc.prems(1,2)] by (auto simp: post_def)
  note q' = peeked_wf [OF q(2) Suc.prems(1)] peeked_ptext [OF q(2) Suc.prems(1)]
  show ?case
  proof (cases "i = length ?t")
    case True
    with q show ?thesis by (simp add: post_def)
  next
    case False
    with Suc.prems(2) have i: "i < length ?t" by simp
    then have d: "drop i ?t = ?t ! i # drop (i + 1) ?t" and c: "(?t @ [NUL]) ! i = ?t ! i"
      by (simp_all add: Cons_nth_drop_Suc nth_append)
    have ne: "?t ! i \<noteq> NUL" using i NUL_notin_ptext [of p] nth_mem by metis
    from i Suc.prems q' have "i + 1 \<le> length (ptext q)" "length (ptext q) - (i + 1) < n" by auto
    from Suc.IH [OF q'(1) this] q' q obtain r where
      r: "peek_word_loop n q e (i + 1) = Some (word_len_from e (drop (i + 1) ?t) (i + 1), r)" "peeked p r"
      by (auto simp: post_def intro: peeked_trans)
    have step: "peek_word_loop (Suc n) p e i
      = (if ?t ! i \<in> {NEWLINE_CHR, CHR '')''} then Some (i, q)
         else if ?t ! i \<in> {CHR ''$'', CHR ''`'', CHR 0x27, CHR 0x22, CHR 0x5C} then Some (0, q)
         else if is_operator_start (?t ! i) \<or> c_isblank (?t ! i) \<or> ?t ! i = e then Some (i, q)
         else peek_word_loop n q e (i + 1))"
      using q(1) c ne by simp
    show ?thesis
      unfolding step d word_len_from.simps using q(2) r by (auto simp: post_def)
  qed
qed simp

lemma peek_word_text:
  assumes "parser_wf p"
  shows "post (peek_word p e)
           (\<lambda>k q. k = (if cur_sym p = TOKEN then word_len_from e (cur_text p) 0 else 0) \<and> lexed p q)"
  unfolding peek_word_def
proof (rule post_bind [OF symbol_text [OF assms]])
  fix b q
  assume q: "b = (cur_sym p = TOKEN) \<and> lexed p q"
  note wf = lexed_wf [OF conjunct2 [OF q]] and tx = lexed_text [OF conjunct2 [OF q]]
  have "length (ptext q) - 0 < input_bound q + 2" using ptext_bound [of q] by simp
  from peek_word_loop_text [OF wf le0 this, of e] q tx
  show "post (if \<not> b then Some (0, q) else peek_word_loop (input_bound q + 2) q e 0)
          (\<lambda>k q. k = (if cur_sym p = TOKEN then word_len_from e (cur_text p) 0 else 0) \<and> lexed p q)"
    by (auto simp: post_def simp del: peek_word_loop.simps intro: lexed_peeked)
qed

lemma take_buf: "parser_wf p \<Longrightarrow> n \<le> length (ptext p) \<Longrightarrow> take n (buf p) = take n (ptext p)"
  using wf_buf_decomp [of p] by auto

text \<open>Does the text start with the token?\<close>

definition token_matches :: "string \<Rightarrow> string \<Rightarrow> bool" where
  "token_matches t str \<longleftrightarrow>
     (if length str = 1 \<and> \<not> c_isalpha (hd str) then head t = hd str
      else word_len t = length str \<and> starts_with t str)"

lemma token_matches_starts: "token_matches t str \<Longrightarrow> str \<noteq> [] \<Longrightarrow> NUL \<notin> set str \<Longrightarrow> starts_with t str"
  by (cases t; cases str) (auto simp: token_matches_def split: if_splits)

lemma token_text:
  assumes "parser_wf p" and "str \<noteq> []" and "NUL \<notin> set str"
  shows "post (token p str)
           (\<lambda>b q. b = (cur_sym p = TOKEN \<and> token_matches (cur_text p) str)
             \<and> (if b then moved p (drop (length str) (cur_text p)) q \<and> \<not> has_sym q else lexed p q))"
    (is "post _ ?Q")
  unfolding token_def
proof (rule post_bind [OF symbol_text [OF assms(1)]])
  fix b q
  assume q: "b = (cur_sym p = TOKEN) \<and> lexed p q"
  note lx = conjunct2 [OF q]
  note wf = lexed_wf [OF lx] and tx = lexed_text [OF lx]
  have single: "post (case parser_peek_char q of (c, p2) \<Rightarrow>
          if c \<noteq> hd str then Some (False, p2) else do { p3 \<leftarrow> skip_char p2; Some (True, consume_symbol p3) }) ?Q"
    if b and len: "length str = 1" "\<not> c_isalpha (hd str)"
  proof -
    obtain c r where pk: "parser_peek_char q = (c, r)" by fastforce
    note r = peek_char_text [OF wf pk]
    have m: "token_matches (cur_text p) str \<longleftrightarrow> c = hd str"
      using r(1) tx len by (simp add: token_matches_def)
    show ?thesis
    proof (cases "c = hd str")
      case False
      with pk m lexed_peek [OF lx r(2,3)] show ?thesis by (simp add: post_Some)
    next
      case True
      with assms(2,3) have "c \<noteq> NUL" by (cases str) auto
      with r(1) have "ptext r = c # tl (cur_text p)"
        using moved_text [OF r(2)] tx by (cases "cur_text p") auto
      then obtain s where s: "parser_read_char r = Some (c, s)" "moved r (tl (cur_text p)) s"
        using skip_char_text [OF moved_wf [OF r(2)]] by metis
      then have "moved p (tl (cur_text p)) s" using lexed_moved [OF lx moved_trans [OF r(2)]] by blast
      with True pk m s(1) that q show ?thesis by (simp add: post_Some drop_Suc)
    qed
  qed
  have word: "post (do { (word_len, p2) \<leftarrow> peek_word q NUL;
            if length str \<noteq> word_len \<or> take word_len (buf p2) \<noteq> str then Some (False, p2)
            else do { (_, p3) \<leftarrow> parser_read p2 (length str); Some (True, consume_symbol p3) } }) ?Q"
    if b and len: "\<not> (length str = 1 \<and> \<not> c_isalpha (hd str))"
  proof (rule post_bind [OF peek_word_text [OF wf]])
    fix k r
    assume r: "k = (if cur_sym q = TOKEN then word_len (cur_text q) else 0) \<and> lexed q r"
    then have lr: "lexed p r" and k: "k = word_len (cur_text p)"
      using lexed_trans [OF lx] lexed_cur [OF lx] q that by auto
    note wr = lexed_wf [OF lr] and tr = lexed_text [OF lr]
    have kt: "take k (buf r) = take k (cur_text p)"
      using take_buf [OF wr] tr word_len_le [of NUL "cur_text p" 0] k by simp
    have m: "token_matches (cur_text p) str \<longleftrightarrow> length str = k \<and> take k (buf r) = str"
      using len k kt by (auto simp: token_matches_def starts_with_def)
    show "post (if length str \<noteq> k \<or> take k (buf r) \<noteq> str then Some (False, r)
            else do { (_, p3) \<leftarrow> parser_read r (length str); Some (True, consume_symbol p3) }) ?Q"
    proof (cases "length str = k \<and> take k (buf r) = str")
      case True
      obtain s where s: "parser_read r k = Some (take k (cur_text p), s)" "moved r (drop k (cur_text p)) s"
        using read_text [OF wr, of k] tr word_len_le [of NUL "cur_text p" 0] k by (auto simp: post_def)
      from lexed_moved [OF lr s(2)] s(1) True m q that show ?thesis by (simp add: post_Some)
    qed (use lr m in \<open>auto simp: post_Some\<close>)
  qed
  show "post (if \<not> b then Some (False, q)
          else if length str = 1 \<and> \<not> c_isalpha (hd str) then
            (case parser_peek_char q of (c, p2) \<Rightarrow>
               if c \<noteq> hd str then Some (False, p2) else do { p3 \<leftarrow> skip_char p2; Some (True, consume_symbol p3) })
          else do { (word_len, p2) \<leftarrow> peek_word q NUL;
            if length str \<noteq> word_len \<or> take word_len (buf p2) \<noteq> str then Some (False, p2)
            else do { (_, p3) \<leftarrow> parser_read p2 (length str); Some (True, consume_symbol p3) } }) ?Q"
    using single word q by (cases b) (simp_all add: post_Some)
qed

lemma read_token_text:
  assumes "parser_wf p" and "n \<le> length (cur_text p)"
  shows "post (read_token p n)
           (\<lambda>r q. if cur_sym p = TOKEN
                  then r = Some (take n (cur_text p)) \<and> moved p (drop n (cur_text p)) q \<and> \<not> has_sym q
                  else r = None \<and> lexed p q)"
  unfolding read_token_def
proof (rule post_bind [OF symbol_text [OF assms(1)]])
  fix b q
  assume q: "b = (cur_sym p = TOKEN) \<and> lexed p q"
  note lx = conjunct2 [OF q]
  obtain r where "parser_read q n = Some (take n (cur_text p), r)" "moved q (drop n (cur_text p)) r"
    using read_text [OF lexed_wf [OF lx], of n] lexed_text [OF lx] assms(2) by (auto simp: post_def)
  with lexed_moved [OF lx] q assms(2)
  show "post (if \<not> b then Some (None, q)
          else do { (tok, p2) \<leftarrow> parser_read q n;
                    if length tok \<noteq> n then None else Some (Some tok, consume_symbol p2) })
          (\<lambda>r q. if cur_sym p = TOKEN
                  then r = Some (take n (cur_text p)) \<and> moved p (drop n (cur_text p)) q \<and> \<not> has_sym q
                  else r = None \<and> lexed p q)"
    by (simp add: post_Some)
qed

end
