(* ===== verification/Wsh_Parse_Total.thy ===== *)
theory Wsh_Parse_Total
  imports Wsh_Parse_Text
begin

text \<open>
  The parser returns: on a text without expansions, escapes and here-documents every function of the
  grammar gives a result within the fuel, whether the text is well formed or not, and a result that is
  not NULL has consumed some of the text.
\<close>

section \<open>Texts and states\<close>

text \<open>
  A text without the characters \<^verbatim>\<open>$\<close>, \<^verbatim>\<open>`\<close> and \<^verbatim>\<open>\\<close> and without the operators of
  here-documents.
\<close>

fun plain_text :: "string \<Rightarrow> bool" where
  "plain_text [] = True"
| "plain_text (c # t) \<longleftrightarrow>
     c \<notin> {NUL, CHR ''$'', CHR ''`'', CHR 0x5C} \<and> \<not> (c = CHR ''<'' \<and> head t = CHR ''<'') \<and> plain_text t"

lemma plain_drop: "plain_text t \<Longrightarrow> plain_text (drop n t)"
  by (induction t arbitrary: n rule: plain_text.induct) (auto simp: drop_Cons split: nat.split)

lemma plain_tl: "plain_text t \<Longrightarrow> plain_text (tl t)"
  by (cases t) auto

lemma plain_dropWhile: "plain_text t \<Longrightarrow> plain_text (dropWhile P t)"
  by (simp add: dropWhile_eq_drop plain_drop)

lemma plain_skip: "plain_text t \<Longrightarrow> plain_text (skip_blanks t)"
  by (induction t) (auto simp: plain_dropWhile)

lemma skip_length: "length (skip_blanks t) \<le> length t"
  by (induction t) (auto intro: le_SucI length_dropWhile_le)

lemma skip_skip [simp]: "skip_blanks (skip_blanks t) = skip_blanks t"
proof (induction t)
  case (Cons c t)
  have "skip_blanks (dropWhile (\<lambda>d. d \<noteq> NEWLINE_CHR) t) = dropWhile (\<lambda>d. d \<noteq> NEWLINE_CHR) t"
    using hd_dropWhile [of "\<lambda>d. d \<noteq> NEWLINE_CHR" t]
    by (cases "dropWhile (\<lambda>d. d \<noteq> NEWLINE_CHR) t") (auto simp: ctype_defs)
  with Cons show ?case by simp
qed simp

definition framed :: "mrsh_parser \<Rightarrow> bool" where
  "framed p \<longleftrightarrow> parser_wf p \<and> plain_text (ptext p) \<and> alias_func p = None \<and> here_documents p = []"

text \<open>The symbol belongs to the text; after an error at the end of it a token symbol may be left over.\<close>

definition ok :: "mrsh_parser \<Rightarrow> bool" where
  "ok p \<longleftrightarrow> framed p \<and>
     (has_sym p \<longrightarrow> skip_blanks (ptext p) = ptext p
        \<and> (sym p = first_symbol (ptext p) \<or> ptext p = [] \<and> sym p = TOKEN))"

abbreviation len :: "mrsh_parser \<Rightarrow> nat" where
  "len p \<equiv> length (ptext p)"

lemma ok_wf: "ok p \<Longrightarrow> parser_wf p"
  by (simp add: ok_def framed_def)

lemma ok_framed: "ok p \<Longrightarrow> framed p"
  by (simp add: ok_def)

lemma framed_moved: "framed p \<Longrightarrow> moved p t q \<Longrightarrow> plain_text t \<Longrightarrow> framed q"
  by (simp add: framed_def moved_def same_frame_def)

lemma framed_no_sym: "framed p \<Longrightarrow> \<not> has_sym p \<Longrightarrow> ok p"
  by (simp add: ok_def)

lemma framed_error [simp]: "framed p \<Longrightarrow> framed (parser_set_error p m)"
  unfolding framed_def by (auto simp: parser_set_error_def parser_wf_def ptext_def split: option.split)

lemma error_sym [simp]: "has_sym (parser_set_error p m) = has_sym p" "sym (parser_set_error p m) = sym p"
  by (auto simp: parser_set_error_def split: option.split)

lemma ok_error [simp]: "ok p \<Longrightarrow> ok (parser_set_error p m)"
  by (auto simp: ok_def)

lemma ok_cur:
  assumes "ok p"
  shows "cur_text p = skip_blanks (ptext p)"
    and "cur_sym p = first_symbol (cur_text p) \<or> cur_text p = [] \<and> cur_sym p = TOKEN"
    and "length (cur_text p) \<le> len p" and "plain_text (cur_text p)"
  using assms skip_length [of "ptext p"] plain_skip [of "ptext p"]
  by (auto simp: ok_def framed_def cur_text_def cur_sym_def)

lemma ok_lexed:
  assumes "ok p" and "lexed p q"
  shows "ok q" and "len q \<le> len p"
proof -
  note cur = ok_cur [OF assms(1)]
  have "framed q"
    using framed_moved [OF ok_framed [OF assms(1)] _ cur(4)] assms(2) by (auto simp: lexed_def)
  with assms(2) cur(1,2) lexed_text [OF assms(2)] show "ok q" by (auto simp: ok_def lexed_def)
  show "len q \<le> len p" using lexed_text [OF assms(2)] cur(3) by simp
qed

lemma ok_moved:
  assumes "ok p" and "moved p (drop n (cur_text p)) q" and "\<not> has_sym q"
  shows "ok q" and "len q = length (cur_text p) - n" and "len q \<le> len p"
  using framed_moved [OF ok_framed [OF assms(1)] assms(2)] plain_drop [OF ok_cur(4) [OF assms(1)]]
    framed_no_sym assms(3) moved_text [OF assms(2)] ok_cur(3) [OF assms(1)]
  by (auto intro: diff_le_self order_trans)

lemma ok_consumed:
  assumes "ok p" and "moved p (drop n (cur_text p)) q" and "0 < n" and "n \<le> length (cur_text p)"
  shows "len q < len p"
  using moved_text [OF assms(2)] ok_cur(3) [OF assms(1)] assms(3,4) by simp

section \<open>Runs that return\<close>

text \<open>A result that satisfies \<open>A\<close> has consumed some of the \<open>k\<close> characters.\<close>

definition runs :: "nat \<Rightarrow> ('a \<Rightarrow> bool) \<Rightarrow> 'a parsing \<Rightarrow> bool" where
  "runs k A m \<longleftrightarrow> post m (\<lambda>r q. ok q \<and> len q \<le> k \<and> (A r \<longrightarrow> len q < k))"

definition steps :: "nat \<Rightarrow> mrsh_parser option \<Rightarrow> bool" where
  "steps k m \<longleftrightarrow> (\<exists>q. m = Some q \<and> ok q \<and> len q \<le> k)"

named_theorems run_rules

lemma runs_Some [run_rules]: "ok q \<Longrightarrow> len q \<le> k \<Longrightarrow> (A r \<Longrightarrow> len q < k) \<Longrightarrow> runs k A (Some (r, q))"
  by (simp add: runs_def post_Some)

lemma runs_bind:
  assumes "runs k' A m" and "k' \<le> k"
    and "\<And>r q. ok q \<Longrightarrow> len q \<le> k' \<Longrightarrow> (A r \<longrightarrow> len q < k') \<Longrightarrow> runs k B (f r q)"
  shows "runs k B (Option.bind m (\<lambda>(r, q). f r q))"
  using assms by (auto simp: runs_def post_def)

lemma steps_bind:
  assumes "steps k' m" and "k' \<le> k" and "\<And>q. ok q \<Longrightarrow> len q \<le> k' \<Longrightarrow> runs k B (f q)"
  shows "runs k B (Option.bind m f)"
  using assms by (auto simp: steps_def)

lemma runs_if [run_rules]:
  "(b \<Longrightarrow> runs k A m) \<Longrightarrow> (\<not> b \<Longrightarrow> runs k A m') \<Longrightarrow> runs k A (if b then m else m')"
  by simp

lemma runs_option [run_rules]:
  "(x = None \<Longrightarrow> runs k A m) \<Longrightarrow> (\<And>y. x = Some y \<Longrightarrow> runs k A (f y)) \<Longrightarrow> runs k A (case_option m f x)"
  by (cases x) simp_all

lemma runs_pair [run_rules]: "(\<And>a b. x = (a, b) \<Longrightarrow> runs k A (f a b)) \<Longrightarrow> runs k A (case_prod f x)"
  by (cases x) simp

lemma runs_weaken: "runs k A m \<Longrightarrow> k \<le> k' \<Longrightarrow> (\<And>r. B r \<Longrightarrow> A r) \<Longrightarrow> runs k' B m"
  by (auto simp: runs_def post_def)

lemma runs_consumed: "runs k A m \<Longrightarrow> k < k' \<Longrightarrow> runs k' B m"
  by (auto simp: runs_def post_def)

section \<open>Symbols, tokens and operators\<close>

lemma symbol_runs [run_rules]: "ok p \<Longrightarrow> runs (len p) (\<lambda>_. False) (symbol p s)"
  using symbol_text [OF ok_wf, of p s] ok_lexed [of p] by (auto simp: runs_def post_def)

lemma token_runs [run_rules]:
  assumes "ok p" and "str \<noteq> []" and "NUL \<notin> set str"
  shows "runs (len p) (\<lambda>b. b) (token p str)"
proof -
  have "runs (len p) (\<lambda>b. b) (Some (b, q))"
    if "b = (cur_sym p = TOKEN \<and> token_matches (cur_text p) str)"
      "if b then moved p (drop (length str) (cur_text p)) q \<and> \<not> has_sym q else lexed p q" for b q
  proof (cases b)
    case True
    with that assms token_matches_starts have "starts_with (cur_text p) str" by blast
    from starts_with_length [OF this] True that assms ok_moved [OF assms(1), of "length str" q]
      ok_consumed [OF assms(1), of "length str" q]
    show ?thesis by (intro run_rules) auto
  qed (use that ok_lexed [OF assms(1)] in \<open>auto intro!: run_rules\<close>)
  with token_text [OF ok_wf [OF assms(1)] assms(2,3)] show ?thesis by (auto simp: post_def)
qed

lemma expect_token_runs [run_rules]:
  "ok p \<Longrightarrow> str \<noteq> [] \<Longrightarrow> NUL \<notin> set str \<Longrightarrow> runs (len p) (\<lambda>b. b) (expect_token p str)"
  unfolding expect_token_def
  by (rule runs_bind [OF token_runs order_refl]) (auto intro!: run_rules)

lemma first_symbol_operator:
  "first_symbol t = s \<Longrightarrow> operator_str s = Some str \<Longrightarrow> starts_with t str"
  by (auto simp: first_symbol_def operator_str_def operators_def split: list.splits if_splits)

lemma operator_cur:
  assumes "ok p" and "operator_str s = Some str" and "cur_sym p = s"
  shows "starts_with (cur_text p) str"
proof -
  have "s \<noteq> TOKEN" using assms(2) by (auto simp: operator_str_def operators_def)
  with ok_cur(2) [OF assms(1)] assms show ?thesis by (auto intro: first_symbol_operator)
qed

lemma operator_runs [run_rules]:
  assumes "ok p" and "operator_str s = Some str"
  shows "runs (len p) (\<lambda>b. b) (operator_rule p s)"
proof -
  have str: "str \<noteq> []" using assms(2) by (auto simp: operator_str_def operators_def split: if_splits)
  have "runs (len p) (\<lambda>b. b) (Some (b, q))"
    if "b = (cur_sym p = s)"
      "if b then moved p (drop (length str) (cur_text p)) q \<and> \<not> has_sym q else lexed p q" for b q
  proof (cases b)
    case True
    with starts_with_length [OF operator_cur [OF assms]] that str ok_moved [OF assms(1), of "length str" q]
      ok_consumed [OF assms(1), of "length str" q]
    show ?thesis by (intro run_rules) auto
  qed (use that ok_lexed [OF assms(1)] in \<open>auto intro!: run_rules\<close>)
  with operator_text [OF ok_wf [OF assms(1)] assms(2) operator_cur [OF assms]] show ?thesis
    by (auto simp: post_def)
qed

lemma newline_cur: "ok p \<Longrightarrow> cur_sym p = NEWLINE \<Longrightarrow> head (cur_text p) = NEWLINE_CHR"
proof -
  assume "ok p" and "cur_sym p = NEWLINE"
  with ok_cur(2) [of p] have "first_symbol (cur_text p) = NEWLINE" by auto
  then show ?thesis
    by (auto simp: first_symbol_def operators_def split: list.splits if_splits)
qed

lemma newline_runs [run_rules]:
  assumes "ok p"
  shows "runs (len p) (\<lambda>b. b) (newline p)"
proof -
  have "runs (len p) (\<lambda>b. b) (Some (b, q))"
    if "b = (cur_sym p = NEWLINE)"
      "if b then moved p (tl (cur_text p)) q \<and> \<not> has_sym q else lexed p q" for b q
  proof (cases b)
    case True
    with newline_cur [OF assms] that have "0 < length (cur_text p)" by (cases "cur_text p") auto
    with True that ok_moved [OF assms, of 1 q] ok_consumed [OF assms, of 1 q]
    show ?thesis by (intro run_rules) (auto simp: drop_Suc)
  qed (use that ok_lexed [OF assms] in \<open>auto intro!: run_rules\<close>)
  with newline_text [OF ok_wf [OF assms] newline_cur [OF assms]] show ?thesis
    by (auto simp: post_def)
qed

lemma linebreak_steps: "ok p \<Longrightarrow> len p < n \<Longrightarrow> steps (len p) (linebreak n p)"
proof (induction n arbitrary: p)
  case (Suc n)
  obtain b q where q: "newline p = Some (b, q)" "ok q" "len q \<le> len p" "b \<longrightarrow> len q < len p"
    using newline_runs [OF Suc.prems(1)] by (auto simp: runs_def post_def)
  with Suc.IH [of q] Suc.prems(2) show ?case
    by (cases b) (auto simp: steps_def)
qed simp

lemma linebreak_bound [run_rules]: "ok p \<Longrightarrow> steps (len p) (linebreak (input_bound p + 2) p)"
  by (rule linebreak_steps) (use ptext_bound [of p] in simp_all)

lemma newline_list_runs [run_rules]:
  assumes "ok p"
  shows "runs (len p) (\<lambda>b. b) (newline_list (input_bound p + 2) p)"
proof -
  obtain b q where q: "newline p = Some (b, q)" "ok q" "len q \<le> len p" "b \<longrightarrow> len q < len p"
    using newline_runs [OF assms] by (auto simp: runs_def post_def)
  with linebreak_steps [of q "input_bound p + 2"] ptext_bound [of p] show ?thesis
    by (cases b) (auto simp: newline_list_def runs_def post_def steps_def simp del: linebreak.simps)
qed

text \<open>After the length of a name or word, the token is still to be read.\<close>

definition at_token :: "nat \<Rightarrow> mrsh_parser \<Rightarrow> bool" where
  "at_token k q \<longleftrightarrow> k \<le> len q \<and> (0 < k \<longrightarrow> has_sym q \<and> sym q = TOKEN)"

lemma at_token_peeked: "at_token k p \<Longrightarrow> parser_wf p \<Longrightarrow> peeked p q \<Longrightarrow> at_token k q"
  using peeked_moved [of p q] by (auto simp: at_token_def moved_def same_sym_def)

lemma ok_peeked: "ok p \<Longrightarrow> peeked p q \<Longrightarrow> ok q \<and> len q = len p"
  using peeked_moved [of p q] ok_wf [of p]
  by (auto simp: ok_def framed_def moved_def same_sym_def same_frame_def)

definition peeks :: "nat \<Rightarrow> nat parsing \<Rightarrow> bool" where
  "peeks k m \<longleftrightarrow> post m (\<lambda>n q. ok q \<and> len q \<le> k \<and> at_token n q)"

lemma peeks_bind:
  assumes "peeks k' m" and "k' \<le> k"
    and "\<And>n q. ok q \<Longrightarrow> len q \<le> k' \<Longrightarrow> at_token n q \<Longrightarrow> runs k B (f n q)"
  shows "runs k B (Option.bind m (\<lambda>(n, q). f n q))"
  using assms by (auto simp: peeks_def post_def)

lemma peek_word_peeks [run_rules]:
  assumes "ok p"
  shows "peeks (len p) (peek_word p e)"
proof -
  have "word_len_from e (cur_text p) 0 \<le> length (cur_text p)"
    using word_len_le [of e "cur_text p" 0] by simp
  with peek_word_text [OF ok_wf [OF assms], of e] ok_lexed [OF assms] lexed_text [of p] show ?thesis
    by (auto simp: peeks_def post_def at_token_def lexed_def)
qed

lemma name_len_le: "name_len b t \<le> length t"
  by (simp add: name_len_def length_takeWhile_le)

lemma peek_name_peeks [run_rules]:
  assumes "ok p"
  shows "peeks (len p) (peek_name p b)"
  using peek_name_text [OF ok_wf [OF assms], of b] ok_lexed [OF assms] lexed_text [of p]
    name_len_le [of b "cur_text p"]
  by (auto simp: peeks_def post_def at_token_def lexed_def)

lemma at_token_cur: "at_token k p \<Longrightarrow> 0 < k \<Longrightarrow> cur_sym p = TOKEN \<and> cur_text p = ptext p"
  by (simp add: at_token_def cur_sym_def cur_text_def)

lemma read_token_bind:
  assumes "ok p" and "at_token n p" and "0 < n"
    and "\<And>s q. ok q \<Longrightarrow> len q < len p \<Longrightarrow> runs k B (f (Some s) q)"
  shows "runs k B (Option.bind (read_token p n) (\<lambda>(r, q). f r q))"
proof -
  note cur = at_token_cur [OF assms(2,3)]
  have n: "n \<le> length (cur_text p)" using assms(2) cur by (simp add: at_token_def)
  obtain q where q: "read_token p n = Some (Some (take n (cur_text p)), q)"
    "moved p (drop n (cur_text p)) q" "\<not> has_sym q"
    using read_token_text [OF ok_wf [OF assms(1)] n] cur by (auto simp: post_def)
  from assms(4) [OF ok_moved(1) [OF assms(1) q(2,3)] ok_consumed [OF assms(1) q(2) assms(3) n]] q(1)
  show ?thesis by simp
qed

lemma peek_at_bind:
  assumes "ok p" and "at_token i p"
    and "\<And>c q. ok q \<Longrightarrow> len q = len p \<Longrightarrow> at_token i q \<Longrightarrow> runs k B (f c q)"
  shows "runs k B (Option.bind (peek_at p i) (\<lambda>(c, q). f c q))"
proof -
  have "i \<le> len p" using assms(2) by (simp add: at_token_def)
  then obtain c q where q: "peek_at p i = Some (c, q)" "peeked p q"
    using peek_at_text [OF ok_wf [OF assms(1)], of i] by (auto simp: post_def)
  from assms(3) [of q c] ok_peeked [OF assms(1) q(2)] at_token_peeked [OF assms(2) ok_wf [OF assms(1)] q(2)] q(1)
  show ?thesis by simp
qed

lemma peek_char_runs:
  assumes "ok p"
    and "\<And>c q. ok q \<Longrightarrow> ptext q = ptext p \<Longrightarrow> same_sym p q \<Longrightarrow> c = head (ptext p) \<Longrightarrow> runs k B (f c q)"
  shows "runs k B (case parser_peek_char p of (c, q) \<Rightarrow> f c q)"
proof -
  obtain c q where pk: "parser_peek_char p = (c, q)" by fastforce
  note q = peek_char_text [OF ok_wf [OF assms(1)] pk]
  have "ok q" using assms(1) q by (auto simp: ok_def framed_def moved_def same_sym_def same_frame_def)
  with assms(2) q pk show ?thesis by (simp add: moved_def)
qed

section \<open>Words\<close>

text \<open>
  Inside of a word the symbol is that of its first character. A part of a word fails only at the end of
  the text.
\<close>

definition inside :: "nat \<Rightarrow> mrsh_parser \<Rightarrow> mrsh_parser \<Rightarrow> bool" where
  "inside k p q \<longleftrightarrow> framed q \<and> same_sym p q \<and> len q \<le> k"

lemma peek_inside:
  assumes "framed p" and "parser_peek_char p = (c, q)"
  shows "framed q" and "same_sym p q" and "ptext q = ptext p" and "c = head (ptext p)"
proof -
  have wf: "parser_wf p" using assms(1) by (simp add: framed_def)
  note q = peek_char_text [OF wf assms(2)]
  show "framed q" using framed_moved [OF assms(1) q(2)] assms(1) by (simp add: framed_def)
  show "same_sym p q" "ptext q = ptext p" "c = head (ptext p)" using q moved_text by auto
qed

lemma skip_inside:
  assumes "framed p" and "ptext p = c # t"
  obtains q where "parser_read_char p = Some (c, q)" and "framed q" and "same_sym p q" and "ptext q = t"
proof -
  have wf: "parser_wf p" and "plain_text t" using assms by (auto simp: framed_def)
  with skip_char_text [OF wf assms(2)] framed_moved [OF assms(1)] that show ?thesis
    by (metis moved_text)
qed

lemma line_inside:
  assumes "framed p" and "ptext p = NEWLINE_CHR # t"
  obtains q where "read_continuation_line p = Some q" and "framed q" and "same_sym p q" and "ptext q = t"
proof -
  have wf: "parser_wf p" and "plain_text t" using assms by (auto simp: framed_def)
  with continuation_line_text [OF wf assms(2)] framed_moved [OF assms(1)] that show ?thesis
    by (metis moved_text)
qed

lemma framed_cases:
  assumes "framed p"
  obtains (Nil) "ptext p = []" | (Cons) c t where "ptext p = c # t" and "c \<noteq> NUL" and "plain_text (c # t)"
  using assms by (cases "ptext p") (auto simp: framed_def)

lemma single_quotes_loop_inside:
  "framed p \<Longrightarrow> len p < n \<Longrightarrow>
   post (single_quotes_loop n p b) (\<lambda>r q. inside (len p) p q \<and> (r = None \<longrightarrow> ptext q = []))"
proof (induction n arbitrary: p b)
  case (Suc n)
  obtain c p1 where pk: "parser_peek_char p = (c, p1)" by fastforce
  note p1 = peek_inside [OF Suc.prems(1) pk]
  from Suc.prems(1) show ?case
  proof (cases rule: framed_cases)
    case Nil
    with pk p1 show ?thesis by (auto simp: post_def inside_def same_sym_def)
  next
    case (Cons d t)
    obtain p2 where p2: "parser_read_char p1 = Some (d, p2)" "framed p2" "same_sym p1 p2" "ptext p2 = t"
      using skip_inside [OF p1(1)] p1(3) Cons(1) by metis
    show ?thesis
    proof (cases "d = CHR 0x27")
      case True
      with pk p1 p2 Cons show ?thesis
        by (auto simp: post_def inside_def intro: same_sym_trans)
    next
      case False
      obtain p3 where p3: "(if d = NEWLINE_CHR then read_continuation_line p1 else skip_char p1) = Some p3"
        "framed p3" "same_sym p1 p3" "ptext p3 = t"
        by (cases "d = NEWLINE_CHR") (use line_inside [OF p1(1), of t] p1(3) Cons(1) p2 in auto)
      from Suc.IH [OF p3(2), of "b @ [d]"] Suc.prems(2) p3(4) Cons(1)
      have "post (single_quotes_loop n p3 (b @ [d])) (\<lambda>r q. inside (len p) p q \<and> (r = None \<longrightarrow> ptext q = []))"
        by (auto simp: post_def inside_def intro: same_sym_trans [OF same_sym_trans [OF p1(2) p3(3)]])
      with False pk p1 p3(1) Cons show ?thesis by simp
    qed
  qed
qed simp

lemma single_quotes_inside:
  assumes "framed p" and "ptext p = CHR 0x27 # t"
  shows "post (single_quotes p) (\<lambda>r q. inside (length t) p q \<and> (r = None \<longrightarrow> ptext q = []))"
proof -
  obtain q where q: "parser_read_char p = Some (CHR 0x27, q)" "framed q" "same_sym p q" "ptext q = t"
    using skip_inside [OF assms] by blast
  have "len q < input_bound q + 2" using ptext_bound [of q] by simp
  from single_quotes_loop_inside [OF q(2) this, of "[]"] q show ?thesis
    by (auto simp: single_quotes_def post_def inside_def intro: same_sym_trans simp del: single_quotes_loop.simps)
qed

lemma double_quotes_loop_inside:
  "framed p \<Longrightarrow> len p < n \<Longrightarrow>
   post (double_quotes_loop n G p ws b) (\<lambda>r q. inside (len p) p q \<and> (r = None \<longrightarrow> ptext q = []))"
proof (induction n arbitrary: p b)
  case (Suc n)
  obtain c p1 where pk: "parser_peek_char p = (c, p1)" by fastforce
  note p1 = peek_inside [OF Suc.prems(1) pk]
  from Suc.prems(1) show ?case
  proof (cases rule: framed_cases)
    case Nil
    with pk p1 show ?thesis by (auto simp: post_def inside_def same_sym_def)
  next
    case (Cons d t)
    obtain p2 where p2: "parser_read_char p1 = Some (d, p2)" "framed p2" "same_sym p1 p2" "ptext p2 = t"
      using skip_inside [OF p1(1)] p1(3) Cons(1) by metis
    show ?thesis
    proof (cases "d = CHR 0x22")
      case True
      with pk p1 p2 Cons show ?thesis
        by (auto simp: post_def inside_def intro: same_sym_trans)
    next
      case False
      from Suc.IH [OF p2(2), of "b @ [d]"] Suc.prems(2) p2(4) Cons(1)
      have "post (double_quotes_loop n G p2 ws (b @ [d])) (\<lambda>r q. inside (len p) p q \<and> (r = None \<longrightarrow> ptext q = []))"
        by (auto simp: post_def inside_def intro: same_sym_trans [OF same_sym_trans [OF p1(2) p2(3)]])
      with False pk p1 p2(1) Cons show ?thesis by simp
    qed
  qed
qed simp

lemma double_quotes_inside:
  assumes "framed p" and "ptext p = CHR 0x22 # t"
  shows "post (double_quotes G p) (\<lambda>r q. inside (length t) p q \<and> (r = None \<longrightarrow> ptext q = []))"
proof -
  obtain q where q: "parser_read_char p = Some (CHR 0x22, q)" "framed q" "same_sym p q" "ptext q = t"
    using skip_inside [OF assms] by blast
  have "len q < input_bound q + 2" using ptext_bound [of q] by simp
  from double_quotes_loop_inside [OF q(2) this, of G "[]" "[]"] q show ?thesis
    by (auto simp: double_quotes_def post_def inside_def intro: same_sym_trans simp del: double_quotes_loop.simps)
qed

lemma word_part_inside:
  assumes "framed p" and "ptext p = c # t" and "starts_part c"
  shows "post (word_part G c p) (\<lambda>r q. inside (length t) p q \<and> (r = None \<longrightarrow> ptext q = []))"
proof -
  have "c = CHR 0x27 \<or> c = CHR 0x22"
    using assms by (auto simp: starts_part_def framed_def)
  with single_quotes_inside [OF assms(1), of t] double_quotes_inside [OF assms(1), of t G] assms(2)
  show ?thesis by (auto simp: word_part_def)
qed

text \<open>The characters at which a word ends.\<close>

definition ends_word :: "char \<Rightarrow> bool" where
  "ends_word c \<longleftrightarrow> c = NUL \<or> c = NEWLINE_CHR \<or> c = CHR '')'' \<or> is_operator_start c \<or> c_isblank c"

lemma word_loop_runs:
  "framed p \<Longrightarrow> has_sym p \<Longrightarrow> sym p = TOKEN \<Longrightarrow> len p < n \<Longrightarrow>
   runs (len p) (\<lambda>r. r \<noteq> None \<and> \<not> ends_word (head (ptext p))) (word_loop n G p NUL ws b)"
proof (induction n arbitrary: p ws b)
  case (Suc n)
  obtain c p1 where pk: "parser_peek_char p = (c, p1)" by fastforce
  note p1 = peek_inside [OF Suc.prems(1) pk]
  have finish: "runs (len p) (\<lambda>r. r \<noteq> None \<and> \<not> ends_word (head (ptext p))) (finish_word ws b p1)"
    if "ends_word (head (ptext p))"
    using that p1 framed_no_sym [of "consume_symbol p1"]
    by (auto simp: finish_word_def runs_def post_Some framed_def consume_symbol_def parser_wf_def ptext_def)
  from Suc.prems(1) show ?case
  proof (cases rule: framed_cases)
    case Nil
    with finish pk p1 show ?thesis by (simp add: ends_word_def)
  next
    case (Cons d t)
    have c: "c = d" using p1(4) Cons(1) by simp
    have next_loop: "runs (len p) A (word_loop n G q NUL ws' b')"
      if "framed q" "same_sym p q" "len q \<le> length t" for q ws' b' A
      using runs_consumed [OF Suc.IH [OF that(1), of ws' b'], of "len p"] that Suc.prems Cons(1)
      by (auto simp: same_sym_def)
    consider (ends) "ends_word d" | (part) "\<not> ends_word d" "starts_part d"
      | (char) "\<not> ends_word d" "\<not> starts_part d" by blast
    then show ?thesis
    proof cases
      case ends
      then have "word_loop (Suc n) G p NUL ws b = finish_word ws b p1"
        using pk c Cons by (auto simp: ends_word_def starts_part_def is_operator_start_def ctype_defs)
      with finish ends Cons(1) show ?thesis by simp
    next
      case part
      obtain r q where q: "word_part G d p1 = Some (r, q)" "inside (length t) p1 q" "r = None \<longrightarrow> ptext q = []"
        using word_part_inside [OF p1(1), of d t G] part p1(3) Cons(1) by (auto simp: post_def)
      have q': "framed q" "same_sym p q" "len q \<le> length t"
        using q(2) same_sym_trans [OF p1(2)] by (auto simp: inside_def)
      show ?thesis
      proof (cases r)
        case None
        with q q' part pk c Suc.prems(2,3) Cons(1) show ?thesis
          by (auto simp: ends_word_def runs_def post_Some ok_def same_sym_def)
      next
        case (Some w)
        with next_loop [OF q', of _ "push_buffer_word_string ws b @ [w]" "[]"] q(1) part pk c
        show ?thesis by (auto simp: ends_word_def)
      qed
    next
      case char
      obtain p2 where p2: "parser_read_char p1 = Some (d, p2)" "framed p2" "same_sym p1 p2" "ptext p2 = t"
        using skip_inside [OF p1(1)] p1(3) Cons(1) by metis
      have "word_loop (Suc n) G p NUL ws b = word_loop n G p2 NUL ws (b @ [d])"
        using pk c char p2(1) Cons(3) by (simp add: ends_word_def)
      with next_loop [OF p2(2), of _ ws "b @ [d]"] same_sym_trans [OF p1(2) p2(3)] p2(4) show ?thesis
        by simp
    qed
  qed
qed simp

lemma first_symbol_token:
  "first_symbol t = TOKEN \<Longrightarrow> t \<noteq> [] \<and> hd t \<noteq> NEWLINE_CHR"
  by (auto simp: first_symbol_def split: list.splits if_splits)

lemma skip_blanks_head: "skip_blanks t = c # u \<Longrightarrow> \<not> c_isblank c"
  by (induction t) (auto split: if_splits simp: ctype_defs dropWhile_eq_Cons_conv)

lemma word_runs [run_rules]:
  assumes "ok p"
  shows "runs (len p) (\<lambda>r. r \<noteq> None) (word_rule G p NUL)"
  unfolding word_rule_def
proof -
  obtain b p1 where p1: "symbol p TOKEN = Some (b, p1)" "b = (cur_sym p = TOKEN)" "lexed p p1"
    using symbol_text [OF ok_wf [OF assms], of TOKEN] by (auto simp: post_def)
  note ok1 = ok_lexed [OF assms p1(3)]
  obtain c p2 where pk: "parser_peek_char p1 = (c, p2)" by fastforce
  note p2 = peek_inside [OF ok_framed [OF ok1(1)] pk]
  have ok2: "ok p2" using ok1(1) p2 by (auto simp: ok_def same_sym_def)
  have "runs (len p2) (\<lambda>r. r \<noteq> None) (word_loop (input_bound p2 + 2) G p2 NUL [] [])"
    if b and c: "\<not> is_operator_start c" "c \<noteq> CHR '')''" "c \<noteq> NUL"
  proof -
    have sym: "has_sym p2" "sym p2 = TOKEN"
      using p1 p2(2) that by (auto simp: lexed_def same_sym_def)
    have t: "ptext p2 = cur_text p" using p2(3) lexed_text [OF p1(3)] by simp
    then obtain u where u: "cur_text p = c # u" using p2(3,4) c(3) by (cases "cur_text p") auto
    have "first_symbol (cur_text p) = TOKEN" using ok_cur(2) [OF assms] p1(2) that u by auto
    with u c skip_blanks_head [of "ptext p" c u] ok_cur(1) [OF assms]
    have "\<not> ends_word (head (ptext p2))" unfolding t
      by (auto simp: ends_word_def dest: first_symbol_token)
    with word_loop_runs [OF p2(1) sym, of "input_bound p2 + 2" G "[]" "[]"] ptext_bound [of p2]
    show ?thesis by (simp del: word_loop.simps)
  qed
  then show "runs (len p) (\<lambda>r. r \<noteq> None)
     (do { (b, p1) \<leftarrow> symbol p TOKEN;
           if \<not> b then Some (None, p1)
           else (case parser_peek_char p1 of (c, p2) \<Rightarrow>
                   if is_operator_start c \<or> c = CHR '')'' \<or> c = NUL then Some (None, p2)
                   else word_loop (input_bound p2 + 2) G p2 NUL [] []) })"
    using p1(1) pk ok1 ok2 p2(3)
    by (auto simp del: word_loop.simps intro!: run_rules elim!: runs_weaken)
qed

section \<open>Commands\<close>

named_theorems run_binds

lemma bind_if [run_binds]:
  "(b \<Longrightarrow> runs k B (Option.bind m f)) \<Longrightarrow> (\<not> b \<Longrightarrow> runs k B (Option.bind m' f)) \<Longrightarrow>
   runs k B (Option.bind (if b then m else m') f)"
  by simp

lemma bind_result [run_binds]: "runs k B (f r q) \<Longrightarrow> runs k B (Option.bind (Some (r, q)) (\<lambda>(r, q). f r q))"
  by simp

lemma bind_state [run_binds]: "runs k B (f q) \<Longrightarrow> runs k B (Option.bind (Some q) (\<lambda>q :: mrsh_parser. f q))"
  by simp

lemmas symbol_bind [run_binds] = runs_bind [OF symbol_runs]
  and token_bind [run_binds] = runs_bind [OF token_runs]
  and expect_token_bind [run_binds] = runs_bind [OF expect_token_runs]
  and operator_bind [run_binds] = runs_bind [OF operator_runs]
  and newline_bind [run_binds] = runs_bind [OF newline_runs]
  and newline_list_bind [run_binds] = runs_bind [OF newline_list_runs]
  and word_bind [run_binds] = runs_bind [OF word_runs]
  and word_tail = runs_weaken [OF word_runs]
  and linebreak_bind [run_binds] = steps_bind [OF linebreak_bound]
  and peek_word_bind [run_binds] = peeks_bind [OF peek_word_peeks]
  and peek_name_bind [run_binds] = peeks_bind [OF peek_name_peeks]
  and newline_list_tail = runs_weaken [OF newline_list_runs]

lemma operator_strs [simp]:
  "operator_str DLESSDASH = Some ''<<-''" "operator_str AND_IF = Some ''&&''" "operator_str OR_IF = Some ''||''"
  "operator_str DSEMI = Some '';;''" "operator_str DLESS = Some ''<<''" "operator_str DGREAT = Some ''>>''"
  "operator_str LESSAND = Some ''<&''" "operator_str GREATAND = Some ''>&''" "operator_str LESSGREAT = Some ''<>''"
  "operator_str CLOBBER = Some ''>|''"
  by (simp_all add: operator_str_def operators_def)

subsection \<open>Separators and redirections\<close>

lemma separator_op_runs: "ok p \<Longrightarrow> runs (len p) (\<lambda>r. r \<noteq> None) (separator_op p)"
  unfolding separator_op_def by (intro run_binds run_rules) auto

lemmas separator_op_bind [run_binds] = runs_bind [OF separator_op_runs]

lemma separator_runs: "ok p \<Longrightarrow> runs (len p) (\<lambda>r. r \<noteq> None) (separator p)"
  unfolding separator_def by (intro run_binds run_rules) auto

lemmas separator_bind [run_binds] = runs_bind [OF separator_runs]

lemma sequential_sep_runs: "ok p \<Longrightarrow> runs (len p) (\<lambda>b. b) (sequential_sep p)"
  unfolding sequential_sep_def by (intro run_binds run_rules newline_list_tail) auto

lemmas sequential_sep_bind [run_binds] = runs_bind [OF sequential_sep_runs]

lemma aliases_steps: "ok p \<Longrightarrow> steps (len p) (apply_aliases G p)"
  by (simp add: apply_aliases_def ok_def framed_def steps_def)

lemmas aliases_bind [run_binds] = steps_bind [OF aliases_steps]

lemma no_here_operator:
  assumes "ok p" and "s = DLESS \<or> s = DLESSDASH"
  shows "post (operator_rule p s) (\<lambda>b q. \<not> b \<and> ok q \<and> len q \<le> len p)"
proof -
  have dash: "starts_with t ''<<''" if "starts_with t ''<<-''" for t
    using that by (cases t; cases "tl t") auto
  obtain str where str: "operator_str s = Some str" and two: "starts_with t str \<Longrightarrow> starts_with t ''<<''" for t
    using assms(2) dash by fastforce
  have "cur_sym p \<noteq> s"
  proof
    assume "cur_sym p = s"
    from two [OF operator_cur [OF assms(1) str this]] ok_cur(4) [OF assms(1)] show False
      by (cases "cur_text p"; cases "tl (cur_text p)") auto
  qed
  with operator_text [OF ok_wf [OF assms(1)] str operator_cur [OF assms(1) str]] ok_lexed [OF assms(1)]
  show ?thesis by (auto simp: post_def)
qed

lemma io_here_none: "ok p \<Longrightarrow> post (io_here G p) (\<lambda>r q. r = None \<and> ok q \<and> len q \<le> len p)"
proof -
  assume "ok p"
  with no_here_operator [of p DLESS] obtain q where
    q: "operator_rule p DLESS = Some (False, q)" "ok q" "len q \<le> len p" by (auto simp: post_def)
  with no_here_operator [of q DLESSDASH] obtain r where
    "operator_rule q DLESSDASH = Some (False, r)" "ok r" "len r \<le> len q" by (auto simp: post_def)
  with q show ?thesis by (simp add: io_here_def post_Some)
qed

lemma try_operators_runs:
  "ok p \<Longrightarrow> \<forall>(s, op) \<in> set ops. operator_str s \<noteq> None \<Longrightarrow> runs (len p) (\<lambda>r. r \<noteq> None) (try_operators ops p)"
proof (induction ops arbitrary: p)
  case (Cons x ops)
  obtain s op str where x: "x = (s, op)" "operator_str s = Some str" using Cons.prems(2) by (cases x) auto
  show ?case unfolding x(1) try_operators.simps
    by (rule operator_bind [OF Cons.prems(1) x(2) order_refl])
      (use Cons in \<open>auto intro!: run_rules intro: runs_weaken [OF Cons.IH]\<close>)
qed (auto intro: runs_Some)

lemma io_redirect_op_runs: "ok p \<Longrightarrow> runs (len p) (\<lambda>r. r \<noteq> None) (io_redirect_op p)"
  unfolding io_redirect_op_def
  by (intro run_binds run_rules runs_weaken [OF try_operators_runs]) (auto simp: io_operators_def)

lemmas io_redirect_op_bind [run_binds] = runs_bind [OF io_redirect_op_runs]

lemma io_file_runs: "ok p \<Longrightarrow> runs (len p) (\<lambda>r. r \<noteq> None) (io_file G p)"
  unfolding io_file_def io_filename_def by (intro run_binds run_rules) auto

lemmas io_file_bind [run_binds] = runs_bind [OF io_file_runs]

lemma io_number_runs:
  assumes "ok p"
  shows "runs (len p) (\<lambda>n. 0 \<le> n) (io_number_rule p)"
proof -
  obtain b p1 where p1: "symbol p TOKEN = Some (b, p1)" "lexed p p1"
    using symbol_text [OF ok_wf [OF assms], of TOKEN] by (auto simp: post_def)
  note ok1 = ok_lexed [OF assms p1(2)]
  obtain c p2 where pk: "parser_peek_char p1 = (c, p2)" by fastforce
  note p2 = peek_inside [OF ok_framed [OF ok1(1)] pk]
  have ok2: "ok p2" using ok1(1) p2 by (auto simp: ok_def same_sym_def)
  obtain cs p3 where two: "peek_two p2 = (cs, p3)" by fastforce
  note p3 = peek_two_text [OF ok_wf [OF ok2] two]
  have ok3: "ok p3" using ok2 p3(2,3) by (auto simp: ok_def framed_def moved_def same_sym_def same_frame_def)
  have len3: "len p3 \<le> len p" using moved_text [OF p3(2)] p2(3) ok1(2) by simp
  have digit: "runs (len p) (\<lambda>n. 0 \<le> n)
      (do { p4 \<leftarrow> skip_char p3; Some (int (ch c) - 48, consume_symbol p4) })" if "c_isdigit c"
  proof -
    have "c \<noteq> NUL" using that by auto
    then obtain t where t: "ptext p3 = c # t"
      using moved_text [OF p3(2)] p2(3,4) by (cases "ptext p1") auto
    obtain p4 where p4: "parser_read_char p3 = Some (c, p4)" "framed p4" "ptext p4 = t"
      using skip_inside [OF ok_framed [OF ok3] t] by blast
    then have "ok (consume_symbol p4)" "len (consume_symbol p4) < len p"
      using len3 t by (auto simp: ok_def framed_def consume_symbol_def parser_wf_def ptext_def)
    with p4(1) show ?thesis by (auto intro!: run_rules)
  qed
  show ?thesis
    unfolding io_number_rule_def using p1(1) pk two ok1 ok2 ok3 len3 p2(3) digit
    by (auto intro!: runs_Some)
qed

lemmas io_number_bind [run_binds] = runs_bind [OF io_number_runs]

lemma io_redirect_runs: "ok p \<Longrightarrow> runs (len p) (\<lambda>r. r \<noteq> None) (io_redirect G p)"
  unfolding io_redirect_def
proof (intro run_binds runs_option)
  fix n p1 f p2
  assume p2: "ok p2" "len p2 \<le> len p1" "len p1 \<le> len p" and "f = None"
  obtain q where "io_here G p2 = Some (None, q)" "ok q" "len q \<le> len p2"
    using io_here_none [OF p2(1)] by (auto simp: post_def)
  with p2 show "runs (len p) (\<lambda>r. r \<noteq> None)
      (do { (h, p3) \<leftarrow> io_here G p2;
            (case h of
               Some (op, name) \<Rightarrow>
                 Some (Some (Io_redirect_at (length (redirects p3))),
                   p3\<lparr>redirects := redirects p3 @ [Io_redirect n op name []],
                      here_documents := here_documents p3 @ [length (redirects p3)]\<rparr>)
             | None \<Rightarrow>
                 Some (None, if n \<ge> 0 then set_error p3 ''expected an IO redirect after IO number'' else p3)) })"
    by (auto intro!: runs_Some)
qed (auto intro!: run_rules)

lemmas io_redirect_bind [run_binds] = runs_bind [OF io_redirect_runs]

subsection \<open>Simple commands\<close>

lemma read_one:
  assumes "ok p" and "\<not> has_sym p" and "ptext p = c # t"
  shows "runs (len p) (\<lambda>_. True) (parser_read p 1)"
proof -
  obtain q where q: "parser_read p 1 = Some ([c], q)" "moved p t q" "same_sym p q"
    using read_text [OF ok_wf [OF assms(1)], of 1] assms(3) by (auto simp: post_def)
  have "framed q"
    using framed_moved [OF ok_framed [OF assms(1)] q(2)] assms(1,3) by (auto simp: ok_def framed_def)
  then have "ok q" using assms(2) q(3) by (simp add: ok_def same_sym_def)
  with q assms(3) show ?thesis by (auto simp: moved_def intro!: run_rules)
qed

lemma assignment_word_runs:
  assumes "ok p"
  shows "runs (len p) (\<lambda>r. r \<noteq> None) (assignment_word G p)"
  unfolding assignment_word_def
proof (intro run_binds run_rules assms)
  fix b p1 n p2
  assume p1: "ok p1" "len p1 \<le> len p" and p2: "ok p2" "len p2 \<le> len p1" "at_token n p2" and n: "n \<noteq> 0"
  have "n \<le> len p2" using p2(3) by (simp add: at_token_def)
  obtain c p3 where p3: "peek_at p2 n = Some (c, p3)" "peeked p2 p3" "c = (ptext p2 @ [NUL]) ! n"
    using peek_at_text [OF ok_wf [OF p2(1)] \<open>n \<le> len p2\<close>] by (auto simp: post_def)
  note ok3 = ok_peeked [OF p2(1) p3(2)] and tok3 = at_token_peeked [OF p2(3) ok_wf [OF p2(1)] p3(2)]
  have "runs (len p) (\<lambda>r. r \<noteq> None)
      (do { (tok, p4) \<leftarrow> read_token p3 n; name \<leftarrow> tok; (_, p5) \<leftarrow> parser_read p4 1; (v, p6) \<leftarrow> word_rule G p5 NUL;
            Some (Some (Assignment name (case v of None \<Rightarrow> mrsh_word_string_create [] False | Some w \<Rightarrow> w)), p6) })"
    if c: "c = CHR ''=''"
  proof -
    have lt: "n < len p2" using c p3(3) \<open>n \<le> len p2\<close> by (cases "n = len p2") auto
    note cur = at_token_cur [OF tok3]
    have t3: "ptext p3 = ptext p2" using peeked_ptext [OF p3(2) ok_wf [OF p2(1)]] .
    obtain p4 where p4: "read_token p3 n = Some (Some (take n (ptext p3)), p4)"
      "moved p3 (drop n (ptext p3)) p4" "\<not> has_sym p4"
      using read_token_text [of p3 n] ok3 cur n lt t3 ok_wf by (auto simp: post_def)
    have ok4: "ok p4" using ok_moved(1) [of p3 n p4] ok3 p4 cur n by simp
    obtain d u where u: "ptext p4 = d # u" using moved_text [OF p4(2)] lt t3 by (cases "drop n (ptext p2)") auto
    have len4: "len p4 < len p" using moved_text [OF p4(2)] t3 n lt p2(2) p1(2) by simp
    show ?thesis
      unfolding p4(1) Option.bind.bind_lunit prod.case
      by (rule runs_bind [OF read_one [OF ok4 p4(3) u]])
        (use len4 in \<open>auto intro!: run_binds run_rules\<close>)
  qed
  with p3(1) ok3 p2 p1 show "runs (len p) (\<lambda>r. r \<noteq> None)
      (do { (c, p3) \<leftarrow> peek_at p2 n;
            if c \<noteq> CHR ''='' then Some (None, p3)
            else do { (tok, p4) \<leftarrow> read_token p3 n; name \<leftarrow> tok; (_, p5) \<leftarrow> parser_read p4 1;
                      (v, p6) \<leftarrow> word_rule G p5 NUL;
                      Some (Some (Assignment name
                        (case v of None \<Rightarrow> mrsh_word_string_create [] False | Some w \<Rightarrow> w)), p6) } })"
    by (auto intro!: run_rules)
qed auto

lemmas assignment_word_bind [run_binds] = runs_bind [OF assignment_word_runs]

lemma cmd_prefix_runs: "ok p \<Longrightarrow> runs (len p) (\<lambda>r. r \<noteq> None) (cmd_prefix G p cmd)"
  unfolding cmd_prefix_def by (intro run_binds run_rules) auto

lemma cmd_suffix_runs: "ok p \<Longrightarrow> runs (len p) (\<lambda>r. r \<noteq> None) (cmd_suffix G p cmd)"
  unfolding cmd_suffix_def by (intro run_binds run_rules) auto

lemma cmd_name_runs: "ok p \<Longrightarrow> runs (len p) (\<lambda>r. r \<noteq> None) (cmd_name G p)"
  unfolding cmd_name_def
  by (intro run_binds run_rules read_token_bind word_tail) (auto intro!: run_rules)

lemmas cmd_name_bind [run_binds] = runs_bind [OF cmd_name_runs]

lemma repeat_parts_runs:
  assumes f: "\<And>p cmd. ok p \<Longrightarrow> runs (len p) (\<lambda>r. r \<noteq> None) (f p cmd)"
  shows "ok p \<Longrightarrow> len p < n \<Longrightarrow> runs (len p) (\<lambda>r. r \<noteq> cmd) (repeat_parts n f p cmd)"
proof (induction n arbitrary: p cmd)
  case (Suc n)
  show ?case unfolding repeat_parts.simps
    by (rule runs_bind [OF f [OF Suc.prems(1)] order_refl], rule runs_option)
      (use Suc.prems in \<open>auto intro!: runs_Some intro: runs_consumed [OF Suc.IH]\<close>)
qed simp

lemma prefixes_runs:
  "ok p \<Longrightarrow> len p < n \<Longrightarrow> runs (len p) (\<lambda>r. r \<noteq> cmd) (repeat_parts n (cmd_prefix G) p cmd)"
  by (rule repeat_parts_runs [OF cmd_prefix_runs])

lemma suffixes_runs:
  "ok p \<Longrightarrow> len p < n \<Longrightarrow> runs (len p) (\<lambda>r. r \<noteq> cmd) (repeat_parts n (cmd_suffix G) p cmd)"
  by (rule repeat_parts_runs [OF cmd_suffix_runs])

lemma simple_command_runs:
  assumes "ok p" and "len p < g_fuel G"
  shows "runs (len p) (\<lambda>r. r \<noteq> None) (simple_command G p)"
  unfolding simple_command_def
  using assms
  by (intro runs_bind [OF prefixes_runs] runs_bind [OF suffixes_runs] run_binds run_rules) auto

subsection \<open>Function definitions\<close>

lemma peek_paren_text:
  "parser_wf p \<Longrightarrow> i \<le> len p \<Longrightarrow> len p - i < n \<Longrightarrow> post (peek_paren n p i) (\<lambda>b q. peeked p q)"
proof (induction n arbitrary: p i)
  case (Suc n)
  obtain c q where q: "peek_at p i = Some (c, q)" "peeked p q" "c = (ptext p @ [NUL]) ! i"
    using peek_at_text [OF Suc.prems(1,2)] by (auto simp: post_def)
  show ?case
  proof (cases "c_isblank c")
    case True
    then have "i < len p" using q(3) Suc.prems(2) by (cases "i = len p") auto
    moreover from this have "len p - Suc i < n" using Suc.prems(3) by simp
    ultimately obtain b r where "peek_paren n q (i + 1) = Some (b, r)" "peeked q r"
      using Suc.IH [of q "i + 1"] Suc.prems(1) peeked_wf [OF q(2)] peeked_ptext [OF q(2)]
      by (auto simp: post_def)
    with q(1,2) True show ?thesis by (auto simp: post_def intro: peeked_trans)
  qed (use q in \<open>auto simp: post_def\<close>)
qed simp

lemma peek_paren_bind:
  assumes "ok p" and "at_token i p"
    and "\<And>c q. ok q \<Longrightarrow> len q = len p \<Longrightarrow> at_token i q \<Longrightarrow> runs k B (f c q)"
  shows "runs k B (Option.bind (peek_paren (input_bound p + 2) p i) (\<lambda>(c, q). f c q))"
proof -
  have "i \<le> len p" "len p - i < input_bound p + 2"
    using assms(2) ptext_bound [of p] by (simp_all add: at_token_def)
  then obtain b q where q: "peek_paren (input_bound p + 2) p i = Some (b, q)" "peeked p q"
    using peek_paren_text [OF ok_wf [OF assms(1)], of i "input_bound p + 2"]
    by (auto simp: post_def simp del: peek_paren.simps)
  from assms(3) [of q b] ok_peeked [OF assms(1) q(2)] at_token_peeked [OF assms(2) ok_wf [OF assms(1)] q(2)] q(1)
  show ?thesis by simp
qed

lemma unspecified_runs: "ok p \<Longrightarrow> runs (len p) (\<lambda>_. False) (unspecified_word p)"
  unfolding unspecified_word_def Let_def
  by (intro run_binds run_rules peek_at_bind) auto

lemmas unspecified_bind = runs_bind [OF unspecified_runs]

lemma otherwise_runs:
  "runs k (\<lambda>r. r \<noteq> None) m \<Longrightarrow> (\<And>q. ok q \<Longrightarrow> len q \<le> k \<Longrightarrow> runs k (\<lambda>r. r \<noteq> None) (f q)) \<Longrightarrow>
   runs k (\<lambda>r. r \<noteq> None) (otherwise m f)"
  unfolding otherwise_def by (rule runs_bind) (auto intro!: runs_Some)

section \<open>The recursive rules\<close>

text \<open>
  What the rules rely on: the functions they call recursively return on texts of fewer than \<open>k\<close>
  characters, and the loops have fuel for \<open>k\<close>.
\<close>

locale parsing_grammar =
  fixes G :: grammar and k :: nat
  assumes fuel: "k < g_fuel G"
    and and_or_call: "ok p \<Longrightarrow> len p < k \<Longrightarrow> runs (len p) (\<lambda>r. r \<noteq> None) (g_and_or G p)"
    and compound_call: "ok p \<Longrightarrow> len p < k \<Longrightarrow> runs (len p) (\<lambda>r. r \<noteq> None) (g_compound_command G p)"
    and else_call: "ok p \<Longrightarrow> len p < k \<Longrightarrow> runs (len p) (\<lambda>r. r \<noteq> None) (g_else_part G p)"
begin

lemmas and_or_call_bind = runs_bind [OF and_or_call]
  and compound_call_bind = runs_bind [OF compound_call]
  and else_call_bind = runs_bind [OF else_call]

lemma no_here_bind:
  "ok p \<Longrightarrow> runs l B (f True p) \<Longrightarrow>
   runs l B (Option.bind (if c \<and> here_documents p \<noteq> [] then m else Some (True, p)) (\<lambda>(r, q). f r q))"
  by (simp add: ok_def framed_def)

lemma term_runs: "ok p \<Longrightarrow> len p < k \<Longrightarrow> runs (len p) (\<lambda>r. r \<noteq> None) (term_rule G p)"
  unfolding term_rule_def
  by (rule and_or_call_bind) (auto intro!: runs_Some runs_option separator_bind no_here_bind)

lemmas term_bind = runs_bind [OF term_runs]

lemma term_loop_runs:
  "ok p \<Longrightarrow> len p < n \<Longrightarrow> len p < k \<Longrightarrow> runs (len p) (\<lambda>_. False) (term_loop n G p cmds)"
proof (induction n arbitrary: p cmds)
  case (Suc n)
  show ?case unfolding term_loop.simps
    by (rule runs_bind [OF term_runs [OF Suc.prems(1,3)] order_refl], rule runs_option)
      (use Suc.prems in \<open>auto intro!: runs_Some intro: runs_consumed [OF Suc.IH]\<close>)
qed simp

lemmas term_loop_bind = runs_bind [OF term_loop_runs]

lemma compound_list_runs: "ok p \<Longrightarrow> len p < k \<Longrightarrow> runs (len p) (\<lambda>r. r \<noteq> None) (compound_list G p)"
  unfolding compound_list_def using fuel
  by (intro run_binds run_rules term_bind term_loop_bind) auto

lemmas compound_list_bind = runs_bind [OF compound_list_runs]

lemma expect_compound_list_runs:
  "ok p \<Longrightarrow> len p < k \<Longrightarrow> runs (len p) (\<lambda>r. r \<noteq> None) (expect_compound_list G p)"
  unfolding expect_compound_list_def
  by (rule compound_list_bind) (auto intro!: runs_Some)

lemmas expect_compound_list_bind = runs_bind [OF expect_compound_list_runs]

lemma brace_group_runs:
  assumes "ok p" and "len p \<le> k"
  shows "runs (len p) (\<lambda>r. r \<noteq> None) (brace_group G p)"
  unfolding brace_group_def using assms
  by (intro run_binds run_rules expect_compound_list_bind) auto

lemma subshell_runs:
  assumes "ok p" and "len p \<le> k"
  shows "runs (len p) (\<lambda>r. r \<noteq> None) (subshell G p)"
  unfolding subshell_def using assms
  by (intro run_binds run_rules expect_compound_list_bind) auto

lemma if_body_runs: "ok p \<Longrightarrow> len p < k \<Longrightarrow> runs (len p) (\<lambda>r. r \<noteq> None) (if_body G p)"
  unfolding if_body_def
  by (intro run_binds run_rules expect_compound_list_bind) auto

lemmas if_body_bind = runs_bind [OF if_body_runs]

lemma else_part_runs:
  assumes "ok p" and "len p \<le> k"
  shows "runs (len p) (\<lambda>r. r \<noteq> None) (else_part_rule G p)"
  unfolding else_part_rule_def using assms
  by (intro run_binds run_rules if_body_bind else_call_bind expect_compound_list_bind) auto

lemmas else_part_bind = runs_bind [OF else_part_runs]

lemma if_clause_runs:
  assumes "ok p" and "len p \<le> k"
  shows "runs (len p) (\<lambda>r. r \<noteq> None) (if_clause G p)"
  unfolding if_clause_def using assms
  by (intro run_binds run_rules if_body_bind else_part_bind) auto

lemma wordlist_loop_runs: "ok p \<Longrightarrow> len p < n \<Longrightarrow> runs (len p) (\<lambda>_. False) (wordlist_loop n G p ws)"
proof (induction n arbitrary: p ws)
  case (Suc n)
  show ?case unfolding wordlist_loop.simps
    by (rule word_bind [OF Suc.prems(1) order_refl], rule runs_option)
      (use Suc.prems in \<open>auto intro!: runs_Some intro: runs_consumed [OF Suc.IH]\<close>)
qed simp

lemma wordlist_runs: "ok p \<Longrightarrow> len p \<le> k \<Longrightarrow> runs (len p) (\<lambda>_. False) (wordlist G p)"
  unfolding wordlist_def using fuel by (intro wordlist_loop_runs) auto

lemma expect_do_group_runs: "ok p \<Longrightarrow> len p \<le> k \<Longrightarrow> runs (len p) (\<lambda>r. r \<noteq> None) (expect_do_group G p)"
  unfolding expect_do_group_def
  by (intro run_binds run_rules expect_compound_list_bind) auto

lemmas expect_do_group_bind = runs_bind [OF expect_do_group_runs]

lemma loop_clause_runs:
  assumes "ok p" and "len p \<le> k"
  shows "runs (len p) (\<lambda>r. r \<noteq> None) (loop_clause G p)"
  unfolding loop_clause_def using assms
  by (intro run_binds run_rules expect_compound_list_bind expect_do_group_bind) auto

lemma name_bind:
  assumes "\<And>s q. ok q \<Longrightarrow> len q < len p \<Longrightarrow> runs l B (f s q)" and "ok p" and "at_token n p" and "0 < n"
  shows "runs l B (do { (tok, q) \<leftarrow> read_token p n; s \<leftarrow> tok; f s q })"
  using assms by (intro read_token_bind) simp_all

lemmas wordlist_bind = runs_bind [OF wordlist_runs]

lemma for_clause_runs:
  assumes "ok p" and "len p \<le> k"
  shows "runs (len p) (\<lambda>r. r \<noteq> None) (for_clause G p)"
  unfolding for_clause_def using assms
  by (intro name_bind run_binds run_rules wordlist_bind expect_do_group_bind) auto

lemma patterns_loop_runs: "ok p \<Longrightarrow> len p < n \<Longrightarrow> runs (len p) (\<lambda>_. False) (patterns_loop n G p ws)"
proof (induction n arbitrary: p ws)
  case (Suc n)
  show ?case unfolding patterns_loop.simps using Suc.prems
    by (intro run_binds run_rules) (auto intro!: runs_consumed [OF Suc.IH])
qed simp

lemmas patterns_bind = runs_bind [OF patterns_loop_runs]

lemma case_item_runs:
  assumes "ok p" and "len p \<le> k"
  shows "runs (len p) (\<lambda>r. r \<noteq> None) (expect_case_item G p)"
  unfolding expect_case_item_def using assms fuel
  by (intro run_binds run_rules patterns_bind compound_list_bind) auto

lemmas case_item_bind = runs_bind [OF case_item_runs]

lemma case_items_loop_runs:
  "ok p \<Longrightarrow> len p < n \<Longrightarrow> len p \<le> k \<Longrightarrow> runs (len p) (\<lambda>_. False) (case_items_loop n G p items)"
proof (induction n arbitrary: p items)
  case (Suc n)
  show ?case unfolding case_items_loop.simps using Suc.prems
    by (intro run_binds run_rules case_item_bind) (auto intro!: runs_consumed [OF Suc.IH])
qed simp

lemmas case_items_bind = runs_bind [OF case_items_loop_runs]

lemma case_clause_runs:
  assumes "ok p" and "len p \<le> k"
  shows "runs (len p) (\<lambda>r. r \<noteq> None) (case_clause G p)"
  unfolding case_clause_def using assms fuel
  by (intro run_binds run_rules case_items_bind) auto

lemma io_redirects_loop_runs: "ok p \<Longrightarrow> len p < n \<Longrightarrow> runs (len p) (\<lambda>_. False) (io_redirects_loop n G p rs)"
proof (induction n arbitrary: p rs)
  case (Suc n)
  show ?case unfolding io_redirects_loop.simps using Suc.prems
    by (intro run_binds run_rules) (auto intro!: runs_consumed [OF Suc.IH])
qed simp

lemmas io_redirects_bind = runs_bind [OF io_redirects_loop_runs]

lemma function_definition_runs:
  assumes "ok p" and "len p \<le> k"
  shows "runs (len p) (\<lambda>r. r \<noteq> None) (function_definition G p)"
  unfolding function_definition_def using assms fuel
  by (intro peek_paren_bind name_bind run_binds run_rules compound_call_bind io_redirects_bind) auto

lemmas compound_tails =
  runs_weaken [OF brace_group_runs] runs_weaken [OF subshell_runs] runs_weaken [OF if_clause_runs]
  runs_weaken [OF for_clause_runs] runs_weaken [OF loop_clause_runs] runs_weaken [OF case_clause_runs]
  runs_weaken [OF function_definition_runs]

lemma compound_command_runs:
  assumes "ok p" and "len p \<le> k"
  shows "runs (len p) (\<lambda>r. r \<noteq> None) (compound_command G p)"
  unfolding compound_command_def using assms
  by (intro otherwise_runs compound_tails unspecified_bind run_rules) auto

lemma command_runs:
  assumes "ok p" and "len p \<le> k"
  shows "runs (len p) (\<lambda>r. r \<noteq> None) (command_rule G p)"
  unfolding command_rule_def using assms fuel
  by (intro run_binds aliases_bind otherwise_runs runs_weaken [OF compound_command_runs]
        runs_weaken [OF simple_command_runs]) auto

lemmas command_bind = runs_bind [OF command_runs]

lemma pipeline_loop_runs:
  "ok p \<Longrightarrow> len p < n \<Longrightarrow> len p \<le> k \<Longrightarrow> runs (len p) (\<lambda>_. False) (pipeline_loop n G p cmds)"
proof (induction n arbitrary: p cmds)
  case (Suc n)
  show ?case unfolding pipeline_loop.simps using Suc.prems
    by (intro run_binds run_rules command_bind) (auto intro!: runs_consumed [OF Suc.IH])
qed simp

lemmas pipeline_loop_bind = runs_bind [OF pipeline_loop_runs]

lemma pipeline_runs:
  assumes "ok p" and "len p \<le> k"
  shows "runs (len p) (\<lambda>r. r \<noteq> None) (pipeline G p)"
  unfolding pipeline_def using assms fuel
  by (intro run_binds run_rules command_bind pipeline_loop_bind) auto

lemmas pipeline_bind = runs_bind [OF pipeline_runs]

lemma and_or_runs:
  assumes "ok p" and "len p \<le> k"
  shows "runs (len p) (\<lambda>r. r \<noteq> None) (and_or G p)"
  unfolding and_or_def using assms
  by (intro run_binds run_rules pipeline_bind and_or_call_bind) auto

lemmas and_or_bind = runs_bind [OF and_or_runs]

lemma list_runs:
  assumes "ok p" and "len p \<le> k"
  shows "runs (len p) (\<lambda>r. r \<noteq> None) (list_rule G p)"
  unfolding list_rule_def using assms
  by (intro run_binds run_rules and_or_bind) auto

lemmas list_bind = runs_bind [OF list_runs]

lemma list_loop_runs:
  "ok p \<Longrightarrow> len p < n \<Longrightarrow> len p \<le> k \<Longrightarrow> runs (len p) (\<lambda>_. False) (list_loop n G p cmds)"
proof (induction n arbitrary: p cmds)
  case (Suc n)
  show ?case unfolding list_loop.simps using Suc.prems
    by (intro run_binds run_rules list_bind) (auto intro!: runs_consumed [OF Suc.IH])
qed simp

lemmas list_loop_bind = runs_bind [OF list_loop_runs]

lemma here_documents_bind:
  assumes "ok p" and "runs l B (f True p)"
  shows "runs l B (Option.bind (here_documents_loop G' b (here_documents p) p) (\<lambda>(r, q). f r q))"
proof -
  have none: "here_documents p = []" using assms(1) by (simp add: ok_def framed_def)
  then have same: "p\<lparr>here_documents := []\<rparr> = p" by (cases p) simp
  show ?thesis using none assms(2) by (simp only: here_documents_loop.simps bind.bind_lunit prod.case same)
qed

lemma complete_command_runs:
  assumes "ok p" and "len p \<le> k"
  shows "runs (len p) fst (complete_command G p cmds)"
  unfolding complete_command_def using assms fuel
  by (intro run_binds run_rules list_bind list_loop_bind here_documents_bind) auto

lemmas complete_command_bind = runs_bind [OF complete_command_runs]

lemma expect_complete_command_runs:
  assumes "ok p" and "len p \<le> k"
  shows "runs (len p) fst (expect_complete_command G p cmds)"
  using complete_command_runs [OF assms, of cmds]
  by (auto simp: expect_complete_command_def runs_def post_def split: prod.split)

lemmas expect_complete_command_bind = runs_bind [OF expect_complete_command_runs]

lemma program_loop_runs:
  "ok p \<Longrightarrow> len p < n \<Longrightarrow> len p \<le> k \<Longrightarrow> runs (len p) (\<lambda>_. False) (program_loop n G p body)"
proof (induction n arbitrary: p body)
  case (Suc n)
  show ?case unfolding program_loop.simps eof_symbol_def using Suc.prems
    by (intro run_binds run_rules complete_command_bind)
      (auto intro!: runs_consumed [OF Suc.IH] linebreak_bind run_rules simp del: linebreak.simps)
qed simp

lemmas program_loop_bind = runs_bind [OF program_loop_runs]

lemma program_runs:
  assumes "ok p" and "len p \<le> k"
  shows "runs (len p) (\<lambda>_. False) (program_rule G p)"
  unfolding program_rule_def eof_symbol_def using assms fuel
  by (intro run_binds run_rules expect_complete_command_bind program_loop_bind)
    (auto intro!: program_loop_bind run_rules)

end

section \<open>The grammar of the program\<close>

text \<open>A nesting of one more than the number of characters is enough.\<close>

lemma parsing_grammar_Suc: "parsing_grammar (grammar (Suc n)) n"
proof (induction n)
  case 0
  show ?case by unfold_locales simp_all
next
  case (Suc n)
  show ?case
    by unfold_locales
      (simp_all del: not_None_eq add: parsing_grammar.and_or_runs [OF Suc] parsing_grammar.compound_command_runs [OF Suc]
         parsing_grammar.else_part_runs [OF Suc])
qed

interpretation wg: parsing_grammar "grammar (Suc n)" n for n
  by (rule parsing_grammar_Suc)

lemma ok_begin: "ok p \<Longrightarrow> ok (parser_begin p)"
  by (auto simp: parser_begin_def ok_def framed_def parser_wf_def ptext_def parser_set_error_def)

lemma begin_text [simp]: "ptext (parser_begin p) = ptext p"
  by (simp add: parser_begin_def ptext_def parser_set_error_def)

lemma plain_no_nul: "plain_text t \<Longrightarrow> NUL \<notin> set t"
  by (induction t) auto

lemma ok_with_data: "plain_text str \<Longrightarrow> ok (mrsh_parser_with_data str)"
  using plain_no_nul wf_with_data [of str]
  by (auto simp: ok_def framed_def mrsh_parser_with_data_def parser_create_def ptext_def takeWhile_append)

lemma parse_program_runs:
  "ok p \<Longrightarrow> len p < n \<Longrightarrow> runs (len p) (\<lambda>_. False) (mrsh_parse_program (grammar n) p)"
  using wg.program_runs [OF ok_begin, of p "n - 1"] by (cases n) (auto simp: mrsh_parse_program_def)

text \<open>
  C12: parsing a text that has no expansions, escapes and here-documents returns, whatever the text is:
  the parser ends with a program or with an error and its position, and none of its reads, tokens and
  assertions goes past the end of the text.
\<close>

theorem parse_text_returns:
  assumes "plain_text str"
  shows "\<exists>r. parse_text str = Some r"
proof -
  have "len (mrsh_parser_with_data str) < parse_fuel (length str)"
    using plain_no_nul [OF assms] by (simp add: parse_fuel_def)
  from parse_program_runs [OF ok_with_data [OF assms] this] show ?thesis
    by (auto simp: parse_text_def parse_with_def runs_def post_def split: prod.split)
qed

theorem parse_text_returns_witness:
  "plain_text ''if a; then b | (c); fi &'' \<and> (\<exists>r. parse_text ''if a; then b | (c); fi &'' = Some r)"
  using parse_text_returns [of "''if a; then b | (c); fi &''"] by simp

end
