(* ===== verification/Wsh_Reading.thy ===== *)
theory Wsh_Reading
  imports Wsh_Format Wsh_Parse_Total
begin

text \<open>
  Reading a known text: which result each function of the parser returns when the text that is left
  starts in a given way, and what is left of the text then. The trees whose text can be read back are
  defined here, and the words, tokens and simple commands of such a text are read.
\<close>

section \<open>Trees whose text can be read\<close>

text \<open>The characters of an unquoted word, and of a string in double quotes.\<close>

definition word_char :: "char \<Rightarrow> bool" where
  "word_char c \<longleftrightarrow>
     c \<notin> {NUL, NEWLINE_CHR, CHR '')'', CHR ''$'', CHR ''`'', CHR 0x27, CHR 0x22, CHR 0x5C}
     \<and> \<not> is_operator_start c \<and> \<not> c_isblank c"

definition quoted_char :: "char \<Rightarrow> bool" where
  "quoted_char c \<longleftrightarrow> c \<notin> {NUL, CHR ''$'', CHR ''`'', CHR 0x22, CHR 0x5C}"

text \<open>The first character of a text.\<close>

definition text_head :: "string option \<Rightarrow> char" where
  "text_head t = (case t of None \<Rightarrow> NUL | Some str \<Rightarrow> head str)"

text \<open>Two strings next to each other would be read as one.\<close>

fun is_string :: "mrsh_word \<Rightarrow> bool" where
  "is_string (MRSH_WORD_STRING _ single_quoted _) = (\<not> single_quoted)"
| "is_string _ = False"

fun separate :: "mrsh_word list \<Rightarrow> bool" where
  "separate (v # w # ws) \<longleftrightarrow> \<not> (is_string v \<and> is_string w) \<and> separate (w # ws)"
| "separate _ = True"

text \<open>
  A word starts neither with \<^verbatim>\<open>#\<close>, which is a comment, nor with a parenthesis: the name of a command
  before it would be that of a function. The name of a command is quoted, or a word that is no keyword, does not start as a compound command, a
  function definition or an assignment and is not refused as unspecified.
\<close>

definition plain_name :: "string \<Rightarrow> bool" where
  "plain_name str \<longleftrightarrow>
     str \<notin> set shell_keywords \<and> str \<notin> set reserved_words \<and> CHR ''('' \<notin> set str \<and> head str \<notin> {CHR ''{'', CHR ''!''}
     \<and> (name_len False str = 0 \<or> head (drop (name_len False str) str) \<notin> {CHR ''='', CHR '':''})"

definition command_name :: "mrsh_word \<Rightarrow> bool" where
  "command_name w \<longleftrightarrow>
     (case w of
        MRSH_WORD_STRING str False _ \<Rightarrow> plain_name str
      | _ \<Rightarrow> text_head (format_word w) \<in> {CHR 0x27, CHR 0x22, CHR ''$''})"

fun is_compound :: "mrsh_command \<Rightarrow> bool" where
  "is_compound (MRSH_SIMPLE_COMMAND _ _ _ _) = False"
| "is_compound _ = True"

fun is_pipeline :: "mrsh_and_or_list \<Rightarrow> bool" where
  "is_pipeline (MRSH_AND_OR_LIST_PIPELINE _ _) = True"
| "is_pipeline _ = False"

text \<open>
  After \<^verbatim>\<open>then\<close> and \<^verbatim>\<open>do\<close> no subshell may follow: the parser takes the keyword for the name of a function.
  Neither may a command substitution start with one: two parentheses open an arithmetic expansion.
\<close>

abbreviation no_paren :: "mrsh_command_list list \<Rightarrow> bool" where
  "no_paren ls \<equiv> text_head (node_array_format '' '' (map format_command_list ls)) \<noteq> CHR ''(''"

fun printable_part :: "mrsh_word \<Rightarrow> bool"
  and printable_inner :: "mrsh_word \<Rightarrow> bool"
  and printable_word :: "mrsh_word \<Rightarrow> bool"
  and printable_command :: "mrsh_command \<Rightarrow> bool"
  and printable_and_or_list :: "mrsh_and_or_list \<Rightarrow> bool"
  and printable_command_list :: "mrsh_command_list \<Rightarrow> bool"
  and printable_program :: "mrsh_program \<Rightarrow> bool"
where
  "printable_part (MRSH_WORD_STRING str single_quoted split) \<longleftrightarrow>
     \<not> split \<and> (if single_quoted then NUL \<notin> set str \<and> CHR 0x27 \<notin> set str
                else str \<noteq> [] \<and> list_all word_char str)"
| "printable_part (MRSH_WORD_COMMAND prog back_quoted) \<longleftrightarrow>
     \<not> back_quoted
     \<and> (case prog of None \<Rightarrow> False | Some pr \<Rightarrow> printable_program pr \<and> text_head (format_program pr) \<noteq> CHR ''('')"
| "printable_part (MRSH_WORD_LIST children double_quoted) \<longleftrightarrow>
     double_quoted \<and> separate children \<and> list_all printable_inner children"
| "printable_part _ = False"
| "printable_inner (MRSH_WORD_STRING str single_quoted split) \<longleftrightarrow>
     \<not> split \<and> \<not> single_quoted \<and> str \<noteq> [] \<and> list_all quoted_char str"
| "printable_inner (MRSH_WORD_COMMAND prog back_quoted) \<longleftrightarrow>
     \<not> back_quoted
     \<and> (case prog of None \<Rightarrow> False | Some pr \<Rightarrow> printable_program pr \<and> text_head (format_program pr) \<noteq> CHR ''('')"
| "printable_inner _ = False"
| "printable_word (MRSH_WORD_LIST children double_quoted) \<longleftrightarrow>
     (if double_quoted then separate children \<and> list_all printable_inner children
      else 2 \<le> length children \<and> separate children \<and> list_all printable_part children
           \<and> text_head (format_word (MRSH_WORD_LIST children False)) \<notin> {CHR ''#'', CHR ''(''})"
| "printable_word w \<longleftrightarrow> printable_part w \<and> text_head (format_word w) \<notin> {CHR ''#'', CHR ''(''}"
| "printable_command (MRSH_SIMPLE_COMMAND name args redirs assigns) \<longleftrightarrow>
     (case name of None \<Rightarrow> False | Some w \<Rightarrow> printable_word w \<and> command_name w)
     \<and> list_all printable_word args \<and> redirs = [] \<and> assigns = []"
| "printable_command (MRSH_SUBSHELL body) \<longleftrightarrow> body \<noteq> [] \<and> list_all printable_command_list body"
| "printable_command (MRSH_IF_CLAUSE condition body else_part) \<longleftrightarrow>
     condition \<noteq> [] \<and> list_all printable_command_list condition
     \<and> body \<noteq> [] \<and> list_all printable_command_list body \<and> no_paren body \<and> else_part = None"
| "printable_command (MRSH_LOOP_CLAUSE type condition body) \<longleftrightarrow>
     condition \<noteq> [] \<and> list_all printable_command_list condition
     \<and> body \<noteq> [] \<and> list_all printable_command_list body \<and> no_paren body"
| "printable_command (MRSH_FUNCTION_DEFINITION name body redirs) \<longleftrightarrow>
     name \<noteq> [] \<and> name_len False name = length name \<and> is_compound body \<and> printable_command body \<and> redirs = []"
| "printable_command _ = False"
| "printable_and_or_list (MRSH_AND_OR_LIST_PIPELINE commands bang) \<longleftrightarrow>
     commands \<noteq> [] \<and> list_all printable_command commands"
| "printable_and_or_list (MRSH_AND_OR_LIST_BINOP type left right) \<longleftrightarrow>
     is_pipeline left \<and> printable_and_or_list left \<and> printable_and_or_list right"
| "printable_command_list (Command_list a ampersand) = printable_and_or_list a"
| "printable_program (Program body) \<longleftrightarrow> body \<noteq> [] \<and> list_all printable_command_list body"


section \<open>States\<close>

text \<open>A parser without errors, aliases and here-documents.\<close>

definition clean :: "mrsh_parser \<Rightarrow> bool" where
  "clean p \<longleftrightarrow> parser_wf p \<and> alias_func p = None \<and> here_documents p = [] \<and> redirects p = [] \<and> err p = None"

text \<open>The parser is before the text \<open>t\<close>, between symbols; and inside of a word.\<close>

definition at_text :: "string \<Rightarrow> mrsh_parser \<Rightarrow> bool" where
  "at_text t p \<longleftrightarrow> clean p \<and> cur_text p = skip_blanks t \<and> cur_sym p = first_symbol (skip_blanks t)"

definition in_text :: "string \<Rightarrow> mrsh_parser \<Rightarrow> bool" where
  "in_text t p \<longleftrightarrow> clean p \<and> ptext p = t \<and> (has_sym p \<longrightarrow> sym p = TOKEN)"

lemma clean_moved: "clean p \<Longrightarrow> moved p t q \<Longrightarrow> clean q"
  by (simp add: clean_def moved_def same_frame_def)

lemma at_wf: "at_text t p \<Longrightarrow> parser_wf p"
  by (simp add: at_text_def clean_def)

lemma at_blank [simp]: "c_isblank c \<Longrightarrow> at_text (c # t) p = at_text t p"
  by (simp add: at_text_def)

lemma at_lexed: "at_text t p \<Longrightarrow> lexed p q \<Longrightarrow> at_text t q"
  using lexed_cur [of p q] clean_moved [of p "cur_text p" q] by (auto simp: at_text_def lexed_def)

lemma at_moved: "at_text u p \<Longrightarrow> moved p t q \<Longrightarrow> \<not> has_sym q \<Longrightarrow> at_text t q"
  using clean_moved [of p t q] by (auto simp: at_text_def cur_text_def cur_sym_def moved_def)

lemma at_consumed: "in_text t p \<Longrightarrow> at_text t (consume_symbol p)"
  by (auto simp: in_text_def at_text_def clean_def cur_text_def cur_sym_def consume_symbol_def
        parser_wf_def ptext_def)

section \<open>Results\<close>

text \<open>The result is \<open>r\<close>, and the text \<open>t\<close> is left.\<close>

definition gives :: "'a parsing \<Rightarrow> 'a \<Rightarrow> string \<Rightarrow> bool" where
  "gives m r t \<longleftrightarrow> (\<exists>q. m = Some (r, q) \<and> at_text t q)"

definition goes :: "mrsh_parser option \<Rightarrow> string \<Rightarrow> bool" where
  "goes m t \<longleftrightarrow> (\<exists>q. m = Some q \<and> at_text t q)"

lemma gives_Some: "at_text t q \<Longrightarrow> gives (Some (r, q)) r t"
  by (simp add: gives_def)

lemma gives_bind:
  assumes "gives m r t" and "\<And>q. at_text t q \<Longrightarrow> gives (f r q) r' t'"
  shows "gives (Option.bind m (\<lambda>(r, q). f r q)) r' t'"
  using assms by (auto simp: gives_def)

lemma goes_bind:
  assumes "goes m t" and "\<And>q. at_text t q \<Longrightarrow> gives (f q) r' t'"
  shows "gives (Option.bind m f) r' t'"
  using assms by (auto simp: goes_def)

subsection \<open>Symbols and tokens\<close>

definition matches :: "string \<Rightarrow> string \<Rightarrow> bool" where
  "matches t str \<longleftrightarrow> first_symbol t = TOKEN \<and> token_matches t str"

lemma symbol_gives: "at_text t p \<Longrightarrow> gives (symbol p s) (first_symbol (skip_blanks t) = s) t"
  using symbol_text [OF at_wf, of t p s] at_lexed [of t p] by (auto simp: post_def gives_def at_text_def)

lemma token_no:
  assumes "at_text t p" and "str \<noteq> []" and "NUL \<notin> set str" and "\<not> matches (skip_blanks t) str"
  shows "gives (token p str) False t"
  using token_text [OF at_wf [OF assms(1)] assms(2,3)] at_lexed [OF assms(1)] assms
  by (auto simp: post_def gives_def matches_def at_text_def)

lemma token_yes:
  assumes "at_text t p" and "str \<noteq> []" and "NUL \<notin> set str" and "skip_blanks t = str @ u" and "matches (str @ u) str"
  shows "gives (token p str) True u"
  using token_text [OF at_wf [OF assms(1)] assms(2,3)] at_moved [OF assms(1)] assms
  by (auto simp: post_def gives_def matches_def at_text_def)

lemma expect_token_yes:
  assumes "at_text t p" and "str \<noteq> []" and "NUL \<notin> set str" and "skip_blanks t = str @ u" and "matches (str @ u) str"
  shows "gives (expect_token p str) True u"
  unfolding expect_token_def by (rule gives_bind [OF token_yes [OF assms]]) (simp add: gives_Some)

lemma at_operator:
  "at_text t p \<Longrightarrow> operator_str s = Some str \<Longrightarrow> cur_sym p = s \<Longrightarrow> starts_with (cur_text p) str"
  by (auto simp: at_text_def intro: first_symbol_operator)

lemma operator_no:
  assumes "at_text t p" and "operator_str s = Some str" and "first_symbol (skip_blanks t) \<noteq> s"
  shows "gives (operator_rule p s) False t"
  using operator_text [OF at_wf [OF assms(1)] assms(2) at_operator [OF assms(1,2)]] at_lexed [OF assms(1)] assms
  by (auto simp: post_def gives_def at_text_def)

lemma operator_yes:
  assumes "at_text t p" and "operator_str s = Some str" and "skip_blanks t = str @ u"
    and "first_symbol (str @ u) = s"
  shows "gives (operator_rule p s) True u"
  using operator_text [OF at_wf [OF assms(1)] assms(2) at_operator [OF assms(1,2)]] at_moved [OF assms(1)] assms
  by (auto simp: post_def gives_def at_text_def)

lemma first_symbol_newline: "first_symbol t = NEWLINE \<longleftrightarrow> head t = NEWLINE_CHR"
  by (auto simp: first_symbol_def operators_def split: list.splits if_splits)

lemma newline_no:
  assumes "at_text t p" and "head (skip_blanks t) \<noteq> NEWLINE_CHR"
  shows "gives (newline p) False t"
proof -
  have "cur_sym p \<noteq> NEWLINE" using assms by (simp add: at_text_def first_symbol_newline)
  with newline_text [OF at_wf [OF assms(1)]] at_lexed [OF assms(1)] show ?thesis
    by (auto simp: post_def gives_def)
qed

lemma linebreak_no:
  "at_text t p \<Longrightarrow> head (skip_blanks t) \<noteq> NEWLINE_CHR \<Longrightarrow> 0 < n \<Longrightarrow> goes (linebreak n p) t"
  using newline_no [of t p] by (cases n) (auto simp: gives_def goes_def)

lemma newline_list_no:
  "at_text t p \<Longrightarrow> head (skip_blanks t) \<noteq> NEWLINE_CHR \<Longrightarrow> gives (newline_list n p) False t"
  using newline_no [of t p] by (auto simp: gives_def newline_list_def)

section \<open>Texts\<close>

text \<open>The first character of a command.\<close>

definition opens :: "string \<Rightarrow> bool" where
  "opens t \<longleftrightarrow> t \<noteq> [] \<and> \<not> ends_word (head t) \<and> head t \<noteq> CHR ''#''"

lemma head_append: "t \<noteq> [] \<Longrightarrow> head (t @ u) = head t"
  by (cases t) auto

lemma opens_append: "opens t \<Longrightarrow> opens (t @ u)"
  by (simp add: opens_def head_append)

lemma opens_skip: "opens t \<Longrightarrow> skip_blanks t = t"
  by (cases t) (auto simp: opens_def ends_word_def)

lemma opens_symbol: "opens t \<Longrightarrow> first_symbol t = TOKEN"
  by (cases t) (auto simp: opens_def ends_word_def first_symbol_def no_operator)

lemma array_plain:
  "node_array_format [] (x # xs) = Some str \<longleftrightarrow>
   (\<exists>a b. x = Some a \<and> node_array_format [] xs = Some b \<and> str = a @ b)"
  by (cases xs) (auto split: bind_splits)

lemma word_char_ends: "word_char c \<Longrightarrow> \<not> ends_word c"
  by (auto simp: word_char_def ends_word_def)

lemma part_opens:
  assumes "printable_part w" and "format_word w = Some str"
  shows "str \<noteq> [] \<and> \<not> ends_word (head str)"
proof -
  have "\<not> ends_word (head cs)" if "cs \<noteq> []" "list_all word_char cs" for cs
    using that word_char_ends by (cases cs) auto
  moreover have "\<not> ends_word (CHR 0x27)" "\<not> ends_word (CHR 0x22)" "\<not> ends_word (CHR ''$'')"
    by (simp_all add: ends_word_def is_operator_start_def ctype_defs)
  ultimately show ?thesis
    using assms by (cases w) (auto split: if_splits option.splits bind_splits)
qed

text \<open>The parts of a word.\<close>

fun word_parts :: "mrsh_word \<Rightarrow> mrsh_word list" where
  "word_parts (MRSH_WORD_LIST ws False) = ws"
| "word_parts w = [w]"

lemma printable_parts:
  assumes "printable_word w"
  shows "list_all printable_part (word_parts w)" and "separate (word_parts w)" and "word_parts w \<noteq> []"
    and "children_word (word_parts w) = w" and "text_head (format_word w) \<notin> {CHR ''#'', CHR ''(''}"
    and "node_array_format [] (map format_word (word_parts w)) = format_word w"
proof -
  have "\<exists>x y zs. ws = x # y # zs" if "2 \<le> length ws" for ws :: "mrsh_word list"
    using that by (cases ws; cases "tl ws") auto
  with assms show "list_all printable_part (word_parts w)" "separate (word_parts w)" "word_parts w \<noteq> []"
    "children_word (word_parts w) = w" "text_head (format_word w) \<notin> {CHR ''#'', CHR ''(''}"
    "node_array_format [] (map format_word (word_parts w)) = format_word w"
    by (cases w rule: word_parts.cases; fastforce simp: children_word_def text_head_def split: bind_splits if_splits)+
qed

lemma word_opens:
  assumes "printable_word w" and "format_word w = Some str"
  shows "opens str" and "head str \<noteq> CHR ''(''"
proof -
  note parts = printable_parts [OF assms(1)]
  obtain v vs where w: "word_parts w = v # vs" using parts(3) by (cases "word_parts w") auto
  with parts(6) assms(2) obtain a b where "format_word v = Some a" "str = a @ b"
    by (auto simp: array_plain)
  with part_opens [of v a] parts(1,5) w assms(2) show "opens str" "head str \<noteq> CHR ''(''"
    by (auto simp: opens_def head_append text_head_def)
qed

lemma array_first: "node_array_format sep (x # xs) = Some str \<Longrightarrow> \<exists>a b. x = Some a \<and> str = a @ b"
  by (cases xs) (auto split: bind_splits)

lemma name_opens:
  assumes "name \<noteq> []" and "name_len False name = length name"
  shows "opens (name @ t)" and "list_all name_char name"
proof -
  have "length (takeWhile name_char name) = length name"
    using assms by (auto simp: name_len_def split: if_splits)
  then have all: "takeWhile name_char name = name"
    by (metis order_refl take_all takeWhile_eq_take)
  then show "list_all name_char name" by (auto simp: list_all_iff dest: set_takeWhileD)
  with assms(1) show "opens (name @ t)"
    by (cases name) (auto simp: opens_def ends_word_def is_operator_start_def ctype_defs)
qed

lemma command_opens:
  assumes "printable_command c" and "format_command c = Some str"
  shows "opens str"
proof -
  have "opens (CHR ''('' # t)" "opens (CHR ''i'' # t)" "opens (CHR ''w'' # t)" "opens (CHR ''u'' # t)" for t
    by (simp_all add: opens_def ends_word_def is_operator_start_def ctype_defs)
  with assms word_opens(1) name_opens(1) show ?thesis
    by (cases c) (auto simp: opens_append split: option.splits bind_splits if_splits)
qed

lemma pipeline_opens:
  assumes "is_pipeline a" and "printable_and_or_list a" and "format_and_or_list a = Some str"
  shows "opens str"
proof -
  obtain c cs bang where a: "a = MRSH_AND_OR_LIST_PIPELINE (c # cs) bang"
    using assms(1,2) by (cases a; cases "case a of MRSH_AND_OR_LIST_PIPELINE cs _ \<Rightarrow> cs") auto
  have "opens (CHR ''!'' # t)" for t
    by (simp add: opens_def ends_word_def is_operator_start_def ctype_defs)
  with assms a show ?thesis
    by (auto split: bind_splits if_splits dest!: array_first intro: opens_append command_opens)
qed

lemma and_or_opens:
  assumes "printable_and_or_list a" and "format_and_or_list a = Some str"
  shows "opens str"
proof (cases "is_pipeline a")
  case True
  from pipeline_opens [OF True assms] show ?thesis .
next
  case False
  with assms show ?thesis by (cases a) (auto split: bind_splits intro: opens_append pipeline_opens)
qed

lemma command_list_opens: "printable_command_list l \<Longrightarrow> format_command_list l = Some str \<Longrightarrow> opens str"
  by (cases l) (auto split: bind_splits intro: opens_append and_or_opens)

lemma lists_open:
  "ls \<noteq> [] \<Longrightarrow> list_all printable_command_list ls \<Longrightarrow>
   node_array_format sep (map format_command_list ls) = Some str \<Longrightarrow> opens str"
  by (cases ls) (auto dest!: array_first intro: opens_append command_list_opens)

lemma program_opens: "printable_program prog \<Longrightarrow> format_program prog = Some str \<Longrightarrow> opens str"
  by (cases prog) (auto intro: lists_open)

section \<open>Words\<close>

definition reads :: "'a parsing \<Rightarrow> 'a \<Rightarrow> string \<Rightarrow> bool" where
  "reads m r t \<longleftrightarrow> (\<exists>q. m = Some (r, q) \<and> in_text t q)"

lemma in_wf: "in_text t p \<Longrightarrow> parser_wf p"
  by (simp add: in_text_def clean_def)

lemma in_moved: "in_text t p \<Longrightarrow> moved p u q \<Longrightarrow> same_sym p q \<Longrightarrow> in_text u q"
  using clean_moved [of p u q] by (auto simp: in_text_def moved_def same_sym_def)

lemma in_peek:
  assumes "in_text t p"
  obtains q where "parser_peek_char p = (head t, q)" and "in_text t q"
proof -
  obtain c q where pk: "parser_peek_char p = (c, q)" by fastforce
  note q = peek_char_text [OF in_wf [OF assms] pk]
  have "ptext p = t" using assms by (simp add: in_text_def)
  with that pk q in_moved [OF assms] show ?thesis by auto
qed

lemma in_skip:
  assumes "in_text (c # t) p"
  obtains q where "parser_read_char p = Some (c, q)" and "in_text t q"
proof -
  have "ptext p = c # t" using assms by (simp add: in_text_def)
  from skip_char_text [OF in_wf [OF assms] this] in_moved [OF assms] that show ?thesis by metis
qed

lemma in_line:
  assumes "in_text (NEWLINE_CHR # t) p"
  obtains q where "read_continuation_line p = Some q" and "in_text t q"
proof -
  have "ptext p = NEWLINE_CHR # t" using assms by (simp add: in_text_def)
  from continuation_line_text [OF in_wf [OF assms] this] in_moved [OF assms] that show ?thesis by metis
qed

lemma in_two:
  assumes "in_text (c # d # t) p"
  obtains q where "peek_two p = ([c, d], q)" and "in_text (c # d # t) q"
proof -
  obtain cs q where pk: "peek_two p = (cs, q)" by fastforce
  note q = peek_two_text [OF in_wf [OF assms] pk]
  have "ptext p = c # d # t" using assms by (simp add: in_text_def)
  with that pk q in_moved [OF assms] show ?thesis by auto
qed

lemma single_quotes_loop_reads:
  "in_text (str @ CHR 0x27 # t) p \<Longrightarrow> NUL \<notin> set str \<Longrightarrow> CHR 0x27 \<notin> set str \<Longrightarrow> length str < n \<Longrightarrow>
   reads (single_quotes_loop n p b) (Some (mrsh_word_string_create (b @ str) True)) t"
proof (induction str arbitrary: n p b)
  case Nil
  obtain m where n: "n = Suc m" using Nil.prems(4) by (cases n) auto
  obtain p1 where p1: "parser_peek_char p = (CHR 0x27, p1)" "in_text (CHR 0x27 # t) p1"
    using in_peek [OF Nil.prems(1)] by auto
  obtain p2 where "parser_read_char p1 = Some (CHR 0x27, p2)" "in_text t p2" using in_skip [OF p1(2)] .
  with p1 n show ?case by (simp add: reads_def)
next
  case (Cons c str)
  obtain m where n: "n = Suc m" "length str < m" using Cons.prems(4) by (cases n) auto
  let ?t = "str @ CHR 0x27 # t"
  obtain p1 where p1: "parser_peek_char p = (c, p1)" "in_text (c # ?t) p1"
    using in_peek [OF Cons.prems(1)] by auto
  obtain p2 where p2: "(if c = NEWLINE_CHR then read_continuation_line p1 else skip_char p1) = Some p2"
    "in_text ?t p2"
    by (cases "c = NEWLINE_CHR") (use p1(2) in \<open>auto elim: in_line in_skip\<close>)
  from Cons.IH [OF p2(2), of m "b @ [c]"] Cons.prems n p1 p2(1) show ?case by auto
qed

lemma single_quotes_reads:
  assumes "in_text (CHR 0x27 # str @ CHR 0x27 # t) p" and "NUL \<notin> set str" and "CHR 0x27 \<notin> set str"
  shows "reads (single_quotes p) (Some (MRSH_WORD_STRING str True False)) t"
proof -
  obtain q where q: "parser_read_char p = Some (CHR 0x27, q)" "in_text (str @ CHR 0x27 # t) q"
    using in_skip [OF assms(1)] .
  have "length str < input_bound q + 2" using ptext_bound [of q] q(2) by (simp add: in_text_def)
  from single_quotes_loop_reads [OF q(2) assms(2,3) this, of "[]"] q(1) show ?thesis
    by (simp add: single_quotes_def mrsh_word_string_create_def del: single_quotes_loop.simps)
qed

text \<open>The characters of a string are collected.\<close>

lemma double_quotes_chars:
  "in_text (str @ t) p \<Longrightarrow> list_all quoted_char str \<Longrightarrow>
   \<exists>q. double_quotes_loop (length str + n) G p ws b = double_quotes_loop n G q ws (b @ str) \<and> in_text t q"
proof (induction str arbitrary: p b)
  case (Cons c str)
  obtain p1 where p1: "parser_peek_char p = (c, p1)" "in_text (c # str @ t) p1"
    using in_peek [OF Cons.prems(1)] by auto
  obtain p2 where p2: "parser_read_char p1 = Some (c, p2)" "in_text (str @ t) p2" using in_skip [OF p1(2)] .
  from Cons.IH [OF p2(2), of "b @ [c]"] Cons.prems(2) p1 p2 show ?case by (simp add: quoted_char_def)
qed auto

lemma word_chars:
  "in_text (str @ t) p \<Longrightarrow> list_all word_char str \<Longrightarrow>
   \<exists>q. word_loop (length str + n) G p NUL ws b = word_loop n G q NUL ws (b @ str) \<and> in_text t q"
proof (induction str arbitrary: p b)
  case (Cons c str)
  obtain p1 where p1: "parser_peek_char p = (c, p1)" "in_text (c # str @ t) p1"
    using in_peek [OF Cons.prems(1)] by auto
  obtain p2 where p2: "parser_read_char p1 = Some (c, p2)" "in_text (str @ t) p2" using in_skip [OF p1(2)] .
  from Cons.IH [OF p2(2), of "b @ [c]"] Cons.prems(2) p1 p2 show ?case
    by (simp add: word_char_def starts_part_def)
qed auto

lemma token_reads:
  assumes "at_text t p" and "str \<noteq> []" and "NUL \<notin> set str" and "skip_blanks t = str @ u" and "matches (str @ u) str"
  shows "reads (expect_token p str) True u"
proof -
  obtain q where q: "token p str = Some (True, q)" "moved p u q" "\<not> has_sym q"
    using token_text [OF at_wf [OF assms(1)] assms(2,3)] assms by (auto simp: post_def matches_def at_text_def)
  then have "in_text u q" using clean_moved [OF _ q(2)] assms(1) by (simp add: at_text_def in_text_def moved_def)
  with q(1) show ?thesis by (simp add: expect_token_def reads_def)
qed

lemma in_symbol:
  assumes "in_text t p" and "opens t"
  obtains q where "symbol p TOKEN = Some (True, q)" and "at_text t (consume_symbol q)" and "clean q"
proof -
  have t: "ptext p = t" "skip_blanks t = t" "first_symbol t = TOKEN" "clean p"
    using assms opens_skip opens_symbol by (auto simp: in_text_def)
  then have cur: "cur_sym p = TOKEN" "cur_text p = t"
    using assms(1) by (auto simp: cur_sym_def cur_text_def in_text_def)
  obtain q where q: "symbol p TOKEN = Some (True, q)" "lexed p q"
    using symbol_text [OF in_wf [OF assms(1)], of TOKEN] cur by (auto simp: post_def)
  then have "clean q" "in_text t q"
    using clean_moved [OF t(4)] cur by (auto simp: lexed_def in_text_def moved_def)
  with q(1) at_consumed that show ?thesis by blast
qed

lemma at_no_alias: "clean p \<Longrightarrow> p\<lparr>alias_func := None\<rparr> = p"
  by (cases p) (simp add: clean_def)

text \<open>Command substitutions are read by the parser of programs.\<close>

locale substitutions =
  fixes G :: grammar and k :: nat
  assumes program_call:
    "printable_program prog \<Longrightarrow> format_program prog = Some str \<Longrightarrow> opens str \<Longrightarrow>
     at_text (str @ CHR '')'' # t) p \<Longrightarrow> length (str @ CHR '')'' # t) < k \<Longrightarrow>
     gives (g_parse_program G p) (Some prog) (CHR '')'' # t)"
begin

lemma word_command_reads:
  assumes "printable_program prog" "format_program prog = Some str" "opens str"
    and "in_text (CHR ''('' # str @ CHR '')'' # t) p" and "length (str @ CHR '')'' # t) < k"
  shows "reads (expect_word_command G p) (Some (MRSH_WORD_COMMAND (Some prog) False)) t"
proof -
  obtain p1 where p1: "parser_read_char p = Some (CHR ''('', p1)" "in_text (str @ CHR '')'' # t) p1"
    using in_skip [OF assms(4)] .
  obtain p2 where p2: "symbol p1 TOKEN = Some (True, p2)" "at_text (str @ CHR '')'' # t) (consume_symbol p2)"
    "clean p2"
    using in_symbol [OF p1(2) opens_append [OF assms(3)]] .
  have "clean (consume_symbol p2)" using p2(2) by (simp add: at_text_def)
  note same = at_no_alias [OF this]
  from program_call [OF assms(1-3) p2(2) assms(5)] obtain p3 where
    p3: "g_parse_program G (consume_symbol p2) = Some (Some prog, p3)" "at_text (CHR '')'' # t) p3"
    by (auto simp: gives_def)
  have c3: "clean p3" using p3(2) by (simp add: at_text_def)
  have "matches ('')'' @ t) '')''"
    by (simp add: matches_def token_matches_def first_symbol_def operators_def ctype_defs)
  with p3(2) have "reads (expect_token p3 '')'') True t"
    by (intro token_reads [of "CHR '')'' # t"]) (simp_all add: ctype_defs)
  then obtain q where q: "expect_token p3 '')'' = Some (True, q)" "in_text t q" by (auto simp: reads_def)
  have none: "alias_func p2 = None" "mrsh_parser_error p3 = None"
    using p2(3) c3 by (simp_all add: clean_def mrsh_parser_error_def)
  show ?thesis
    unfolding expect_word_command_def Let_def using p1(1) p2(1) p3(1) q none
    by (simp add: same at_no_alias [OF c3] reads_def)
qed

lemma dollar_reads:
  assumes "printable_program prog" "format_program prog = Some str" "opens str" "head str \<noteq> CHR ''(''"
    and "in_text (CHR ''$'' # CHR ''('' # str @ CHR '')'' # t) p" and "length (str @ CHR '')'' # t) < k"
  shows "reads (expect_dollar G p) (Some (MRSH_WORD_COMMAND (Some prog) False)) t"
proof -
  obtain c cs where str: "str = c # cs" using assms(3) by (cases str) (auto simp: opens_def)
  let ?t = "CHR ''('' # str @ CHR '')'' # t"
  obtain p1 where p1: "parser_read_char p = Some (CHR ''$'', p1)" "in_text ?t p1"
    using in_skip [OF assms(5)] .
  obtain p2 where p2: "parser_peek_char p1 = (CHR ''('', p2)" "in_text ?t p2" using in_peek [OF p1(2)] by auto
  obtain p3 where p3: "peek_two p2 = ([CHR ''('', c], p3)" "in_text ?t p3"
    using in_two [of "CHR ''(''" c "cs @ CHR '')'' # t" p2] p2(2) str by auto
  from word_command_reads [OF assms(1-3) p3(2) assms(6)] p1(1) p2(1) p3(1) assms(4) str show ?thesis
    by (simp add: expect_dollar_def)
qed

text \<open>The parts of a word in double quotes: strings and command substitutions.\<close>

lemma double_quotes_loop_reads:
  "in_text (str @ CHR 0x22 # t) p \<Longrightarrow> node_array_format [] (map format_word ws) = Some str \<Longrightarrow>
   list_all printable_inner ws \<Longrightarrow> separate ws \<Longrightarrow> (b \<noteq> [] \<Longrightarrow> ws \<noteq> [] \<Longrightarrow> \<not> is_string (hd ws)) \<Longrightarrow>
   length str < n \<Longrightarrow> length (str @ CHR 0x22 # t) \<le> k \<Longrightarrow>
   reads (double_quotes_loop n G p vs b) (Some (MRSH_WORD_LIST (push_buffer_word_string vs b @ ws) True)) t"
proof (induction ws arbitrary: str n p vs b)
  case Nil
  obtain m where n: "n = Suc m" using Nil.prems(6) by (cases n) auto
  obtain p1 where p1: "parser_peek_char p = (CHR 0x22, p1)" "in_text (CHR 0x22 # t) p1"
    using in_peek [OF Nil.prems(1)] Nil.prems(2) by auto
  obtain p2 where "parser_read_char p1 = Some (CHR 0x22, p2)" "in_text t p2" using in_skip [OF p1(2)] .
  with p1 n show ?case by (simp add: reads_def)
next
  case (Cons w ws)
  obtain x y where xy: "format_word w = Some x" "node_array_format [] (map format_word ws) = Some y" "str = x @ y"
    using Cons.prems(2) by (auto simp: array_plain)
  have ws: "list_all printable_inner ws" "separate ws" using Cons.prems(3,4) by (cases ws; simp)+
  show ?case
  proof (cases w)
    case (MRSH_WORD_STRING s sq sf)
    then have w: "w = MRSH_WORD_STRING s False False" "s \<noteq> []" "list_all quoted_char s" and x: "x = s" and b: "b = []"
      using Cons.prems(3,5) xy(1) by auto
    obtain m where n: "n = length s + m" "length y < m"
      using that [of "n - length s"] Cons.prems(6) xy(3) x by simp
    have in1: "in_text (s @ (y @ CHR 0x22 # t)) p" using Cons.prems(1) xy(3) x by simp
    obtain q where q: "double_quotes_loop n G p vs b = double_quotes_loop m G q vs s" "in_text (y @ CHR 0x22 # t) q"
      using double_quotes_chars [OF in1 w(3), of m G vs b] n(1) b by auto
    have next_part: "ws \<noteq> [] \<Longrightarrow> \<not> is_string (hd ws)" using Cons.prems(4) w(1) by (cases ws) auto
    have "length (y @ CHR 0x22 # t) \<le> k" using Cons.prems(7) xy(3) by simp
    from Cons.IH [OF q(2) xy(2) ws _ n(2) this, of s vs] next_part q(1) w b show ?thesis
      by (simp add: push_buffer_word_string_def mrsh_word_string_create_def)
  next
    case (MRSH_WORD_COMMAND pr bq)
    with Cons.prems(3) obtain prog where w: "w = MRSH_WORD_COMMAND (Some prog) False" "printable_program prog"
      "text_head (format_program prog) \<noteq> CHR ''(''"
      by (cases pr) auto
    with xy(1) obtain z where z: "format_program prog = Some z" "x = CHR ''$'' # CHR ''('' # z @ '')''"
      by (auto split: bind_splits)
    let ?u = "y @ CHR 0x22 # t"
    have head: "head z \<noteq> CHR ''(''" using w(3) z(1) by (simp add: text_head_def)
    obtain m where n: "n = Suc m" "length y < m" using Cons.prems(6) xy(3) z(2) by (cases n) auto
    obtain p1 where p1: "parser_peek_char p = (CHR ''$'', p1)" "in_text (CHR ''$'' # CHR ''('' # z @ CHR '')'' # ?u) p1"
      using in_peek [OF Cons.prems(1)] xy(3) z(2) by auto
    have len: "length (z @ CHR '')'' # ?u) < k" "length ?u \<le> k" using Cons.prems(7) xy(3) z(2) by simp_all
    obtain q where q: "expect_dollar G p1 = Some (Some w, q)" "in_text ?u q"
      using dollar_reads [OF w(2) z(1) program_opens [OF w(2) z(1)] head p1(2) len(1)] w(1) by (auto simp: reads_def)
    from Cons.IH [OF q(2) xy(2) ws _ n(2) len(2), of "[]" "push_buffer_word_string vs b @ [w]"] q(1) p1(1) n(1)
    show ?thesis by (simp add: push_buffer_word_string_def)
  qed (use Cons.prems(3) in auto)
qed

lemma double_quotes_reads:
  assumes "in_text (CHR 0x22 # str @ CHR 0x22 # t) p" and "node_array_format [] (map format_word ws) = Some str"
    and "list_all printable_inner ws" and "separate ws" and "length (str @ CHR 0x22 # t) \<le> k"
  shows "reads (double_quotes G p) (Some (MRSH_WORD_LIST ws True)) t"
proof -
  obtain q where q: "parser_read_char p = Some (CHR 0x22, q)" "in_text (str @ CHR 0x22 # t) q"
    using in_skip [OF assms(1)] .
  have "length str < input_bound q + 2" using ptext_bound [of q] q(2) by (simp add: in_text_def)
  from double_quotes_loop_reads [OF q(2) assms(2-4) _ this assms(5), of "[]" "[]"] q(1) show ?thesis
    by (simp add: double_quotes_def push_buffer_word_string_def del: double_quotes_loop.simps)
qed

text \<open>A part that is no unquoted string.\<close>

lemma part_reads:
  assumes "printable_part w" and "\<not> is_string w" and "format_word w = Some str" and "in_text (str @ t) p"
    and "length (str @ t) \<le> k"
  shows "starts_part (head str) \<and> reads (word_part G (head str) p) (Some w) t"
proof (cases w)
  case (MRSH_WORD_STRING s sq sf)
  then have "str = CHR 0x27 # s @ [CHR 0x27]" "NUL \<notin> set s" "CHR 0x27 \<notin> set s" "sq" "\<not> sf"
    using assms(1-3) by auto
  with single_quotes_reads [of s t p] assms(4) MRSH_WORD_STRING show ?thesis
    by (simp add: starts_part_def word_part_def)
next
  case (MRSH_WORD_COMMAND pr bq)
  with assms(1) obtain prog where w: "w = MRSH_WORD_COMMAND (Some prog) False" "printable_program prog"
    "text_head (format_program prog) \<noteq> CHR ''(''"
    by (cases pr) auto
  with assms(3) obtain z where z: "format_program prog = Some z" "str = CHR ''$'' # CHR ''('' # z @ '')''"
    by (auto split: bind_splits)
  with dollar_reads [OF w(2) z(1) program_opens [OF w(2) z(1)], of t p] w(1,3) assms(4,5) show ?thesis
    by (simp add: starts_part_def word_part_def text_head_def)
next
  case (MRSH_WORD_LIST ws dq)
  with assms(1,3) obtain z where "node_array_format [] (map format_word ws) = Some z"
    "str = CHR 0x22 # z @ [CHR 0x22]" "list_all printable_inner ws" "separate ws" "dq"
    by (auto split: bind_splits)
  with double_quotes_reads [of z t p ws] assms(4,5) MRSH_WORD_LIST show ?thesis
    by (simp add: starts_part_def word_part_def)
qed (use assms(1) in auto)

lemma word_loop_reads:
  "in_text (str @ t) p \<Longrightarrow> node_array_format [] (map format_word ws) = Some str \<Longrightarrow>
   list_all printable_part ws \<Longrightarrow> separate ws \<Longrightarrow> (b \<noteq> [] \<Longrightarrow> ws \<noteq> [] \<Longrightarrow> \<not> is_string (hd ws)) \<Longrightarrow>
   ends_word (head t) \<Longrightarrow> length str < n \<Longrightarrow> length (str @ t) \<le> k \<Longrightarrow>
   gives (word_loop n G p NUL vs b) (Some (children_word (push_buffer_word_string vs b @ ws))) t"
proof (induction ws arbitrary: str n p vs b)
  case Nil
  obtain m where n: "n = Suc m" using Nil.prems(7) by (cases n) auto
  obtain p1 where p1: "parser_peek_char p = (head t, p1)" "in_text t p1"
    using in_peek [OF Nil.prems(1)] Nil.prems(2) by auto
  have "word_loop n G p NUL vs b = finish_word vs b p1"
    using p1(1) Nil.prems(6) n
    by (auto simp: ends_word_def starts_part_def is_operator_start_def ctype_defs)
  with at_consumed [OF p1(2)] show ?case by (simp add: gives_def finish_word_def)
next
  case (Cons w ws)
  obtain x y where xy: "format_word w = Some x" "node_array_format [] (map format_word ws) = Some y" "str = x @ y"
    using Cons.prems(2) by (auto simp: array_plain)
  have ws: "list_all printable_part ws" "separate ws" using Cons.prems(3,4) by (cases ws; simp)+
  have len: "length (y @ t) \<le> k" using Cons.prems(8) xy(3) by simp
  have in1: "in_text (x @ (y @ t)) p" using Cons.prems(1) xy(3) by simp
  show ?case
  proof (cases "is_string w")
    case True
    then obtain s sq sf where "w = MRSH_WORD_STRING s sq sf" by (cases w) simp_all
    with True Cons.prems(3) xy(1)
    have w: "w = MRSH_WORD_STRING s False False" "s \<noteq> []" "list_all word_char s" and x: "x = s" by simp_all
    have b: "b = []" using Cons.prems(5) True by auto
    obtain m where n: "n = length s + m" "length y < m"
      using that [of "n - length s"] Cons.prems(7) xy(3) x by simp
    obtain q where q: "word_loop n G p NUL vs b = word_loop m G q NUL vs s" "in_text (y @ t) q"
      using word_chars [OF in1 [unfolded x] w(3), of m G vs b] n(1) b by auto
    have next_part: "ws \<noteq> [] \<Longrightarrow> \<not> is_string (hd ws)" using Cons.prems(4) w(1) by (cases ws) auto
    from Cons.IH [OF q(2) xy(2) ws _ Cons.prems(6) n(2) len, of s vs] next_part q(1) w b show ?thesis
      by (simp add: push_buffer_word_string_def mrsh_word_string_create_def)
  next
    case False
    have pw: "printable_part w" using Cons.prems(3) by simp
    note op = part_opens [OF pw xy(1)]
    have "length y < n - 1" using Cons.prems(7) xy(3) op by (cases x) simp_all
    then obtain m where n: "n = Suc m" "length y < m" by (cases n) simp_all
    have head: "head (x @ y @ t) = head x" using op by (simp add: head_append)
    obtain p1 where p1: "parser_peek_char p = (head x, p1)" "in_text (x @ (y @ t)) p1"
      using in_peek [OF in1] head by auto
    have "length (x @ y @ t) \<le> k" using Cons.prems(8) xy(3) by simp
    from part_reads [OF pw False xy(1) p1(2) this] obtain q where
      q: "starts_part (head x)" "word_part G (head x) p1 = Some (Some w, q)" "in_text (y @ t) q"
      by (auto simp: reads_def)
    from Cons.IH [OF q(3) xy(2) ws _ Cons.prems(6) n(2) len, of "[]" "push_buffer_word_string vs b @ [w]"]
      q(1,2) p1(1) n(1) op
    show ?thesis by (simp add: push_buffer_word_string_def ends_word_def)
  qed
qed

lemma word_gives:
  assumes "at_text (str @ t) p" and "printable_word w" and "format_word w = Some str" and "ends_word (head t)"
    and "length (str @ t) \<le> k"
  shows "gives (word_rule G p NUL) (Some w) t"
proof -
  note parts = printable_parts [OF assms(2)] and op = opens_append [OF word_opens(1) [OF assms(2,3)], of t]
  obtain p1 where p1: "symbol p TOKEN = Some (True, p1)" "lexed p p1"
    using symbol_text [OF at_wf [OF assms(1)], of TOKEN] assms(1) opens_skip [OF op] opens_symbol [OF op]
    by (auto simp: post_def at_text_def)
  have "in_text (str @ t) p1"
    using p1(2) assms(1) opens_skip [OF op] opens_symbol [OF op] clean_moved [of p "cur_text p" p1]
    by (auto simp: lexed_def at_text_def in_text_def moved_def)
  then obtain p2 where p2: "parser_peek_char p1 = (head (str @ t), p2)" "in_text (str @ t) p2"
    using in_peek by blast
  have "length str < input_bound p2 + 2" using ptext_bound [of p2] p2(2) by (simp add: in_text_def)
  from word_loop_reads [OF p2(2) _ parts(1,2) _ assms(4) this assms(5), of "[]" "[]"] parts(4,6) assms(3)
  have "gives (word_loop (input_bound p2 + 2) G p2 NUL [] []) (Some w) t"
    by (simp add: push_buffer_word_string_def del: word_loop.simps)
  moreover have "\<not> (is_operator_start (head (str @ t)) \<or> head (str @ t) = CHR '')'' \<or> head (str @ t) = NUL)"
    using op by (auto simp: opens_def ends_word_def)
  ultimately show ?thesis using p1(1) p2(1) by (simp add: word_rule_def del: word_loop.simps)
qed

end

end
