(* ===== verification/Wsh_Read_Command.thy ===== *)
theory Wsh_Read_Command
  imports Wsh_Reading
begin

text \<open>
  Reading simple commands: the name, the arguments and the end of a command, and which texts are not
  taken for redirections, assignments, compound commands and function definitions. A list ends where no
  command can start.
\<close>

section \<open>The end of a command\<close>

definition ends_command :: "string \<Rightarrow> bool" where
  "ends_command t \<longleftrightarrow> ends_word (head t) \<and>
     head (skip_blanks t) \<in> {NUL, NEWLINE_CHR, CHR '')'', CHR '';'', CHR ''&'', CHR ''|''}"

lemma first_symbol_nil: "first_symbol t = TOKEN \<Longrightarrow> t \<noteq> []"
  by (auto simp: first_symbol_def)

lemma lexed_in:
  assumes "at_text t p" and "lexed p q" and "first_symbol (skip_blanks t) = TOKEN"
  shows "in_text (skip_blanks t) q"
  using assms clean_moved [of p "cur_text p" q] by (auto simp: at_text_def lexed_def in_text_def moved_def)

lemma at_in: "at_text t p \<Longrightarrow> in_text u q \<Longrightarrow> has_sym q \<Longrightarrow> u = skip_blanks t \<Longrightarrow>
    first_symbol u = TOKEN \<Longrightarrow> at_text t q"
  by (auto simp: at_text_def in_text_def cur_text_def cur_sym_def)

text \<open>Looking at the first characters of a token.\<close>

lemma at_token_peek:
  assumes "at_text t p" and "first_symbol (skip_blanks t) = TOKEN"
  obtains q q' where "symbol p TOKEN = Some (True, q)" and "parser_peek_char q = (head (skip_blanks t), q')"
    and "at_text t q'"
proof -
  obtain q where q: "symbol p TOKEN = Some (True, q)" "lexed p q"
    using symbol_text [OF at_wf [OF assms(1)], of TOKEN] assms by (auto simp: post_def at_text_def)
  obtain c q' where pk: "parser_peek_char q = (c, q')" by fastforce
  note q' = peek_char_text [OF lexed_wf [OF q(2)] pk]
  have "ptext q = skip_blanks t" using lexed_text [OF q(2)] assms(1) by (simp add: at_text_def)
  with that q pk q' at_lexed [OF assms(1) lexed_peek [OF q(2) q'(2,3)]] show ?thesis by auto
qed

lemma at_two:
  assumes "at_text t p" and "has_sym p" and "peek_two p = (cs, q)" and "first_symbol (skip_blanks t) = TOKEN"
  shows "cs ! 1 = head (tl (skip_blanks t))" and "at_text t q"
proof -
  note q = peek_two_text [OF at_wf [OF assms(1)] assms(3)]
  have t: "ptext p = skip_blanks t" using assms(1,2) by (simp add: at_text_def cur_text_def)
  with q(1) first_symbol_nil [OF assms(4)] show "cs ! 1 = head (tl (skip_blanks t))"
    by (metis nth_Cons_0 nth_Cons_Suc One_nat_def)
  show "at_text t q"
    using assms(1,2) q(2,3) t clean_moved [of p "ptext p" q]
    by (auto simp: at_text_def cur_text_def cur_sym_def moved_def same_sym_def)
qed

lemma word_stops:
  assumes "at_text t p"
    and "head (skip_blanks t) \<in> {NUL, NEWLINE_CHR, CHR '')'', CHR '';'', CHR ''&'', CHR ''|''}"
  shows "gives (word_rule G p NUL) None t"
proof (cases "first_symbol (skip_blanks t) = TOKEN")
  case True
  then have "head (skip_blanks t) \<noteq> NEWLINE_CHR" using first_symbol_newline [of "skip_blanks t"] by auto
  moreover obtain q q' where "symbol p TOKEN = Some (True, q)" "parser_peek_char q = (head (skip_blanks t), q')"
    "at_text t q'"
    using at_token_peek [OF assms(1) True] .
  ultimately show ?thesis using assms(2) by (auto simp: word_rule_def gives_def is_operator_start_def)
next
  case False
  obtain q where "symbol p TOKEN = Some (False, q)" "at_text t q"
    using symbol_gives [OF assms(1), of TOKEN] False by (auto simp: gives_def)
  then show ?thesis by (simp add: word_rule_def gives_def)
qed

section \<open>No redirections\<close>

definition no_redirect :: "string \<Rightarrow> bool" where
  "no_redirect t \<longleftrightarrow> head t \<notin> {CHR ''<'', CHR ''>''}
     \<and> (c_isdigit (head t) \<longrightarrow> head (tl t) \<notin> {CHR ''<'', CHR ''>''})"

lemma no_redirect_symbol:
  assumes "head t \<notin> {CHR ''<'', CHR ''>''}" and "operator_str s = Some str" and "head str \<in> {CHR ''<'', CHR ''>''}"
  shows "first_symbol t \<noteq> s"
proof
  assume "first_symbol t = s"
  from first_symbol_operator [OF this assms(2)] assms show False by (cases t; cases str) auto
qed

lemma io_number_none:
  assumes "at_text t p" and "no_redirect (skip_blanks t)"
  shows "gives (io_number_rule p) (- 1) t"
proof (cases "first_symbol (skip_blanks t) = TOKEN")
  case True
  obtain q q' where q: "symbol p TOKEN = Some (True, q)" "parser_peek_char q = (head (skip_blanks t), q')" "at_text t q'"
    and sym: "has_sym q'"
  proof -
    obtain q q' where q: "symbol p TOKEN = Some (True, q)" "parser_peek_char q = (head (skip_blanks t), q')"
      "at_text t q'" using at_token_peek [OF assms(1) True] .
    have "lexed p q" using symbol_text [OF at_wf [OF assms(1)], of TOKEN] q(1) by (auto simp: post_def)
    with peek_char_text(3) [OF lexed_wf q(2)] have "has_sym q'" by (auto simp: lexed_def same_sym_def)
    with q that show ?thesis by blast
  qed
  obtain cs r where two: "peek_two q' = (cs, r)" by fastforce
  note r = at_two [OF q(3) sym two True]
  show ?thesis using q two r assms(2) by (auto simp: io_number_rule_def gives_def no_redirect_def)
next
  case False
  obtain q where "symbol p TOKEN = Some (False, q)" "at_text t q"
    using symbol_gives [OF assms(1), of TOKEN] False by (auto simp: gives_def)
  then show ?thesis by (simp add: io_number_rule_def gives_def)
qed

lemma try_operators_none:
  "at_text t p \<Longrightarrow> \<forall>(s, op) \<in> set ops. operator_str s \<noteq> None \<and> first_symbol (skip_blanks t) \<noteq> s \<Longrightarrow>
   gives (try_operators ops p) None t"
proof (induction ops arbitrary: p)
  case (Cons x ops)
  obtain s op str where x: "x = (s, op)" "operator_str s = Some str" "first_symbol (skip_blanks t) \<noteq> s"
    using Cons.prems(2) by (cases x) auto
  show ?case unfolding x(1) try_operators.simps
    by (rule gives_bind [OF operator_no [OF Cons.prems(1) x(2,3)]]) (use Cons in auto)
qed (simp add: gives_Some)

lemma io_redirect_none:
  assumes "at_text t p" and "no_redirect (skip_blanks t)"
  shows "gives (io_redirect G p) None t"
proof -
  let ?u = "skip_blanks t"
  have head: "head ?u \<notin> {CHR ''<'', CHR ''>''}" using assms(2) by (simp add: no_redirect_def)
  note sym = no_redirect_symbol [OF head]
  have less: "\<not> matches ?u ''<''" "\<not> matches ?u ''>''"
    using head by (simp_all add: matches_def token_matches_def ctype_defs)
  have ops: "gives (try_operators io_operators q) None t" if "at_text t q" for q
    by (rule try_operators_none [OF that]) (use sym in \<open>auto simp: io_operators_def\<close>)
  have op: "gives (io_redirect_op q) None t" if q: "at_text t q" for q
  proof -
    obtain q1 where q1: "token q ''<'' = Some (False, q1)" "at_text t q1"
      using token_no [OF q, of "''<''"] less(1) by (auto simp: gives_def)
    obtain q2 where "token q1 ''>'' = Some (False, q2)" "at_text t q2"
      using token_no [OF q1(2), of "''>''"] less(2) by (auto simp: gives_def)
    with q1 ops show ?thesis by (simp add: io_redirect_op_def)
  qed
  have no_file: "gives (io_file G q) None t" if "at_text t q" for q
    unfolding io_file_def by (rule gives_bind [OF op [OF that]]) (simp add: gives_Some)
  have here: "gives (io_here G q) None t" if q: "at_text t q" for q
  proof -
    obtain q1 where q1: "operator_rule q DLESS = Some (False, q1)" "at_text t q1"
      using operator_no [OF q, of DLESS] sym [of DLESS] by (auto simp: gives_def)
    obtain q2 where "operator_rule q1 DLESSDASH = Some (False, q2)" "at_text t q2"
      using operator_no [OF q1(2), of DLESSDASH] sym [of DLESSDASH] by (auto simp: gives_def)
    with q1 show ?thesis by (simp add: io_here_def gives_def)
  qed
  obtain p1 where p1: "io_number_rule p = Some (- 1, p1)" "at_text t p1"
    using io_number_none [OF assms] by (auto simp: gives_def)
  obtain p2 where p2: "io_file G p1 = Some (None, p2)" "at_text t p2" using no_file [OF p1(2)] by (auto simp: gives_def)
  obtain p3 where "io_here G p2 = Some (None, p3)" "at_text t p3" using here [OF p2(2)] by (auto simp: gives_def)
  with p1 p2 show ?thesis by (simp add: io_redirect_def gives_def)
qed

section \<open>No compound commands\<close>

abbreviation after_name :: "string \<Rightarrow> string" where
  "after_name t \<equiv> drop (name_len False t) t"

definition simple_start :: "string \<Rightarrow> bool" where
  "simple_start t \<longleftrightarrow> head t \<notin> {CHR ''{'', CHR ''(''}
     \<and> take (word_len t) t \<notin> {''if'', ''for'', ''while'', ''until'', ''case''} \<union> set reserved_words
     \<and> (name_len False t = 0
        \<or> head (after_name t) \<notin> {CHR ''='', CHR '':''} \<and> head (dropWhile c_isblank (after_name t)) \<noteq> CHR ''('')"

lemma otherwise_none:
  assumes "gives m None t" and "\<And>q. at_text t q \<Longrightarrow> gives (f q) r t'"
  shows "gives (otherwise m f) r t'"
  using assms by (auto simp: gives_def otherwise_def at_text_def clean_def mrsh_parser_error_def)

lemma otherwise_some: "gives m (Some c) t \<Longrightarrow> gives (otherwise m f) (Some c) t"
  by (auto simp: gives_def otherwise_def)

lemma keyword_no:
  assumes "take (word_len t) t \<noteq> str" and "1 < length str"
  shows "\<not> matches t str"
  using assms by (auto simp: matches_def token_matches_def starts_with_def)

lemma peek_word_at:
  assumes "at_text t p"
  obtains q where "peek_word p NUL =
      Some (if first_symbol (skip_blanks t) = TOKEN then word_len (skip_blanks t) else 0, q)"
    and "at_text t q" and "has_sym q" and "ptext q = skip_blanks t"
proof -
  have cur: "cur_sym p = first_symbol (skip_blanks t)" "cur_text p = skip_blanks t"
    using assms by (simp_all add: at_text_def)
  obtain q where q: "peek_word p NUL = Some (if cur_sym p = TOKEN then word_len (cur_text p) else 0, q)" "lexed p q"
    using peek_word_text [OF at_wf [OF assms], of NUL] by (auto simp: post_def)
  show ?thesis
    by (rule that [OF q(1) [unfolded cur] at_lexed [OF assms q(2)]])
      (use q(2) lexed_text [OF q(2)] cur in \<open>simp_all add: lexed_def\<close>)
qed

lemma peek_name_at:
  assumes "at_text t p"
  obtains q where "peek_name p False =
      Some (if first_symbol (skip_blanks t) = TOKEN then name_len False (skip_blanks t) else 0, q)"
    and "at_text t q" and "has_sym q" and "ptext q = skip_blanks t"
proof -
  have cur: "cur_sym p = first_symbol (skip_blanks t)" "cur_text p = skip_blanks t"
    using assms by (simp_all add: at_text_def)
  obtain q where q: "peek_name p False = Some (if cur_sym p = TOKEN then name_len False (cur_text p) else 0, q)" "lexed p q"
    using peek_name_text [OF at_wf [OF assms], of False] by (auto simp: post_def)
  show ?thesis
    by (rule that [OF q(1) [unfolded cur] at_lexed [OF assms q(2)]])
      (use q(2) lexed_text [OF q(2)] cur in \<open>simp_all add: lexed_def\<close>)
qed

lemma at_peeked: "at_text t p \<Longrightarrow> peeked p q \<Longrightarrow> at_text t q \<and> has_sym q = has_sym p \<and> ptext q = ptext p"
  using peeked_moved [of p q] at_wf [of t p] clean_moved [of p "ptext p" q]
  by (auto simp: at_text_def cur_text_def cur_sym_def moved_def same_sym_def)

lemma nth_head: "(t @ [NUL]) ! i = head (drop i t)" if "i \<le> length t"
  using that by (cases "i = length t") (auto simp: nth_append hd_drop_conv_nth [symmetric] head_def split: list.split)

lemma peek_index_at:
  assumes "at_text t p" and "i \<le> length (ptext p)"
  obtains q where "peek_at p i = Some (head (drop i (ptext p)), q)" and "at_text t q" and "has_sym q = has_sym p"
    and "ptext q = ptext p"
proof -
  obtain q where "peek_at p i = Some (head (drop i (ptext p)), q)" "peeked p q"
    using peek_at_text [OF at_wf [OF assms(1)] assms(2)] nth_head [OF assms(2)] by (auto simp: post_def)
  with that at_peeked [OF assms(1)] show ?thesis by blast
qed

lemma peek_paren_at:
  "at_text t p \<Longrightarrow> i \<le> len p \<Longrightarrow> len p - i < n \<Longrightarrow>
   \<exists>q. peek_paren n p i = Some (head (dropWhile c_isblank (drop i (ptext p))) = CHR ''('', q)
     \<and> at_text t q \<and> has_sym q = has_sym p \<and> ptext q = ptext p"
proof (induction n arbitrary: p i)
  case (Suc n)
  let ?c = "head (drop i (ptext p))"
  obtain q where q: "peek_at p i = Some (?c, q)" "at_text t q" "has_sym q = has_sym p" "ptext q = ptext p"
    using peek_index_at [OF Suc.prems(1,2)] .
  show ?case
  proof (cases "c_isblank ?c")
    case True
    then have i: "i < len p" using Suc.prems(2) by (cases "i = len p") (auto simp: ctype_defs)
    then have d: "drop i (ptext p) = ?c # drop (Suc i) (ptext p)"
      by (simp add: Cons_nth_drop_Suc [symmetric])
    have paren: "?c \<noteq> CHR ''(''" using True by (auto simp: ctype_defs)
    have "dropWhile c_isblank (drop i (ptext p)) = dropWhile c_isblank (drop (Suc i) (ptext p))"
      using True by (subst d) simp
    with Suc.IH [OF q(2), of "i + 1"] i Suc.prems(3) q True paren show ?thesis by auto
  next
    case False
    then have "dropWhile c_isblank (drop i (ptext p)) = drop i (ptext p)"
      by (cases "drop i (ptext p)") auto
    with q False show ?thesis by auto
  qed
qed simp

lemma take_word_buf:
  "parser_wf q \<Longrightarrow> ptext q = t \<Longrightarrow> take (word_len t) (buf q) = take (word_len t) t"
  using take_buf [of q "word_len t"] word_len_le [of NUL t 0] by simp

lemma unspecified_none:
  assumes "at_text t p" and "take (word_len (skip_blanks t)) (skip_blanks t) \<notin> set reserved_words"
    and "name_len False (skip_blanks t) = 0 \<or> head (after_name (skip_blanks t)) \<noteq> CHR '':''"
  shows "gives (unspecified_word p) False t"
proof -
  let ?u = "skip_blanks t"
  let ?word = "if first_symbol ?u = TOKEN then word_len ?u else 0"
    and ?name = "if first_symbol ?u = TOKEN then name_len False ?u else 0"
  obtain q where q: "peek_word p NUL = Some (?word, q)" "at_text t q" "ptext q = ?u" using peek_word_at [OF assms(1)] .
  obtain r where r: "peek_name q False = Some (?name, r)" "at_text t r" "ptext r = ?u" using peek_name_at [OF q(2)] .
  have "name_len False ?u \<le> len r" using name_len_le r(3) by simp
  then obtain r' where r': "peek_at r (name_len False ?u) = Some (head (after_name ?u), r')" "at_text t r'"
    using peek_index_at [OF r(2)] r(3) by metis
  have "take ?word (buf q) \<notin> set reserved_words" if "?word \<noteq> 0"
    using that take_word_buf [OF at_wf [OF q(2)] q(3)] assms(2) by (simp split: if_splits)
  moreover have "head (after_name ?u) \<noteq> CHR '':''" if "?name \<noteq> 0"
    using that assms(3) by (auto split: if_splits)
  ultimately show ?thesis
    using q(1,2) r(1,2) r' by (auto simp: unspecified_word_def Let_def gives_def split: if_splits)
qed

lemma function_none:
  assumes "at_text t p" and "simple_start (skip_blanks t)"
  shows "gives (function_definition G p) None t"
proof -
  let ?u = "skip_blanks t"
  let ?name = "if first_symbol ?u = TOKEN then name_len False ?u else 0"
  obtain q where q: "peek_name p False = Some (?name, q)" "at_text t q" "ptext q = ?u" using peek_name_at [OF assms(1)] .
  have "?name \<le> len q" "len q - ?name < input_bound q + 2"
    using name_len_le [of False ?u] q(3) ptext_bound [of q] by auto
  from peek_paren_at [OF q(2) this] q(3) obtain r where
    r: "peek_paren (input_bound q + 2) q ?name
        = Some (head (dropWhile c_isblank (drop ?name ?u)) = CHR ''('', r)" "at_text t r"
    by auto
  have "head (dropWhile c_isblank (drop ?name ?u)) \<noteq> CHR ''(''" if "?name \<noteq> 0"
    using that assms(2) by (auto simp: simple_start_def split: if_splits)
  with q(1,2) r show ?thesis
    by (cases "?name = 0") (simp_all add: function_definition_def gives_def del: peek_paren.simps)
qed

lemma simple_start_tokens:
  assumes "simple_start t"
  shows "\<not> matches t ''{''" "\<not> matches t ''(''" "\<not> matches t ''if''" "\<not> matches t ''for''"
    "\<not> matches t ''while''" "\<not> matches t ''until''" "\<not> matches t ''case''"
  using assms by (simp_all add: simple_start_def keyword_no) (simp_all add: matches_def token_matches_def ctype_defs)

lemma clauses_none:
  assumes "at_text t p"
  shows "\<not> matches (skip_blanks t) ''{'' \<Longrightarrow> gives (brace_group G p) None t"
    and "\<not> matches (skip_blanks t) ''('' \<Longrightarrow> gives (subshell G p) None t"
    and "\<not> matches (skip_blanks t) ''if'' \<Longrightarrow> gives (if_clause G p) None t"
    and "\<not> matches (skip_blanks t) ''for'' \<Longrightarrow> gives (for_clause G p) None t"
    and "\<not> matches (skip_blanks t) ''case'' \<Longrightarrow> gives (case_clause G p) None t"
  unfolding brace_group_def subshell_def if_clause_def for_clause_def case_clause_def
  by (rule gives_bind [OF token_no [OF assms]], simp_all add: gives_Some)+

lemma loop_none:
  assumes "at_text t p" and "\<not> matches (skip_blanks t) ''while''" and "\<not> matches (skip_blanks t) ''until''"
  shows "gives (loop_clause G p) None t"
proof -
  obtain q1 where q1: "token p ''while'' = Some (False, q1)" "at_text t q1"
    using token_no [OF assms(1), of "''while''"] assms(2) by (auto simp: gives_def)
  obtain q2 where "token q1 ''until'' = Some (False, q2)" "at_text t q2"
    using token_no [OF q1(2), of "''until''"] assms(3) by (auto simp: gives_def)
  with q1 show ?thesis by (simp add: loop_clause_def gives_def)
qed

lemma compound_none:
  assumes "at_text t p" and "simple_start (skip_blanks t)"
  shows "gives (compound_command G p) None t"
proof -
  note no = simple_start_tokens [OF assms(2)]
  have "gives (do { (b, p1) \<leftarrow> unspecified_word q; if b then Some (None, p1) else function_definition G p1 }) None t"
    if "at_text t q" for q
    by (rule gives_bind [OF unspecified_none [OF that]])
      (use function_none assms(2) in \<open>auto simp: simple_start_def\<close>)
  with no assms(1) show ?thesis unfolding compound_command_def by (intro otherwise_none clauses_none loop_none)
qed

section \<open>The name of a command\<close>

lemma assignment_none:
  assumes "at_text t p" and "simple_start (skip_blanks t)"
  shows "gives (assignment_word G p) None t"
proof -
  let ?u = "skip_blanks t"
  let ?name = "if first_symbol ?u = TOKEN then name_len False ?u else 0"
  obtain b o1 where o1: "symbol p TOKEN = Some (b, o1)" "at_text t o1"
    using symbol_gives [OF assms(1), of TOKEN] by (auto simp: gives_def)
  obtain r where r: "peek_name o1 False = Some (?name, r)" "at_text t r" "ptext r = ?u" using peek_name_at [OF o1(2)] .
  have "name_len False ?u \<le> len r" using name_len_le r(3) by simp
  then obtain r' where r': "peek_at r (name_len False ?u) = Some (head (after_name ?u), r')" "at_text t r'"
    using peek_index_at [OF r(2)] r(3) by metis
  have "head (after_name ?u) \<noteq> CHR ''=''" if "?name \<noteq> 0"
    using that assms(2) by (auto simp: simple_start_def split: if_splits)
  with o1 r r' show ?thesis by (auto simp: assignment_word_def gives_def split: if_splits)
qed

lemma prefix_none:
  assumes "at_text t p" and "simple_start (skip_blanks t)" and "no_redirect (skip_blanks t)" and "0 < n"
  shows "gives (repeat_parts n (cmd_prefix G) p cmd) cmd t"
proof -
  have "gives (cmd_prefix G p cmd) None t"
    unfolding cmd_prefix_def
    by (rule gives_bind [OF io_redirect_none [OF assms(1,3)]], simp,
        rule gives_bind [OF assignment_none [OF _ assms(2)]]) (simp_all add: gives_Some)
  with assms(4) show ?thesis by (cases n) (auto simp: gives_def)
qed

lemma aliases_none: "at_text t p \<Longrightarrow> apply_aliases G p = Some p"
  by (simp add: at_text_def clean_def apply_aliases_def)

lemma word_len_chars: "list_all word_char str \<Longrightarrow> ends_word (head t) \<Longrightarrow> word_len_from NUL (str @ t) i = i + length str"
proof (induction str arbitrary: i)
  case Nil
  then show ?case by (cases t) (auto simp: ends_word_def is_operator_start_def ctype_defs)
qed (auto simp: word_char_def)

lemma plain_opens:
  "list_all word_char str \<Longrightarrow> str \<noteq> [] \<Longrightarrow> head str \<noteq> CHR ''#'' \<Longrightarrow> opens (str @ t)"
  using word_char_ends by (cases str) (auto simp: opens_def)

lemma peek_plain:
  assumes "at_text (str @ t) p" and "list_all word_char str" and "opens (str @ t)" and "ends_word (head t)"
  obtains q where "peek_word p NUL = Some (length str, q)" and "at_text (str @ t) q"
    and "take (length str) (buf q) = str"
proof -
  note u = opens_skip [OF assms(3)] opens_symbol [OF assms(3)] and len = word_len_chars [OF assms(2,4), of 0]
  obtain q where q: "peek_word p NUL = Some (length str, q)" "at_text (str @ t) q" "ptext q = str @ t"
    using peek_word_at [OF assms(1)] u len by auto
  with that take_word_buf [OF at_wf [OF q(2)] q(3)] len show ?thesis by simp
qed

lemma read_token_at:
  assumes "at_text (str @ t) p" and "opens (str @ t)"
  obtains q where "read_token p (length str) = Some (Some str, q)" and "at_text t q"
proof -
  have cur: "cur_text p = str @ t" "cur_sym p = TOKEN"
    using assms(1) opens_skip [OF assms(2)] opens_symbol [OF assms(2)] by (simp_all add: at_text_def)
  obtain q where "read_token p (length str) = Some (Some str, q)" "moved p t q" "\<not> has_sym q"
    using read_token_text [OF at_wf [OF assms(1)], of "length str"] cur by (auto simp: post_def)
  with that at_moved [OF assms(1)] show ?thesis by blast
qed

lemma name_plain:
  assumes "at_text (str @ t) p" and "list_all word_char str" and "str \<noteq> []" and "head str \<noteq> CHR ''#''"
    and "ends_word (head t)"
  shows "gives (cmd_name G p)
    (if str \<in> set shell_keywords then None else Some (MRSH_WORD_STRING str False False))
    (if str \<in> set shell_keywords then str @ t else t)"
proof -
  note op = plain_opens [OF assms(2-4), of t]
  obtain q where q: "peek_word p NUL = Some (length str, q)" "at_text (str @ t) q" "take (length str) (buf q) = str"
    using peek_plain [OF assms(1,2) op assms(5)] .
  obtain r where r: "read_token q (length str) = Some (Some str, r)" "at_text t r" using read_token_at [OF q(2) op] .
  from aliases_none [OF assms(1)] q r assms(3) show ?thesis
    by (simp add: cmd_name_def gives_def mrsh_word_string_create_def)
qed

section \<open>Where a list ends\<close>

text \<open>At the end of the text, at a closing parenthesis and at the keywords that end a list.\<close>

definition stop_words :: "string list" where
  "stop_words = [''then'', ''do'', ''done'', ''fi'']"

definition stops :: "string \<Rightarrow> bool" where
  "stops t \<longleftrightarrow> t = [] \<or> head t = CHR '')'' \<or>
     (\<exists>kw u. kw \<in> set stop_words \<and> t = kw @ u \<and> ends_word (head u) \<and> head (dropWhile c_isblank u) \<noteq> CHR ''('')"

lemma name_len_word:
  assumes "list_all name_char str" and "\<not> c_isdigit (head str)" and "str \<noteq> []" and "\<not> name_char (head t)"
  shows "name_len False (str @ t) = length str"
proof -
  have "takeWhile name_char (str @ t) = str"
    using assms(1,4) by (cases t) (auto simp: list_all_iff takeWhile_append)
  with assms(2,3) show ?thesis by (simp add: name_len_def head_append)
qed

lemma ends_not_name: "ends_word c \<Longrightarrow> \<not> name_char c"
  by (auto simp: ends_word_def is_operator_start_def ctype_defs)

lemma ends_not_sign: "ends_word c \<Longrightarrow> c \<notin> {CHR ''='', CHR '':''}"
  by (auto simp: ends_word_def is_operator_start_def ctype_defs)

lemma stop_word_facts:
  assumes "kw \<in> set stop_words"
  shows "kw \<noteq> []" "list_all name_char kw" "list_all word_char kw" "\<not> c_isdigit (head kw)" "opens (kw @ t)"
    "kw \<in> set shell_keywords" "kw \<notin> set reserved_words" "head kw \<notin> {CHR ''{'', CHR ''('', CHR ''<'', CHR ''>'', CHR ''#''}"
    "kw \<notin> {''if'', ''for'', ''while'', ''until'', ''case''}"
  using assms
  by (auto simp: stop_words_def shell_keywords_def reserved_words_def opens_def ends_word_def word_char_def
      is_operator_start_def ctype_defs)

lemma stops_skip: "stops t \<Longrightarrow> skip_blanks t = t"
  unfolding stops_def
proof (elim disjE exE conjE)
  assume "head t = CHR '')''"
  then show ?thesis by (cases t) (auto simp: ctype_defs)
next
  fix kw u
  assume "kw \<in> set stop_words" "t = kw @ u"
  with opens_skip [OF stop_word_facts(5)] show ?thesis by simp
qed simp

lemma stops_start:
  assumes "stops t"
  shows "simple_start t" and "no_redirect t" and "\<not> matches t ''!''"
proof -
  consider "t = []" | u where "t = CHR '')'' # u"
    | kw u where "kw \<in> set stop_words" "t = kw @ u" "ends_word (head u)" "head (dropWhile c_isblank u) \<noteq> CHR ''(''"
    using assms unfolding stops_def by (cases t) auto
  then have "simple_start t \<and> no_redirect t \<and> head t \<noteq> CHR ''!''"
  proof cases
    case (3 kw u)
    note kw = stop_word_facts [OF 3(1)]
    have "word_len t = length kw" using word_len_chars [OF kw(3) 3(3), of 0] 3(2) by simp
    moreover have "name_len False t = length kw"
      using name_len_word [OF kw(2,4,1) ends_not_name [OF 3(3)]] 3(2) by simp
    moreover have "head t = head kw" using kw(1) 3(2) by (simp add: head_append)
    moreover have "head kw \<noteq> CHR ''!''" using 3(1) by (auto simp: stop_words_def)
    ultimately show ?thesis
      using kw(4,7,8,9) 3(2,4) ends_not_sign [OF 3(3)] by (simp add: simple_start_def no_redirect_def)
  qed (auto simp: simple_start_def no_redirect_def name_len_def reserved_words_def ctype_defs)
  then show "simple_start t" "no_redirect t" "\<not> matches t ''!''"
    by (simp_all add: matches_def token_matches_def ctype_defs)
qed

lemma name_stops:
  assumes "at_text t p" and "stops t"
  shows "gives (cmd_name G p) None t"
proof (cases "t = [] \<or> head t = CHR '')''")
  case True
  then have zero: "word_len (skip_blanks t) = 0" unfolding stops_skip [OF assms(2)] by (cases t) auto
  obtain q where "peek_word p NUL
      = Some (if first_symbol (skip_blanks t) = TOKEN then word_len (skip_blanks t) else 0, q)" "at_text t q"
    using peek_word_at [OF assms(1)] .
  with zero have q: "peek_word p NUL = Some (0, q)" "at_text t q" by simp_all
  have "gives (word_rule G q NUL) None t"
    by (rule word_stops [OF q(2)]) (use True stops_skip [OF assms(2)] in auto)
  with q(1) aliases_none [OF assms(1)] show ?thesis by (simp add: cmd_name_def)
next
  case False
  then obtain kw u where kw: "kw \<in> set stop_words" "t = kw @ u" "ends_word (head u)"
    using assms(2) by (auto simp: stops_def)
  with name_plain [of kw u p G] stop_word_facts [OF kw(1)] assms(1) show ?thesis by simp
qed

lemma command_stops:
  assumes "at_text t p" and "stops t" and "0 < g_fuel G"
  shows "gives (command_rule G p) None t"
proof -
  have "gives (simple_command G q) None t" if q: "at_text t q" for q
  proof -
    obtain q1 where q1: "repeat_parts (g_fuel G) (cmd_prefix G) q no_parts = Some (no_parts, q1)" "at_text t q1"
      using prefix_none [OF q _ _ assms(3)] stops_start [OF assms(2)] stops_skip [OF assms(2)]
      by (auto simp: gives_def)
    obtain q2 where "cmd_name G q1 = Some (None, q2)" "at_text t q2"
      using name_stops [OF q1(2) assms(2)] by (auto simp: gives_def)
    with q1 show ?thesis by (simp add: simple_command_def gives_def)
  qed
  moreover have "gives (compound_command G q) None t" if "at_text t q" for q
    using compound_none [OF that] stops_start(1) [OF assms(2)] stops_skip [OF assms(2)] by simp
  ultimately show ?thesis
    unfolding command_rule_def using aliases_none [OF assms(1)] assms(1) by (auto intro: otherwise_none)
qed

lemma and_or_stops:
  assumes "at_text t p" and "stops t" and "0 < g_fuel G"
  shows "gives (and_or G p) None t"
proof -
  obtain q1 where q1: "token p ''!'' = Some (False, q1)" "at_text t q1"
    using token_no [OF assms(1), of "''!''"] stops_start(3) [OF assms(2)] stops_skip [OF assms(2)]
    by (auto simp: gives_def)
  obtain q2 where "command_rule G q1 = Some (None, q2)" "at_text t q2"
    using command_stops [OF q1(2) assms(2,3)] by (auto simp: gives_def)
  with q1 show ?thesis by (simp add: and_or_def pipeline_def gives_def)
qed

lemma list_stops: "at_text t p \<Longrightarrow> stops t \<Longrightarrow> 0 < g_fuel G \<Longrightarrow> gives (list_rule G p) None t"
  using and_or_stops [of t p G] by (auto simp: list_rule_def gives_def)

section \<open>Simple commands\<close>

lemma part_head:
  "printable_part w \<Longrightarrow> \<not> is_string w \<Longrightarrow> format_word w = Some str \<Longrightarrow> head str \<in> {CHR 0x27, CHR 0x22, CHR ''$''}"
  by (cases w) (auto split: option.splits bind_splits)

lemma array_sep:
  "node_array_format sep (x # xs) = Some str \<longleftrightarrow>
   (\<exists>a b. x = Some a \<and> node_array_format sep xs = Some b \<and> str = a @ (if xs = [] then [] else sep) @ b)"
  by (cases xs) (auto split: bind_splits)

lemma word_no_redirect:
  assumes "printable_word w" and "format_word w = Some str" and "head t \<notin> {CHR ''<'', CHR ''>''}"
  shows "no_redirect (str @ t)"
proof -
  note parts = printable_parts [OF assms(1)] and op = word_opens [OF assms(1,2)]
  have angle: "c \<notin> {CHR ''<'', CHR ''>''}" if "\<not> ends_word c" for c
    using that by (auto simp: ends_word_def is_operator_start_def)
  obtain v vs where w: "word_parts w = v # vs" using parts(3) by (cases "word_parts w") auto
  with parts(6) assms(2) obtain a b where ab: "format_word v = Some a" "node_array_format [] (map format_word vs) = Some b"
    "str = a @ b"
    by (auto simp: array_plain)
  have "printable_part v" using parts(1) w by simp
  note a = part_opens [OF this ab(1)]
  have "head (tl str @ t) \<notin> {CHR ''<'', CHR ''>''}" if digit: "c_isdigit (head str)"
  proof -
    have "head a \<notin> {CHR 0x27, CHR 0x22, CHR ''$''}"
      using digit ab(3) a by (auto simp: head_append ctype_defs)
    with part_head [OF \<open>printable_part v\<close> _ ab(1)] have "is_string v" by blast
    with \<open>printable_part v\<close> ab(1) have chars: "list_all word_char a" by (cases v) auto
    have b: "head (b @ t) \<notin> {CHR ''<'', CHR ''>''}"
    proof (cases vs)
      case (Cons v' vs')
      with ab(2) obtain c d where cd: "format_word v' = Some c" "b = c @ d" by (auto simp: array_plain)
      have "printable_part v'" using parts(1) w Cons by simp
      from part_opens [OF this cd(1)] cd(2) angle show ?thesis by (simp add: head_append)
    qed (use ab(2) assms(3) in simp)
    show ?thesis
    proof (cases "tl a")
      case Nil
      with b ab(3) a show ?thesis by (cases a) auto
    next
      case (Cons c d)
      with chars have "word_char c" by (cases a) auto
      from angle [OF word_char_ends [OF this]] Cons ab(3) show ?thesis by (cases a) auto
    qed
  qed
  with op angle show ?thesis by (auto simp: no_redirect_def head_append opens_def)
qed

lemma ends_command_no_redirect: "ends_command t \<Longrightarrow> no_redirect (skip_blanks t)"
  by (auto simp: ends_command_def no_redirect_def ctype_defs)

lemma ends_command_head: "ends_command t \<Longrightarrow> head t \<notin> {CHR ''<'', CHR ''>''}"
  by (cases t) (auto simp: ends_command_def ctype_defs)

lemma quoted_start:
  assumes "head t \<in> {CHR 0x27, CHR 0x22, CHR ''$''}"
  shows "simple_start t" and "word_len t = 0"
  using assms by (cases t; auto simp: simple_start_def name_len_def reserved_words_def ctype_defs)+

lemma plain_start:
  assumes "plain_name str" and "list_all word_char str" and "str \<noteq> []" and "head (dropWhile c_isblank t) \<noteq> CHR ''(''"
  shows "simple_start (str @ CHR '' '' # t)"
proof -
  let ?t = "CHR '' '' # t"
  have blank: "\<not> name_char (CHR '' '')" "ends_word (CHR '' '')" "c_isblank (CHR '' '')"
    by (simp_all add: ctype_defs ends_word_def)
  have n: "name_len False (str @ ?t) = name_len False str"
    using blank(1) assms(3) by (auto simp: name_len_def head_append takeWhile_append)
  let ?n = "name_len False str"
  have drop: "drop ?n (str @ ?t) = drop ?n str @ ?t" using name_len_le [of False str] by simp
  have word: "take (word_len (str @ ?t)) (str @ ?t) = str"
    using word_len_chars [OF assms(2), of ?t 0] blank(2) by simp
  have "head (drop ?n str @ ?t) \<notin> {CHR ''='', CHR '':''}
      \<and> head (dropWhile c_isblank (drop ?n str @ ?t)) \<noteq> CHR ''(''" if "?n \<noteq> 0"
  proof (cases "drop ?n str")
    case Nil
    with assms(4) blank(3) show ?thesis by simp
  next
    case (Cons c cs)
    then have "c \<in> set str" by (metis in_set_dropD list.set_intros(1))
    with assms(1,2) have "\<not> c_isblank c" "c \<noteq> CHR ''(''"
      by (auto simp: plain_name_def word_char_def list_all_iff)
    with Cons that assms(1) show ?thesis by (auto simp: plain_name_def)
  qed
  moreover have "str \<notin> {''if'', ''for'', ''while'', ''until'', ''case''}"
    using assms(1) by (auto simp: plain_name_def shell_keywords_def)
  moreover have "head str \<notin> {CHR ''{'', CHR ''(''}"
    using assms(1,3) by (cases str) (auto simp: plain_name_def)
  ultimately show ?thesis
    unfolding simple_start_def n drop word
    using assms(1,3) by (auto simp: plain_name_def head_append)
qed

lemma paren_skip: "head (dropWhile c_isblank t) = CHR ''('' \<Longrightarrow> head (skip_blanks t) = CHR ''(''"
  by (induction t) (auto split: if_splits)

lemma arguments_no_paren:
  assumes "node_array_format '' '' (map format_word args) = Some str" and "list_all printable_word args" and "ends_command t"
  shows "head (dropWhile c_isblank (str @ t)) \<noteq> CHR ''(''"
proof (cases args)
  case Nil
  with assms(1,3) paren_skip [of t] show ?thesis by (auto simp: ends_command_def)
next
  case (Cons w ws)
  with assms(1) obtain a b where ab: "format_word w = Some a" "str = a @ b" by (auto simp: array_sep)
  from word_opens [OF _ ab(1)] Cons assms(2) ab(2) show ?thesis
    by (cases a) (auto simp: opens_def ends_word_def)
qed

context substitutions
begin

lemma suffix_gives:
  "at_text (str @ t) p \<Longrightarrow> node_array_format '' '' (map format_word args) = Some str \<Longrightarrow>
   list_all printable_word args \<Longrightarrow> ends_command t \<Longrightarrow> length (str @ t) \<le> k \<Longrightarrow> length str < n \<Longrightarrow>
   gives (repeat_parts n (cmd_suffix G) p cmd) (cmd\<lparr>cp_arguments := cp_arguments cmd @ args\<rparr>) t"
proof (induction args arbitrary: str n p cmd)
  case Nil
  obtain m where n: "n = Suc m" using Nil.prems(6) by (cases n) auto
  have t: "at_text t p" using Nil.prems(1,2) by simp
  obtain q where q: "io_redirect G p = Some (None, q)" "at_text t q"
    using io_redirect_none [OF t ends_command_no_redirect [OF Nil.prems(4)]] by (auto simp: gives_def)
  have "gives (word_rule G q NUL) None t"
    using Nil.prems(4) by (intro word_stops [OF q(2)]) (simp add: ends_command_def)
  with q(1) n show ?case by (auto simp: cmd_suffix_def gives_def)
next
  case (Cons w args)
  let ?sep = "if args = [] then [] else '' ''"
  obtain a b where ab: "format_word w = Some a" "node_array_format '' '' (map format_word args) = Some b"
    "str = a @ ?sep @ b"
    using Cons.prems(2) by (auto simp: array_sep)
  have w: "printable_word w" using Cons.prems(3) by simp
  note op = word_opens(1) [OF w ab(1)]
  let ?r = "?sep @ b @ t"
  have tx: "at_text (a @ ?r) p" "length (a @ ?r) \<le> k" using Cons.prems(1,5) ab(3) by simp_all
  have b: "b = []" if "args = []" using ab(2) that by simp
  have blank: "ends_word (CHR '' '')" "c_isblank (CHR '' '')" by (simp_all add: ends_word_def ctype_defs)
  have ends: "ends_word (head ?r)" "head ?r \<notin> {CHR ''<'', CHR ''>''}"
    using b ends_command_head [OF Cons.prems(4)] Cons.prems(4) blank(1) by (auto simp: ends_command_def)
  have "skip_blanks (a @ ?r) = a @ ?r" using opens_skip [OF opens_append [OF op]] .
  with word_no_redirect [OF w ab(1) ends(2)] obtain q where q: "io_redirect G p = Some (None, q)" "at_text (a @ ?r) q"
    using io_redirect_none [OF tx(1), of G] by (auto simp: gives_def)
  obtain q' where q': "word_rule G q NUL = Some (Some w, q')" "at_text ?r q'"
    using word_gives [OF q(2) w ab(1) ends(1) tx(2)] by (auto simp: gives_def)
  have at: "at_text (b @ t) q'" using q'(2) b blank(2) by (cases "args = []") auto
  have "length b < n - 1" using Cons.prems(6) ab(3) op by (cases a) (auto simp: opens_def)
  then obtain m where n: "n = Suc m" "length b < m" by (cases n) simp_all
  have "length (b @ t) \<le> k" using tx(2) by simp
  from Cons.IH [OF at ab(2) _ Cons.prems(4) this n(2), of "cmd\<lparr>cp_arguments := cp_arguments cmd @ [w]\<rparr>"]
    Cons.prems(3) q(1) q'(1) n(1)
  show ?case by (simp add: cmd_suffix_def)
qed

lemma name_gives:
  assumes "at_text (str @ CHR '' '' # t) p" and "printable_word w" and "command_name w" and "format_word w = Some str"
    and "length (str @ CHR '' '' # t) \<le> k" and "head (dropWhile c_isblank t) \<noteq> CHR ''(''"
  shows "simple_start (str @ CHR '' '' # t)" and "gives (cmd_name G p) (Some w) (CHR '' '' # t)"
proof -
  have blank: "ends_word (head (CHR '' '' # t))" by (simp add: ctype_defs ends_word_def)
  note op = word_opens [OF assms(2,4)]
  have "simple_start (str @ CHR '' '' # t) \<and> gives (cmd_name G p) (Some w) (CHR '' '' # t)"
  proof (cases "is_string w")
    case True
    then obtain sf where "w = MRSH_WORD_STRING str False sf" using assms(4) by (cases w) auto
    with assms(2,3) have w: "w = MRSH_WORD_STRING str False False" "plain_name str" "list_all word_char str" "str \<noteq> []"
      "str \<notin> set shell_keywords"
      by (auto simp: command_name_def plain_name_def)
    from plain_start [OF w(2-4) assms(6)] name_plain [OF assms(1) w(3,4) _ blank, of G] op w(1,5) show ?thesis
      by (simp add: opens_def)
  next
    case False
    with assms(3,4) have "head str \<in> {CHR 0x27, CHR 0x22, CHR ''$''}"
      by (cases w) (auto simp: command_name_def text_head_def split: bool.splits)
    then have "head (str @ CHR '' '' # t) \<in> {CHR 0x27, CHR 0x22, CHR ''$''}" using op by (simp add: head_append opens_def)
    note start = quoted_start [OF this]
    obtain q where q: "peek_word p NUL = Some (0, q)" "at_text (str @ CHR '' '' # t) q"
      by (rule peek_word_at [OF assms(1)])
        (use start(2) opens_skip [OF opens_append [OF op(1)]] in \<open>auto split: if_splits\<close>)
    from word_gives [OF q(2) assms(2,4) blank assms(5)] aliases_none [OF assms(1)] q(1) start(1) show ?thesis
      by (simp add: cmd_name_def)
  qed
  then show "simple_start (str @ CHR '' '' # t)" "gives (cmd_name G p) (Some w) (CHR '' '' # t)" by simp_all
qed

lemma simple_command_gives:
  assumes "at_text (str @ t) p" and "printable_command c" and "\<not> is_compound c" and "format_command c = Some str"
    and "ends_command t" and "length (str @ t) \<le> k" and "k < g_fuel G"
  shows "gives (command_rule G p) (Some c) t"
proof -
  obtain w args where c: "c = MRSH_SIMPLE_COMMAND (Some w) args [] []" "printable_word w" "command_name w"
    "list_all printable_word args"
    using assms(2,3) by (cases c) (auto split: option.splits)
  with assms(4) obtain a b where ab: "format_word w = Some a" "node_array_format '' '' (map format_word args) = Some b"
    "str = a @ CHR '' '' # b"
    by (auto split: bind_splits)
  have at: "at_text (a @ CHR '' '' # b @ t) p" "length (a @ CHR '' '' # b @ t) \<le> k" using assms(1,6) ab(3) by simp_all
  note paren = arguments_no_paren [OF ab(2) c(4) assms(5)]
  note start = name_gives(1) [OF at(1) c(2,3) ab(1) at(2) paren]
  have skip: "skip_blanks (a @ CHR '' '' # b @ t) = a @ CHR '' '' # b @ t"
    using opens_skip [OF opens_append [OF word_opens(1) [OF c(2) ab(1)]]] .
  have redir: "no_redirect (a @ CHR '' '' # b @ t)" by (rule word_no_redirect [OF c(2) ab(1)]) simp
  have blank: "c_isblank (CHR '' '')" by (simp add: ctype_defs)
  have simple: "gives (simple_command G q) (Some c) t" if q: "at_text (a @ CHR '' '' # b @ t) q" for q
  proof -
    obtain q1 where q1: "repeat_parts (g_fuel G) (cmd_prefix G) q no_parts = Some (no_parts, q1)"
      "at_text (a @ CHR '' '' # b @ t) q1"
      using prefix_none [OF q, of "g_fuel G" G no_parts] start redir skip assms(7) by (auto simp: gives_def)
    obtain q2 where q2: "cmd_name G q1 = Some (Some w, q2)" "at_text (b @ t) q2"
      using name_gives(2) [OF q1(2) c(2,3) ab(1) at(2) paren] blank by (auto simp: gives_def)
    have "length (b @ t) \<le> k" "length b < g_fuel G" using at(2) assms(7) by simp_all
    from suffix_gives [OF q2(2) ab(2) c(4) assms(5) this, of no_parts] q1(1) q2(1) c(1) show ?thesis
      by (auto simp: simple_command_def no_parts_def gives_def)
  qed
  from otherwise_none [OF compound_none [OF at(1), of G] simple] start skip aliases_none [OF assms(1)] show ?thesis
    by (simp add: command_rule_def)
qed

end

end
