(* ===== verification/Wsh_Roundtrip.thy ===== *)
theory Wsh_Roundtrip
  imports Wsh_Read_Command
begin

text \<open>
  The parser reads back what \<^verbatim>\<open>mrsh_node_format\<close> prints, for the trees whose text says everything:
  commands with plain and quoted words and command substitutions, pipelines, and-or lists, lists,
  subshells, conditionals, loops and function definitions.
\<close>

section \<open>The ends of pipelines and lists\<close>

definition ends_pipeline :: "string \<Rightarrow> bool" where
  "ends_pipeline t \<longleftrightarrow> ends_command t \<and>
     (head (skip_blanks t) = CHR ''|'' \<longrightarrow> head (tl (skip_blanks t)) = CHR ''|'')"

definition ends_list :: "string \<Rightarrow> bool" where
  "ends_list t \<longleftrightarrow> ends_command t \<and> head (skip_blanks t) \<noteq> CHR ''|''
     \<and> (head (skip_blanks t) = CHR ''&'' \<longrightarrow> head (tl (skip_blanks t)) \<noteq> CHR ''&'')"

lemma ends_list_pipeline: "ends_list t \<Longrightarrow> ends_pipeline t"
  by (simp add: ends_list_def ends_pipeline_def)

lemma operator_symbols:
  "first_symbol (CHR ''&'' # t) = (if head t = CHR ''&'' then AND_IF else TOKEN)"
  "first_symbol (CHR ''|'' # t) = (if head t = CHR ''|'' then OR_IF else TOKEN)"
  "first_symbol (CHR '';'' # t) = (if head t = CHR '';'' then DSEMI else TOKEN)"
  by (cases t; auto simp: first_symbol_def operators_def)+

lemma no_bar:
  assumes "ends_pipeline t"
  shows "\<not> matches (skip_blanks t) ''|''"
proof
  assume m: "matches (skip_blanks t) ''|''"
  then have "head (skip_blanks t) = CHR ''|''" by (simp add: matches_def token_matches_def ctype_defs)
  with assms obtain u where "skip_blanks t = CHR ''|'' # u" "head u = CHR ''|''"
    by (cases "skip_blanks t") (auto simp: ends_pipeline_def)
  with m show False by (simp add: matches_def operator_symbols)
qed

lemma no_and_or:
  assumes "ends_list t"
  shows "first_symbol (skip_blanks t) \<noteq> AND_IF" and "first_symbol (skip_blanks t) \<noteq> OR_IF"
  using first_symbol_operator [of "skip_blanks t" AND_IF] first_symbol_operator [of "skip_blanks t" OR_IF] assms
  by (cases "skip_blanks t"; cases "tl (skip_blanks t)"; auto simp: ends_list_def)+

text \<open>The separator that is printed after a list.\<close>

abbreviation list_sep :: "bool \<Rightarrow> string" where
  "list_sep ampersand \<equiv> (if ampersand then '' &'' else '';'')"

lemma list_sep_ends:
  assumes "head t \<notin> {CHR '';'', CHR ''&''}"
  shows "ends_list (list_sep ampersand @ t)"
  using assms by (auto simp: ends_list_def ends_command_def ends_word_def is_operator_start_def ctype_defs)

lemma single_matches:
  "\<not> c_isalpha c \<Longrightarrow> matches t [c] \<longleftrightarrow> first_symbol t = TOKEN \<and> head t = c"
  by (simp add: matches_def token_matches_def)

lemma separator_op_gives:
  assumes "at_text (list_sep ampersand @ t) p" and "head t \<notin> {CHR '';'', CHR ''&''}"
  shows "gives (separator_op p) (Some (if ampersand then CHR ''&'' else CHR '';'')) t"
proof (cases ampersand)
  case True
  have "gives (token p ''&'') True t"
    by (rule token_yes [OF assms(1)])
      (use True assms(2) in \<open>auto simp: single_matches operator_symbols ctype_defs\<close>)
  with True show ?thesis by (auto simp: separator_op_def gives_def)
next
  case False
  with assms(1) have at: "at_text ('';'' @ t) p" by simp
  obtain q where q: "token p ''&'' = Some (False, q)" "at_text ('';'' @ t) q"
    using token_no [OF at, of "''&''"] by (auto simp: gives_def single_matches ctype_defs)
  have "gives (token q '';'') True t"
    by (rule token_yes [OF q(2)]) (use assms(2) in \<open>auto simp: single_matches operator_symbols ctype_defs\<close>)
  with False q(1) show ?thesis by (auto simp: separator_op_def gives_def)
qed

lemma separator_gives:
  assumes "at_text (list_sep ampersand @ t) p" and "head t \<notin> {CHR '';'', CHR ''&''}"
    and "head (skip_blanks t) \<noteq> NEWLINE_CHR"
  shows "gives (separator p) (Some (if ampersand then CHR ''&'' else CHR '';'')) t"
  unfolding separator_def
proof (rule gives_bind [OF separator_op_gives [OF assms(1,2)]])
  fix q
  assume "at_text t q"
  from linebreak_no [OF this assms(3), of "input_bound q + 2"] obtain r where
    "linebreak (input_bound q + 2) q = Some r" "at_text t r"
    by (auto simp: goes_def simp del: linebreak.simps)
  then show "gives (if Some (if ampersand then CHR ''&'' else CHR '';'') \<noteq> None
      then do { p2 \<leftarrow> linebreak (input_bound q + 2) q; Some (Some (if ampersand then CHR ''&'' else CHR '';''), p2) }
      else do { (b, p2) \<leftarrow> newline_list (input_bound q + 2) q; Some (if b then Some NEWLINE_CHR else None, p2) })
    (Some (if ampersand then CHR ''&'' else CHR '';'')) t"
    by (simp add: gives_def del: linebreak.simps)
qed

section \<open>Loops over lists\<close>

text \<open>The loops over the lists of a compound list and of a program have one form.\<close>

fun repeat_lists ::
  "nat \<Rightarrow> (mrsh_parser \<Rightarrow> mrsh_command_list option parsing) \<Rightarrow> mrsh_parser \<Rightarrow> mrsh_command_list list \<Rightarrow>
   mrsh_command_list list parsing" where
  "repeat_lists 0 f p cmds = None"
| "repeat_lists (Suc n) f p cmds =
     do { (l, p1) \<leftarrow> f p;
          (case l of None \<Rightarrow> Some (cmds, p1) | Some c \<Rightarrow> repeat_lists n f p1 (cmds @ [c])) }"

lemma term_loop_repeat: "term_loop n G p cmds = repeat_lists n (term_rule G) p cmds"
  by (induction n arbitrary: p cmds) (simp_all cong: option.case_cong)

lemma list_loop_repeat: "list_loop n G p cmds = repeat_lists n (list_rule G) p cmds"
  by (induction n arbitrary: p cmds) (simp_all cong: option.case_cong)

text \<open>A function that reads one list and its separator, and nothing where lists end.\<close>

definition reads_lists :: "nat \<Rightarrow> (mrsh_parser \<Rightarrow> mrsh_command_list option parsing) \<Rightarrow> bool" where
  "reads_lists k f \<longleftrightarrow>
     (\<forall>l str t p. printable_command_list l \<longrightarrow> format_command_list l = Some str \<longrightarrow> at_text (str @ t) p \<longrightarrow>
        head t \<notin> {CHR '';'', CHR ''&''} \<longrightarrow> head (skip_blanks t) \<noteq> NEWLINE_CHR \<longrightarrow> length (str @ t) < k \<longrightarrow>
        gives (f p) (Some l) t)
     \<and> (\<forall>t p. at_text t p \<longrightarrow> stops t \<longrightarrow> length t < k \<longrightarrow> gives (f p) None t)"

lemma stops_head: "stops t \<Longrightarrow> head t \<notin> {CHR '';'', CHR ''&'', NEWLINE_CHR}"
  by (auto simp: stops_def stop_words_def)

lemma first_list:
  assumes "reads_lists k f" and "node_array_format '' '' (map format_command_list (l # ls)) = Some str"
    and "list_all printable_command_list (l # ls)" and "stops t" and "at_text (str @ t) p" and "length (str @ t) < k"
  obtains b where "node_array_format '' '' (map format_command_list ls) = Some b"
    and "gives (f p) (Some l) (b @ t)" and "length b < length str"
proof -
  let ?sep = "if ls = [] then [] else '' ''"
  obtain a b where ab: "format_command_list l = Some a" "node_array_format '' '' (map format_command_list ls) = Some b"
    "str = a @ ?sep @ b"
    using assms(2) by (auto simp: array_sep)
  have b: "if ls = [] then b = [] else opens (b @ t)"
    using ab(2) assms(3) lists_open [of ls "'' ''" b] by (auto simp: opens_append)
  have blank: "c_isblank (CHR '' '')" by (simp add: ctype_defs)
  have "head (?sep @ b @ t) \<notin> {CHR '';'', CHR ''&''}" using b stops_head [OF assms(4)] by auto
  moreover have "head (skip_blanks (?sep @ b @ t)) \<noteq> NEWLINE_CHR"
    using b stops_head [OF assms(4)] stops_skip [OF assms(4)] blank opens_skip [of "b @ t"]
    by (auto simp: opens_def ends_word_def split: if_splits)
  ultimately have "gives (f p) (Some l) (?sep @ b @ t)"
    using assms(1,3,5,6) ab(1,3) unfolding reads_lists_def by simp
  then have "gives (f p) (Some l) (b @ t)" using b blank by (cases "ls = []") (auto simp: gives_def)
  moreover have "0 < length a" using command_list_opens [OF _ ab(1)] assms(3) by (cases a) (auto simp: opens_def)
  ultimately show ?thesis using that ab(2,3) by simp
qed

lemma repeat_lists_gives:
  "node_array_format '' '' (map format_command_list ls) = Some str \<Longrightarrow> list_all printable_command_list ls \<Longrightarrow>
   at_text (str @ t) p \<Longrightarrow> stops t \<Longrightarrow> reads_lists k f \<Longrightarrow> length (str @ t) < k \<Longrightarrow> length str < n \<Longrightarrow>
   gives (repeat_lists n f p cmds) (cmds @ ls) t"
proof (induction ls arbitrary: str n p cmds)
  case Nil
  then have "gives (f p) None t" by (simp add: reads_lists_def)
  with Nil.prems(7) show ?case by (cases n) (auto simp: gives_def)
next
  case (Cons l ls)
  obtain b where b: "node_array_format '' '' (map format_command_list ls) = Some b"
    "gives (f p) (Some l) (b @ t)" "length b < length str"
    using first_list [OF Cons.prems(5,1,2,4,3,6)] .
  then obtain q where q: "f p = Some (Some l, q)" "at_text (b @ t) q" by (auto simp: gives_def)
  obtain m where n: "n = Suc m" "length b < m" using Cons.prems(7) b(3) by (cases n) auto
  have "length (b @ t) < k" using Cons.prems(6) b(3) by simp
  from Cons.IH [OF b(1) _ q(2) Cons.prems(4,5) this n(2), of "cmds @ [l]"] Cons.prems(2) q(1) n(1)
  show ?case by simp
qed

section \<open>The recursive rules\<close>

lemma keyword_matches:
  assumes "kw \<in> set stop_words \<union> {''if'', ''while'', ''until'', ''elif'', ''else''}" and "ends_word (head t)"
  shows "word_len (kw @ t) = length kw" and "matches (kw @ t) kw"
proof -
  have "list_all word_char kw" and one: "1 < length kw" and op: "opens (kw @ t)"
    using assms(1)
    by (auto simp: stop_words_def word_char_def is_operator_start_def ctype_defs opens_def ends_word_def)
  then show len: "word_len (kw @ t) = length kw" using word_len_chars [of kw t 0] assms(2) by simp
  show "matches (kw @ t) kw"
    using one len opens_symbol [OF op] by (simp add: matches_def token_matches_def)
qed

lemma keyword_other:
  assumes "kw \<in> set stop_words \<union> {''if'', ''while'', ''until'', ''elif'', ''else''}" and "ends_word (head t)"
    and "str \<noteq> kw" and "1 < length str"
  shows "\<not> matches (kw @ t) str"
  by (rule keyword_no) (use keyword_matches(1) [OF assms(1,2)] assms(3,4) in simp_all)

lemma ends_command_paren: "ends_command t \<Longrightarrow> head (dropWhile c_isblank t) \<noteq> CHR ''(''"
  using paren_skip [of t] by (auto simp: ends_command_def)

lemma stops_keyword:
  "kw \<in> set stop_words \<Longrightarrow> ends_word (head t) \<Longrightarrow> head (dropWhile c_isblank t) \<noteq> CHR ''('' \<Longrightarrow> stops (kw @ t)"
  unfolding stops_def by blast

text \<open>The text of a function definition.\<close>

lemma function_start:
  assumes "name \<noteq> []" and "name_len False name = length name"
  shows "opens (name @ ''()'' @ t)" and "name_len False (name @ ''()'' @ t) = length name"
    and "take (word_len (name @ ''()'' @ t)) (name @ ''()'' @ t) = name @ ''(''"
    and "str \<in> {''{'', ''('', ''if'', ''for'', ''while'', ''until'', ''case''} \<Longrightarrow> \<not> matches (name @ ''()'' @ t) str"
proof -
  note name = name_opens [OF assms]
  show "opens (name @ ''()'' @ t)" by (rule name(1))
  have digit: "\<not> c_isdigit (head name)" using assms by (auto simp: name_len_def split: if_splits)
  show "name_len False (name @ ''()'' @ t) = length name"
    by (rule name_len_word [OF name(2) digit assms(1)]) (simp add: ctype_defs)
  have wc: "word_char c" if "name_char c" for c
    using that by (auto simp: word_char_def is_operator_start_def ctype_defs)
  have "list_all word_char name" unfolding list_all_iff using name(2) [unfolded list_all_iff] wc by blast
  then have chars: "list_all word_char (name @ ''('')" by (simp add: word_char_def is_operator_start_def ctype_defs)
  from word_len_chars [OF chars, of "CHR '')'' # t" 0]
  show w: "take (word_len (name @ ''()'' @ t)) (name @ ''()'' @ t) = name @ ''(''"
    by (simp add: ends_word_def)
  have head: "head (name @ ''()'' @ t) \<notin> {CHR ''{'', CHR ''(''}"
    using name(2) assms(1) by (cases name) (auto simp: ctype_defs)
  show "\<not> matches (name @ ''()'' @ t) str"
    if str: "str \<in> {''{'', ''('', ''if'', ''for'', ''while'', ''until'', ''case''}"
  proof (cases "length str = 1")
    case True
    with str have "str = ''{'' \<or> str = ''(''" by auto
    with head show ?thesis by (auto simp: matches_def token_matches_def ctype_defs)
  next
    case False
    with str have "last str \<noteq> CHR ''(''" "1 < length str" by auto
    moreover from this(1) have "name @ ''('' \<noteq> str" by auto
    ultimately show ?thesis by (intro keyword_no) (simp_all only: w not_False_eq_True)
  qed
qed

text \<open>
  What the rules rely on: the functions they call recursively read the texts of at most \<open>k\<close> characters.
\<close>

locale reading_grammar = substitutions G k for G :: grammar and k :: nat +
  assumes fuel: "k < g_fuel G"
    and and_or_call: "printable_and_or_list a \<Longrightarrow> format_and_or_list a = Some str \<Longrightarrow> at_text (str @ t) p \<Longrightarrow>
      ends_list t \<Longrightarrow> length (str @ t) < k \<Longrightarrow> gives (g_and_or G p) (Some a) t"
    and stop_call: "at_text t p \<Longrightarrow> stops t \<Longrightarrow> length t < k \<Longrightarrow> gives (g_and_or G p) None t"
    and compound_call: "printable_command c \<Longrightarrow> is_compound c \<Longrightarrow> format_command c = Some str \<Longrightarrow>
      at_text (str @ t) p \<Longrightarrow> ends_command t \<Longrightarrow> length (str @ t) < k \<Longrightarrow>
      gives (g_compound_command G p) (Some c) t"
begin

lemma term_reads: "reads_lists k (term_rule G)"
  unfolding reads_lists_def
proof (intro conjI allI impI)
  fix l str t p
  assume l: "printable_command_list l" "format_command_list l = Some str" and at: "at_text (str @ t) p"
    and t: "head t \<notin> {CHR '';'', CHR ''&''}" "head (skip_blanks t) \<noteq> NEWLINE_CHR" and len: "length (str @ t) < k"
  obtain a amp x where x: "l = Command_list a amp" "printable_and_or_list a" "format_and_or_list a = Some x"
    "str = x @ list_sep amp"
    using l by (cases l) (auto split: bind_splits)
  obtain q where q: "g_and_or G p = Some (Some a, q)" "at_text (list_sep amp @ t) q"
    using and_or_call [OF x(2,3) _ list_sep_ends [OF t(1), of amp]] at len x(4) by (auto simp: gives_def)
  obtain r where "separator q = Some (Some (if amp then CHR ''&'' else CHR '';''), r)" "at_text t r"
    using separator_gives [OF q(2) t] by (auto simp: gives_def)
  with q(1) x(1) show "gives (term_rule G p) (Some l) t"
    by (auto simp: term_rule_def gives_def at_text_def clean_def)
next
  fix t p
  assume "at_text t p" "stops t" "length t < k"
  from stop_call [OF this] show "gives (term_rule G p) None t" by (auto simp: term_rule_def gives_def)
qed

lemma compound_list_gives:
  assumes "ls \<noteq> []" and "list_all printable_command_list ls"
    and "node_array_format '' '' (map format_command_list ls) = Some str" and "at_text (str @ t) p" and "stops t"
    and "length (str @ t) < k"
  shows "gives (expect_compound_list G p) (Some ls) t"
proof -
  obtain l ls' where ls: "ls = l # ls'" using assms(1) by (cases ls) auto
  note op = opens_append [OF lists_open [OF assms(1-3)], of t]
  have "head (skip_blanks (str @ t)) \<noteq> NEWLINE_CHR" using op opens_skip [OF op] by (auto simp: opens_def ends_word_def)
  then obtain q where q: "linebreak (input_bound p + 2) p = Some q" "at_text (str @ t) q"
    using linebreak_no [OF assms(4), of "input_bound p + 2"] by (auto simp: goes_def simp del: linebreak.simps)
  obtain b where b: "node_array_format '' '' (map format_command_list ls') = Some b"
    "gives (term_rule G q) (Some l) (b @ t)" "length b < length str"
    using first_list [OF term_reads assms(3,2,5) [unfolded ls] q(2) assms(6)] .
  then obtain q' where q': "term_rule G q = Some (Some l, q')" "at_text (b @ t) q'" by (auto simp: gives_def)
  have "length (b @ t) < k" "length b < g_fuel G" using assms(6) b(3) fuel by simp_all
  from repeat_lists_gives [OF b(1) _ q'(2) assms(5) term_reads this, of "[l]"] assms(2) ls
  obtain r where "term_loop (g_fuel G) G q' [l] = Some (ls, r)" "at_text t r"
    by (auto simp: gives_def term_loop_repeat)
  with q(1) q'(1) show ?thesis
    by (simp add: expect_compound_list_def compound_list_def gives_def del: linebreak.simps)
qed

lemma paren_gives:
  "at_text (CHR ''('' # t) p \<Longrightarrow> gives (token p ''('') True t"
  "at_text (CHR ''('' # t) p \<Longrightarrow> gives (expect_token p ''('') True t"
  "at_text (CHR '')'' # t) p \<Longrightarrow> gives (expect_token p '')'') True t"
proof -
  have "matches (''('' @ t) ''(''" "matches ('')'' @ t) '')''" "skip_blanks (CHR ''('' # t) = ''('' @ t"
    "skip_blanks (CHR '')'' # t) = '')'' @ t"
    by (simp_all add: single_matches first_symbol_def operators_def ctype_defs)
  then show "at_text (CHR ''('' # t) p \<Longrightarrow> gives (token p ''('') True t"
    "at_text (CHR ''('' # t) p \<Longrightarrow> gives (expect_token p ''('') True t"
    "at_text (CHR '')'' # t) p \<Longrightarrow> gives (expect_token p '')'') True t"
    by (auto intro: token_yes expect_token_yes)
qed

lemma keyword_gives:
  assumes "at_text (kw @ t) p" and "kw \<in> set stop_words \<union> {''if'', ''while'', ''until'', ''elif'', ''else''}"
    and "ends_word (head t)"
  shows "gives (token p kw) True t" and "gives (expect_token p kw) True t"
    and "str \<noteq> kw \<Longrightarrow> 1 < length str \<Longrightarrow> NUL \<notin> set str \<Longrightarrow> gives (token p str) False (kw @ t)"
proof -
  have op: "opens (kw @ t)" and ne: "kw \<noteq> []" "NUL \<notin> set kw"
    using assms(2) by (auto simp: stop_words_def opens_def ends_word_def is_operator_start_def ctype_defs)
  note skip = opens_skip [OF op]
  show "gives (token p kw) True t" "gives (expect_token p kw) True t"
    using token_yes [OF assms(1) ne skip keyword_matches(2) [OF assms(2,3)]]
      expect_token_yes [OF assms(1) ne skip keyword_matches(2) [OF assms(2,3)]] .
  show "gives (token p str) False (kw @ t)" if "str \<noteq> kw" "1 < length str" "NUL \<notin> set str"
    by (rule token_no [OF assms(1)]) (use that keyword_other [OF assms(2,3)] skip in auto)
qed

lemma subshell_gives:
  assumes "body \<noteq> []" and "list_all printable_command_list body"
    and "node_array_format '' '' (map format_command_list body) = Some str"
    and "at_text (CHR ''('' # str @ CHR '')'' # t) p" and "length (CHR ''('' # str @ CHR '')'' # t) \<le> k"
  shows "gives (subshell G p) (Some (MRSH_SUBSHELL body)) t"
proof -
  have len: "length (str @ CHR '')'' # t) < k" using assms(5) by simp
  have stop: "stops (CHR '')'' # t)" by (simp add: stops_def)
  obtain p1 where p1: "token p ''('' = Some (True, p1)" "at_text (str @ CHR '')'' # t) p1"
    using paren_gives(1) [OF assms(4)] by (auto simp: gives_def)
  obtain p2 where p2: "expect_compound_list G p1 = Some (Some body, p2)" "at_text (CHR '')'' # t) p2"
    using compound_list_gives [OF assms(1-3) p1(2) stop len] by (auto simp: gives_def)
  obtain p3 where "expect_token p2 '')'' = Some (True, p3)" "at_text t p3"
    using paren_gives(3) [OF p2(2)] by (auto simp: gives_def)
  with p1 p2 show ?thesis by (simp add: subshell_def gives_def)
qed

lemma blank_facts: "ends_word (head (CHR '' '' # t))" "c_isblank (CHR '' '')"
  by (simp_all add: ends_word_def ctype_defs)

lemma body_paren:
  assumes "body \<noteq> []" and "list_all printable_command_list body" and "no_paren body"
    and "node_array_format '' '' (map format_command_list body) = Some str"
  shows "head (dropWhile c_isblank (CHR '' '' # str @ t)) \<noteq> CHR ''(''"
  using lists_open [OF assms(1,2,4)] assms(3,4) blank_facts(2)
  by (cases str) (auto simp: opens_def ends_word_def text_head_def)

lemma if_clause_gives:
  assumes "condition \<noteq> []" "list_all printable_command_list condition" "body \<noteq> []" "list_all printable_command_list body"
    and "no_paren body" and "node_array_format '' '' (map format_command_list condition) = Some x"
    and "node_array_format '' '' (map format_command_list body) = Some y" and "ends_command t"
    and "at_text (''if '' @ x @ ''then '' @ y @ ''fi'' @ t) p"
    and "length (''if '' @ x @ ''then '' @ y @ ''fi'' @ t) \<le> k"
  shows "gives (if_clause G p) (Some (MRSH_IF_CLAUSE condition body None)) t"
proof -
  let ?u = "CHR '' '' # y @ ''fi'' @ t" and ?v = "''fi'' @ t"
  have t: "ends_word (head t)" using assms(8) by (simp add: ends_command_def)
  have kw: "''then'' \<in> set stop_words" "''fi'' \<in> set stop_words" by (simp_all add: stop_words_def)
  note blank = blank_facts(1) [of "y @ ''fi'' @ t"]
  have stop: "stops (''then'' @ ?u)" "stops ?v"
    using stops_keyword [OF kw(1) blank body_paren [OF assms(3-5,7)]]
      stops_keyword [OF kw(2) t ends_command_paren [OF assms(8)]] by simp_all
  have len: "length (x @ ''then'' @ ?u) < k" "length (y @ ?v) < k" using assms(10) by simp_all
  have at: "at_text (''if'' @ CHR '' '' # x @ ''then'' @ ?u) p" using assms(9) by simp
  obtain p1 where p1: "token p ''if'' = Some (True, p1)" "at_text (x @ ''then'' @ ?u) p1"
    using keyword_gives(1) [OF at _ blank_facts(1)] blank_facts(2) by (auto simp: gives_def)
  obtain p2 where p2: "expect_compound_list G p1 = Some (Some condition, p2)" "at_text (''then'' @ ?u) p2"
    using compound_list_gives [OF assms(1,2,6) p1(2) stop(1) len(1)] by (auto simp: gives_def)
  obtain p3 where p3: "expect_token p2 ''then'' = Some (True, p3)" "at_text (y @ ?v) p3"
    using keyword_gives(2) [OF p2(2) _ blank] kw blank_facts(2) by (auto simp: gives_def)
  obtain p4 where p4: "expect_compound_list G p3 = Some (Some body, p4)" "at_text ?v p4"
    using compound_list_gives [OF assms(3,4,7) p3(2) stop(2) len(2)] by (auto simp: gives_def)
  obtain p5 where p5: "token p4 ''elif'' = Some (False, p5)" "at_text ?v p5"
    using keyword_gives(3) [OF p4(2) _ t, of "''elif''"] kw by (auto simp: gives_def)
  obtain p6 where p6: "token p5 ''else'' = Some (False, p6)" "at_text ?v p6"
    using keyword_gives(3) [OF p5(2) _ t, of "''else''"] kw by (auto simp: gives_def)
  obtain p7 where "expect_token p6 ''fi'' = Some (True, p7)" "at_text t p7"
    using keyword_gives(2) [OF p6(2) _ t] kw by (auto simp: gives_def)
  with p1 p2 p3 p4 p5 p6 show ?thesis by (simp add: if_clause_def if_body_def else_part_rule_def gives_def)
qed

lemma loop_clause_gives:
  assumes "condition \<noteq> []" "list_all printable_command_list condition" "body \<noteq> []" "list_all printable_command_list body"
    and "no_paren body" and "node_array_format '' '' (map format_command_list condition) = Some x"
    and "node_array_format '' '' (map format_command_list body) = Some y" and "ends_command t"
    and "at_text (kw @ CHR '' '' # x @ ''do '' @ y @ ''done'' @ t) p"
    and "length (kw @ CHR '' '' # x @ ''do '' @ y @ ''done'' @ t) \<le> k"
    and "kw = (if type = MRSH_LOOP_WHILE then ''while'' else ''until'')"
  shows "gives (loop_clause G p) (Some (MRSH_LOOP_CLAUSE type condition body)) t"
proof -
  let ?u = "CHR '' '' # y @ ''done'' @ t" and ?v = "''done'' @ t"
  let ?w = "CHR '' '' # x @ ''do'' @ ?u"
  have t: "ends_word (head t)" using assms(8) by (simp add: ends_command_def)
  have stop_kw: "''do'' \<in> set stop_words" "''done'' \<in> set stop_words" by (simp_all add: stop_words_def)
  note blank = blank_facts(1) [of "y @ ''done'' @ t"]
  have stop: "stops (''do'' @ ?u)" "stops ?v"
    using stops_keyword [OF stop_kw(1) blank body_paren [OF assms(3-5,7)]]
      stops_keyword [OF stop_kw(2) t ends_command_paren [OF assms(8)]] by simp_all
  have len: "length (x @ ''do'' @ ?u) < k" "length (y @ ?v) < k" using assms(10) by simp_all
  have at: "at_text (kw @ ?w) p" using assms(9) by simp
  obtain b b' p1 p2 where p2: "token p ''while'' = Some (b, p1)"
    "(if b then Some (False, p1) else token p1 ''until'') = Some (b', p2)"
    "b \<or> b'" "b = (type = MRSH_LOOP_WHILE)" "at_text (x @ ''do'' @ ?u) p2"
  proof (cases type)
    case MRSH_LOOP_WHILE
    with that at assms(11) keyword_gives(1) [of "''while''" ?w p] blank_facts show ?thesis by (auto simp: gives_def)
  next
    case MRSH_LOOP_UNTIL
    then have kw: "kw = ''until''" using assms(11) by simp
    obtain p1 where p1: "token p ''while'' = Some (False, p1)" "at_text (kw @ ?w) p1"
      using keyword_gives(3) [OF at _ blank_facts(1), of "''while''"] kw by (auto simp: gives_def)
    obtain p2 where "token p1 ''until'' = Some (True, p2)" "at_text ?w p2"
      using keyword_gives(1) [OF p1(2) _ blank_facts(1)] kw by (auto simp: gives_def)
    with that [of False p1 True p2] p1 MRSH_LOOP_UNTIL blank_facts(2) show ?thesis by simp
  qed
  obtain p3 where p3: "expect_compound_list G p2 = Some (Some condition, p3)" "at_text (''do'' @ ?u) p3"
    using compound_list_gives [OF assms(1,2,6) p2(5) stop(1) len(1)] by (auto simp: gives_def)
  obtain p4 where p4: "token p3 ''do'' = Some (True, p4)" "at_text (y @ ?v) p4"
    using keyword_gives(1) [OF p3(2) _ blank] stop_kw blank_facts(2) by (auto simp: gives_def)
  obtain p5 where p5: "expect_compound_list G p4 = Some (Some body, p5)" "at_text ?v p5"
    using compound_list_gives [OF assms(3,4,7) p4(2) stop(2) len(2)] by (auto simp: gives_def)
  obtain p6 where "token p5 ''done'' = Some (True, p6)" "at_text t p6"
    using keyword_gives(1) [OF p5(2) _ t] stop_kw by (auto simp: gives_def)
  with p2 p3 p4 p5 show ?thesis
    by (cases type) (auto simp: loop_clause_def expect_do_group_def gives_def)
qed

lemma function_gives:
  assumes "name \<noteq> []" and "name_len False name = length name" and "is_compound body" and "printable_command body"
    and "format_command body = Some str" and "at_text (name @ ''()'' @ str @ t) p" and "ends_command t"
    and "length (name @ ''()'' @ str @ t) \<le> k"
  shows "gives (function_definition G p) (Some (MRSH_FUNCTION_DEFINITION name body [])) t"
proof -
  let ?u = "name @ ''()'' @ str @ t"
  note start = function_start [OF assms(1,2), where t = "str @ t"]
  note skip = opens_skip [OF start(1)] and op = opens_append [OF command_opens [OF assms(4,5)], of t]
  obtain p1 where p1: "peek_name p False = Some (length name, p1)" "at_text ?u p1" "ptext p1 = ?u"
    by (rule peek_name_at [OF assms(6)]) (use skip start(2) opens_symbol [OF start(1)] in auto)
  have n: "length name \<le> len p1" "len p1 - length name < input_bound p1 + 2"
    using p1(3) ptext_bound [of p1] by auto
  obtain p2 where p2: "peek_paren (input_bound p1 + 2) p1 (length name) = Some (True, p2)" "at_text ?u p2"
    using peek_paren_at [OF p1(2) n] p1(3) by (auto simp: ctype_defs simp del: peek_paren.simps)
  obtain p3 where p3: "read_token p2 (length name) = Some (Some name, p3)" "at_text (CHR ''('' # CHR '')'' # str @ t) p3"
    using read_token_at [OF p2(2) start(1)] by auto
  obtain p4 where p4: "expect_token p3 ''('' = Some (True, p4)" "at_text (CHR '')'' # str @ t) p4"
    using paren_gives(2) [OF p3(2)] by (auto simp: gives_def)
  obtain p5 where p5: "expect_token p4 '')'' = Some (True, p5)" "at_text (str @ t) p5"
    using paren_gives(3) [OF p4(2)] by (auto simp: gives_def)
  have "head (skip_blanks (str @ t)) \<noteq> NEWLINE_CHR" using op opens_skip [OF op] by (auto simp: opens_def ends_word_def)
  then obtain p6 where p6: "linebreak (input_bound p5 + 2) p5 = Some p6" "at_text (str @ t) p6"
    using linebreak_no [OF p5(2), of "input_bound p5 + 2"] by (auto simp: goes_def simp del: linebreak.simps)
  have "length (str @ t) < k" using assms(8) by simp
  from compound_call [OF assms(4,3,5) p6(2) assms(7) this] obtain p7 where
    p7: "g_compound_command G p6 = Some (Some body, p7)" "at_text t p7" by (auto simp: gives_def)
  obtain m where m: "g_fuel G = Suc m" using fuel by (cases "g_fuel G") auto
  obtain p8 where "io_redirects_loop (g_fuel G) G p7 [] = Some ([], p8)" "at_text t p8"
    using io_redirect_none [OF p7(2) ends_command_no_redirect [OF assms(7)], of G] m by (auto simp: gives_def)
  with p1 p2 p3 p4 p5 p6 p7 assms(1) show ?thesis
    by (simp add: function_definition_def gives_def del: linebreak.simps peek_paren.simps)
qed

lemma compound_gives:
  assumes "printable_command c" and "is_compound c" and "format_command c = Some str" and "at_text (str @ t) p"
    and "ends_command t" and "length (str @ t) \<le> k"
  shows "gives (compound_command G p) (Some c) t"
proof (cases c)
  case (MRSH_SUBSHELL body)
  with assms(1,3) obtain x where x: "body \<noteq> []" "list_all printable_command_list body"
    "node_array_format '' '' (map format_command_list body) = Some x" "str = CHR ''('' # x @ '')''"
    by (auto split: bind_splits)
  have at: "at_text (CHR ''('' # x @ CHR '')'' # t) p" "length (CHR ''('' # x @ CHR '')'' # t) \<le> k"
    using assms(4,6) x(4) by simp_all
  have "gives (brace_group G p) None (CHR ''('' # x @ CHR '')'' # t)"
    by (rule clauses_none(1) [OF at(1)]) (simp add: single_matches ctype_defs)
  with subshell_gives [OF x(1-3) _ at(2)] MRSH_SUBSHELL show ?thesis
    unfolding compound_command_def by (auto intro: otherwise_none otherwise_some)
next
  case (MRSH_IF_CLAUSE condition body e)
  with assms(1,3) obtain x y where xy: "condition \<noteq> []" "list_all printable_command_list condition" "body \<noteq> []"
    "list_all printable_command_list body" "no_paren body"
    "node_array_format '' '' (map format_command_list condition) = Some x"
    "node_array_format '' '' (map format_command_list body) = Some y"
    "str = ''if '' @ x @ ''then '' @ y @ ''fi''" "e = None"
    by (auto split: bind_splits)
  let ?u = "''if '' @ x @ ''then '' @ y @ ''fi'' @ t"
  have at: "at_text ?u p" "length ?u \<le> k" using assms(4,6) xy(8) by simp_all
  have "\<not> matches (skip_blanks ?u) ''{''" "\<not> matches (skip_blanks ?u) ''(''"
    by (simp_all add: single_matches ctype_defs)
  with if_clause_gives [OF xy(1-7) assms(5) _ at(2)] MRSH_IF_CLAUSE xy(9) at(1) show ?thesis
    unfolding compound_command_def by (auto intro!: otherwise_none [OF clauses_none(1)] otherwise_none [OF clauses_none(2)]
        intro: otherwise_some simp del: append.simps)
next
  case (MRSH_LOOP_CLAUSE type condition body)
  let ?kw = "if type = MRSH_LOOP_WHILE then ''while'' else ''until''"
  from MRSH_LOOP_CLAUSE assms(1,3) obtain x y where xy: "condition \<noteq> []" "list_all printable_command_list condition" "body \<noteq> []"
    "list_all printable_command_list body" "no_paren body"
    "node_array_format '' '' (map format_command_list condition) = Some x"
    "node_array_format '' '' (map format_command_list body) = Some y"
    "str = ?kw @ CHR '' '' # x @ ''do '' @ y @ ''done''"
    by (auto split: bind_splits)
  let ?v = "CHR '' '' # x @ ''do '' @ y @ ''done'' @ t"
  have at: "at_text (?kw @ ?v) p" "length (?kw @ ?v) \<le> k" using assms(4,6) xy(8) by simp_all
  have kw: "?kw \<in> set stop_words \<union> {''if'', ''while'', ''until'', ''elif'', ''else''}" by simp
  have skip: "skip_blanks (?kw @ ?v) = ?kw @ ?v" by (auto simp: ctype_defs)
  have "\<not> matches (?kw @ ?v) ''{''" "\<not> matches (?kw @ ?v) ''(''" by (simp_all add: single_matches ctype_defs)
  moreover have "\<not> matches (?kw @ ?v) ''if''" "\<not> matches (?kw @ ?v) ''for''"
    by (rule keyword_other [OF kw blank_facts(1)]; simp)+
  ultimately have no: "\<not> matches (skip_blanks (?kw @ ?v)) ''{''" "\<not> matches (skip_blanks (?kw @ ?v)) ''(''"
    "\<not> matches (skip_blanks (?kw @ ?v)) ''if''" "\<not> matches (skip_blanks (?kw @ ?v)) ''for''"
    unfolding skip by simp_all
  show ?thesis
    unfolding compound_command_def MRSH_LOOP_CLAUSE
    by (intro otherwise_none [OF clauses_none(1) [OF _ no(1)]] otherwise_none [OF clauses_none(2) [OF _ no(2)]]
        otherwise_none [OF clauses_none(3) [OF _ no(3)]] otherwise_none [OF clauses_none(4) [OF _ no(4)]]
        otherwise_some loop_clause_gives [OF xy(1-7) assms(5) _ at(2) refl]) (rule at(1) | assumption)+
next
  case (MRSH_FUNCTION_DEFINITION name body rs)
  with assms(1,3) obtain x where x: "name \<noteq> []" "name_len False name = length name" "is_compound body"
    "printable_command body" "format_command body = Some x" "str = name @ ''()'' @ x" "rs = []"
    by (auto split: bind_splits)
  let ?u = "name @ ''()'' @ x @ t"
  note start = function_start [OF x(1,2), where t = "x @ t"]
  have at: "at_text ?u p" "length ?u \<le> k" using assms(4,6) x(6) by simp_all
  have "last w \<noteq> CHR ''(''" if "w \<in> set reserved_words" for w using that by (auto simp: reserved_words_def)
  then have "name @ ''('' \<notin> set reserved_words" by fastforce
  then have un: "gives (unspecified_word q) False ?u" if "at_text ?u q" for q
    by (intro unspecified_none [OF that]; unfold opens_skip [OF start(1)] start(2,3)) simp_all
  have fn: "gives (do { (b, p1) \<leftarrow> unspecified_word q; if b then Some (None, p1) else function_definition G p1 })
      (Some c) t" if "at_text ?u q" for q
    by (rule gives_bind [OF un [OF that]])
      (use function_gives [OF x(1-5) _ assms(5) at(2)] MRSH_FUNCTION_DEFINITION x(7) in simp)
  show ?thesis
    unfolding compound_command_def
    by (intro otherwise_none [OF clauses_none(1)] otherwise_none [OF clauses_none(2)] otherwise_none [OF clauses_none(3)]
        otherwise_none [OF clauses_none(4)] otherwise_none [OF loop_none] otherwise_none [OF clauses_none(5)] fn)
      (simp_all only: at(1) opens_skip [OF start(1)], simp_all add: start(4) del: append.simps)
qed (use assms in auto)

lemma command_gives:
  assumes "printable_command c" and "format_command c = Some str" and "at_text (str @ t) p"
    and "ends_command t" and "length (str @ t) \<le> k"
  shows "gives (command_rule G p) (Some c) t"
proof (cases "is_compound c")
  case True
  from otherwise_some [OF compound_gives [OF assms(1) True assms(2-5)]] aliases_none [OF assms(3)] show ?thesis
    by (simp add: command_rule_def)
next
  case False
  from simple_command_gives [OF assms(3,1) False assms(2,4,5) fuel] show ?thesis .
qed

text \<open>The commands of a pipeline after the first, each one after a bar.\<close>

abbreviation bar :: "mrsh_command list \<Rightarrow> string" where
  "bar cs \<equiv> (if cs = [] then [] else '' | '')"

lemma bar_ends:
  assumes "ends_pipeline t" and "cs = [] \<Longrightarrow> str = []"
  shows "ends_command (bar cs @ str @ t)"
  using assms by (auto simp: ends_pipeline_def ends_command_def ends_word_def ctype_defs)

lemma pipeline_loop_gives:
  "list_all printable_command cs \<Longrightarrow> node_array_format '' | '' (map format_command cs) = Some str \<Longrightarrow>
   at_text (bar cs @ str @ t) p \<Longrightarrow> ends_pipeline t \<Longrightarrow> length (str @ t) \<le> k \<Longrightarrow> length str < n \<Longrightarrow>
   gives (pipeline_loop n G p cmds) (Some (cmds @ cs)) t"
proof (induction cs arbitrary: str n p cmds)
  case Nil
  obtain m where n: "n = Suc m" using Nil.prems(6) by (cases n) auto
  have "at_text t p" using Nil.prems(2,3) by simp
  from token_no [OF this, of "''|''"] no_bar [OF Nil.prems(4)] n show ?case by (auto simp: gives_def)
next
  case (Cons c cs)
  obtain a b where ab: "format_command c = Some a" "node_array_format '' | '' (map format_command cs) = Some b"
    "str = a @ bar cs @ b"
    using Cons.prems(2) by (auto simp: array_sep)
  have c: "printable_command c" "list_all printable_command cs" using Cons.prems(1) by simp_all
  let ?r = "bar cs @ b @ t"
  note op = opens_append [OF command_opens [OF c(1) ab(1)], of ?r]
  have b: "cs = [] \<Longrightarrow> b = []" using ab(2) by simp
  have at: "at_text ('' | '' @ a @ ?r) p" using Cons.prems(3) ab(3) by simp
  have bar_token: "gives (token p ''|'') True (CHR '' '' # a @ ?r)"
    by (rule token_yes [OF at]) (auto simp: single_matches operator_symbols ctype_defs)
  obtain p1 where p1: "token p ''|'' = Some (True, p1)" "at_text (a @ ?r) p1"
    using bar_token blank_facts(2) by (auto simp: gives_def)
  have "head (skip_blanks (a @ ?r)) \<noteq> NEWLINE_CHR" using op opens_skip [OF op] by (auto simp: opens_def ends_word_def)
  then obtain p2 where p2: "linebreak (input_bound p1 + 2) p1 = Some p2" "at_text (a @ ?r) p2"
    using linebreak_no [OF p1(2), of "input_bound p1 + 2"] by (auto simp: goes_def simp del: linebreak.simps)
  have len: "length (a @ ?r) \<le> k" "length (b @ t) \<le> k" using Cons.prems(5) ab(3) by simp_all
  obtain p3 where p3: "command_rule G p2 = Some (Some c, p3)" "at_text ?r p3"
    using command_gives [OF c(1) ab(1) p2(2) bar_ends [OF Cons.prems(4) b] len(1)] by (auto simp: gives_def)
  have "length b < n - 1" using Cons.prems(6) ab(3) command_opens [OF c(1) ab(1)] by (cases a) (auto simp: opens_def)
  then obtain m where n: "n = Suc m" "length b < m" by (cases n) simp_all
  from Cons.IH [OF c(2) ab(2) p3(2) Cons.prems(4) len(2) n(2), of "cmds @ [c]"] p1(1) p2(1) p3(1) n(1)
  show ?case by (simp del: linebreak.simps)
qed

lemma command_no_bang:
  assumes "printable_command c" and "format_command c = Some str"
  shows "head str \<noteq> CHR ''!''"
proof (cases c)
  case (MRSH_SIMPLE_COMMAND name args rs as)
  with assms obtain w a b where w: "printable_word w" "command_name w" "format_word w = Some a" "str = a @ b"
    by (cases name) (auto split: bind_splits)
  note op = word_opens [OF w(1,3)]
  have "head a \<noteq> CHR ''!''"
    using w(1-3) by (cases w) (auto simp: command_name_def plain_name_def text_head_def split: bool.splits bind_splits)
  with w(4) op show ?thesis by (simp add: head_append opens_def)
next
  case (MRSH_FUNCTION_DEFINITION name body rs)
  with assms have "name \<noteq> []" "name_len False name = length name" by simp_all
  from name_opens(2) [OF this] this(1) MRSH_FUNCTION_DEFINITION assms(2) show ?thesis
    by (cases name) (auto simp: ctype_defs split: bind_splits)
qed (use assms in \<open>auto split: bind_splits if_splits\<close>)

lemma pipeline_gives:
  assumes "is_pipeline a" and "printable_and_or_list a" and "format_and_or_list a = Some str" and "at_text (str @ t) p"
    and "ends_pipeline t" and "length (str @ t) \<le> k"
  shows "gives (pipeline G p) (Some a) t"
proof -
  obtain c cs bang where a: "a = MRSH_AND_OR_LIST_PIPELINE (c # cs) bang"
    using assms(1,2) by (cases a; cases "case a of MRSH_AND_OR_LIST_PIPELINE cs _ \<Rightarrow> cs") auto
  with assms(2) have c: "printable_command c" "list_all printable_command cs" by simp_all
  from assms(3) a obtain x b where xb: "format_command c = Some x" "node_array_format '' | '' (map format_command cs) = Some b"
    "str = (if bang then ''! '' else []) @ x @ bar cs @ b"
    by (auto simp: array_sep split: bind_splits)
  let ?r = "bar cs @ b @ t"
  have b: "cs = [] \<Longrightarrow> b = []" using xb(2) by simp
  note op = opens_append [OF command_opens [OF c(1) xb(1)], of ?r]
  have at: "at_text ((if bang then ''! '' else []) @ x @ ?r) p" using assms(4) xb(3) by simp
  obtain p1 where p1: "token p ''!'' = Some (bang, p1)" "at_text (x @ ?r) p1"
  proof (cases bang)
    case True
    have "gives (token p ''!'') True (CHR '' '' # x @ ?r)"
      by (rule token_yes [OF at])
        (use True in \<open>auto simp: single_matches first_symbol_def operators_def ctype_defs\<close>)
    with True that blank_facts(2) show ?thesis by (auto simp: gives_def)
  next
    case False
    have "head (x @ ?r) \<noteq> CHR ''!''"
      using command_no_bang [OF c(1) xb(1)] command_opens [OF c(1) xb(1)] by (simp add: head_append opens_def)
    then have "\<not> matches (x @ ?r) ''!''" by (simp add: single_matches ctype_defs)
    with token_no [of "x @ ?r" p "''!''"] at False that opens_skip [OF op] show ?thesis by (auto simp: gives_def)
  qed
  have len: "length (x @ ?r) \<le> k" "length (b @ t) \<le> k" "length b < g_fuel G" using assms(6) xb(3) fuel by auto
  obtain p2 where p2: "command_rule G p1 = Some (Some c, p2)" "at_text ?r p2"
    using command_gives [OF c(1) xb(1) p1(2) bar_ends [OF assms(5) b] len(1)] by (auto simp: gives_def)
  from pipeline_loop_gives [OF c(2) xb(2) p2(2) assms(5) len(2,3), of "[c]"] p1(1) p2(1) a show ?thesis
    by (auto simp: pipeline_def gives_def)
qed

lemma and_or_gives:
  assumes "printable_and_or_list a" and "format_and_or_list a = Some str" and "at_text (str @ t) p"
    and "ends_list t" and "length (str @ t) \<le> k"
  shows "gives (and_or G p) (Some a) t"
proof (cases a)
  case (MRSH_AND_OR_LIST_PIPELINE cs bang)
  then have "is_pipeline a" by simp
  from pipeline_gives [OF this assms(1-3) ends_list_pipeline [OF assms(4)] assms(5)] obtain p1 where
    p1: "pipeline G p = Some (Some a, p1)" "at_text t p1" by (auto simp: gives_def)
  obtain p2 where p2: "operator_rule p1 AND_IF = Some (False, p2)" "at_text t p2"
    using operator_no [OF p1(2), of AND_IF] no_and_or [OF assms(4)] by (auto simp: gives_def)
  obtain p3 where "operator_rule p2 OR_IF = Some (False, p3)" "at_text t p3"
    using operator_no [OF p2(2), of OR_IF] no_and_or [OF assms(4)] by (auto simp: gives_def)
  with p1 p2 show ?thesis by (simp add: and_or_def gives_def)
next
  case (MRSH_AND_OR_LIST_BINOP type l r)
  with assms(1,2) obtain x y where xy: "is_pipeline l" "printable_and_or_list l" "printable_and_or_list r"
    "format_and_or_list l = Some x" "format_and_or_list r = Some y"
    "str = x @ '' '' @ binop_type_str type @ '' '' @ y"
    by (auto split: bind_splits)
  note op = opens_append [OF and_or_opens [OF xy(3,5)], of t]
  let ?op = "binop_type_str type" and ?v = "CHR '' '' # y @ t"
  let ?u = "'' '' @ ?op @ ?v"
  have at: "at_text (x @ ?u) p" "length (x @ ?u) \<le> k" using assms(3,5) xy(6) by simp_all
  have ends: "ends_pipeline ?u"
    by (cases type) (auto simp: ends_pipeline_def ends_command_def ends_word_def ctype_defs)
  obtain p1 where p1: "pipeline G p = Some (Some l, p1)" "at_text (?op @ ?v) p1"
    using pipeline_gives [OF xy(1,2,4) at(1) ends at(2)] blank_facts(2) by (auto simp: gives_def)
  obtain b b' p2 p3 where p3: "operator_rule p1 AND_IF = Some (b, p2)"
    "(if b then Some (False, p2) else operator_rule p2 OR_IF) = Some (b', p3)"
    "b \<or> b'" "b = (type = MRSH_BINOP_AND)" "at_text (y @ t) p3"
  proof (cases type)
    case MRSH_BINOP_AND
    have "gives (operator_rule p1 AND_IF) True ?v"
      by (rule operator_yes [OF p1(2)])
        (use MRSH_BINOP_AND in \<open>auto simp: first_symbol_def operators_def ctype_defs\<close>)
    then obtain p2 where "operator_rule p1 AND_IF = Some (True, p2)" "at_text ?v p2" by (auto simp: gives_def)
    with that [of True p2 False p2] MRSH_BINOP_AND blank_facts(2) show ?thesis by simp
  next
    case MRSH_BINOP_OR
    have "gives (operator_rule p1 AND_IF) False (?op @ ?v)"
      by (rule operator_no [OF p1(2)])
        (use MRSH_BINOP_OR in \<open>auto simp: first_symbol_def operators_def ctype_defs\<close>)
    then obtain p2 where p2: "operator_rule p1 AND_IF = Some (False, p2)" "at_text (?op @ ?v) p2"
      by (auto simp: gives_def)
    have "gives (operator_rule p2 OR_IF) True ?v"
      by (rule operator_yes [OF p2(2)])
        (use MRSH_BINOP_OR in \<open>auto simp: first_symbol_def operators_def ctype_defs\<close>)
    then obtain p3 where "operator_rule p2 OR_IF = Some (True, p3)" "at_text ?v p3" by (auto simp: gives_def)
    with that [of False p2 True p3] p2 MRSH_BINOP_OR blank_facts(2) show ?thesis by simp
  qed
  have "head (skip_blanks (y @ t)) \<noteq> NEWLINE_CHR" using op opens_skip [OF op] by (auto simp: opens_def ends_word_def)
  then obtain p4 where p4: "linebreak (input_bound p3 + 2) p3 = Some p4" "at_text (y @ t) p4"
    using linebreak_no [OF p3(5), of "input_bound p3 + 2"] by (auto simp: goes_def simp del: linebreak.simps)
  have "length (y @ t) < k" using at(2) by simp
  from and_or_call [OF xy(3,5) p4(2) assms(4) this] obtain p5 where
    "g_and_or G p4 = Some (Some r, p5)" "at_text t p5" by (auto simp: gives_def)
  with p1 p3 p4 MRSH_AND_OR_LIST_BINOP show ?thesis
    by (cases type) (simp_all add: and_or_def gives_def del: linebreak.simps)
qed

lemma list_reads: "reads_lists (Suc k) (list_rule G)"
  unfolding reads_lists_def
proof (intro conjI allI impI)
  fix l str t p
  assume l: "printable_command_list l" "format_command_list l = Some str" and at: "at_text (str @ t) p"
    and t: "head t \<notin> {CHR '';'', CHR ''&''}" and len: "length (str @ t) < Suc k"
  obtain a amp x where x: "l = Command_list a amp" "printable_and_or_list a" "format_and_or_list a = Some x"
    "str = x @ list_sep amp"
    using l by (cases l) (auto split: bind_splits)
  obtain q where q: "and_or G p = Some (Some a, q)" "at_text (list_sep amp @ t) q"
    using and_or_gives [OF x(2,3) _ list_sep_ends [OF t, of amp]] at len x(4) by (auto simp: gives_def)
  obtain r where "separator_op q = Some (Some (if amp then CHR ''&'' else CHR '';''), r)" "at_text t r"
    using separator_op_gives [OF q(2) t] by (auto simp: gives_def)
  with q(1) x(1) show "gives (list_rule G p) (Some l) t" by (auto simp: list_rule_def gives_def)
next
  fix t p
  assume "at_text t p" "stops t"
  from list_stops [OF this] fuel show "gives (list_rule G p) None t" by auto
qed

lemma complete_command_gives:
  assumes "ls \<noteq> []" and "list_all printable_command_list ls"
    and "node_array_format '' '' (map format_command_list ls) = Some str" and "at_text (str @ t) p" and "stops t"
    and "length (str @ t) \<le> k"
  shows "gives (expect_complete_command G p []) (True, ls) t"
proof -
  obtain l ls' where ls: "ls = l # ls'" using assms(1) by (cases ls) auto
  have len: "length (str @ t) < Suc k" using assms(6) by simp
  obtain b where b: "node_array_format '' '' (map format_command_list ls') = Some b"
    "gives (list_rule G p) (Some l) (b @ t)" "length b < length str"
    using first_list [OF list_reads assms(3,2,5) [unfolded ls] assms(4) len] .
  then obtain q where q: "list_rule G p = Some (Some l, q)" "at_text (b @ t) q" by (auto simp: gives_def)
  have "length (b @ t) < Suc k" "length b < g_fuel G" using assms(6) b(3) fuel by simp_all
  from repeat_lists_gives [OF b(1) _ q(2) assms(5) list_reads this, of "[l]"] assms(2) ls
  obtain r where r: "list_loop (g_fuel G) G q [l] = Some (ls, r)" "at_text t r"
    by (auto simp: gives_def list_loop_repeat)
  then have here: "here_documents r = []" by (simp add: at_text_def clean_def)
  then have "r\<lparr>here_documents := []\<rparr> = r" by (cases r) simp
  with here have "here_documents_loop G True (here_documents r) r = Some (True, r)"
    by (simp only: here_documents_loop.simps)
  with q(1) r show ?thesis by (simp add: expect_complete_command_def complete_command_def gives_def)
qed

lemma program_gives:
  assumes "printable_program prog" and "format_program prog = Some str" and "at_text (str @ t) p" and "stops t"
    and "length (str @ t) \<le> k"
  shows "gives (program_rule G p) (Some prog) t"
proof -
  obtain ls where prog: "prog = Program ls" by (cases prog) auto
  with assms(1,2) have ls: "ls \<noteq> []" "list_all printable_command_list ls"
    "node_array_format '' '' (map format_command_list ls) = Some str" by simp_all
  note op = opens_append [OF program_opens [OF assms(1,2)], of t]
  note skip = opens_skip [OF op]
  have "head (skip_blanks (str @ t)) \<noteq> NEWLINE_CHR" using op skip by (auto simp: opens_def ends_word_def)
  then obtain p1 where p1: "linebreak (input_bound p + 2) p = Some p1" "at_text (str @ t) p1"
    using linebreak_no [OF assms(3), of "input_bound p + 2"] by (auto simp: goes_def simp del: linebreak.simps)
  obtain p2 where p2: "eof_symbol p1 = Some (False, p2)" "at_text (str @ t) p2"
    using symbol_gives [OF p1(2), of EOF_TOKEN] opens_symbol [OF op] skip by (auto simp: gives_def eof_symbol_def)
  obtain p3 where p3: "expect_complete_command G p2 [] = Some ((True, ls), p3)" "at_text t p3"
    using complete_command_gives [OF ls p2(2) assms(4,5)] by (auto simp: gives_def)
  have nl: "head (skip_blanks t) \<noteq> NEWLINE_CHR" using stops_head [OF assms(4)] stops_skip [OF assms(4)] by auto
  obtain p4 where p4: "newline_list (input_bound p3 + 2) p3 = Some (False, p4)" "at_text t p4"
    using newline_list_no [OF p3(2) nl] by (auto simp: gives_def)
  obtain p5 where p5: "linebreak (input_bound p4 + 2) p4 = Some p5" "at_text t p5"
    using linebreak_no [OF p4(2) nl, of "input_bound p4 + 2"] by (auto simp: goes_def simp del: linebreak.simps)
  obtain m where "g_fuel G = Suc m" using fuel by (cases "g_fuel G") auto
  with p1 p2 p3 p4 p5 prog show ?thesis by (simp add: program_rule_def gives_def del: linebreak.simps)
qed

end

section \<open>The round trip\<close>

lemma at_begin: "at_text t p \<Longrightarrow> at_text t (parser_begin p)"
  by (auto simp: at_text_def clean_def parser_begin_def parser_set_error_def parser_wf_def ptext_def
      cur_text_def cur_sym_def)

lemma reading_grammar_Suc: "reading_grammar (grammar (Suc n)) n"
proof (induction n)
  case 0
  show ?case by unfold_locales simp_all
next
  case (Suc n)
  have stop: "stops (CHR '')'' # t)" for t by (simp add: stops_def)
  note calls = reading_grammar.program_gives [OF Suc] reading_grammar.and_or_gives [OF Suc]
    reading_grammar.compound_gives [OF Suc]
  show ?case
    by unfold_locales
      (auto simp: mrsh_parse_program_def intro!: calls at_begin stop intro: and_or_stops)
qed

interpretation rg: reading_grammar "grammar (Suc n)" n for n
  by (rule reading_grammar_Suc)

text \<open>A tree of this kind has no redirections that are still to be filled in.\<close>

lemma printable_load:
  "printable_part w \<Longrightarrow> load_word rs w = w"
  "printable_inner w \<Longrightarrow> load_word rs w = w"
  "printable_word w \<Longrightarrow> load_word rs w = w"
  "printable_command c \<Longrightarrow> load_command rs c = c"
  "printable_and_or_list a \<Longrightarrow> load_and_or_list rs a = a"
  "printable_command_list l \<Longrightarrow> load_command_list rs l = l"
  "printable_program prog \<Longrightarrow> load_program rs prog = prog"
proof (induction w and w and w and c and a and l and prog
    rule: printable_part_printable_inner_printable_word_printable_command_printable_and_or_list_printable_command_list_printable_program.induct)
qed (auto simp: list_all_iff intro!: map_idI split: option.splits if_splits)

lemma array_defined:
  "\<forall>x \<in> set xs. \<exists>t. x = Some t \<and> NUL \<notin> set t \<Longrightarrow> NUL \<notin> set sep \<Longrightarrow>
   \<exists>str. node_array_format sep xs = Some str \<and> NUL \<notin> set str"
  by (induction sep xs rule: node_array_format.induct) auto

lemma map_defined:
  assumes "list_all P xs" and "\<And>x. x \<in> set xs \<Longrightarrow> P x \<Longrightarrow> \<exists>t. f x = Some t \<and> NUL \<notin> set t" and "NUL \<notin> set sep"
  obtains str where "node_array_format sep (map f xs) = Some str" and "NUL \<notin> set str"
proof -
  have "\<exists>str. node_array_format sep (map f xs) = Some str \<and> NUL \<notin> set str"
    using assms by (intro array_defined) (auto simp: list_all_iff)
  with that show ?thesis by blast
qed

lemmas array_texts =
  map_defined [of printable_part _ format_word "[]"] map_defined [of printable_inner _ format_word "[]"]
  map_defined [of printable_word _ format_word "'' ''"] map_defined [of printable_command _ format_command "'' | ''"]
  map_defined [of printable_command_list _ format_command_list "'' ''"]

lemma name_no_nul: "name_len False name = length name \<Longrightarrow> NUL \<notin> set name"
proof
  assume n: "name_len False name = length name" and nul: "NUL \<in> set name"
  then have "name \<noteq> []" by auto
  from name_opens(2) [OF this n] nul have "name_char NUL" unfolding list_all_iff by blast
  then show False by (simp add: ctype_defs)
qed

lemma binop_no_nul [simp]: "NUL \<notin> set (binop_type_str type)"
  by (cases type) simp_all

lemma printable_text:
  "printable_part w \<Longrightarrow> \<exists>str. format_word w = Some str \<and> NUL \<notin> set str"
  "printable_inner w \<Longrightarrow> \<exists>str. format_word w = Some str \<and> NUL \<notin> set str"
  "printable_word w \<Longrightarrow> \<exists>str. format_word w = Some str \<and> NUL \<notin> set str"
  "printable_command c \<Longrightarrow> \<exists>str. format_command c = Some str \<and> NUL \<notin> set str"
  "printable_and_or_list a \<Longrightarrow> \<exists>str. format_and_or_list a = Some str \<and> NUL \<notin> set str"
  "printable_command_list l \<Longrightarrow> \<exists>str. format_command_list l = Some str \<and> NUL \<notin> set str"
  "printable_program prog \<Longrightarrow> \<exists>str. format_program prog = Some str \<and> NUL \<notin> set str"
proof (induction w and w and w and c and a and l and prog
    rule: printable_part_printable_inner_printable_word_printable_command_printable_and_or_list_printable_command_list_printable_program.induct)
qed (auto simp: word_char_def quoted_char_def list_all_iff [of word_char] list_all_iff [of quoted_char]
    elim!: array_texts dest: name_no_nul split: option.splits if_splits)

lemma parse_printed_stops:
  assumes "printable_program prog" and str: "format_program prog = Some str" and "stops t" and "NUL \<notin> set t"
  shows "parse_text (str @ t) = Some (Parsed (Some prog))"
proof -
  have nul: "NUL \<notin> set (str @ t)" using printable_text(7) [OF assms(1)] str assms(4) by auto
  let ?p = "mrsh_parser_with_data (str @ t)"
  have at: "at_text (str @ t) ?p"
    using wf_with_data [of "str @ t"] ptext_with_data [OF nul]
    by (simp add: at_text_def clean_def cur_text_def cur_sym_def)
      (simp add: mrsh_parser_with_data_def parser_create_def)
  let ?n = "2 * length (str @ t) + 3"
  have fuel: "parse_fuel (length (str @ t)) = Suc ?n" by (simp only: parse_fuel_def)
  have "length (str @ t) \<le> ?n" by simp
  from rg.program_gives [OF assms(1) str at_begin [OF at] assms(3) this] obtain q where
    "mrsh_parse_program (grammar (parse_fuel (length (str @ t)))) ?p = Some (Some prog, q)" "at_text t q"
    unfolding fuel by (auto simp: gives_def mrsh_parse_program_def)
  then show ?thesis
    by (simp add: parse_text_def parse_with_def printable_load(7) [OF assms(1)] at_text_def clean_def)
qed

lemma parse_printed:
  "printable_program prog \<Longrightarrow> format_program prog = Some str \<Longrightarrow> parse_text str = Some (Parsed (Some prog))"
  using parse_printed_stops [of prog str "[]"] by (simp add: stops_def)





end
