(* ===== verification/Bb_Echo.thy ===== *)
theory Bb_Echo
  imports Wsh_State
begin

text \<open>
  The applet \<^verbatim>\<open>echo\<close> of coreutils/echo.c (with \<^verbatim>\<open>FEATURE_FANCY_ECHO\<close>, as configured), the escape sequences of
  libbb/process_escape_sequence.c, and the applets \<^verbatim>\<open>true\<close> and \<^verbatim>\<open>false\<close>. A pointer into a string is the rest of the
  string, at whose end a NUL is read.
\<close>

unbundle bit_operations_syntax

section \<open>Escape sequences\<close>

definition first_char :: "string \<Rightarrow> char" where
  "first_char q = (if q = [] then NUL else hd q)"

text \<open>
  The value of a digit in the bases up to 16, as the \<^verbatim>\<open>unsigned\<close> arithmetic of the code gives it: characters below the
  letters wrap around to a large number.
\<close>

definition escape_digit :: "char \<Rightarrow> nat" where
  "escape_digit c =
     (if 48 \<le> ch c \<and> ch c < 58 then ch c - 48
      else let l = ch c OR 0x20 in if 97 \<le> l then l - 97 + 10 else 2 ^ 32 + l - 97)"

text \<open>
  The loop over at most three digits: the counter \<^verbatim>\<open>num_digits\<close>, the value and the rest. A hexadecimal sequence
  counts its \<^verbatim>\<open>x\<close>, and a character that ends it takes one back.
\<close>

function escape_digits :: "nat \<Rightarrow> nat \<Rightarrow> nat \<Rightarrow> string \<Rightarrow> nat \<times> nat \<times> string" where
  "escape_digits base num_digits n q =
     (let d = escape_digit (first_char q); r = n * base + d
      in if base \<le> d then (if base = 16 then num_digits - 1 else num_digits, n, q)
         else if 255 < r then (num_digits, n, q)
         else if num_digits + 1 < 3 then escape_digits base (num_digits + 1) r (tl q)
         else (num_digits + 1, r, tl q))"
  by auto
termination by (relation "measure (\<lambda>(base, num_digits, n, q). 3 - num_digits)") auto

declare escape_digits.simps [simp del]

definition escape_charmap :: "(char \<times> char) list" where
  "escape_charmap =
     [(CHR ''a'', CHR 0x07), (CHR ''b'', CHR 0x08), (CHR ''e'', CHR 0x1B), (CHR ''f'', CHR 0x0C), (CHR ''n'', CHR 0x0A),
      (CHR ''r'', CHR 0x0D), (CHR ''t'', CHR 0x09), (CHR ''v'', CHR 0x0B), (CHR 0x5C, CHR 0x5C)]"

text \<open>The character, and the rest after the sequence; a sequence that is not known is a backslash, and is not consumed.\<close>

definition bb_process_escape_sequence :: "string \<Rightarrow> char \<times> string" where
  "bb_process_escape_sequence ptr =
     (let hex = (first_char ptr = CHR ''x'')
      in case escape_digits (if hex then 16 else 8) (if hex then 1 else 0) 0 (if hex then tl ptr else ptr) of
           (num_digits, n, q) \<Rightarrow>
             if num_digits \<noteq> 0 then (char_of n, q)
             else if hex then (CHR 0x5C, ptr)
             else (case map_of escape_charmap (first_char q) of
                     Some c \<Rightarrow> (c, tl q)
                   | None \<Rightarrow> (CHR 0x5C, q)))"

lemma escape_digits_length: "escape_digits base k n q = (k', n', q') \<Longrightarrow> length q' \<le> length q"
proof (induction base k n q rule: escape_digits.induct)
  case (1 base k n q)
  then show ?case
    by (subst (asm) (2) escape_digits.simps) (fastforce simp: Let_def split: if_splits)
qed

lemma escape_length: "bb_process_escape_sequence ptr = (c, q) \<Longrightarrow> length q \<le> length ptr"
  by (auto simp: bb_process_escape_sequence_def Let_def dest!: escape_digits_length
      split: prod.splits if_splits option.splits)

section \<open>echo\<close>

text \<open>The letters of an argument after its dash: \<^verbatim>\<open>None\<close> when one of them, or the end, is no option.\<close>

fun echo_letters :: "bool \<Rightarrow> bool \<Rightarrow> string \<Rightarrow> (bool \<times> bool) option" where
  "echo_letters n e [] = None"
| "echo_letters n e (c # s) =
     (if c \<notin> {CHR ''n'', CHR ''e'', CHR ''E''} then None
      else let n' = (n \<and> c \<noteq> CHR ''n''); e' = (e \<or> c = CHR ''e'')
           in if s = [] then Some (n', e') else echo_letters n' e' s)"

text \<open>The flags \<^verbatim>\<open>nflag\<close> (a newline is printed) and \<^verbatim>\<open>eflag\<close>, and the arguments to be printed.\<close>

fun echo_options :: "bool \<Rightarrow> bool \<Rightarrow> string list \<Rightarrow> bool \<times> bool \<times> string list" where
  "echo_options nflag eflag [] = (nflag, eflag, [])"
| "echo_options nflag eflag (arg # argv) =
     (if first_char arg \<noteq> CHR ''-'' then (nflag, eflag, arg # argv)
      else case echo_letters nflag eflag (tl arg) of
             None \<Rightarrow> (nflag, eflag, arg # argv)
           | Some (n, e) \<Rightarrow> echo_options n e argv)"

text \<open>One argument with escapes; the flag tells that \<^verbatim>\<open>\c\<close> ends the output.\<close>

function echo_escaped :: "string \<Rightarrow> string \<times> bool" where
  "echo_escaped [] = ([], False)"
| "echo_escaped (c # arg) =
     (if c \<noteq> CHR 0x5C then (case echo_escaped arg of (out, stop) \<Rightarrow> (c # out, stop))
      else if first_char arg = CHR ''c'' then ([], True)
      else let arg' = (if first_char arg = CHR ''0'' \<and> (ch (first_char (tl arg)) + 256 - 48) mod 256 < 8 then tl arg else arg)
           in case bb_process_escape_sequence arg' of
                (c', z) \<Rightarrow> (case echo_escaped z of (out, stop) \<Rightarrow> (c' # out, stop)))"
  by pat_completeness auto
termination
proof (relation "measure length")
  fix c arg x c' z
  assume "x = (if first_char arg = CHR ''0'' \<and> (ch (first_char (tl arg)) + 256 - 48) mod 256 < 8 then tl arg else arg)"
    and "(c', z) = bb_process_escape_sequence x"
  then show "(z, c # arg) \<in> measure length"
    using escape_length [of x c' z] by (auto split: if_splits)
qed auto

text \<open>The arguments, separated by blanks; the flag as above.\<close>

fun echo_args :: "bool \<Rightarrow> string list \<Rightarrow> string \<times> bool" where
  "echo_args eflag [] = ([], False)"
| "echo_args eflag (arg # argv) =
     (case (if eflag then echo_escaped arg else (arg, False)) of
        (out, stop) \<Rightarrow>
          if stop \<or> argv = [] then (out, stop)
          else case echo_args eflag argv of (out', stop') \<Rightarrow> (out @ '' '' @ out', stop'))"

definition echo_output :: "string list \<Rightarrow> string" where
  "echo_output argv =
     (case echo_options True False argv of
        (nflag, eflag, args) \<Rightarrow>
          case echo_args eflag args of
            (out, stop) \<Rightarrow> if stop \<or> \<not> nflag then out else out @ [NEWLINE_CHR])"

text \<open>
  The output is written with \<^verbatim>\<open>full_write\<close>, which fails when standard output is closed and there is something to write; \<open>why\<close> is the string of \<^verbatim>\<open>EBADF\<close>, and
  \<^verbatim>\<open>applet_name\<close> is \<open>argv[0]\<close>, as the shell sets it.
\<close>

definition echo_main :: "string \<Rightarrow> string list \<Rightarrow> world \<Rightarrow> int \<times> world" where
  "echo_main why argv w =
     (if w_stdout w = Out_closed \<and> echo_output (tl argv) \<noteq> []
      then (1, c_stderr (hd argv @ '': write error: '' @ why @ [NEWLINE_CHR]) w)
      else (0, c_stdout (echo_output (tl argv)) w))"

definition true_main :: "string list \<Rightarrow> world \<Rightarrow> int \<times> world" where
  "true_main argv w = (0, w)"

definition false_main :: "string list \<Rightarrow> world \<Rightarrow> int \<times> world" where
  "false_main argv w = (1, w)"

section \<open>The buffer is large enough\<close>

text \<open>The size that \<^verbatim>\<open>echo_main\<close> allocates for the arguments after the options.\<close>

definition echo_buflen :: "string list \<Rightarrow> nat" where
  "echo_buflen args = sum_list (map (\<lambda>a. length a + 1) args) + 1"

lemma echo_escaped_length: "echo_escaped arg = (out, stop) \<Longrightarrow> length out \<le> length arg"
proof (induction arg arbitrary: out stop rule: echo_escaped.induct)
  case (2 c arg)
  show ?case
  proof (cases "c \<noteq> CHR 0x5C \<or> first_char arg = CHR ''c''")
    case True
    then show ?thesis using 2 by (auto split: prod.splits if_splits)
  next
    case False
    define arg' where "arg' = (if first_char arg = CHR ''0'' \<and> (ch (first_char (tl arg)) + 256 - 48) mod 256 < 8 then tl arg else arg)"
    obtain c' z where z: "bb_process_escape_sequence arg' = (c', z)" by fastforce
    obtain out' where out': "echo_escaped z = (out', stop)" "out = c' # out'"
      using 2(3) False z by (auto simp: Let_def arg'_def split: prod.splits)
    then have "length out' \<le> length z" using 2(2) False z by (auto simp: arg'_def)
    then show ?thesis using out' escape_length [OF z] by (auto simp: arg'_def split: if_splits)
  qed
qed simp

lemma echo_args_length:
  "echo_args eflag args = (out, stop) \<Longrightarrow> length out + 1 \<le> echo_buflen args"
proof (induction eflag args arbitrary: out stop rule: echo_args.induct)
  case (2 eflag arg argv)
  obtain out1 stop1 where first: "(if eflag then echo_escaped arg else (arg, False)) = (out1, stop1)" by fastforce
  then have "length out1 \<le> length arg" using echo_escaped_length by (auto split: if_splits)
  with first 2 show ?case
    by (fastforce simp: echo_buflen_def split: if_splits prod.splits)
qed (simp add: echo_buflen_def)

text \<open>
  C30: The buffer that \<^verbatim>\<open>echo_main\<close> allocates from the lengths of its arguments is never overrun: whatever the options and
  escape sequences, the characters between \<^verbatim>\<open>buffer\<close> and \<^verbatim>\<open>out\<close> when the loop over the arguments ends are fewer than its
  size, so that the newline, or the NUL that \<^verbatim>\<open>stpcpy\<close> puts behind them, fits as well.
\<close>

theorem echo_buffer_fits:
  assumes "echo_options True False argv = (nflag, eflag, args)"
  shows "length (fst (echo_args eflag args)) < echo_buflen args \<and> length (echo_output argv) \<le> echo_buflen args"
proof -
  obtain out stop where "echo_args eflag args = (out, stop)" by fastforce
  then show ?thesis
    using assms echo_args_length [of eflag args out stop] by (auto simp: echo_output_def)
qed

theorem echo_buffer_fits_witness:
  "length (echo_output [''-e'', [CHR ''a'', CHR 0x5C, CHR ''x''], ''b'']) \<le> echo_buflen [[CHR ''a'', CHR 0x5C, CHR ''x''], ''b'']"
proof -
  have "echo_options True False [''-e'', [CHR ''a'', CHR 0x5C, CHR ''x''], ''b'']
      = (True, True, [[CHR ''a'', CHR 0x5C, CHR ''x''], ''b''])"
    by (simp add: first_char_def)
  from echo_buffer_fits [OF this] show ?thesis by simp
qed

end
