(* ===== verification/Bb_Isqrt.thy ===== *)
theory Bb_Isqrt
  imports Wsh_Prelude
begin

text \<open>
  The integer square root of libbb/isqrt.c: \<^verbatim>\<open>unsigned long long\<close> has 64 bits, \<^verbatim>\<open>unsigned long\<close> 32. The shift is
  an \<^verbatim>\<open>unsigned\<close> that wraps below zero, where its sign as an \<^verbatim>\<open>int\<close> ends the loop.
\<close>

unbundle bit_operations_syntax

lemma shift_counts_down: "0 \<le>s shift - (2 :: 32 word) \<Longrightarrow> 2 \<le> shift"
proof (rule ccontr)
  assume "0 \<le>s shift - (2 :: 32 word)" and "\<not> 2 \<le> shift"
  then have "unat shift < 2" by (simp add: word_le_nat_alt)
  then have "shift = 0 \<or> shift = 1" by (metis less_2_cases One_nat_def unat_0 unat_1 word_unat_eq_iff)
  with \<open>0 \<le>s shift - 2\<close> show False by (auto simp: word_sle_eq)
qed

definition isqrt_round :: "64 word \<Rightarrow> 32 word \<Rightarrow> 32 word \<Rightarrow> 32 word" where
  "isqrt_round N x shift =
     (let x1 = push_bit 1 x + 1
      in if (ucast x1 :: 64 word) * ucast x1 > drop_bit (unat shift) N then x1 - 1 else x1)"

function isqrt_loop :: "64 word \<Rightarrow> 32 word \<Rightarrow> 32 word \<Rightarrow> 32 word" where
  "isqrt_loop N x shift =
     (let x2 = isqrt_round N x shift; shift' = shift - 2
      in if 0 \<le>s shift' then isqrt_loop N x2 shift' else x2)"
  by auto
termination
proof (relation "measure (\<lambda>(N, x, shift). unat shift)")
  fix N :: "64 word" and x shift x2 shift' :: "32 word"
  assume "shift' = shift - 2" "0 \<le>s shift'"
  then have "2 \<le> shift" using shift_counts_down by blast
  then have "unat (shift - 2) = unat shift - 2" "2 \<le> unat shift" by (simp_all add: unat_sub word_le_nat_alt)
  with \<open>shift' = shift - 2\<close> show "((N, x2, shift'), N, x, shift) \<in> measure (\<lambda>(N, x, shift). unat shift)"
    by simp
qed simp

definition isqrt :: "64 word \<Rightarrow> 32 word" where
  "isqrt N = isqrt_loop N 0 62"


declare isqrt_loop.simps [simp del]

section \<open>Correctness\<close>

lemma unat_wide: "unat (ucast (w :: 32 word) :: 64 word) = unat w"
proof -
  have "unat w < 2 ^ 64" using unsigned_less [of w, where 'a = nat] by simp
  then show ?thesis by (simp add: unsigned_ucast_eq take_bit_nat_eq_self)
qed

text \<open>One round, over the natural numbers.\<close>

lemma isqrt_step:
  fixes m x :: nat
  assumes "x\<^sup>2 \<le> m div 4" and "m div 4 < (x + 1)\<^sup>2"
  defines "y \<equiv> if m < (2 * x + 1)\<^sup>2 then 2 * x else 2 * x + 1"
  shows "y\<^sup>2 \<le> m" and "m < (y + 1)\<^sup>2"
  using assms by (auto simp: power2_eq_square algebra_simps)

lemma isqrt_round_correct:
  assumes "k \<le> 31" and low: "(unat x)\<^sup>2 \<le> unat N div 4 ^ Suc k" and high: "unat N div 4 ^ Suc k < (unat x + 1)\<^sup>2"
  defines "y \<equiv> isqrt_round N x (of_nat (2 * k))"
  shows "(unat y)\<^sup>2 \<le> unat N div 4 ^ k" and "unat N div 4 ^ k < (unat y + 1)\<^sup>2"
proof -
  define m where "m = unat N div 4 ^ k"
  have m4: "unat N div 4 ^ Suc k = m div 4"
    by (simp only: m_def power_Suc2 div_mult2_eq)
  have shift: "unat (of_nat (2 * k) :: 32 word) = 2 * k"
    using assms(1) unfolding unat_of_nat by simp
  have dropped: "unat (drop_bit (2 * k) N) = m"
    by (simp add: unat_drop_bit_eq drop_bit_nat_def m_def power_mult)
  have "unat N < 2 ^ 64" using unsigned_less [of N, where 'a = nat] by simp
  then have "unat N div 4 ^ Suc k < 4 ^ 31"
    by (simp add: div_less_iff_less_mult less_le_trans [of _ "2 ^ 64"])
  with low have "(unat x)\<^sup>2 < (2 ^ 31)\<^sup>2" by simp
  then have "unat x < 2 ^ 31" by (rule power_less_imp_less_base) simp
  then have x1: "unat (push_bit 1 x + 1) = 2 * unat x + 1"
    by (simp add: unat_word_ariths)
  then have "unat (ucast (push_bit 1 x + 1) :: 64 word) = 2 * unat x + 1"
    by (simp only: unat_wide)
  moreover have "(2 * unat x + 1)\<^sup>2 < 2 ^ 64"
  proof -
    have "(2 * unat x + 1)\<^sup>2 < (2 ^ 32)\<^sup>2"
      using \<open>unat x < 2 ^ 31\<close> by (intro power_strict_mono) simp_all
    then show ?thesis by simp
  qed
  ultimately have sq: "unat ((ucast (push_bit 1 x + 1) :: 64 word) * ucast (push_bit 1 x + 1)) = (2 * unat x + 1)\<^sup>2"
    by (simp add: unat_word_ariths power2_eq_square)
  have "unat y = (if m < (2 * unat x + 1)\<^sup>2 then 2 * unat x else 2 * unat x + 1)"
    using sq x1 dropped \<open>unat x < 2 ^ 31\<close> unfolding y_def isqrt_round_def Let_def shift word_less_nat_alt
    by (simp add: unat_word_ariths)
  then show "(unat y)\<^sup>2 \<le> unat N div 4 ^ k" and "unat N div 4 ^ k < (unat y + 1)\<^sup>2"
    using isqrt_step [of "unat x" m] low high m4 by (simp_all add: m_def)
qed


lemma isqrt_loop_correct:
  assumes "k \<le> 31" and "(unat x)\<^sup>2 \<le> unat N div 4 ^ Suc k" and "unat N div 4 ^ Suc k < (unat x + 1)\<^sup>2"
  shows "(unat (isqrt_loop N x (of_nat (2 * k))))\<^sup>2 \<le> unat N
    \<and> unat N < (unat (isqrt_loop N x (of_nat (2 * k))) + 1)\<^sup>2"
  using assms
proof (induction k arbitrary: x)
  case 0
  have "isqrt_loop N x 0 = isqrt_round N x 0"
    by (simp add: isqrt_loop.simps [of N x 0] word_sle_eq)
  then show ?case using isqrt_round_correct [OF 0] by simp
next
  case (Suc k)
  have "(of_nat (2 * Suc k) - 2 :: 32 word) = of_nat (2 * k)" by simp
  moreover have "0 \<le>s (of_nat (2 * k) :: 32 word)"
    using Suc.prems(1) unfolding word_sle_eq signed_of_nat by (simp add: signed_take_bit_int_eq_self)
  ultimately have "isqrt_loop N x (of_nat (2 * Suc k))
    = isqrt_loop N (isqrt_round N x (of_nat (2 * Suc k))) (of_nat (2 * k))"
    by (subst isqrt_loop.simps) (simp only: Let_def if_True)
  then show ?case
    using Suc.IH [of "isqrt_round N x (of_nat (2 * Suc k))"] isqrt_round_correct [OF Suc.prems] Suc.prems(1) by simp
qed

theorem isqrt_correct:
  "(unat (isqrt N))\<^sup>2 \<le> unat N \<and> unat N < (unat (isqrt N) + 1)\<^sup>2"
proof -
  have "unat N < 4 ^ 32" using unsigned_less [of N, where 'a = nat] by simp
  then show ?thesis
    using isqrt_loop_correct [of 31 0 N] by (simp add: isqrt_def)
qed

end
