(* ===== verification/Bb_Numbers.thy ===== *)
theory Bb_Numbers
  imports Wsh_Numbers
begin

text \<open>
  Numbers as the applets read them: libbb/bb_strtonum.c over \<^verbatim>\<open>strtoull\<close> and \<^verbatim>\<open>strtoll\<close> of the C library, and the white
  space of libbb/skip_whitespace.c. On wasm32 \<^verbatim>\<open>long\<close> has 32 bits, so the functions for \<^verbatim>\<open>int\<close> are those for \<^verbatim>\<open>long\<close>.
  A result is the value, the rest of the string and what \<^verbatim>\<open>errno\<close> is set to.
\<close>

section \<open>White space\<close>

definition is_white :: "char \<Rightarrow> bool" where
  "is_white c \<longleftrightarrow> c = CHR '' '' \<or> (ch c + 256 - 9) mod 256 \<le> 13 - 9"

definition skip_whitespace :: "string \<Rightarrow> string" where
  "skip_whitespace s = dropWhile is_white s"

definition skip_non_whitespace :: "string \<Rightarrow> string" where
  "skip_non_whitespace s = dropWhile (\<lambda>c. \<not> is_white c) s"

lemma is_white_isspace: "is_white c \<longleftrightarrow> c_isspace c"
proof -
  have "ch c < 256" by (simp add: ch_def)
  then have "(ch c + 256 - 9) mod 256 \<le> 13 - 9 \<longleftrightarrow> 9 \<le> ch c \<and> ch c \<le> 13"
    by (auto simp: mod_if)
  then show ?thesis by (simp add: is_white_def c_isspace_def)
qed

section \<open>The C library\<close>

text \<open>
  \<^verbatim>\<open>strtoull\<close> and \<^verbatim>\<open>strtoul\<close>, with the largest value as a parameter, and \<^verbatim>\<open>strtoll\<close> and \<^verbatim>\<open>strtol\<close>, with the number of
  bits. The last component tells whether \<^verbatim>\<open>errno\<close> was set.
\<close>

definition c_strtounsigned :: "nat \<Rightarrow> nat \<Rightarrow> string \<Rightarrow> nat \<times> string \<times> bool" where
  "c_strtounsigned limit b str =
     (case take_sign (skip_space str) of
        (neg, cs) \<Rightarrow>
          case choose_base b cs of
            (b', ds) \<Rightarrow>
              let digits = takeWhile (\<lambda>c. digit_val c < b') ds;
                  rest = dropWhile (\<lambda>c. digit_val c < b') ds;
                  v = digits_value b' digits
              in if digits = [] then (0, str, True)
                 else if v > limit then (limit, rest, True)
                 else (if neg \<and> v > 0 then limit + 1 - v else v, rest, False))"

definition c_strtosigned :: "nat \<Rightarrow> nat \<Rightarrow> string \<Rightarrow> int \<times> string \<times> bool" where
  "c_strtosigned bits b str =
     (case take_sign (skip_space str) of
        (neg, cs) \<Rightarrow>
          case choose_base b cs of
            (b', ds) \<Rightarrow>
              let digits = takeWhile (\<lambda>c. digit_val c < b') ds;
                  rest = dropWhile (\<lambda>c. digit_val c < b') ds;
                  v = int (digits_value b' digits); w = (if neg then - v else v)
              in if digits = [] then (0, str, True)
                 else if w < - (2 ^ (bits - 1)) then (- (2 ^ (bits - 1)), rest, True)
                 else if w > 2 ^ (bits - 1) - 1 then (2 ^ (bits - 1) - 1, rest, True)
                 else (w, rest, False))"

section \<open>bb_strtonum.c\<close>

datatype num_errno = No_error | EINVAL | ERANGE

text \<open>\<open>all_ones\<close> is what \<^verbatim>\<open>ULLONG_MAX\<close> becomes in the type of the caller.\<close>

definition handle_errors :: "'a \<Rightarrow> 'a \<times> string \<times> bool \<Rightarrow> 'a \<times> string \<times> num_errno" where
  "handle_errors all_ones r =
     (case r of (v, rest, err) \<Rightarrow>
        if rest \<noteq> []
        then (if c_isalnum (hd rest) \<or> err then (all_ones, rest, ERANGE) else (v, rest, EINVAL))
        else (v, rest, if err then ERANGE else No_error))"

definition head_isalnum :: "string \<Rightarrow> bool" where
  "head_isalnum s \<longleftrightarrow> s \<noteq> [] \<and> c_isalnum (hd s)"

definition bb_strtoull :: "string \<Rightarrow> nat \<Rightarrow> nat \<times> string \<times> num_errno" where
  "bb_strtoull arg base =
     (if \<not> head_isalnum arg then (2 ^ 64 - 1, arg, ERANGE)
      else handle_errors (2 ^ 64 - 1) (c_strtounsigned (2 ^ 64 - 1) base arg))"

definition bb_strtoll :: "string \<Rightarrow> nat \<Rightarrow> int \<times> string \<times> num_errno" where
  "bb_strtoll arg base =
     (if \<not> head_isalnum (if arg \<noteq> [] \<and> hd arg = CHR ''-'' then tl arg else arg) then (- 1, arg, ERANGE)
      else handle_errors (- 1) (c_strtosigned 64 base arg))"

definition bb_strtoul :: "string \<Rightarrow> nat \<Rightarrow> nat \<times> string \<times> num_errno" where
  "bb_strtoul arg base =
     (if \<not> head_isalnum arg then (2 ^ 32 - 1, arg, ERANGE)
      else handle_errors (2 ^ 32 - 1) (c_strtounsigned (2 ^ 32 - 1) base arg))"

definition bb_strtol :: "string \<Rightarrow> nat \<Rightarrow> int \<times> string \<times> num_errno" where
  "bb_strtol arg base =
     (if \<not> head_isalnum (if arg \<noteq> [] \<and> hd arg = CHR ''-'' then tl arg else arg) then (- 1, arg, ERANGE)
      else handle_errors (- 1) (c_strtosigned 32 base arg))"

section \<open>Printed numbers are read back\<close>

lemma show_nat_parts:
  "takeWhile (\<lambda>c. digit_val c < 10) (show_nat n) = show_nat n"
  "dropWhile (\<lambda>c. digit_val c < 10) (show_nat n) = []"
  "take_sign (skip_space (show_nat n)) = (False, show_nat n)"
proof -
  have digits: "\<forall>c \<in> set (show_nat n). digit_val c < 10"
    using show_nat_digits [of n] by (simp add: digit_val_less_10)
  then show "takeWhile (\<lambda>c. digit_val c < 10) (show_nat n) = show_nat n"
    "dropWhile (\<lambda>c. digit_val c < 10) (show_nat n) = []" by simp_all
  obtain c cs where cs: "show_nat n = c # cs" by (cases "show_nat n") auto
  then have "c_isdigit c" using hd_show_nat_digit [of n] by simp
  then have "\<not> c_isspace c" "c \<noteq> CHR ''-''" "c \<noteq> CHR ''+''" by (auto simp: ctype_defs)
  then show "take_sign (skip_space (show_nat n)) = (False, show_nat n)" by (simp add: cs skip_space_def)
qed

lemma strtounsigned_show_nat: "n \<le> limit \<Longrightarrow> c_strtounsigned limit 10 (show_nat n) = (n, [], False)"
  by (simp add: c_strtounsigned_def show_nat_parts choose_base_def)

lemma head_isalnum_show_nat: "head_isalnum (show_nat n)"
  using hd_show_nat_digit [of n] by (simp add: head_isalnum_def c_isalnum_def)

lemma bb_strtoull_show_nat: "n < 2 ^ 64 \<Longrightarrow> bb_strtoull (show_nat n) 10 = (n, [], No_error)"
  by (simp add: bb_strtoull_def head_isalnum_show_nat strtounsigned_show_nat handle_errors_def)

end
