(* ===== verification/Bb_Factor.thy ===== *)
theory Bb_Factor
  imports Bb_Isqrt Bb_Numbers Wsh_State
begin

text \<open>
  The applet \<^verbatim>\<open>factor\<close> of coreutils/factor.c: trial division by the numbers of a wheel that skips the multiples
  of 2, 3, 5, 7 and 11, up to the square root of what is left. \<^verbatim>\<open>wide_t\<close> has 64 bits and \<^verbatim>\<open>half_t\<close> 32. A square
  is factored by factoring its root and printing each factor twice, as the counter \<^verbatim>\<open>square_count\<close>, a byte,
  tells.
\<close>

section \<open>The wheel\<close>

text \<open>The macros \<^verbatim>\<open>P\<close> and \<^verbatim>\<open>R\<close>: the halves of 21 increments, in three bits each, from bit 1 on.\<close>

definition P :: "nat list \<Rightarrow> 64 word" where
  "P row = foldl (OR) 0 (map (\<lambda>i. push_bit (3 * i + 1) (of_nat (row ! i div 2))) [0..<21])"

definition wheel_rows :: "nat list list" where
  "wheel_rows =
     [[2, 4, 2, 4, 2, 4, 6, 2, 6, 4, 2, 4, 6, 6, 2, 6, 4, 2, 6, 4, 6],
      [8, 4, 2, 4, 2, 4, 14, 4, 6, 2, 10, 2, 6, 6, 4, 2, 4, 6, 2, 10, 2],
      [4, 2, 12, 10, 2, 4, 2, 4, 6, 2, 6, 4, 6, 6, 6, 2, 6, 4, 2, 6, 4],
      [6, 8, 4, 2, 4, 6, 8, 6, 10, 2, 4, 6, 2, 6, 6, 4, 2, 4, 6, 2, 6],
      [4, 2, 6, 10, 2, 10, 2, 4, 2, 4, 6, 8, 4, 2, 4, 12, 2, 6, 4, 2, 6],
      [4, 6, 12, 2, 4, 2, 4, 8, 6, 4, 6, 2, 4, 6, 2, 6, 10, 2, 4, 6, 2],
      [6, 4, 2, 4, 2, 10, 2, 10, 2, 4, 6, 6, 2, 6, 6, 4, 6, 6, 2, 6, 4],
      [2, 6, 4, 6, 8, 4, 2, 6, 4, 8, 6, 4, 6, 2, 4, 6, 8, 6, 4, 2, 10],
      [2, 6, 4, 2, 4, 2, 10, 2, 10, 2, 4, 2, 4, 8, 6, 4, 2, 4, 6, 6, 2],
      [6, 4, 8, 4, 6, 8, 4, 2, 4, 2, 4, 8, 6, 4, 6, 6, 6, 2, 6, 6, 4],
      [2, 4, 6, 2, 6, 4, 2, 4, 2, 10, 2, 10, 2, 6, 4, 6, 2, 6, 4, 2, 4],
      [6, 6, 8, 4, 2, 6, 10, 8, 4, 2, 4, 2, 4, 8, 10, 6, 2, 4, 8, 6, 6],
      [4, 2, 4, 6, 2, 6, 4, 6, 2, 10, 2, 10, 2, 4, 2, 4, 6, 2, 6, 4, 2],
      [4, 6, 6, 2, 6, 6, 6, 4, 6, 8, 4, 2, 4, 2, 4, 8, 6, 4, 8, 4, 6],
      [2, 6, 6, 4, 2, 4, 6, 8, 4, 2, 4, 2, 10, 2, 10, 2, 4, 2, 4, 6, 2],
      [10, 2, 4, 6, 8, 6, 4, 2, 6, 4, 6, 8, 4, 6, 2, 4, 8, 6, 4, 6, 2],
      [4, 6, 2, 6, 6, 4, 6, 6, 2, 6, 6, 4, 2, 10, 2, 10, 2, 4, 2, 4, 6],
      [2, 6, 4, 2, 10, 6, 2, 6, 4, 2, 6, 4, 6, 8, 4, 2, 4, 2, 12, 6, 4],
      [6, 2, 4, 6, 2, 12, 4, 2, 4, 8, 6, 4, 2, 4, 2, 10, 2, 10, 6, 2, 4],
      [6, 2, 6, 4, 2, 4, 6, 6, 2, 6, 4, 2, 10, 6, 8, 6, 4, 2, 4, 8, 6],
      [4, 6, 2, 4, 6, 2, 6, 6, 6, 4, 6, 2, 6, 4, 2, 4, 2, 10, 12, 2, 4],
      [2, 10, 2, 6, 4, 2, 4, 6, 6, 2, 10, 2, 6, 4, 14, 4, 2, 4, 2, 4, 8],
      [6, 4, 6, 2, 4, 6, 2, 6, 6, 4, 2, 4, 6, 2, 6, 4, 2, 4, 12, 2, 12]]"

definition packed_wheel :: "64 word list" where
  "packed_wheel = map P wheel_rows"

text \<open>The inner loop of \<^verbatim>\<open>unpack_wheel\<close>.\<close>

function unpack_row :: "64 word \<Rightarrow> 8 word list" where
  "unpack_row v = (if v AND 0xe \<noteq> 0 then ucast (v AND 0xe) # unpack_row (drop_bit 3 v) else [])"
  by auto
termination
proof (relation "measure unat")
  fix v :: "64 word"
  assume "v AND 0xe \<noteq> 0"
  then have "v \<noteq> 0" by auto
  then show "(drop_bit 3 v, v) \<in> measure unat"
    by (simp add: unat_drop_bit_eq drop_bit_nat_def word_gt_0 unat_gt_0)
qed simp

declare unpack_row.simps [simp del]

definition wheel_tab :: "8 word list" where
  "wheel_tab = [1, 2] @ concat (map unpack_row packed_wheel)"

definition WHEEL_START :: nat where "WHEEL_START = 5"
definition WHEEL_SIZE :: nat where "WHEEL_SIZE = 5 + 24 * 20"

section \<open>Factoring\<close>

text \<open>\<^verbatim>\<open>print_w\<close> prints at least once; a counter of zero would wrap around.\<close>

definition print_w :: "8 word \<Rightarrow> 64 word \<Rightarrow> string" where
  "print_w square_count n =
     concat (replicate (if square_count = 0 then 2 ^ 32 else unat square_count) (CHR '' '' # show_nat (unat n)))"

text \<open>The bound for the divisors; no result when \<open>N\<close> is a square, and its root is to be factored instead.\<close>

definition isqrt_odd :: "64 word \<Rightarrow> 32 word option" where
  "isqrt_odd N =
     (let s = isqrt N in if (ucast s :: 64 word) * ucast s = N then None else Some ((s - 1) OR 1))"

definition factorize_end :: "8 word \<Rightarrow> 64 word \<Rightarrow> string \<Rightarrow> string" where
  "factorize_end square_count N out = out @ (if N > 1 then print_w square_count N else []) @ [NEWLINE_CHR]"

text \<open>
  \<^verbatim>\<open>factorize\<close>, with what was printed as \<open>out\<close>. The third argument tells where the function is: at its start, or at the
  head of the inner loop with \<open>factor\<close>, \<open>max_factor\<close> and \<open>w\<close>. The recursion through \<^verbatim>\<open>isqrt_odd\<close> is the last thing that a call does, so
  it starts the function again. A division by zero has no value.
\<close>

partial_function (option) factorize_loop ::
  "8 word \<Rightarrow> 64 word \<Rightarrow> (32 word \<times> 32 word \<times> nat) option \<Rightarrow> string \<Rightarrow> string option" where
  "factorize_loop square_count N t out =
     (case t of
        None \<Rightarrow>
          if N < 4 then Some (factorize_end square_count N out)
          else (case isqrt_odd N of
                  None \<Rightarrow> factorize_loop (square_count * 2) (ucast (isqrt N)) None out
                | Some max_factor \<Rightarrow> factorize_loop square_count N (Some (2, max_factor, 0)) out)
      | Some (factor, max_factor, w) \<Rightarrow>
          if factor = 0 then None
          else if N mod ucast factor = 0
          then (let N' = N div ucast factor; out' = out @ print_w square_count (ucast factor)
                in case isqrt_odd N' of
                     None \<Rightarrow> factorize_loop (square_count * 2) (ucast (isqrt N')) None out'
                   | Some max_factor' \<Rightarrow> factorize_loop square_count N' (Some (factor, max_factor', w)) out')
          else if max_factor \<le> factor then Some (factorize_end square_count N out)
          else (let fw = factor + ucast (wheel_tab ! w)
                in if fw < factor then Some (factorize_end square_count N out)
                   else factorize_loop square_count N
                     (Some (fw, max_factor, if w + 1 < WHEEL_SIZE then w + 1 else WHEEL_START)) out))"

definition factorize :: "8 word \<Rightarrow> 64 word \<Rightarrow> string option" where
  "factorize square_count N = factorize_loop square_count N None []"

section \<open>Lines of standard input\<close>

text \<open>
  \<^verbatim>\<open>bb_get_chunk_from_file\<close> on standard input reads up to a newline or a NUL; \<^verbatim>\<open>xmalloc_fgetline\<close> removes the newline.
  At the end of the input there is no line.
\<close>

definition stdin_bytes :: "world \<Rightarrow> nat" where
  "stdin_bytes w =
     (case w_stdin w of
        In_host \<Rightarrow> length (w_host_in w) | In_file i off \<Rightarrow> length (w_data w i) - off | In_closed \<Rightarrow> 0)"

lemma c_getc_consumes: "c_getc w = (Some c, w') \<Longrightarrow> stdin_bytes w' < stdin_bytes w"
  by (auto simp: c_getc_def stdin_bytes_def split: in_stream.splits list.splits if_splits)

function bb_get_chunk_from_file :: "world \<Rightarrow> string \<times> world" where
  "bb_get_chunk_from_file w =
     (case c_getc w of
        (None, w') \<Rightarrow> ([], w')
      | (Some c, w') \<Rightarrow>
          if c = NUL \<or> c = NEWLINE_CHR then ([c], w')
          else case bb_get_chunk_from_file w' of (s, w'') \<Rightarrow> (c # s, w''))"
  by auto
termination
  by (relation "measure stdin_bytes") (auto dest: c_getc_consumes [OF sym])

declare bb_get_chunk_from_file.simps [simp del]

definition xmalloc_fgetline :: "world \<Rightarrow> string option \<times> world" where
  "xmalloc_fgetline w =
     (case bb_get_chunk_from_file w of (s, w') \<Rightarrow>
        (if s = [] then None
         else Some (takeWhile (\<lambda>c. c \<noteq> NUL) (if last s = NEWLINE_CHR then butlast s else s)), w'))"

section \<open>The applet\<close>

text \<open>
  What \<^verbatim>\<open>factorize_numstr\<close> prints; the outer option is \<^verbatim>\<open>None\<close> when it does not return, the inner one when it ends the
  process with the usage message.
\<close>

definition factorize_numstr :: "string \<Rightarrow> string option option" where
  "factorize_numstr numstr =
     (case bb_strtoull (if numstr \<noteq> [] \<and> hd numstr = CHR ''+'' then tl numstr else numstr) 10 of
        (N, _, errno) \<Rightarrow>
          if errno \<noteq> No_error then Some None
          else map_option (\<lambda>out. Some (show_nat N @ '':'' @ out)) (factorize 1 (of_nat N)))"

text \<open>Numbers one after the other: \<open>usage\<close> is the message of \<^verbatim>\<open>bb_show_usage\<close>, after which the process ends.\<close>

fun factor_numbers :: "string \<Rightarrow> string list \<Rightarrow> world \<Rightarrow> (bool \<times> world) option" where
  "factor_numbers usage [] w = Some (True, w)"
| "factor_numbers usage (s # ss) w =
     (case factorize_numstr s of
        None \<Rightarrow> None
      | Some None \<Rightarrow> Some (False, c_stderr usage w)
      | Some (Some out) \<Rightarrow> factor_numbers usage ss (c_stdout out w))"

text \<open>The words of a line.\<close>

function line_words :: "string \<Rightarrow> string list" where
  "line_words s =
     (let numstr = skip_whitespace s
      in if numstr = [] then []
         else takeWhile (\<lambda>c. \<not> is_white c) numstr # line_words (drop 1 (skip_non_whitespace numstr)))"
  by auto
termination
proof (relation "measure length")
  fix s numstr :: string
  assume a: "numstr = skip_whitespace s" "numstr \<noteq> []"
  have "length (drop 1 (skip_non_whitespace numstr)) < length numstr"
    using a(2) length_dropWhile_le [of "\<lambda>c. \<not> is_white c" numstr]
    by (cases "skip_non_whitespace numstr") (auto simp: skip_non_whitespace_def)
  also have "\<dots> \<le> length s" using a(1) by (simp add: skip_whitespace_def length_dropWhile_le)
  finally show "(drop 1 (skip_non_whitespace numstr), s) \<in> measure length" by simp
qed simp

declare line_words.simps [simp del]

text \<open>The loop over the lines of standard input. It may not end when the output goes to the file that is read.\<close>

partial_function (option) factor_lines :: "string \<Rightarrow> world \<Rightarrow> (int \<times> world) option" where
  "factor_lines usage w =
     (case xmalloc_fgetline w of (l, w') \<Rightarrow>
        (case l of
           None \<Rightarrow> Some (0, w')
         | Some line \<Rightarrow>
             Option.bind (factor_numbers usage (line_words line) w')
               (\<lambda>r. if fst r then factor_lines usage (snd r) else Some (1, snd r))))"

definition factor_main :: "string \<Rightarrow> string list \<Rightarrow> world \<Rightarrow> (int \<times> world) option" where
  "factor_main usage argv w =
     (if tl argv = [] then factor_lines usage w
      else map_option (\<lambda>(ok, w'). (if ok then 0 else 1, w')) (factor_numbers usage (map skip_whitespace (tl argv)) w))"


section \<open>What the wheel skips\<close>

definition small_factor :: "int \<Rightarrow> bool" where
  "small_factor d \<longleftrightarrow> d mod 2 = 0 \<or> d mod 3 = 0 \<or> d mod 5 = 0 \<or> d mod 7 = 0 \<or> d mod 11 = 0"

text \<open>From \<open>c\<close> on, the numbers between the positions have small factors; the last position is \<open>e\<close>.\<close>

fun wheel_check :: "int \<Rightarrow> nat list \<Rightarrow> int \<Rightarrow> bool" where
  "wheel_check c [] e \<longleftrightarrow> c = e"
| "wheel_check c (g # gs) e \<longleftrightarrow>
     0 < g \<and> list_all (\<lambda>j. small_factor (c + int j)) [1..<g] \<and> wheel_check (c + int g) gs e"

lemma wheel_rows_ok: "list_all (\<lambda>row. length row = 21 \<and> list_all (\<lambda>x. 0 < x \<and> x < 16 \<and> even x) row) wheel_rows"
  by (simp add: wheel_rows_def)

lemma wheel_checked: "wheel_check 13 (drop 3 (concat wheel_rows)) 2323"
  by code_simp

lemma unpack_rows: "map (\<lambda>row. map unat (unpack_row (P row))) wheel_rows = wheel_rows"
  by (simp add: wheel_rows_def P_def unpack_row.simps upt_rec)

text \<open>The increments after the first five, and the positions from 13 on.\<close>

definition wheel_gaps :: "nat list" where
  "wheel_gaps = drop 3 (concat wheel_rows)"

definition wheel_pos :: "nat \<Rightarrow> int" where
  "wheel_pos i = 13 + int (sum_list (take i wheel_gaps))"

lemma length_wheel_gaps: "length wheel_gaps = 480"
  by (simp add: wheel_gaps_def wheel_rows_def)

lemma wheel_tab_gaps: "map unat wheel_tab = [1, 2, 2, 4, 2] @ wheel_gaps"
proof -
  have "map unat wheel_tab = [1, 2] @ concat (map (\<lambda>row. map unat (unpack_row (P row))) wheel_rows)"
    by (simp add: wheel_tab_def packed_wheel_def map_concat comp_def)
  also have "\<dots> = [1, 2] @ concat wheel_rows" by (simp only: unpack_rows)
  also have "\<dots> = [1, 2, 2, 4, 2] @ wheel_gaps"
    by (simp add: wheel_gaps_def wheel_rows_def)
  finally show ?thesis .
qed

lemma length_wheel_tab: "length wheel_tab = WHEEL_SIZE"
  using arg_cong [OF wheel_tab_gaps, of length] by (simp add: length_wheel_gaps WHEEL_SIZE_def)

lemma wheel_tab_nth:
  assumes "w < WHEEL_SIZE"
  shows "unat (wheel_tab ! w) = ([1, 2, 2, 4, 2] @ wheel_gaps) ! w"
  using assms arg_cong [OF wheel_tab_gaps, of "\<lambda>xs. xs ! w"] by (simp add: length_wheel_tab)

lemma wheel_tab_gap: "5 \<le> w \<Longrightarrow> w < WHEEL_SIZE \<Longrightarrow> unat (wheel_tab ! w) = wheel_gaps ! (w - 5)"
  by (simp add: wheel_tab_nth nth_append numeral_eq_Suc)

lemma wheel_check_nth:
  assumes "wheel_check c gs e" and "i < length gs"
  shows "0 < gs ! i" and "1 \<le> j \<Longrightarrow> j < gs ! i \<Longrightarrow> small_factor (c + int (sum_list (take i gs)) + int j)"
  using assms
proof (induction c gs e arbitrary: i rule: wheel_check.induct)
  case (2 c g gs e)
  case 1
  with 2 show ?case by (cases i) auto
  case 2
  with "2.IH" show ?case by (cases i) (auto simp: list_all_iff add.assoc)
qed simp_all

lemma wheel_check_end: "wheel_check c gs e \<Longrightarrow> c + int (sum_list gs) = e"
  by (induction c gs e rule: wheel_check.induct) auto

lemma wheel_gaps_nth:
  assumes "i < 480"
  shows "0 < wheel_gaps ! i" and "1 \<le> j \<Longrightarrow> j < wheel_gaps ! i \<Longrightarrow> small_factor (wheel_pos i + int j)"
  using wheel_check_nth [OF wheel_checked [folded wheel_gaps_def]] assms
  by (auto simp: wheel_pos_def length_wheel_gaps)

lemma wheel_pos_Suc: "i < 480 \<Longrightarrow> wheel_pos (Suc i) = wheel_pos i + int (wheel_gaps ! i)"
  by (simp add: wheel_pos_def take_Suc_conv_app_nth length_wheel_gaps)

lemma wheel_pos_ends: "wheel_pos 0 = 13" "wheel_pos 480 = 2323"
  using wheel_check_end [OF wheel_checked [folded wheel_gaps_def]]
  by (simp_all add: wheel_pos_def length_wheel_gaps)

section \<open>Primes\<close>

definition is_prime :: "nat \<Rightarrow> bool" where
  "is_prime p \<longleftrightarrow> 1 < p \<and> (\<forall>d. d dvd p \<longrightarrow> d = 1 \<or> d = p)"

lemma small_factor_mod: "small_factor d \<longleftrightarrow> small_factor (d mod 2310)"
  by (simp add: small_factor_def mod_mod_cancel)

lemma numeral_dvd: "(numeral k :: int) dvd int d \<longleftrightarrow> numeral k dvd d"
  by (metis int_dvd_int_iff of_nat_numeral)

lemma small_factor_not_prime: "small_factor (int d) \<Longrightarrow> 11 < d \<Longrightarrow> \<not> is_prime d"
proof
  assume d: "small_factor (int d)" "11 < d" "is_prime d"
  from d(1) have "\<exists>k \<in> {2, 3, 5, 7, 11}. k dvd d"
    by (auto simp: small_factor_def numeral_dvd simp flip: dvd_eq_mod_eq_0)
  with d(2,3) show False by (auto simp: is_prime_def)
qed

text \<open>\<open>factor\<close> and \<open>w\<close> fit together.\<close>

definition wheel_at :: "nat \<Rightarrow> nat \<Rightarrow> bool" where
  "wheel_at f w \<longleftrightarrow>
     w < WHEEL_SIZE
     \<and> (if w < WHEEL_START then f = [2, 3, 5, 7, 11] ! w
         else 13 \<le> f \<and> int f mod 2310 = wheel_pos (w - WHEEL_START) mod 2310)"


lemma wheel_at_first: "wheel_at 2 0"
  by (simp add: wheel_at_def WHEEL_START_def WHEEL_SIZE_def)

lemma composite: "d dvd n \<Longrightarrow> 1 < d \<Longrightarrow> d < n \<Longrightarrow> \<not> is_prime n"
  by (auto simp: is_prime_def)

lemma not_prime_small: "\<not> is_prime 4" "\<not> is_prime 6" "\<not> is_prime 8" "\<not> is_prime 9" "\<not> is_prime 10" "\<not> is_prime 12"
  using composite [of 2 4] composite [of 2 6] composite [of 2 8] composite [of 3 9] composite [of 2 10]
    composite [of 2 12] by simp_all

lemma wheel_next:
  assumes "wheel_at f w" and "d < unat (wheel_tab ! w)" and "0 < d"
  shows "\<not> is_prime (f + d)"
proof (cases "w < 5")
  case True
  then have "w = 0 \<or> w = 1 \<or> w = 2 \<or> w = 3 \<or> w = 4" by linarith
  moreover from this have "unat (wheel_tab ! w) \<le> 4"
    by (auto simp: wheel_tab_nth WHEEL_SIZE_def)
  with assms have "d = 1 \<or> d = 2 \<or> d = 3" by linarith
  ultimately show ?thesis
    using assms not_prime_small by (auto simp: wheel_at_def WHEEL_START_def wheel_tab_nth)
next
  case False
  with assms have *: "w - 5 < 480" "unat (wheel_tab ! w) = wheel_gaps ! (w - 5)" "13 \<le> f"
    "int f mod 2310 = wheel_pos (w - 5) mod 2310"
    by (auto simp: wheel_at_def WHEEL_START_def WHEEL_SIZE_def wheel_tab_gap)
  then have "small_factor (wheel_pos (w - 5) + int d)" using assms by (intro wheel_gaps_nth) auto
  moreover have "(wheel_pos (w - 5) + int d) mod 2310 = int (f + d) mod 2310"
    using *(4) by (metis mod_add_left_eq of_nat_add)
  ultimately have "small_factor (int (f + d))" by (metis small_factor_mod)
  then show ?thesis using *(3) by (intro small_factor_not_prime) simp_all
qed

lemma wheel_step:
  assumes "wheel_at f w"
  shows "0 < unat (wheel_tab ! w)"
    and "wheel_at (f + unat (wheel_tab ! w)) (if w + 1 < WHEEL_SIZE then w + 1 else WHEEL_START)"
proof -
  have "0 < unat (wheel_tab ! w) \<and>
    wheel_at (f + unat (wheel_tab ! w)) (if w + 1 < WHEEL_SIZE then w + 1 else WHEEL_START)"
  proof (cases "w < 5")
    case True
    then have "w = 0 \<or> w = 1 \<or> w = 2 \<or> w = 3 \<or> w = 4" by linarith
    with assms show ?thesis
      by (auto simp: wheel_at_def WHEEL_START_def WHEEL_SIZE_def wheel_tab_nth wheel_pos_ends)
  next
    case False
    define i where "i = w - 5"
    with assms False have *: "i < 480" "w = i + 5" "unat (wheel_tab ! w) = wheel_gaps ! i" "13 \<le> f"
      "int f mod 2310 = wheel_pos i mod 2310"
      by (auto simp: wheel_at_def WHEEL_START_def WHEEL_SIZE_def wheel_tab_gap)
    have pos: "int (f + wheel_gaps ! i) mod 2310 = wheel_pos (Suc i) mod 2310"
      using *(1,5) by (metis mod_add_left_eq of_nat_add wheel_pos_Suc)
    show ?thesis
    proof (cases "i = 479")
      case True
      with pos have "int (f + wheel_gaps ! 479) mod 2310 = wheel_pos 0 mod 2310" by (simp add: wheel_pos_ends)
      with True * show ?thesis
        using wheel_gaps_nth(1) [of 479] by (simp add: wheel_at_def WHEEL_START_def WHEEL_SIZE_def)
    next
      case False
      with * pos show ?thesis
        using wheel_gaps_nth(1) [of i] by (simp add: wheel_at_def WHEEL_START_def WHEEL_SIZE_def)
    qed
  qed
  then show "0 < unat (wheel_tab ! w)"
    and "wheel_at (f + unat (wheel_tab ! w)) (if w + 1 < WHEEL_SIZE then w + 1 else WHEEL_START)" by auto
qed

lemma wheel_at_ge_2: "wheel_at f w \<Longrightarrow> 2 \<le> f"
  by (auto simp: wheel_at_def WHEEL_START_def less_Suc_eq_0_disj numeral_eq_Suc nth_Cons split: if_splits nat.splits)

section \<open>Divisors up to the root\<close>

lemma least_divisor:
  assumes "1 < (n :: nat)"
  obtains p where "is_prime p" "p dvd n" "\<And>d. 1 < d \<Longrightarrow> d dvd n \<Longrightarrow> p \<le> d"
proof -
  define p where "p = (LEAST d. 1 < d \<and> d dvd n)"
  have p: "1 < p" "p dvd n"
    using LeastI [of "\<lambda>d. 1 < d \<and> d dvd n" n] assms by (auto simp: p_def)
  have least: "p \<le> d" if "1 < d" "d dvd n" for d
    using that by (auto simp: p_def intro: Least_le)
  have "d = 1 \<or> d = p" if "d dvd p" for d
  proof -
    have "d \<noteq> 0" using that p(1) by (metis dvd_0_left_iff not_less_zero)
    moreover have "d \<le> p" using that p(1) by (simp add: dvd_imp_le)
    moreover have "p \<le> d" if "1 < d" using least that dvd_trans [OF \<open>d dvd p\<close> p(2)] by blast
    ultimately show ?thesis by linarith
  qed
  with p least show ?thesis by (intro that [of p]) (auto simp: is_prime_def)
qed

lemma prime_without_small_divisors:
  assumes "1 < n" and "n < (s + 1)\<^sup>2" and "\<And>p. is_prime p \<Longrightarrow> p dvd n \<Longrightarrow> s < p"
  shows "is_prime n"
proof -
  obtain p where p: "is_prime p" "p dvd n" and least: "\<And>d. 1 < d \<Longrightarrow> d dvd n \<Longrightarrow> p \<le> d"
    using least_divisor [OF assms(1)] by blast
  obtain q where n: "n = p * q" using p(2) by blast
  have "\<not> 1 < q"
  proof
    assume "1 < q"
    then have "p \<le> q" using least n by simp
    moreover have "s + 1 \<le> p" using assms(3) [OF p] by simp
    ultimately have "(s + 1)\<^sup>2 \<le> n" using n mult_le_mono [of "s + 1" p "s + 1" q] by (simp add: power2_eq_square)
    with assms(2) show False by simp
  qed
  then have "q = 1" using n assms(1) by (cases q) auto
  with n p show ?thesis by simp
qed

lemma isqrt_odd_None: "isqrt_odd N = None \<Longrightarrow> (unat (isqrt N))\<^sup>2 = unat N"
proof -
  assume "isqrt_odd N = None"
  then have "unat ((ucast (isqrt N) :: 64 word) * ucast (isqrt N)) = unat N"
    by (simp add: isqrt_odd_def Let_def split: if_splits)
  moreover have "(unat (isqrt N))\<^sup>2 < 2 ^ 64"
    using isqrt_correct [of N] unsigned_less [of N, where 'a = nat] by simp
  ultimately show ?thesis
    by (simp add: unat_word_ariths unat_wide power2_eq_square)
qed

lemma isqrt_odd_Some:
  assumes "isqrt_odd N = Some m" and "0 < unat N"
  defines "s \<equiv> unat (isqrt N)"
  shows "unat m = (if odd s then s else s - 1)" and "0 < s"
proof -
  have "0 < s"
  proof (rule ccontr)
    assume "\<not> 0 < s"
    then show False using isqrt_correct [of N] assms(2) by (simp add: s_def)
  qed
  then have "unat (isqrt N - 1) = s - 1" by (simp add: s_def unat_minus_one unat_gt_0)
  moreover have "m = (isqrt N - 1) OR 1" using assms(1) by (simp add: isqrt_odd_def Let_def split: if_splits)
  ultimately have "unat m = (s - 1) OR 1" by (simp only: unsigned_or_eq unat_1)
  then show "unat m = (if odd s then s else s - 1)"
    using \<open>0 < s\<close> by (cases "odd s") (simp_all add: or_one_eq del: One_nat_def)
  show "0 < s" by fact
qed

lemma prime_small: "is_prime 2" "is_prime 3"
  by (rule prime_without_small_divisors [of _ 1]; auto simp: is_prime_def power2_eq_square)+

lemma prime_at_end:
  assumes "isqrt_odd N = Some m" and "1 < unat N" and "2 \<le> f" and "unat m \<le> f" and "\<not> f dvd unat N"
    and "\<And>p. is_prime p \<Longrightarrow> p dvd unat N \<Longrightarrow> f \<le> p"
  shows "is_prime (unat N)"
proof (rule prime_without_small_divisors [of _ "unat (isqrt N)"])
  fix p assume p: "is_prime p" "p dvd unat N"
  have "f < p" using assms(5,6) p by (metis le_neq_implies_less)
  show "unat (isqrt N) < p"
  proof (cases "odd (unat (isqrt N))")
    case True
    then show ?thesis using isqrt_odd_Some [OF assms(1)] assms(2,4) \<open>f < p\<close> by simp
  next
    case False
    then have "unat (isqrt N) \<le> p" using isqrt_odd_Some [OF assms(1)] assms(2,4) \<open>f < p\<close> by simp
    moreover have "unat (isqrt N) \<noteq> p"
      using p(1) False assms(3) \<open>f < p\<close> composite [of 2 p] by auto
    ultimately show ?thesis by simp
  qed
qed (use assms(2) isqrt_correct in auto)


section \<open>What is printed\<close>

definition factors_text :: "nat list \<Rightarrow> string" where
  "factors_text ps = concat (map (\<lambda>p. CHR '' '' # show_nat p) ps)"

text \<open>The prime factors of the power of \<open>N\<close> are printed after \<open>out\<close>, and the line ends.\<close>

definition prints :: "8 word \<Rightarrow> 64 word \<Rightarrow> string \<Rightarrow> string option \<Rightarrow> bool" where
  "prints rep N out r \<longleftrightarrow>
     (\<exists>ps. r = Some (out @ factors_text ps @ [NEWLINE_CHR]) \<and> (\<forall>p \<in> set ps. is_prime p)
       \<and> prod_list ps = unat N ^ unat rep)"

lemma print_w_text: "0 < unat rep \<Longrightarrow> print_w rep n = factors_text (replicate (unat rep) (unat n))"
  by (auto simp: print_w_def factors_text_def)

lemma prints_end:
  assumes "0 < unat rep" and "unat N = 1 \<or> is_prime (unat N)"
  shows "prints rep N out (Some (factorize_end rep N out))"
proof -
  have "N > 1 \<longleftrightarrow> 1 < unat N" by (simp add: word_less_nat_alt)
  then show ?thesis
    using assms unfolding prints_def factorize_end_def
    by (intro exI [of _ "if unat N = 1 then [] else replicate (unat rep) (unat N)"])
      (auto simp: print_w_text factors_text_def is_prime_def)
qed

lemma prints_square:
  assumes "(unat (isqrt N))\<^sup>2 = unat N" and "unat (rep * 2) = unat rep * 2"
    and "prints (rep * 2) (ucast (isqrt N)) out r"
  shows "prints rep N out r"
  using assms by (auto simp: prints_def unat_wide power_mult mult.commute [of _ 2])

lemma prints_factor:
  assumes "unat N = unat f * unat N'" and "is_prime (unat f)" and "0 < unat rep"
    and "prints rep N' (out @ print_w rep f) r"
  shows "prints rep N out r"
proof -
  obtain ps where ps: "r = Some ((out @ print_w rep f) @ factors_text ps @ [NEWLINE_CHR])"
    "\<forall>p \<in> set ps. is_prime p" "prod_list ps = unat N' ^ unat rep"
    using assms(4) by (auto simp: prints_def)
  then show ?thesis
    unfolding prints_def using assms(1-3)
    by (intro exI [of _ "replicate (unat rep) (unat f) @ ps"])
      (simp add: print_w_text factors_text_def power_mult_distrib)
qed

section \<open>The invariant\<close>

definition counter_ok :: "8 word \<Rightarrow> 64 word \<Rightarrow> bool" where
  "counter_ok rep N \<longleftrightarrow> 0 < unat N \<and> 0 < unat rep \<and> unat N ^ unat rep < 2 ^ 64"

fun factor_inv :: "8 word \<Rightarrow> 64 word \<Rightarrow> (32 word \<times> 32 word \<times> nat) option \<Rightarrow> bool" where
  "factor_inv rep N None \<longleftrightarrow> counter_ok rep N"
| "factor_inv rep N (Some (f, m, w)) \<longleftrightarrow>
     counter_ok rep N \<and> 1 < unat N \<and> isqrt_odd N = Some m \<and> wheel_at (unat f) w
     \<and> (\<forall>p. is_prime p \<longrightarrow> p dvd unat N \<longrightarrow> unat f \<le> p)"

lemma counter_doubles:
  assumes "counter_ok rep N" and "1 < unat N"
  shows "unat (rep * 2) = unat rep * 2"
proof -
  have "2 ^ unat rep \<le> unat N ^ unat rep" using assms(2) by (simp add: power_mono)
  also have "\<dots> < 2 ^ 64" using assms(1) by (simp add: counter_ok_def)
  finally have "unat rep < 64" by (intro power_less_imp_less_exp [of 2]) simp_all
  then show ?thesis by (simp add: unat_word_ariths)
qed

lemma counter_square:
  assumes "counter_ok rep N" and "1 < unat N" and "(unat (isqrt M))\<^sup>2 = unat M" and "unat M \<le> unat N" "0 < unat M"
  shows "counter_ok (rep * 2) (ucast (isqrt M))"
proof -
  have "unat (isqrt M) ^ unat (rep * 2) = unat M ^ unat rep"
    using assms(3) counter_doubles [OF assms(1,2)] by (metis mult.commute power_mult)
  also have "\<dots> \<le> unat N ^ unat rep" using assms(4) by (simp add: power_mono)
  finally show ?thesis
    using assms counter_doubles [OF assms(1,2)] by (auto simp: counter_ok_def unat_wide zero_less_power2 intro!: Nat.gr0I)
qed


section \<open>The loop\<close>

definition trials_left :: "64 word \<Rightarrow> (32 word \<times> 32 word \<times> nat) option \<Rightarrow> nat" where
  "trials_left N t = unat N * 2 ^ 33 + (case t of None \<Rightarrow> 2 ^ 32 + 1 | Some (f, _, _) \<Rightarrow> 2 ^ 32 - unat f)"

lemma trials_left_smaller: "unat N' < unat N \<Longrightarrow> trials_left N' t' < trials_left N t"
  by (cases t; cases t') (auto simp: trials_left_def)

lemma less_square: "1 < x\<^sup>2 \<Longrightarrow> x < (x :: nat)\<^sup>2"
  by (cases x) (auto simp: power2_eq_square)

lemma start_prints:
  assumes inv: "factor_inv rep N None"
    and IH: "\<And>rep' N' t' out'. trials_left N' t' < trials_left N None \<Longrightarrow> factor_inv rep' N' t' \<Longrightarrow>
      prints rep' N' out' (factorize_loop rep' N' t' out')"
  shows "prints rep N out (factorize_loop rep N None out)"
proof (cases "N < 4")
  case True
  then have "unat N < 4" by (simp add: word_less_nat_alt)
  then have "unat N = 1 \<or> unat N = 2 \<or> unat N = 3" using inv by (auto simp: counter_ok_def)
  then have "unat N = 1 \<or> is_prime (unat N)" using prime_small by auto
  with inv True show ?thesis
    by (subst factorize_loop.simps) (simp add: counter_ok_def prints_end)
next
  case False
  then have N: "3 < unat N" by (simp add: word_less_nat_alt)
  show ?thesis
  proof (cases "isqrt_odd N")
    case None
    note sq = isqrt_odd_None [OF None]
    have "counter_ok (rep * 2) (ucast (isqrt N))" using inv N sq by (intro counter_square [of rep N]) auto
    moreover have "unat (isqrt N) < unat N" using N sq less_square [of "unat (isqrt N)"] by simp
    ultimately have "prints (rep * 2) (ucast (isqrt N)) out (factorize_loop (rep * 2) (ucast (isqrt N)) None out)"
      by (intro IH) (auto simp: trials_left_smaller unat_wide)
    then have "prints rep N out (factorize_loop (rep * 2) (ucast (isqrt N)) None out)"
      using inv N by (intro prints_square [OF sq counter_doubles]) auto
    with None False show ?thesis by (subst factorize_loop.simps) simp
  next
    case (Some m)
    have "factor_inv rep N (Some (2, m, 0))"
      using inv N Some wheel_at_first by (auto simp: is_prime_def)
    then have "prints rep N out (factorize_loop rep N (Some (2, m, 0)) out)"
      by (intro IH) (simp_all add: trials_left_def)
    with Some False show ?thesis by (subst factorize_loop.simps) simp
  qed
qed

lemma isqrt_odd_one:
  assumes "isqrt_odd N = Some m" and "0 < unat N"
  shows "1 < unat N"
proof (rule ccontr)
  assume "\<not> 1 < unat N"
  with assms(2) have "unat N = 1" by simp
  moreover from this have "unat (isqrt N) = 1"
    using isqrt_correct [of N] isqrt_odd_Some [OF assms] self_le_power [of "unat (isqrt N)" 2] by simp
  ultimately have "N = 1" "isqrt N = 1" by (simp_all add: word_unat_eq_iff)
  then show False using assms(1) by (simp add: isqrt_odd_def)
qed

lemma counter_less: "counter_ok rep N \<Longrightarrow> 0 < unat N' \<Longrightarrow> unat N' \<le> unat N \<Longrightarrow> counter_ok rep N'"
  by (auto simp: counter_ok_def intro: le_less_trans [OF power_mono])

lemma divide_prints:
  assumes inv: "factor_inv rep N (Some (f, m, w))" and dvd: "unat f dvd unat N"
    and IH: "\<And>rep' N' t' out'. trials_left N' t' < trials_left N (Some (f, m, w)) \<Longrightarrow> factor_inv rep' N' t' \<Longrightarrow>
      prints rep' N' out' (factorize_loop rep' N' t' out')"
  shows "prints rep N out (factorize_loop rep N (Some (f, m, w)) out)"
proof -
  define N' where "N' = N div ucast f"
  define out' where "out' = out @ print_w rep (ucast f)"
  have f: "2 \<le> unat f" using inv wheel_at_ge_2 [of "unat f" w] by simp
  have N: "unat N = unat f * unat N'" "0 < unat N" "N mod ucast f = 0"
    using dvd inv by (auto simp: N'_def unat_div unat_mod unat_wide counter_ok_def word_unat_eq_iff)
  then have N': "0 < unat N'" "unat N' < unat N" using f by auto
  obtain p where "is_prime p" "p dvd unat f" using least_divisor [of "unat f"] f by auto
  then have prime: "is_prime (unat f)" using inv dvd dvd_trans [OF _ dvd] f
    by (metis dvd_imp_le factor_inv.simps(2) le_antisym not_numeral_le_zero bot_nat_0.not_eq_extremum)
  have "prints rep N' out' (case isqrt_odd N' of
      None \<Rightarrow> factorize_loop (rep * 2) (ucast (isqrt N')) None out'
    | Some m' \<Rightarrow> factorize_loop rep N' (Some (f, m', w)) out')"
  proof (cases "isqrt_odd N'")
    case None
    note sq = isqrt_odd_None [OF None]
    have "counter_ok (rep * 2) (ucast (isqrt N'))" using inv N' sq by (intro counter_square [of rep N]) auto
    moreover have "unat (isqrt N') < unat N"
      using N'(2) sq self_le_power [of "unat (isqrt N')" 2] by (cases "unat (isqrt N') = 0") auto
    ultimately have "prints (rep * 2) (ucast (isqrt N')) out' (factorize_loop (rep * 2) (ucast (isqrt N')) None out')"
      by (intro IH) (auto simp: trials_left_smaller unat_wide)
    then show ?thesis using inv None by (auto intro: prints_square [OF sq counter_doubles [of rep N]])
  next
    case (Some m')
    then have "factor_inv rep N' (Some (f, m', w))"
      using inv N N' isqrt_odd_one counter_less [of rep N N'] by auto
    then show ?thesis using Some N'(2) by (auto intro!: IH trials_left_smaller)
  qed
  then have "prints rep N out (case isqrt_odd N' of
      None \<Rightarrow> factorize_loop (rep * 2) (ucast (isqrt N')) None out'
    | Some m' \<Rightarrow> factorize_loop rep N' (Some (f, m', w)) out')"
    using inv prime N(1) unfolding out'_def by (intro prints_factor [of N "ucast f" N' rep]) (auto simp: unat_wide counter_ok_def)
  moreover have "f \<noteq> 0" using f by auto
  ultimately show ?thesis
    using N(3) by (subst factorize_loop.simps) (simp add: Let_def flip: N'_def out'_def)
qed

lemma add_wraps:
  fixes f :: "32 word" and g :: "8 word"
  shows "f + ucast g < f \<longleftrightarrow> 2 ^ 32 \<le> unat f + unat g"
    and "\<not> f + ucast g < f \<Longrightarrow> unat (f + ucast g) = unat f + unat g"
proof -
  have bounds: "unat g < 256" "unat f < 2 ^ 32"
    using unsigned_less [of g, where 'a = nat] unsigned_less [of f, where 'a = nat] by simp_all
  then have "unat (ucast g :: 32 word) = unat g" by (simp add: unsigned_ucast_eq take_bit_nat_eq_self)
  then have sum: "unat (f + ucast g) = (unat f + unat g) mod 2 ^ 32" by (simp add: unat_word_ariths)
  show "f + ucast g < f \<longleftrightarrow> 2 ^ 32 \<le> unat f + unat g"
    unfolding word_less_nat_alt sum using bounds by (auto simp: mod_if)
  then show "\<not> f + ucast g < f \<Longrightarrow> unat (f + ucast g) = unat f + unat g"
    using sum by simp
qed

lemma advance_prints:
  assumes inv: "factor_inv rep N (Some (f, m, w))" and ndvd: "\<not> unat f dvd unat N"
    and IH: "\<And>rep' N' t' out'. trials_left N' t' < trials_left N (Some (f, m, w)) \<Longrightarrow> factor_inv rep' N' t' \<Longrightarrow>
      prints rep' N' out' (factorize_loop rep' N' t' out')"
  shows "prints rep N out (factorize_loop rep N (Some (f, m, w)) out)"
proof -
  define fw where "fw = f + ucast (wheel_tab ! w)"
  define w' where "w' = (if w + 1 < WHEEL_SIZE then w + 1 else WHEEL_START)"
  have f: "2 \<le> unat f" "f \<noteq> 0" using inv wheel_at_ge_2 [of "unat f" w] by auto
  have nz: "N mod ucast f \<noteq> 0"
    using ndvd by (auto simp: unat_mod unat_wide word_unat_eq_iff dvd_eq_mod_eq_0)
  have above: "unat f + unat (wheel_tab ! w) \<le> p" if p: "is_prime p" "p dvd unat N" for p
  proof (rule ccontr)
    assume "\<not> unat f + unat (wheel_tab ! w) \<le> p"
    moreover have "unat f \<le> p" "unat f \<noteq> p" using inv ndvd p by auto
    ultimately show False using wheel_next [of "unat f" w "p - unat f"] inv p(1)
      by (metis add_diff_inverse_nat factor_inv.simps(2) le_neq_implies_less nat_add_left_cancel_less not_le zero_less_diff)
  qed
  have "prints rep N out (Some (factorize_end rep N out))" if "m \<le> f"
    using inv ndvd f(1) that prime_at_end [of N m "unat f"]
    by (intro prints_end) (auto simp: counter_ok_def word_le_nat_alt)
  moreover have "prints rep N out (Some (factorize_end rep N out))" if "fw < f"
  proof (intro prints_end disjI2 prime_without_small_divisors [of _ "unat (isqrt N)"])
    fix p assume "is_prime p" "p dvd unat N"
    then have "2 ^ 32 \<le> p" using above [of p] add_wraps [of f "wheel_tab ! w"] that by (auto simp: fw_def)
    then show "unat (isqrt N) < p" using unsigned_less [of "isqrt N", where 'a = nat] by simp
  qed (use inv isqrt_correct [of N] in \<open>auto simp: counter_ok_def\<close>)
  moreover have "prints rep N out (factorize_loop rep N (Some (fw, m, w')) out)" if "\<not> fw < f"
  proof (rule IH)
    have fw: "unat fw = unat f + unat (wheel_tab ! w)" using add_wraps [of f "wheel_tab ! w"] that by (auto simp: fw_def)
    then show "factor_inv rep N (Some (fw, m, w'))" using inv above wheel_step [of "unat f" w] by (auto simp: w'_def)
    show "trials_left N (Some (fw, m, w')) < trials_left N (Some (f, m, w))"
      using fw wheel_step(1) [of "unat f" w] inv unsigned_less [of fw, where 'a = nat] by (simp add: trials_left_def)
  qed
  ultimately show ?thesis
    using f nz by (subst factorize_loop.simps) (simp add: Let_def fw_def w'_def)
qed

lemma factorize_loop_prints: "factor_inv rep N t \<Longrightarrow> prints rep N out (factorize_loop rep N t out)"
proof (induction "trials_left N t" arbitrary: rep N t out rule: less_induct)
  case less
  show ?case
  proof (cases t)
    case None
    with less show ?thesis by (auto intro: start_prints)
  next
    case (Some a)
    obtain f m w where "t = Some (f, m, w)" using Some by (cases a) auto
    with less divide_prints [of rep N f m w] advance_prints [of rep N f m w] show ?thesis
      by (cases "unat f dvd unat N") blast+
  qed
qed

section \<open>Correctness\<close>

lemma factor_main_decimal:
  assumes "0 < n" and "n < 2 ^ 64"
  shows "\<exists>ps. (\<forall>w. factor_main usage [''factor'', show_nat n] w
      = Some (0, c_stdout (show_nat n @ '':'' @ factors_text ps @ [NEWLINE_CHR]) w))
    \<and> (\<forall>p \<in> set ps. is_prime p) \<and> prod_list ps = n"
proof -
  have n: "unat (of_nat n :: 64 word) = n" using assms(2) unfolding unat_of_nat by simp
  have "factor_inv 1 (of_nat n) None" using assms by (simp add: counter_ok_def n)
  from factorize_loop_prints [OF this, of "[]"] obtain ps
    where ps: "factorize 1 (of_nat n) = Some (factors_text ps @ [NEWLINE_CHR])"
      "\<forall>p \<in> set ps. is_prime p" "prod_list ps = n"
    by (auto simp: prints_def factorize_def n)
  have digit: "c_isdigit (hd (show_nat n))" by (rule hd_show_nat_digit)
  then have "hd (show_nat n) \<noteq> CHR ''+''" by (auto simp: ctype_defs)
  then have "factorize_numstr (show_nat n) = Some (Some (show_nat n @ '':'' @ factors_text ps @ [NEWLINE_CHR]))"
    using ps(1) assms(2) by (simp add: factorize_numstr_def bb_strtoull_show_nat)
  moreover have "skip_whitespace (show_nat n) = show_nat n"
    using digit by (cases "show_nat n") (auto simp: skip_whitespace_def is_white_isspace ctype_defs)
  ultimately show ?thesis using ps(2,3) by (intro exI [of _ ps]) (simp add: factor_main_def)
qed

text \<open>
  C16: \<^verbatim>\<open>factor\<close> prints the prime factors. For every number from 1 to \<open>2 ^ 64 - 1\<close>, given in decimal, the applet returns
  with status 0 after printing the number, a colon and primes whose product is the number: the number is read back, the wheel skips
  no prime, the search does not stop before the square root, and neither the divisor nor the counter of squares
  overflows.
\<close>

theorem factor_prints_primes:
  assumes "0 < n" and "n < 2 ^ 64"
  shows "\<exists>ps. factor_main usage [''factor'', show_nat n] w
      = Some (0, c_stdout (show_nat n @ '':'' @ factors_text ps @ [NEWLINE_CHR]) w)
    \<and> (\<forall>p \<in> set ps. is_prime p) \<and> prod_list ps = n"
  using factor_main_decimal [OF assms] by blast

theorem factor_prints_primes_witness:
  "\<exists>ps. factor_main [] [''factor'', show_nat 18446744073709551615] init_world
      = Some (0, c_stdout (show_nat 18446744073709551615 @ '':'' @ factors_text ps @ [NEWLINE_CHR]) init_world)
    \<and> (\<forall>p \<in> set ps. is_prime p) \<and> prod_list ps = 18446744073709551615"
  by (rule factor_prints_primes) simp_all

end
