(* ===== verification/Wsh_Applets.thy ===== *)
theory Wsh_Applets
  imports Wsh_Roundtrip Wsh_Streams Bb_Echo Bb_Factor
begin

text \<open>
  From the command line to the applet and back: \<^verbatim>\<open>wsh -c\<close> with a command whose arguments are in single quotes, run with
  the models of the applets \<^verbatim>\<open>echo\<close> and \<^verbatim>\<open>factor\<close>. Parser, start of the shell, expansion, dispatch, applet and the capture of
  standard output meet here.
\<close>

section \<open>The start of the shell\<close>

text \<open>What starting leaves of the state it is given: only variables and the environment change.\<close>

definition started :: "mrsh_state \<Rightarrow> mrsh_state \<Rightarrow> bool" where
  "started st st' \<longleftrightarrow>
     st' = st\<lparr>st_variables := st_variables st', st_world := st_world st'\<rparr>
     \<and> st_world st' = (st_world st)\<lparr>w_environ := w_environ (st_world st')\<rparr>"

lemma startedD:
  "started st st' \<Longrightarrow> \<exists>vs e. st' = st\<lparr>st_variables := vs, st_world := (st_world st)\<lparr>w_environ := e\<rparr>\<rparr>"
  unfolding started_def by metis

lemma started_refl: "started st st"
  by (simp add: started_def)

lemma started_env_set:
  assumes "started st st1"
  shows "started st (mrsh_env_set st1 k v a)"
proof -
  from startedD [OF assms] obtain vs e where "st1 = st\<lparr>st_variables := vs, st_world := (st_world st)\<lparr>w_environ := e\<rparr>\<rparr>" by blast
  then show ?thesis by (simp add: started_def mrsh_env_set_def upd_world_def c_setenv_def)
qed

lemma populate_from_started:
  "populate_from es st1 = Some st2 \<Longrightarrow> started st st1 \<Longrightarrow> started st st2"
  by (induction es arbitrary: st1) (auto simp: started_env_set split: if_splits)

lemma populate_started:
  assumes "\<forall>e \<in> set envp. CHR ''='' \<in> set e"
  shows "\<exists>st'. mrsh_populate_env ppid (Inr dir) st envp = Some (True, st') \<and> started st st'"
proof -
  obtain st1 where st1: "populate_from envp st = Some st1"
    using assms by (simp add: populate_from_put_all)
  from populate_from_started [OF this started_refl] have "started st st1" .
  with st1 show ?thesis
    by (auto simp: mrsh_populate_env_def Let_def started_env_set split: option.split)
qed

section \<open>A quoted command\<close>

definition quoted_command :: "string \<Rightarrow> string list \<Rightarrow> string" where
  "quoted_command name args = name @ '' '' @ join_spaces (map (\<lambda>a. [CHR 0x27] @ a @ [CHR 0x27]) args) @ '';''"

definition quotable :: "string \<Rightarrow> bool" where
  "quotable a \<longleftrightarrow> NUL \<notin> set a \<and> CHR 0x27 \<notin> set a"

definition quoted_program :: "string \<Rightarrow> string list \<Rightarrow> mrsh_program" where
  "quoted_program name args = Program [Command_list (MRSH_AND_OR_LIST_PIPELINE
     [MRSH_SIMPLE_COMMAND (Some (lit_word (False, name))) (map lit_word (map (Pair True) args)) [] []] False) False]"

lemma format_quoted_words:
  "node_array_format '' '' (map (\<lambda>a. Some (a :: string)) as) = Some (join_spaces as)"
  by (induction as rule: induct_list012) simp_all

lemma parse_quoted:
  assumes "name \<noteq> []" and "list_all word_char name" and "plain_name name" and "head name \<notin> {CHR ''#'', CHR ''(''}"
    and "list_all quotable args"
  shows "parse_text (quoted_command name args) = Some (Parsed (Some (quoted_program name args)))"
proof (rule parse_printed)
  show "printable_program (quoted_program name args)"
    using assms by (auto simp: quoted_program_def lit_word_def list_all_iff quotable_def command_name_def text_head_def)
  show "format_program (quoted_program name args) = Some (quoted_command name args)"
    using format_quoted_words [of "map (\<lambda>a. [CHR 0x27] @ a @ [CHR 0x27]) args"]
    by (simp add: quoted_program_def quoted_command_def lit_word_def comp_def)
qed

text \<open>
  An applet that writes to standard output and nothing else. Its output is captured in a temporary file, which the shell
  copies to standard error and removes.
\<close>

definition applet_writes :: "(string list \<Rightarrow> world \<Rightarrow> int \<times> world) \<Rightarrow> string list \<Rightarrow> int \<Rightarrow> string \<Rightarrow> bool" where
  "applet_writes main argv ret out \<longleftrightarrow>
     (\<forall>w. w_stdout w \<noteq> Out_closed \<longrightarrow> main argv w = (ret, c_stdout out w))"

lemma captured_applet:
  assumes "\<And>path mode. sys_may_open S path mode" and "sys_applet S name = Some main" and "applet_writes main (name # args) ret out"
    and "\<not> mrsh_has_builtin name" and "mrsh_hashtable_get (st_functions st) name = None"
    and "\<not> st_stdout_redirected st" and "w_stderr (st_world st) = Out_host"
    and tmp: "w_names (st_world st) (capture_tmpname (sys_getpid S) (st_out_counter st)) = None"
  shows "\<exists>st'. run_captured S (dispatch S X [] [] (name # args)) st = Some (ret, st')
    \<and> w_host_err (st_world st') = w_host_err (st_world st) @ out \<and> w_host_out (st_world st') = w_host_out (st_world st)
    \<and> w_names (st_world st') = w_names (st_world st)"
proof -
  let ?tmp = "capture_tmpname (sys_getpid S) (st_out_counter st)" and ?w = "st_world st"
  let ?i = "w_next ?w"
  obtain w1 where w1: "freopen_stdout (sys_may_open S) ?tmp Write_mode ?w = (True, w1)"
    "w1 = ?w\<lparr>w_names := (w_names ?w)(?tmp \<mapsto> ?i), w_data := (w_data ?w)(?i := []), w_next := ?i + 1, w_stdout := Out_file ?i 0\<rparr>"
    using assms(1) tmp by (simp add: freopen_stdout_def open_file_def fresh_file_def as_out_def)
  define st1 where "st1 = st\<lparr>st_out_counter := st_out_counter st + 1, st_world := w1\<rparr>"
  obtain e where e: "exported_world st1 = w1\<lparr>w_environ := e\<rparr>"
    using exported_environ [of w1 st1] by (auto simp: st1_def)
  define w2 where "w2 = c_stdout out (w1\<lparr>w_environ := e\<rparr>)"
  have main: "main (name # args) (w1\<lparr>w_environ := e\<rparr>) = (ret, w2)"
    using assms(3) w1(2) by (simp add: applet_writes_def w2_def)
  have "dispatch S X [] [] (name # args) st1 = Some (ret, st1\<lparr>st_world := w2\<rparr>)"
    using assms(2,4,5) main e
    by (simp add: dispatch_def run_process_def exported_world_def upd_world_def st1_def)
  moreover have "capture_setup S st = (Some ?tmp, st1)"
    using assms(6) w1(1) by (simp add: capture_setup_def Let_def st1_def)
  moreover have "w2 = w1\<lparr>w_environ := e, w_data := (w_data w1)(?i := out), w_stdout := Out_file ?i (length out)\<rparr>"
    by (simp add: w2_def w1(2) c_stdout_def write_stream_def put_at_def)
  ultimately show ?thesis
    using assms(1,7) tmp
    by (simp add: run_captured_def capture_emit_def upd_world_def read_file_def open_file_def c_unlink_def c_stderr_def w1(2)
        fun_upd_idem)
qed

lemma wsh_runs_quoted:
  assumes "name \<noteq> []" and "list_all word_char name" and "plain_name name" and "head name \<notin> {CHR ''#'', CHR ''(''}"
    and "literal False name" and "list_all quotable args" and "\<forall>e \<in> set envp. CHR ''='' \<in> set e"
    and "\<And>path mode. sys_may_open S path mode" and "sys_applet S name = Some main" and "applet_writes main (name # args) ret out"
    and "\<not> mrsh_has_builtin name" and "w_stderr w = Out_host"
    and "w_names w (capture_tmpname (sys_getpid S) 0) = None" and "0 \<le> ret"
  shows "\<exists>w'. wsh_main (n + 4) S ppid (Inr dir) envp [sh, ''-c'', quoted_command name args] w = Some (ret, w')
    \<and> w_host_err w' = w_host_err w @ out \<and> w_host_out w' = w_host_out w \<and> w_names w' = w_names w"
proof -
  obtain st where st: "mrsh_populate_env ppid (Inr dir) (mrsh_state_create w) envp = Some (True, st)"
    and begun: "started (mrsh_state_create w) st"
    using populate_started [OF assms(7)] by blast
  from startedD [OF begun] obtain vs e where "st = (mrsh_state_create w)\<lparr>st_variables := vs, st_world := w\<lparr>w_environ := e\<rparr>\<rparr>"
    by (auto simp: mrsh_state_create_def)
  then have at_start: "mrsh_hashtable_get (st_functions st) name = None" "\<not> st_stdout_redirected st" "st_options st = 0"
    "st_world st = w\<lparr>w_environ := e\<rparr>" "st_out_counter st = 0"
    by (simp_all add: mrsh_state_create_def ht.look_empty)
  have literals: "list_all is_literal ((False, name) # map (Pair True) args)"
    using assms(5) by (simp add: is_literal_def literal_def list_all_iff)
  obtain st' where run: "run_captured S (dispatch S (exec (Suc n) S) [] [] (name # args)) st = Some (ret, st')"
    "w_host_err (st_world st') = w_host_err w @ out" "w_host_out (st_world st') = w_host_out w" "w_names (st_world st') = w_names w"
    using captured_applet [OF assms(8-11) at_start(1,2), of "exec (Suc n) S"] at_start(4,5) assms(12,13) by auto
  have "x_command (exec (Suc (Suc n)) S) (MRSH_SIMPLE_COMMAND (Some (lit_word (False, name))) (map lit_word (map (Pair True) args)) [] []) st
    = Some (ret, MRSH_SIMPLE_COMMAND (Some (lit_word (False, name))) (map lit_word (map (Pair True) args)) [] [], st')"
    using literal_command [OF literals, of st S n] at_start(3) run(1)
    by (simp add: run_command_def has_flag_def comp_def)
  then have "\<exists>body st''. mrsh_run_program (exec (n + 4) S) (quoted_program name args) st = Some (ret, body, st'') \<and> st_world st'' = st_world st'"
    using assms(14)
    by (simp add: numeral_eq_Suc quoted_program_def mrsh_run_program_def run_command_list_array_def run_and_or_list_def
        run_pipeline_def apply_bang_def)
  then show ?thesis
    using st run(2-4) parse_quoted [OF assms(1-4,6)] by (auto simp: wsh_main_def)
qed

section \<open>echo and factor\<close>

lemma echo_writes: "applet_writes (echo_main why) (''echo'' # args) 0 (echo_output args)"
  by (simp add: applet_writes_def echo_main_def)

lemma factor_writes:
  assumes "0 < m" and "m < 2 ^ 64"
  shows "\<exists>ps. applet_writes (\<lambda>argv w. the (factor_main usage argv w)) [''factor'', show_nat m] 0
      (show_nat m @ '':'' @ factors_text ps @ [NEWLINE_CHR])
    \<and> (\<forall>p \<in> set ps. is_prime p) \<and> prod_list ps = m"
  using factor_main_decimal [OF assms, of usage] by (auto simp: applet_writes_def)

text \<open>The names of the two applets are plain words and no builtins.\<close>

lemma applet_names:
  "list_all word_char ''echo'' \<and> plain_name ''echo'' \<and> head ''echo'' \<notin> {CHR ''#'', CHR ''(''}
   \<and> literal False ''echo'' \<and> \<not> mrsh_has_builtin ''echo''"
  "list_all word_char ''factor'' \<and> plain_name ''factor'' \<and> head ''factor'' \<notin> {CHR ''#'', CHR ''(''}
   \<and> literal False ''factor'' \<and> \<not> mrsh_has_builtin ''factor''"
  by code_simp+

lemma quotable_number: "quotable (show_nat m)"
  using show_nat_digits [of m] by (auto simp: quotable_def ctype_defs)





end
