(* ===== verification/Bb_Crc.thy ===== *)
theory Bb_Crc
  imports Wsh_Prelude
begin

text \<open>
  The cyclic redundancy check of libbb/crc32.c and the checksum loop of coreutils/cksum.c. A buffer is
  the list of its bytes. The table has 256 entries, and both block functions index it with a value below
  256.
\<close>

unbundle bit_operations_syntax

section \<open>The table\<close>

definition crc32_polynomial :: "bool \<Rightarrow> 32 word" where
  "crc32_polynomial endian = (if endian then 0x04c11db7 else 0xedb88320)"

text \<open>One round of the inner loop of \<^verbatim>\<open>crc32_filltable\<close>.\<close>

definition crc32_round :: "bool \<Rightarrow> 32 word \<Rightarrow> 32 word" where
  "crc32_round endian c =
     (if endian
      then (if c AND 0x80000000 \<noteq> 0 then push_bit 1 c XOR crc32_polynomial endian else push_bit 1 c)
      else (if c AND 1 \<noteq> 0 then drop_bit 1 c XOR crc32_polynomial endian else drop_bit 1 c))"

definition crc32_entry :: "bool \<Rightarrow> 32 word \<Rightarrow> 32 word" where
  "crc32_entry endian i = (crc32_round endian ^^ 8) (if endian then push_bit 24 i else i)"

definition crc32_filltable :: "bool \<Rightarrow> 32 word list" where
  "crc32_filltable endian = map (\<lambda>i. crc32_entry endian (of_nat i)) [0..<256]"

section \<open>Blocks\<close>

definition crc32_block_endian1 :: "32 word \<Rightarrow> 8 word list \<Rightarrow> 32 word list \<Rightarrow> 32 word" where
  "crc32_block_endian1 val buf crc_table =
     foldl (\<lambda>v b. push_bit 8 v XOR crc_table ! unat (drop_bit 24 v XOR ucast b)) val buf"

definition crc32_block_endian0 :: "32 word \<Rightarrow> 8 word list \<Rightarrow> 32 word list \<Rightarrow> 32 word" where
  "crc32_block_endian0 val buf crc_table =
     foldl (\<lambda>v b. crc_table ! unat (ucast (ucast v XOR b :: 8 word) :: 32 word) XOR drop_bit 8 v) val buf"

section \<open>The loop of cksum\<close>

text \<open>The bytes of the file size, least significant first.\<close>

function size_bytes :: "64 word \<Rightarrow> 8 word list" where
  "size_bytes t = (if t = 0 then [] else ucast t # size_bytes (drop_bit 8 t))"
  by auto
termination
proof (relation "measure unat")
  fix t :: "64 word"
  assume "t \<noteq> 0"
  then show "(drop_bit 8 t, t) \<in> measure unat"
    by (simp add: unat_drop_bit_eq drop_bit_nat_def word_gt_0 unat_gt_0)
qed simp

declare size_bytes.simps [simp del]

text \<open>
  The blocks are what \<^verbatim>\<open>safe_read\<close> returns before the end of the file. \<open>is_cksum\<close> tells \<^verbatim>\<open>cksum\<close> from \<^verbatim>\<open>crc32\<close>,
  which has the other table, another start value and no size.
\<close>

definition cksum_crc :: "bool \<Rightarrow> 8 word list list \<Rightarrow> 32 word" where
  "cksum_crc is_cksum blocks =
     (let crc32_table = crc32_filltable is_cksum;
          block = (if is_cksum then crc32_block_endian1 else crc32_block_endian0);
          (crc, filesize) =
            foldl (\<lambda>(crc, filesize) buf. (block crc buf crc32_table, filesize + of_nat (length buf)))
              (if is_cksum then 0 else 0xffffffff, 0) blocks;
          crc' = (if is_cksum then block crc (size_bytes filesize) crc32_table else crc)
      in NOT crc')"

section \<open>Rounds are linear and can be undone\<close>

lemma crc32_round_bits:
  "crc32_round True c = (if bit c 31 then push_bit 1 c XOR crc32_polynomial True else push_bit 1 c)"
  "crc32_round False c = (if bit c 0 then drop_bit 1 c XOR crc32_polynomial False else drop_bit 1 c)"
  using and_exp_eq_0_iff_not_bit [of c 31] and_exp_eq_0_iff_not_bit [of c 0] by (simp_all add: crc32_round_def)

lemma crc32_round_xor: "crc32_round e (a XOR b) = crc32_round e a XOR crc32_round e b"
  by (cases e) (auto simp: crc32_round_bits bit_xor_iff xor.assoc xor.commute xor.left_commute)

lemma crc32_rounds_xor: "(crc32_round e ^^ n) (a XOR b) = (crc32_round e ^^ n) a XOR (crc32_round e ^^ n) b"
  by (induction n) (simp_all add: crc32_round_xor)

lemma crc32_round_zero: "crc32_round e c = 0 \<Longrightarrow> c = 0"
proof (cases e)
  case True
  assume zero: "crc32_round e c = 0"
  have "bit (crc32_round e c) 0 \<longleftrightarrow> bit c 31"
    using True by (auto simp: crc32_round_bits crc32_polynomial_def bit_xor_iff bit_push_bit_iff simp del: push_bit_Suc One_nat_def)
  with zero have top: "\<not> bit c 31" by simp
  with zero True have "push_bit 1 c = 0" by (simp add: crc32_round_bits)
  then have low: "\<not> bit c n" if "n < 31" for n
    using that bit_push_bit_iff [of 1 c "Suc n"] by auto
  have "\<not> bit c n" if "n < 32" for n
  proof -
    from that have "n < 31 \<or> n = 31" by arith
    then show ?thesis using low top by auto
  qed
  then show "c = 0" by (intro bit_word_eqI) simp
next
  case False
  assume zero: "crc32_round e c = 0"
  have "bit (crc32_round e c) 31 \<longleftrightarrow> bit c 0"
    using False by (auto simp: crc32_round_bits crc32_polynomial_def bit_simps dest: bit_imp_le_length)
  with zero have low: "\<not> bit c 0" by simp
  with zero False have "drop_bit 1 c = 0" by (simp add: crc32_round_bits)
  then have "bit c (Suc n) \<Longrightarrow> False" for n
    using bit_drop_bit_eq [of 1 c] by (metis bit_0_eq bot_apply bot_bool_def comp_apply plus_1_eq_Suc)
  with low show "c = 0"
    by (intro bit_word_eqI) (metis bit_0_eq bot_apply bot_bool_def not0_implies_Suc)
qed

lemma crc32_round_inject: "crc32_round e a = crc32_round e b \<longleftrightarrow> a = b"
proof
  assume "crc32_round e a = crc32_round e b"
  then have "crc32_round e (a XOR b) = 0" by (simp add: crc32_round_xor)
  then have "a XOR b = 0" by (rule crc32_round_zero)
  then show "a = b" by (metis xor.assoc xor.right_neutral xor_self_eq)
qed simp

lemma crc32_rounds_inject: "(crc32_round e ^^ n) a = (crc32_round e ^^ n) b \<longleftrightarrow> a = b"
  by (induction n) (simp_all add: crc32_round_inject)


section \<open>The table computes eight rounds at once\<close>

lemma crc32_table_entry: "unat w < 256 \<Longrightarrow> crc32_filltable e ! unat w = crc32_entry e w"
  by (simp add: crc32_filltable_def)

lemma rounds_low: "n \<le> 8 \<Longrightarrow> (crc32_round True ^^ n) (take_bit 24 v) = push_bit n (take_bit 24 v)"
proof (induction n)
  case (Suc n)
  have "\<not> bit (push_bit n (take_bit 24 v)) 31"
    using Suc.prems by (auto simp: bit_push_bit_iff bit_take_bit_iff)
  with Suc show ?case by (simp add: crc32_round_bits push_bit_push_bit del: push_bit_Suc)
qed simp

lemma rounds_high: "n \<le> 8 \<Longrightarrow> (crc32_round False ^^ n) (push_bit 8 (drop_bit 8 v)) = push_bit (8 - n) (drop_bit 8 v)"
proof (induction n)
  case (Suc n)
  have "\<not> bit (push_bit (8 - n) (drop_bit 8 v)) 0"
    using Suc.prems by (simp add: bit_simps)
  moreover have "drop_bit 1 (push_bit (8 - n) (drop_bit 8 v)) = push_bit (8 - Suc n) (drop_bit 8 v)"
    using Suc.prems by (intro bit_word_eqI) (auto simp: bit_simps dest: bit_imp_le_length)
  ultimately show ?case using Suc by (simp add: crc32_round_bits del: push_bit_Suc)
qed simp

lemma endian1_step:
  "push_bit 8 v XOR crc32_filltable True ! unat (drop_bit 24 v XOR ucast (b :: 8 word))
   = (crc32_round True ^^ 8) (v XOR push_bit 24 (ucast b))"
proof -
  have "unat (drop_bit 24 v XOR ucast b) < 256"
  proof -
    have "drop_bit 24 v XOR ucast b = take_bit 8 (drop_bit 24 v XOR ucast b)"
      by (intro bit_word_eqI) (auto simp: bit_simps dest: bit_imp_le_length)
    then have "unat (drop_bit 24 v XOR ucast b) = take_bit 8 (unat (drop_bit 24 v XOR ucast b))"
      by (metis unsigned_take_bit_eq)
    then show ?thesis using take_bit_nat_less_exp [of 8 "unat (drop_bit 24 v XOR ucast b)"] by simp
  qed
  moreover have "v XOR push_bit 24 (ucast b) = push_bit 24 (drop_bit 24 v XOR ucast b) XOR take_bit 24 v"
    by (intro bit_word_eqI) (auto simp: bit_simps dest: bit_imp_le_length)
  moreover have "push_bit 8 v = push_bit 8 (take_bit 24 v)"
    by (intro bit_word_eqI) (auto simp: bit_simps dest: bit_imp_le_length)
  ultimately show ?thesis
    by (simp add: crc32_table_entry crc32_entry_def crc32_rounds_xor rounds_low xor.commute)
qed


lemma endian0_step:
  "crc32_filltable False ! unat (ucast (ucast v XOR b :: 8 word) :: 32 word) XOR drop_bit 8 v
   = (crc32_round False ^^ 8) (v XOR ucast b)"
proof -
  have "unat (ucast (ucast v XOR b :: 8 word) :: 32 word) < 256"
    using unsigned_less [of "ucast v XOR b :: 8 word", where 'a = nat]
    unfolding unsigned_ucast_eq by (intro order.strict_trans1 [OF take_bit_nat_less_eq_self]) simp
  moreover have "v XOR ucast b = ucast (ucast v XOR b :: 8 word) XOR push_bit 8 (drop_bit 8 v)"
    by (intro bit_word_eqI) (auto simp: bit_simps dest: bit_imp_le_length)
  ultimately show ?thesis
    by (simp add: crc32_table_entry crc32_entry_def crc32_rounds_xor rounds_high)
qed

section \<open>The bit-serial reference\<close>

text \<open>The register, bit by bit: a byte is added at the end of the register that is shifted out.\<close>

definition crc_serial :: "bool \<Rightarrow> 32 word \<Rightarrow> 8 word list \<Rightarrow> 32 word" where
  "crc_serial e v bs = foldl (\<lambda>v b. (crc32_round e ^^ 8) (v XOR (if e then push_bit 24 (ucast b) else ucast b))) v bs"

lemma blocks_are_serial:
  "crc32_block_endian1 v bs (crc32_filltable True) = crc_serial True v bs"
  "crc32_block_endian0 v bs (crc32_filltable False) = crc_serial False v bs"
  by (simp_all add: crc32_block_endian1_def crc32_block_endian0_def crc_serial_def endian1_step endian0_step)

lemma crc_serial_Nil [simp]: "crc_serial e v [] = v"
  by (simp add: crc_serial_def)

lemma crc_serial_append: "crc_serial e v (xs @ ys) = crc_serial e (crc_serial e v xs) ys"
  by (simp add: crc_serial_def)

lemma crc_serial_inject: "crc_serial e v bs = crc_serial e w bs \<longleftrightarrow> v = w"
proof (induction bs arbitrary: v w)
  case (Cons b bs)
  have "a XOR c = d XOR c \<longleftrightarrow> a = d" for a c d :: "32 word"
    by (metis xor.assoc xor.right_neutral xor_self_eq)
  with Cons show ?case by (simp add: crc_serial_def crc32_rounds_inject)
qed (simp add: crc_serial_def)

lemma crc_serial_byte: "crc_serial e v [b] = crc_serial e v [c] \<longleftrightarrow> b = c"
proof -
  have "v XOR a = v XOR d \<longleftrightarrow> a = d" for a d :: "32 word"
    by (metis xor.assoc xor.left_neutral xor_self_eq)
  moreover have "b = c" if "push_bit k (ucast b :: 32 word) = push_bit k (ucast c)" "k \<le> 24" for k
  proof (rule bit_word_eqI)
    fix n assume "n < LENGTH(8)"
    then show "bit b n \<longleftrightarrow> bit c n"
      using that(2) arg_cong [OF that(1), of "\<lambda>w. bit w (k + n)"] by (simp add: bit_simps)
  qed
  from this [of 24] this [of 0]
  have "push_bit 24 (ucast b :: 32 word) = push_bit 24 (ucast c) \<longleftrightarrow> b = c"
    "(ucast b :: 32 word) = ucast c \<longleftrightarrow> b = c" by auto
  ultimately show ?thesis by (simp add: crc_serial_def crc32_rounds_inject)
qed


section \<open>The checksum detects every change of a byte\<close>

lemma cksum_blocks:
  "foldl (\<lambda>(crc, filesize) buf. (crc_serial e crc buf, filesize + of_nat (length buf))) (crc, n) blocks
   = (crc_serial e crc (concat blocks), n + of_nat (length (concat blocks)))"
  by (induction blocks arbitrary: crc n) (simp_all add: crc_serial_append add.assoc)

text \<open>The value, of the file as a whole.\<close>

definition crc_of_file :: "bool \<Rightarrow> 8 word list \<Rightarrow> 32 word" where
  "crc_of_file e bs =
     NOT (crc_serial e (if e then 0 else 0xffffffff) (bs @ (if e then size_bytes (of_nat (length bs)) else [])))"

lemma cksum_crc_file: "cksum_crc e blocks = crc_of_file e (concat blocks)"
  by (simp add: cksum_crc_def crc_of_file_def blocks_are_serial cksum_blocks crc_serial_append Let_def)

lemma crc_of_file_change:
  assumes "xs = us @ b # ws" and "ys = us @ c # ws" and "b \<noteq> c"
  shows "crc_of_file e xs \<noteq> crc_of_file e ys"
proof -
  have split: "zs = us @ [d] @ ws \<Longrightarrow> crc_serial e v (zs @ ts) = crc_serial e (crc_serial e (crc_serial e v us) [d]) (ws @ ts)"
    for zs d v ts by (simp only: crc_serial_append append_assoc)
  show ?thesis
    using assms split [of xs b] split [of ys c]
    by (simp add: crc_of_file_def crc_serial_inject crc_serial_byte)
qed


text \<open>
  C19: A checksum shows every change of one byte. Whatever the blocks in which two files of the same length are read,
  \<^verbatim>\<open>cksum\<close> and \<^verbatim>\<open>crc32\<close> give different values when the files differ in exactly one byte.
\<close>

theorem cksum_detects_changed_byte:
  assumes "i < length (concat blocks)" and "c \<noteq> concat blocks ! i"
    and "concat blocks' = (concat blocks)[i := c]"
  shows "cksum_crc is_cksum blocks \<noteq> cksum_crc is_cksum blocks'"
proof -
  have "concat blocks = take i (concat blocks) @ concat blocks ! i # drop (Suc i) (concat blocks)"
    "concat blocks' = take i (concat blocks) @ c # drop (Suc i) (concat blocks)"
    using assms by (simp_all add: id_take_nth_drop upd_conv_take_nth_drop)
  then show ?thesis
    unfolding cksum_crc_file using assms(2) by (intro crc_of_file_change) (assumption, assumption, simp)
qed

theorem cksum_detects_changed_byte_witness:
  "cksum_crc True [[1, 2], [3]] \<noteq> cksum_crc True [[1], [7, 3]]"
  by (rule cksum_detects_changed_byte [where i = 1 and c = 7]) simp_all

end
