(* ===== verification/Bb_Base64.thy ===== *)
theory Bb_Base64
  imports Wsh_Prelude
begin

text \<open>
  The base64 coding of libbb/uuencode.c and the encoding loop of the applet \<^verbatim>\<open>base64\<close> in coreutils/uudecode.c. A buffer is
  a string of its bytes; the decoder may write to the buffer it reads, but it never writes a byte that it has
  not read yet, so input and output are separate here.
\<close>

unbundle bit_operations_syntax

section \<open>Encoding\<close>

definition bb_uuenc_tbl_base64 :: string where
  "bb_uuenc_tbl_base64 = ''ABCDEFGHIJKLMNOPQRSTUVWXYZabcdefghijklmnopqrstuvwxyz0123456789+/=''"

definition bb_uuenc_tbl_std :: string where
  "bb_uuenc_tbl_std =
     CHR 0x60 # ''!'' @ [CHR 0x22] @ ''#$%&'' @ [CHR 0x27]
     @ ''()*+,-./0123456789:;<=>?@ABCDEFGHIJKLMNOPQRSTUVWXYZ['' @ [CHR 0x5C] @ '']^_'' @ [CHR 0x60]"

text \<open>Three bytes as four indices of six bits, with shifts and masks as division and remainder.\<close>

definition sextets :: "nat \<Rightarrow> nat \<Rightarrow> nat \<Rightarrow> nat list" where
  "sextets s0 s1 s2 = [s0 div 4, (s0 mod 4) * 16 + s1 div 16, (s1 mod 16) * 4 + s2 div 64, s2 mod 64]"

text \<open>\<^verbatim>\<open>bb_uuencode\<close>: missing bytes of the last group are zero, and the last one or two characters are padded.\<close>

fun bb_uuencode :: "string \<Rightarrow> string \<Rightarrow> string" where
  "bb_uuencode tbl (a # b # c # s) = map (\<lambda>i. tbl ! i) (sextets (ch a) (ch b) (ch c)) @ bb_uuencode tbl s"
| "bb_uuencode tbl [a, b] = take 3 (map (\<lambda>i. tbl ! i) (sextets (ch a) (ch b) 0)) @ [tbl ! 64]"
| "bb_uuencode tbl [a] = take 2 (map (\<lambda>i. tbl ! i) (sextets (ch a) 0 0)) @ [tbl ! 64, tbl ! 64]"
| "bb_uuencode tbl [] = []"

section \<open>Decoding\<close>

text \<open>The value of a character; \<open>pad\<close> tells whether an equal sign is allowed here, which sets bit 24.\<close>

definition base64_value :: "bool \<Rightarrow> char \<Rightarrow> (32 word) option" where
  "base64_value pad c =
     (if ch CHR ''0'' \<le> ch c \<and> ch c \<le> ch CHR ''9'' then Some (of_nat (ch c - ch CHR ''0'' + 52))
      else if ch CHR ''A'' \<le> ch c \<and> ch c \<le> ch CHR ''Z'' then Some (of_nat (ch c - ch CHR ''A''))
      else if ch CHR ''a'' \<le> ch c \<and> ch c \<le> ch CHR ''z'' then Some (of_nat (ch c - ch CHR ''a'' + 26))
      else if c = CHR ''+'' then Some 62
      else if c = CHR ''/'' then Some 63
      else if c = CHR ''='' \<and> pad then Some 0x1000000
      else None)"

text \<open>The three bytes of a group; one byte less for each equal sign.\<close>

definition group_bytes :: "32 word \<Rightarrow> string" where
  "group_bytes v =
     (let s = [char_of (unat (drop_bit 16 v)), char_of (unat (drop_bit 8 v)), char_of (unat v)]
      in if v AND 0x1000000 = 0 then s
         else if v AND push_bit 6 0x1000000 = 0 then take 2 s else take 1 s)"

text \<open>
  The loop of \<^verbatim>\<open>decode_base64\<close>: what was read (\<open>before\<close>), what is left, the bits, the number of characters in them,
  and the output. The result is the output and the text from \<^verbatim>\<open>*pp_src\<close> on, which is \<open>i\<close> characters before the end when the last
  group is not complete.
\<close>

fun decode_loop :: "string \<Rightarrow> string \<Rightarrow> 32 word \<Rightarrow> nat \<Rightarrow> string \<Rightarrow> string \<times> string" where
  "decode_loop before [] v i dst = (dst, drop (length before - i) before)"
| "decode_loop before (c # src) v i dst =
     (case base64_value (i = 3 \<or> (i = 2 \<and> src \<noteq> [] \<and> hd src = CHR ''='')) c of
        None \<Rightarrow> decode_loop (before @ [c]) src v i dst
      | Some t \<Rightarrow>
          let v' = push_bit 6 v OR t; i' = (i + 1) mod 4
          in if i' \<noteq> 0 then decode_loop (before @ [c]) src v' i' dst
             else if v' AND 0x1000000 \<noteq> 0 then (dst @ group_bytes v', src)
             else decode_loop (before @ [c]) src 0 0 (dst @ group_bytes v'))"

definition decode_base64 :: "string \<Rightarrow> string \<times> string" where
  "decode_base64 src = decode_loop [] src 0 0 []"

section \<open>Reading a stream\<close>

text \<open>
  Filling the buffer of 80 characters: up to a control character or a blank, which is read and dropped. The flag
  tells that the exit character or the end of the stream was reached; \<open>exit_char\<close> is \<open>None\<close> for \<^verbatim>\<open>EOF\<close>.
\<close>

fun fill_buffer :: "char option \<Rightarrow> string \<Rightarrow> string \<Rightarrow> string \<times> string \<times> bool" where
  "fill_buffer exit_char buf [] = (buf, [], length buf < 80)"
| "fill_buffer exit_char buf (c # s) =
     (if 80 \<le> length buf then (buf, c # s, False)
      else if exit_char = Some c then (buf, s, True)
      else if ch c \<le> ch CHR '' '' then (buf, s, False)
      else fill_buffer exit_char (buf @ [c]) s)"

datatype base64_read_result = Read_done string | Read_truncated string

text \<open>
  \<^verbatim>\<open>read_base64\<close> for base64, with the output so far. It returns at once when the exit character comes first, and dies with
  \<^verbatim>\<open>truncated input\<close> when the stream ends in the middle of a group.
\<close>

partial_function (option) read_base64 :: "char option \<Rightarrow> bool \<Rightarrow> string \<Rightarrow> string \<Rightarrow> string \<Rightarrow> base64_read_result option" where
  "read_base64 exit_char uu_style_end buf s out =
     (case fill_buffer exit_char buf s of (buf', s', term_seen) \<Rightarrow>
        if term_seen \<and> buf' = [] then Some (Read_done out)
        else if uu_style_end \<and> buf' = ''===='' then Some (Read_done out)
        else (case decode_base64 buf' of (bytes, in_tail) \<Rightarrow>
          if term_seen
          then Some (if in_tail = [] then Read_done (out @ bytes) else Read_truncated (out @ bytes))
          else read_base64 exit_char uu_style_end in_tail s' (out @ bytes)))"


section \<open>The encoding loop of the applet\<close>

text \<open>
  The lines of width \<open>col\<close>: \<open>rem\<close> characters of the current line are free. The result is what is printed and the new \<open>rem\<close>.
\<close>

function put_lines :: "nat \<Rightarrow> nat \<Rightarrow> string \<Rightarrow> string \<times> nat" where
  "put_lines col rem result =
     (let out = min (length result) rem; rem' = rem - out
      in if rem' \<noteq> 0 then (take out result, rem')
         else if length result = out then (take out result @ [NEWLINE_CHR], 0)
         else if out = 0 then ([], 0)
         else case put_lines col col (drop out result) of (s, r) \<Rightarrow> (take out result @ [NEWLINE_CHR] @ s, r))"
  by auto
termination by (relation "measure (\<lambda>(col, rem, result). length result)") auto

declare put_lines.simps [simp del]

text \<open>The loop reads 480 bytes at a time; a width of 0 is one line without an end.\<close>

function base64_encode :: "nat \<Rightarrow> nat \<Rightarrow> string \<Rightarrow> string" where
  "base64_encode col rem data =
     (if data = [] then (if rem \<noteq> 0 then [NEWLINE_CHR] else [])
      else let dst = bb_uuencode bb_uuenc_tbl_base64 (take 480 data)
           in if col = 0 then dst @ base64_encode col rem (drop 480 data)
              else case put_lines col (if rem = 0 then col else rem) dst of
                     (s, r) \<Rightarrow> s @ base64_encode col r (drop 480 data))"
  by auto
termination by (relation "measure (\<lambda>(col, rem, data). length data)") auto

declare base64_encode.simps [simp del]

section \<open>Groups of four characters\<close>

lemma sextets_less: "a < 256 \<Longrightarrow> b < 256 \<Longrightarrow> c < 256 \<Longrightarrow> \<forall>i \<in> set (sextets a b c). i < 64"
  by (auto simp: sextets_def)

lemma table_chars:
  "bb_uuenc_tbl_base64 = map char_of ([65..<91] @ [97..<123] @ [48..<58] @ [43, 47, 61 :: nat])"
  by (simp add: bb_uuenc_tbl_base64_def upt_rec char_of_def bit_0)

lemma char_code: "ch c = n \<longleftrightarrow> n < 256 \<and> c = char_of n"
  by (auto simp: ch_def)

lemma value_by_code:
  assumes "ch c = n"
  shows "48 \<le> n \<Longrightarrow> n \<le> 57 \<Longrightarrow> base64_value pad c = Some (of_nat (n - 48 + 52))"
    "65 \<le> n \<Longrightarrow> n \<le> 90 \<Longrightarrow> base64_value pad c = Some (of_nat (n - 65))"
    "97 \<le> n \<Longrightarrow> n \<le> 122 \<Longrightarrow> base64_value pad c = Some (of_nat (n - 97 + 26))"
    "n = 43 \<Longrightarrow> base64_value pad c = Some 62" "n = 47 \<Longrightarrow> base64_value pad c = Some 63"
proof -
  have codes: "ch CHR ''0'' = 48" "ch CHR ''9'' = 57" "ch CHR ''A'' = 65" "ch CHR ''Z'' = 90"
    "ch CHR ''a'' = 97" "ch CHR ''z'' = 122" by (simp_all add: ch_def)
  have signs: "char_of (43 :: nat) = CHR ''+''" "char_of (47 :: nat) = CHR ''/''" by (simp_all add: char_of_def bit_0)
  note defs = base64_value_def codes assms
  show "48 \<le> n \<Longrightarrow> n \<le> 57 \<Longrightarrow> base64_value pad c = Some (of_nat (n - 48 + 52))" by (simp add: defs)
  show "65 \<le> n \<Longrightarrow> n \<le> 90 \<Longrightarrow> base64_value pad c = Some (of_nat (n - 65))" by (simp add: defs)
  show "97 \<le> n \<Longrightarrow> n \<le> 122 \<Longrightarrow> base64_value pad c = Some (of_nat (n - 97 + 26))" by (simp add: defs)
  show "n = 43 \<Longrightarrow> base64_value pad c = Some 62"
    using assms signs by (simp add: char_code) (simp add: base64_value_def ch_def)
  show "n = 47 \<Longrightarrow> base64_value pad c = Some 63"
    using assms signs by (simp add: char_code) (simp add: base64_value_def ch_def)
qed

lemma base64_value_tbl:
  assumes "i < 64"
  shows "base64_value pad (bb_uuenc_tbl_base64 ! i) = Some (of_nat i)"
proof -
  consider "i < 26" | "26 \<le> i" "i < 52" | "52 \<le> i" "i < 62" | "i = 62" | "i = 63" using assms by linarith
  then show ?thesis
  proof cases
    case 1
    then have "ch (bb_uuenc_tbl_base64 ! i) = 65 + i" by (simp add: table_chars nth_append ch_def del: upt_rec_numeral)
    from value_by_code(2) [OF this] 1 show ?thesis by simp
  next
    case 2
    then have "ch (bb_uuenc_tbl_base64 ! i) = 71 + i" by (simp add: table_chars nth_append ch_def del: upt_rec_numeral)
    moreover have "71 + i - 97 + 26 = i" using 2 by simp
    ultimately show ?thesis using value_by_code(3) [of _ "71 + i" pad] 2 by (simp del: of_nat_add)
  next
    case 3
    then have "i - 52 < 10" "\<not> i - 26 < 26" by simp_all
    with 3 have "ch (bb_uuenc_tbl_base64 ! i) = i - 4" by (simp add: table_chars nth_append ch_def del: upt_rec_numeral)
    moreover have "i - 4 - 48 + 52 = i" using 3 by simp
    ultimately show ?thesis using value_by_code(1) [of _ "i - 4" pad] 3 by (simp del: of_nat_add)
  next
    case 4
    then have "ch (bb_uuenc_tbl_base64 ! i) = 43" by (simp add: table_chars nth_append ch_def del: upt_rec_numeral)
    from value_by_code(4) [OF this] 4 show ?thesis by simp
  next
    case 5
    then have "ch (bb_uuenc_tbl_base64 ! i) = 47" by (simp add: table_chars nth_append ch_def del: upt_rec_numeral)
    from value_by_code(5) [OF this] 5 show ?thesis by simp
  qed
qed

lemma value_pad: "base64_value pad (bb_uuenc_tbl_base64 ! 64) = (if pad then Some 0x1000000 else None)"
  by (simp add: base64_value_def bb_uuenc_tbl_base64_def ch_def numeral_eq_Suc)


lemma bit_below: "bit (n :: nat) m \<Longrightarrow> n < 2 ^ k \<Longrightarrow> m < k"
  by (metis bit_take_bit_iff take_bit_nat_eq_self)

lemma or_sextet:
  assumes "t < 64"
  shows "push_bit 6 (of_nat n :: 32 word) OR of_nat t = of_nat (n * 64 + t)"
proof -
  have "push_bit 6 n OR t = push_bit 6 n + t"
    using bit_below [of t _ 6] assms by (intro disjunctive_add [symmetric]) (auto simp: bit_push_bit_iff not_le)
  also have "\<dots> = n * 64 + t" by (simp add: push_bit_eq_mult)
  finally show ?thesis by (metis of_nat_or_eq push_bit_of_nat)
qed

lemma or_flag:
  assumes "n * 64 mod 2 ^ 30 < 2 ^ 24"
  shows "push_bit 6 (of_nat n :: 32 word) OR 0x1000000 = of_nat (n * 64 + 0x1000000)"
proof -
  have flag: "bit ((2 :: nat) ^ 24) k \<longleftrightarrow> k = 24" for k by (simp only: bit_exp_iff) auto
  have "\<not> bit (push_bit 6 n) 24"
  proof
    assume "bit (push_bit 6 n) 24"
    then have "bit (take_bit 30 (push_bit 6 n)) 24" by (simp add: bit_take_bit_iff)
    moreover have "take_bit 30 (push_bit 6 n) = n * 64 mod 2 ^ 30" by (simp add: take_bit_eq_mod push_bit_eq_mult)
    ultimately have "bit (n * 64 mod 2 ^ 30) 24" by simp
    with assms show False using bit_below [of "n * 64 mod 2 ^ 30" 24 24] by simp
  qed
  then have "push_bit 6 n OR 2 ^ 24 = push_bit 6 n + 2 ^ 24"
    using flag by (intro disjunctive_add [symmetric]) metis
  also have "\<dots> = n * 64 + 0x1000000" by (simp add: push_bit_eq_mult)
  finally have "(of_nat (push_bit 6 n OR 2 ^ 24) :: 32 word) = of_nat (n * 64 + 0x1000000)" by simp
  then show ?thesis by (simp only: of_nat_or_eq push_bit_of_nat of_nat_power of_nat_numeral) simp
qed

lemma group_bytes_nat:
  assumes "n < 2 ^ 32"
  shows "group_bytes (of_nat n) =
    (let s = [char_of (n div 65536), char_of (n div 256), char_of n]
     in if \<not> bit n 24 then s else if \<not> bit n 30 then take 2 s else take 1 s)"
proof -
  have n: "unat (of_nat n :: 32 word) = n" using assms unfolding unat_of_nat by simp
  have bits: "bit (of_nat n :: 32 word) k \<longleftrightarrow> bit n k" if "k < 32" for k
    using that by (simp add: bit_simps)
  have "(of_nat n :: 32 word) AND 0x1000000 = 0 \<longleftrightarrow> \<not> bit n 24"
    "(of_nat n :: 32 word) AND push_bit 6 0x1000000 = 0 \<longleftrightarrow> \<not> bit n 30"
    using and_exp_eq_0_iff_not_bit [of "of_nat n :: 32 word" 24] and_exp_eq_0_iff_not_bit [of "of_nat n :: 32 word" 30] bits
    by simp_all
  moreover have "unat (drop_bit 16 (of_nat n :: 32 word)) = n div 65536" "unat (drop_bit 8 (of_nat n :: 32 word)) = n div 256"
    by (simp_all add: unat_drop_bit_eq drop_bit_nat_def n)
  ultimately show ?thesis unfolding group_bytes_def Let_def n by simp
qed


text \<open>What the loop does with complete groups.\<close>

lemma ch_less [simp]: "ch c < 256"
  by (simp add: ch_def)

lemma sextets_value:
  "((a div 4 * 64 + ((a mod 4) * 16 + b div 16)) * 64 + ((b mod 16) * 4 + c div 64)) * 64 + c mod 64
    = a * 65536 + b * 256 + (c :: nat)"
proof -
  have "((a1 * 64 + (a0 * 16 + b1)) * 64 + (b0 * 4 + c1)) * 64 + c0
    = (a1 * 4 + a0) * 65536 + (b1 * 16 + b0) * 256 + (c1 * 64 + c0)" for a1 a0 b1 b0 c1 c0 :: nat by simp
  then show ?thesis by (simp only: div_mult_mod_eq)
qed

text \<open>Four characters in a row, with their values.\<close>

lemma decode_four:
  assumes "\<And>pad. base64_value pad c0 = Some t0" "\<And>pad. base64_value pad c1 = Some t1"
    and "base64_value (c3 = CHR ''='') c2 = Some t2" "base64_value True c3 = Some t3"
    and v: "push_bit 6 (push_bit 6 (push_bit 6 t0 OR t1) OR t2) OR t3 = v"
  shows "decode_loop before (c0 # c1 # c2 # c3 # src) 0 0 dst =
    (if v AND 0x1000000 \<noteq> 0 then (dst @ group_bytes v, src)
     else decode_loop (before @ [c0, c1, c2, c3]) src 0 0 (dst @ group_bytes v))"
  unfolding v [symmetric] using assms(1-4) by (simp add: Let_def)

lemma char_of_low: "char_of (x * 256 + ch d) = d"
  using char_of_mod_256 [of "x * 256 + ch d"] by (simp add: ch_def)

lemma three_bytes:
  assumes "n = x * 2 ^ 24 + ch a * 65536 + ch b * 256 + ch c"
  shows "char_of (n div 65536) = a" "char_of (n div 256) = b" "char_of n = c"
    and "bit n 24 \<longleftrightarrow> odd x" "bit n 30 \<longleftrightarrow> odd (x div 64)"
proof -
  have less: "ch a \<le> 255" "ch b \<le> 255" "ch c \<le> 255"
    using ch_less [of a] ch_less [of b] ch_less [of c] by linarith+
  then have parts: "n div 65536 = x * 256 + ch a" "n div 256 = (x * 256 + ch a) * 256 + ch b" "n div 2 ^ 24 = x"
    unfolding assms by (intro div_nat_eqI; simp)+
  have "n = ((x * 256 + ch a) * 256 + ch b) * 256 + ch c" unfolding assms by simp
  then show "char_of (n div 65536) = a" "char_of (n div 256) = b" "char_of n = c"
    unfolding parts by (simp_all only: char_of_low)
  have "n div 2 ^ 30 = n div 2 ^ 24 div 64" by (simp flip: div_mult2_eq)
  then show "bit n 24 \<longleftrightarrow> odd x" "bit n 30 \<longleftrightarrow> odd (x div 64)" by (simp_all only: bit_iff_odd parts)
qed

lemma codes_less: "ch a * 65536 + ch b * 256 + ch c < 16777216"
  using ch_less [of a] ch_less [of b] ch_less [of c] by linarith

lemma flag_bits: "k < 32 \<Longrightarrow> (of_nat n :: 32 word) AND 2 ^ k = 0 \<longleftrightarrow> \<not> bit n k"
  using and_exp_eq_0_iff_not_bit [of "of_nat n :: 32 word" k] by (simp add: bit_simps)

lemma decode_full:
  assumes "t0 < 64" "t1 < 64" "t2 < 64" "t3 < 64"
    and "n = ((t0 * 64 + t1) * 64 + t2) * 64 + t3" and "\<not> bit n 24"
  shows "decode_loop before (bb_uuenc_tbl_base64 ! t0 # bb_uuenc_tbl_base64 ! t1 # bb_uuenc_tbl_base64 ! t2 # bb_uuenc_tbl_base64 ! t3 # src) 0 0 dst
    = decode_loop (before @ [bb_uuenc_tbl_base64 ! t0, bb_uuenc_tbl_base64 ! t1, bb_uuenc_tbl_base64 ! t2, bb_uuenc_tbl_base64 ! t3])
        src 0 0 (dst @ group_bytes (of_nat n))"
proof -
  have v: "push_bit 6 (push_bit 6 (push_bit 6 (of_nat t0 :: 32 word) OR of_nat t1) OR of_nat t2) OR of_nat t3 = of_nat n"
    using assms(1-5) by (simp only: or_sextet)
  show ?thesis
    using flag_bits [of 24 n] assms(6)
    by (subst decode_four [OF _ _ _ _ v]) (simp_all add: assms(1-4) base64_value_tbl del: decode_loop.simps)
qed

lemma decode_group:
  "decode_loop before (bb_uuencode bb_uuenc_tbl_base64 [a, b, c] @ src) 0 0 dst
   = decode_loop (before @ bb_uuencode bb_uuenc_tbl_base64 [a, b, c]) src 0 0 (dst @ [a, b, c])"
proof -
  define n where "n = ch a * 65536 + ch b * 256 + ch c"
  have n: "n < 2 ^ 32" using codes_less [of a b c] by (simp add: n_def)
  have "n = 0 * 2 ^ 24 + ch a * 65536 + ch b * 256 + ch c" by (simp add: n_def)
  note three = three_bytes [OF this]
  then have bytes: "group_bytes (of_nat n) = [a, b, c]" "\<not> bit n 24"
    using group_bytes_nat [OF n] by simp_all
  have vals: "\<forall>i \<in> set (sextets (ch a) (ch b) (ch c)). i < 64" by (rule sextets_less) simp_all
  show ?thesis
    using vals decode_full [OF _ _ _ _ sextets_value [of "ch a" "ch b" "ch c", folded n_def, symmetric] bytes(2)] bytes(1)
    by (simp add: sextets_def del: decode_loop.simps)
qed

lemma char_of_NUL: "ch NUL = 0"
  by (simp add: ch_def)

lemma tbl_64: "bb_uuenc_tbl_base64 ! 64 = CHR ''=''"
  by (simp add: bb_uuenc_tbl_base64_def numeral_eq_Suc)

lemma tbl_not_pad: "i < 64 \<Longrightarrow> bb_uuenc_tbl_base64 ! i \<noteq> CHR ''=''"
  using base64_value_tbl [of i False] value_pad [of False] tbl_64 by auto

lemma decode_pad1:
  assumes "t0 < 64" "t1 < 64" "t2 < 64"
    and v: "push_bit 6 (of_nat ((t0 * 64 + t1) * 64 + t2)) OR 0x1000000 = v" and "v AND 0x1000000 \<noteq> 0"
  shows "decode_loop before (bb_uuenc_tbl_base64 ! t0 # bb_uuenc_tbl_base64 ! t1 # bb_uuenc_tbl_base64 ! t2 # CHR ''='' # src) 0 0 dst
    = (dst @ group_bytes v, src)"
proof -
  have "push_bit 6 (push_bit 6 (push_bit 6 (of_nat t0) OR of_nat t1) OR of_nat t2) OR 0x1000000 = v" (is ?v)
    using assms(1-3) by (simp only: or_sextet v)
  then show ?thesis
    using assms(5) by (subst decode_four [OF _ _ _ _ \<open>?v\<close>]) (simp_all add: assms(1-3) base64_value_tbl value_pad [unfolded tbl_64] Let_def)
qed

lemma decode_pad2:
  assumes "t0 < 64" "t1 < 64"
    and v: "push_bit 6 (push_bit 6 (of_nat (t0 * 64 + t1)) OR 0x1000000) OR 0x1000000 = v" and "v AND 0x1000000 \<noteq> 0"
  shows "decode_loop before (bb_uuenc_tbl_base64 ! t0 # bb_uuenc_tbl_base64 ! t1 # CHR ''='' # CHR ''='' # src) 0 0 dst
    = (dst @ group_bytes v, src)"
proof -
  have "push_bit 6 (push_bit 6 (push_bit 6 (of_nat t0) OR of_nat t1) OR 0x1000000) OR 0x1000000 = v" (is ?v)
    using assms(1,2) by (simp only: or_sextet v)
  then show ?thesis
    using assms(4) by (subst decode_four [OF _ _ _ _ \<open>?v\<close>]) (simp_all add: assms(1,2) base64_value_tbl value_pad [unfolded tbl_64] Let_def)
qed

lemma decode_pair:
  "decode_loop before (bb_uuencode bb_uuenc_tbl_base64 [a, b] @ src) 0 0 dst = (dst @ [a, b], src)"
proof -
  define m where "m = (ch a div 4 * 64 + ((ch a mod 4) * 16 + ch b div 16)) * 64 + (ch b mod 16) * 4"
  have m: "m * 64 = ch a * 65536 + ch b * 256" using sextets_value [of "ch a" "ch b" 0] by (simp add: m_def)
  define n where "n = m * 64 + 0x1000000"
  have small: "m * 64 < 2 ^ 24" using codes_less [of a b NUL] by (simp add: m char_of_NUL)
  then have n: "n < 2 ^ 32" by (simp add: n_def)
  have "n = 1 * 2 ^ 24 + ch a * 65536 + ch b * 256 + ch NUL" by (simp add: n_def m char_of_NUL)
  note three = three_bytes [OF this]
  then have bytes: "group_bytes (of_nat n) = [a, b]" using n by (simp add: group_bytes_nat)
  have flag: "(of_nat n :: 32 word) AND 0x1000000 \<noteq> 0"
    using flag_bits [of 24 n] three(4) by simp
  have or: "push_bit 6 (of_nat m :: 32 word) OR 0x1000000 = of_nat n"
    unfolding n_def using small by (intro or_flag) (simp add: mod_less_eq_dividend [THEN le_less_trans])
  have vals: "\<forall>i \<in> set (sextets (ch a) (ch b) 0). i < 64" by (rule sextets_less) simp_all
  show ?thesis
    using vals decode_pad1 [OF _ _ _ or [unfolded m_def] flag] bytes by (simp add: sextets_def tbl_64 del: decode_loop.simps)
qed

lemma decode_single:
  "decode_loop before (bb_uuencode bb_uuenc_tbl_base64 [a] @ src) 0 0 dst = (dst @ [a], src)"
proof -
  define m where "m = ch a div 4 * 64 + (ch a mod 4) * 16"
  have m: "m * 4096 = ch a * 65536" using sextets_value [of "ch a" 0 0] by (simp add: m_def)
  define n where "n = (m * 64 + 0x1000000) * 64 + 0x1000000"
  have small: "m * 4096 < 2 ^ 24" using codes_less [of a NUL NUL] by (simp add: m char_of_NUL)
  then have n: "n < 2 ^ 32" by (simp add: n_def)
  have "n = 65 * 2 ^ 24 + ch a * 65536 + ch NUL * 256 + ch NUL" using m by (simp add: n_def char_of_NUL)
  note three = three_bytes [OF this]
  then have bytes: "group_bytes (of_nat n) = [a]" using n by (simp add: group_bytes_nat)
  have flag: "(of_nat n :: 32 word) AND 0x1000000 \<noteq> 0"
    using flag_bits [of 24 n] three(4) by simp
  have "push_bit 6 (of_nat m :: 32 word) OR 0x1000000 = of_nat (m * 64 + 0x1000000)"
    using small by (intro or_flag) (simp add: mod_less_eq_dividend [THEN le_less_trans])
  moreover have "push_bit 6 (of_nat (m * 64 + 0x1000000) :: 32 word) OR 0x1000000 = of_nat n"
    unfolding n_def using small by (intro or_flag) (simp add: mod_less_eq_dividend [THEN le_less_trans])
  ultimately have or: "push_bit 6 (push_bit 6 (of_nat m :: 32 word) OR 0x1000000) OR 0x1000000 = of_nat n" by simp
  have vals: "\<forall>i \<in> set (sextets (ch a) 0 0). i < 64" by (rule sextets_less) simp_all
  show ?thesis
    using vals decode_pad2 [OF _ _ or [unfolded m_def] flag] bytes by (simp add: sextets_def tbl_64 del: decode_loop.simps)
qed

lemma decode_encoded:
  "decode_loop before (bb_uuencode bb_uuenc_tbl_base64 xs) 0 0 dst = (dst @ xs, [])"
proof (induction bb_uuenc_tbl_base64 xs arbitrary: before dst rule: bb_uuencode.induct)
  case (1 a b c s)
  then show ?case
    using decode_group [of before a b c "bb_uuencode bb_uuenc_tbl_base64 s" dst] by (simp del: decode_loop.simps)
next
  case (2 a b)
  then show ?case using decode_pair [of before a b "[]" dst] by simp
next
  case (3 a)
  then show ?case using decode_single [of before a "[]" dst] by simp
qed simp


section \<open>Reading lines of complete groups\<close>

abbreviation enc :: "string \<Rightarrow> string" where
  "enc \<equiv> bb_uuencode bb_uuenc_tbl_base64"

lemma three_dvd: "3 dvd Suc (Suc (Suc n)) \<longleftrightarrow> 3 dvd n" "\<not> 3 dvd Suc (Suc 0)" "\<not> 3 dvd Suc 0"
  by presburger+

lemma enc_append: "3 dvd length xs \<Longrightarrow> enc (xs @ ys) = enc xs @ enc ys"
  by (induction bb_uuenc_tbl_base64 xs rule: bb_uuencode.induct) (auto simp: three_dvd)

lemma enc_Nil_iff [simp]: "enc xs = [] \<longleftrightarrow> xs = []"
  by (induction bb_uuenc_tbl_base64 xs rule: bb_uuencode.induct) (auto simp: sextets_def)

lemma length_enc: "length (enc xs) = 4 * ((length xs + 2) div 3)"
  by (induction bb_uuenc_tbl_base64 xs rule: bb_uuencode.induct) (auto simp: sextets_def, presburger)

lemma tbl_above_blank:
  assumes "i \<le> 64"
  shows "ch CHR '' '' < ch (bb_uuenc_tbl_base64 ! i)"
proof (rule ccontr)
  assume "\<not> ?thesis"
  then have "ch (bb_uuenc_tbl_base64 ! i) \<le> 32" by (simp add: ch_def)
  moreover from this have "base64_value False (bb_uuenc_tbl_base64 ! i) = None"
    by (auto simp: base64_value_def ch_def)
  moreover have "ch CHR ''='' = 61" by (simp add: ch_def)
  ultimately show False
    using assms base64_value_tbl [of i False] tbl_64 by (cases "i = 64") auto
qed

lemma enc_above_blank: "\<forall>c \<in> set (enc xs). ch CHR '' '' < ch c"
proof (induction bb_uuenc_tbl_base64 xs rule: bb_uuencode.induct)
  case (1 a b c s)
  then show ?case
    using sextets_less [of "ch a" "ch b" "ch c"] by (auto simp: sextets_def intro!: tbl_above_blank less_imp_le)
next
  case (2 a b)
  then show ?case
    using sextets_less [of "ch a" "ch b" 0] by (auto simp: sextets_def intro!: tbl_above_blank less_imp_le)
next
  case (3 a)
  then show ?case using sextets_less [of "ch a" 0 0] by (auto simp: sextets_def intro!: tbl_above_blank less_imp_le)
qed simp

lemma fill_text:
  "\<forall>c \<in> set g. ch CHR '' '' < ch c \<Longrightarrow> length buf + length g \<le> 80 \<Longrightarrow>
   fill_buffer None buf (g @ s) = fill_buffer None (buf @ g) s"
  by (induction g arbitrary: buf) auto

text \<open>The text of some bytes in complete groups, with line breaks between them.\<close>

inductive aligned :: "string \<Rightarrow> string \<Rightarrow> bool" where
  aligned_end: "set s \<subseteq> {NEWLINE_CHR} \<Longrightarrow> aligned s []"
| aligned_line: "aligned s bs \<Longrightarrow> aligned (NEWLINE_CHR # s) bs"
| aligned_group: "aligned s bs \<Longrightarrow> aligned (enc [a, b, c] @ s) (a # b # c # bs)"
| aligned_last: "set s \<subseteq> {NEWLINE_CHR} \<Longrightarrow> length xs \<le> 2 \<Longrightarrow> aligned (enc xs @ s) xs"

lemma read_flush:
  assumes "length (enc xs) = 80"
  shows "read_base64 None False (enc xs) s out = read_base64 None False [] s (out @ xs)"
proof -
  have "fill_buffer None (enc xs) s = (enc xs, s, False)" using assms by (cases s) auto
  then show ?thesis
    using assms by (subst read_base64.simps) (simp add: decode_base64_def decode_encoded)
qed

lemma read_line:
  assumes "length (enc xs) < 80"
  shows "read_base64 None False (enc xs) (NEWLINE_CHR # s) out = read_base64 None False [] s (out @ xs)"
  using assms by (subst read_base64.simps) (auto simp: decode_base64_def decode_encoded ch_def)

lemma read_end:
  assumes "length (enc xs) < 80"
  shows "read_base64 None False (enc xs) [] out = Some (Read_done (out @ xs))"
  using assms by (subst read_base64.simps) (auto simp: decode_base64_def decode_encoded)

lemma read_newlines:
  "set s \<subseteq> {NEWLINE_CHR} \<Longrightarrow> length (enc xs) \<le> 80 \<Longrightarrow> read_base64 None False (enc xs) s out = Some (Read_done (out @ xs))"
proof (induction s arbitrary: xs out)
  case Nil
  then show ?case using read_end [of xs out] read_end [of "[]" "out @ xs"] read_flush [of xs "[]" out]
    by (cases "length (enc xs) = 80") auto
next
  case (Cons c s)
  then have c: "c = NEWLINE_CHR" by simp
  have rest: "read_base64 None False [] s out' = Some (Read_done out')" for out'
    using Cons.IH [of "[]" out'] Cons.prems(1) by simp
  then have "read_base64 None False [] (c # s) out' = Some (Read_done out')" for out'
    using read_line [of "[]" s out'] by (simp add: c)
  then show ?case using rest Cons.prems read_line [of xs s out] read_flush [of xs "c # s" out]
    by (cases "length (enc xs) = 80") (auto simp: c)
qed

lemma full_or_room: "length (enc xs) \<le> 80 \<Longrightarrow> length (enc xs) = 80 \<or> length (enc xs) \<le> 76"
proof -
  assume "length (enc xs) \<le> 80"
  moreover obtain m where "length (enc xs) = 4 * m" by (simp add: length_enc)
  ultimately show ?thesis by auto
qed

lemma read_block:
  assumes "3 dvd length xs" and "length (enc xs) \<le> 76" and "length ys \<le> 3"
  shows "read_base64 None False (enc xs) (enc ys @ s) out = read_base64 None False (enc (xs @ ys)) s out"
    and "length (enc (xs @ ys)) \<le> 80"
proof -
  have "(length ys + 2) div 3 < 2" using assms(3) by (intro less_mult_imp_div_less) simp
  then have "length (enc ys) \<le> 4" unfolding length_enc by simp
  then have len: "length (enc xs) + length (enc ys) \<le> 80" using assms(2) by linarith
  then show "length (enc (xs @ ys)) \<le> 80" using assms(1) by (simp add: enc_append)
  have "fill_buffer None (enc xs) (enc ys @ s) = fill_buffer None (enc (xs @ ys)) s"
    using fill_text [OF enc_above_blank len] assms(1) by (simp add: enc_append)
  then show "read_base64 None False (enc xs) (enc ys @ s) out = read_base64 None False (enc (xs @ ys)) s out"
    by (subst (1 2) read_base64.simps) simp
qed

lemma read_aligned:
  "aligned s bs \<Longrightarrow> 3 dvd length xs \<Longrightarrow> length (enc xs) \<le> 80 \<Longrightarrow>
   read_base64 None False (enc xs) s out = Some (Read_done (out @ xs @ bs))"
proof (induction s bs arbitrary: xs out rule: aligned.induct)
  case (aligned_end s)
  then show ?case by (simp add: read_newlines)
next
  case (aligned_line s bs)
  have rest: "read_base64 None False [] s out' = Some (Read_done (out' @ bs))" for out'
    using aligned_line.IH [of "[]" out'] by simp
  then have "read_base64 None False [] (NEWLINE_CHR # s) out' = Some (Read_done (out' @ bs))" for out'
    using read_line [of "[]" s out'] by simp
  then show ?case
    using rest aligned_line.prems read_line [of xs s out] read_flush [of xs "NEWLINE_CHR # s" out]
    by (cases "length (enc xs) = 80") auto
next
  case (aligned_group s bs a b c)
  have step: "read_base64 None False (enc xs') (enc [a, b, c] @ s) out' = Some (Read_done (out' @ xs' @ a # b # c # bs))"
    if "3 dvd length xs'" "length (enc xs') \<le> 76" for xs' out'
    using read_block(1) [OF that, of "[a, b, c]" s out'] read_block(2) [OF that, of "[a, b, c]"] aligned_group.IH [of "xs' @ [a, b, c]" out'] that(1)
    by (simp add: three_dvd del: bb_uuencode.simps)
  show ?case
    using full_or_room [OF aligned_group.prems(2)] read_flush [of xs "enc [a, b, c] @ s" out] step [of "[]" "out @ xs"]
      step [OF aligned_group.prems(1)] by auto
next
  case (aligned_last s ys)
  have step: "read_base64 None False (enc xs') (enc ys @ s) out' = Some (Read_done (out' @ xs' @ ys))"
    if "3 dvd length xs'" "length (enc xs') \<le> 76" for xs' out'
    using read_block(1) [OF that, of ys s out'] read_block(2) [OF that, of ys] read_newlines [OF aligned_last.hyps(1), of "xs' @ ys" out'] aligned_last.hyps(2)
    by simp
  show ?case
    using full_or_room [OF aligned_last.prems(2)] read_flush [of xs "enc ys @ s" out] step [of "[]" "out @ xs"]
      step [OF aligned_last.prems(1)] by auto
qed

section \<open>Writing lines of complete groups\<close>

text \<open>The text \<open>s\<close> of the bytes \<open>xs\<close>, before any aligned text or, when the last group is not complete, before line ends.\<close>

definition writes :: "string \<Rightarrow> string \<Rightarrow> bool" where
  "writes s xs \<longleftrightarrow>
     (3 dvd length xs \<longrightarrow> (\<forall>t bs. aligned t bs \<longrightarrow> aligned (s @ t) (xs @ bs)))
     \<and> (\<forall>t. set t \<subseteq> {NEWLINE_CHR} \<longrightarrow> aligned (s @ t) xs)"

lemma writes_enc: "writes (enc xs) xs"
proof (induction bb_uuenc_tbl_base64 xs rule: bb_uuencode.induct)
  case (1 a b c s)
  have split: "enc (a # b # c # s) @ t = enc [a, b, c] @ enc s @ t" for t by simp
  show ?case unfolding writes_def split
    using 1 by (auto simp: writes_def three_dvd simp del: bb_uuencode.simps intro!: aligned_group)
next
  case (2 a b)
  then show ?case using aligned_last [of _ "[a, b]"] by (auto simp: writes_def three_dvd simp del: bb_uuencode.simps)
next
  case (3 a)
  then show ?case using aligned_last [of _ "[a]"] by (auto simp: writes_def three_dvd simp del: bb_uuencode.simps)
next
  case 4
  then show ?case by (auto simp: writes_def aligned_end)
qed

lemma enc_split: "take (4 * k) (enc xs) = enc (take (3 * k) xs)" "drop (4 * k) (enc xs) = enc (drop (3 * k) xs)"
proof -
  have "take (4 * k) (enc xs) = enc (take (3 * k) xs) \<and> drop (4 * k) (enc xs) = enc (drop (3 * k) xs)"
  proof (cases "3 * k \<le> length xs")
    case True
    then have "enc xs = enc (take (3 * k) xs) @ enc (drop (3 * k) xs)"
      using enc_append [of "take (3 * k) xs" "drop (3 * k) xs"] by (simp add: min_absorb2)
    moreover have "length (enc (take (3 * k) xs)) = 4 * k" using True by (simp add: length_enc min_absorb2)
    ultimately show ?thesis by simp
  next
    case False
    then have "(length xs + 2) div 3 < k + 1" by (intro less_mult_imp_div_less) simp
    then have "length (enc xs) \<le> 4 * k" unfolding length_enc by simp
    then show ?thesis using False by simp
  qed
  then show "take (4 * k) (enc xs) = enc (take (3 * k) xs)" "drop (4 * k) (enc xs) = enc (drop (3 * k) xs)" by auto
qed

lemma writes_newline: "writes [NEWLINE_CHR] []"
  by (auto simp: writes_def intro: aligned_line aligned_end)

lemma writes_append: "writes s xs \<Longrightarrow> 3 dvd length xs \<Longrightarrow> writes t ys \<Longrightarrow> writes (s @ t) (xs @ ys)"
  by (auto simp: writes_def dvd_add_right_iff)

lemma writes_line: "writes s xs \<Longrightarrow> writes (s @ [NEWLINE_CHR]) xs"
  by (auto simp: writes_def intro: aligned_line)

lemma put_lines_writes:
  assumes "4 dvd col" "0 < col"
  shows "4 dvd rem \<Longrightarrow> 0 < rem \<Longrightarrow> put_lines col rem (enc xs) = (s, r) \<Longrightarrow> writes s xs \<and> 4 dvd r"
proof (induction "length xs" arbitrary: rem xs s r rule: less_induct)
  case less
  define out where "out = min (length (enc xs)) rem"
  have four: "4 dvd out" using less.prems(1) by (simp add: out_def length_enc min_def)
  show ?case
  proof (cases "length (enc xs) \<le> rem")
    case True
    then have "s = enc xs \<or> s = enc xs @ [NEWLINE_CHR]" "r = rem - length (enc xs)"
      using less.prems(3) by (auto simp: put_lines.simps [of col rem] Let_def split: if_splits)
    moreover have "4 dvd length (enc xs)" by (simp add: length_enc)
    ultimately show ?thesis using less.prems(1) writes_enc writes_line by (auto simp: dvd_diff_nat)
  next
    case False
    obtain k where k: "rem = 4 * k" using less.prems(1) by blast
    obtain s' r' where rest: "put_lines col col (drop rem (enc xs)) = (s', r')" by fastforce
    have s: "s = take rem (enc xs) @ [NEWLINE_CHR] @ s'" "r = r'"
      using less.prems(2,3) False rest by (auto simp: put_lines.simps [of col rem] Let_def min_def)
    from False have "k + 1 \<le> (length xs + 2) div 3" unfolding k length_enc by simp
    then have len: "3 * k < length xs" by (simp add: less_eq_div_iff_mult_less_eq)
    have "writes s' (drop (3 * k) xs) \<and> 4 dvd r'"
      using less.prems(2) rest len assms by (intro less.hyps [of _ col]) (simp_all add: k enc_split)
    then show ?thesis
      using s len writes_append [OF writes_line [OF writes_enc [of "take (3 * k) xs"]], of s' "drop (3 * k) xs"]
      by (simp add: k enc_split min_absorb2)
  qed
qed

lemma encode_end: "writes s xs \<Longrightarrow> writes (s @ base64_encode col r []) xs"
  by (auto simp: base64_encode.simps [of col r "[]"] intro: writes_line)

lemma encode_writes:
  assumes "4 dvd col"
  shows "4 dvd rem \<Longrightarrow> (col = 0 \<Longrightarrow> rem = 0) \<Longrightarrow> writes (base64_encode col rem data) data"
proof (induction "length data" arbitrary: rem data rule: less_induct)
  case less
  show ?case
  proof (cases "data = []")
    case True
    then show ?thesis using encode_end [of "[]" "[]" col rem] writes_enc [of "[]"] by simp
  next
    case False
    define xs where "xs = take 480 data"
    obtain s r where s: "base64_encode col rem data = s @ base64_encode col r (drop 480 data)"
      and w: "writes s xs" "4 dvd r" "col = 0 \<Longrightarrow> r = 0"
    proof (cases "col = 0")
      case True
      then show ?thesis
        using that [of "enc xs" rem] False less.prems writes_enc [of xs] base64_encode.simps [of col rem data]
        by (simp add: xs_def)
    next
      case col: False
      obtain s r where put: "put_lines col (if rem = 0 then col else rem) (enc xs) = (s, r)" by fastforce
      have "writes s xs \<and> 4 dvd r"
        by (rule put_lines_writes [OF assms _ _ _ put]) (use col less.prems assms in auto)
      then show ?thesis
        using that [of s r] False col put by (simp add: base64_encode.simps [of col rem] xs_def)
    qed
    show ?thesis
    proof (cases "length data \<le> 480")
      case True
      then show ?thesis using s encode_end [OF w(1), of col r] by (simp add: xs_def)
    next
      case long: False
      then have "writes (base64_encode col r (drop 480 data)) (drop 480 data)"
        by (intro less.hyps) (use w in auto)
      from writes_append [OF w(1) _ this] show ?thesis using s long by (simp add: xs_def min_absorb2)
    qed
  qed
qed

text \<open>
  C17: What \<^verbatim>\<open>base64\<close> writes, \<^verbatim>\<open>base64 -d\<close> reads back. For every file and every width of the lines that is a multiple of four, the
  default of 76 and lines without end included, the decoder returns and has written the bytes of the file.
\<close>

theorem base64_roundtrip:
  assumes "4 dvd col"
  shows "read_base64 None False [] (base64_encode col 0 data) [] = Some (Read_done data)"
proof -
  have "aligned (base64_encode col 0 data) data"
    using encode_writes [OF assms, of 0 data] by (auto simp: writes_def dest: spec [of _ "[]"])
  from read_aligned [OF this, of "[]" "[]"] show ?thesis by simp
qed

theorem base64_roundtrip_witness:
  "read_base64 None False [] (base64_encode 76 0 ''wsh'') [] = Some (Read_done ''wsh'')"
  by (rule base64_roundtrip) simp


text \<open>
  With other widths the padding may be split between two lines, and the decoder drops the equal sign at the end of the
  first one and counts it as a character of the group: of one byte in lines of three characters nothing is left, without an error.
\<close>

lemma base64_odd_width_loses_data:
  "read_base64 None False [] (base64_encode 3 0 ''A'') [] = Some (Read_done [])"
proof -
  have wrapped: "base64_encode 3 0 ''A'' = ''QQ='' @ [NEWLINE_CHR] @ ''='' @ [NEWLINE_CHR]" by code_simp
  have fills: "fill_buffer None [] (''QQ='' @ [NEWLINE_CHR] @ ''='' @ [NEWLINE_CHR]) = (''QQ='', ''='' @ [NEWLINE_CHR], False)"
    "fill_buffer None ''Q='' (''='' @ [NEWLINE_CHR]) = (''Q=='', [], False)" "fill_buffer None ''='' [] = (''='', [], True)"
    by code_simp+
  have decodes: "decode_base64 ''QQ='' = ([], ''Q='')" "decode_base64 ''Q=='' = ([], ''='')" "decode_base64 ''='' = ([], [])"
    by code_simp+
  have "read_base64 None False ''='' [] [] = Some (Read_done [])"
    by (subst read_base64.simps) (simp add: fills decodes del: fill_buffer.simps)
  then have "read_base64 None False ''Q='' (''='' @ [NEWLINE_CHR]) [] = Some (Read_done [])"
    by (subst read_base64.simps) (simp only: fills, simp add: decodes)
  then show ?thesis
    unfolding wrapped by (subst read_base64.simps) (simp only: fills, simp add: decodes)
qed

end
