(* ===== verification/Bb_Path.thy ===== *)
theory Bb_Path
  imports Wsh_Prelude
begin

text \<open>
  Paths: libbb/simplify_path.c, which works in place with two pointers into one buffer, and the small functions of
  libbb/last_char_is.c, concat_path_file.c, concat_subpath_file.c and get_last_path_component.c. A buffer is the list
  of the characters before the terminating NUL; an access outside of it has no value.
\<close>

section \<open>Ends and joints\<close>

text \<open>The position of the last character, when it is \<open>c\<close>.\<close>

definition last_char_is :: "string \<Rightarrow> char \<Rightarrow> nat option" where
  "last_char_is s c = (if s \<noteq> [] \<and> last s = c then Some (length s - 1) else None)"

definition concat_path_file :: "string option \<Rightarrow> string \<Rightarrow> string" where
  "concat_path_file path filename =
     (let p = (case path of None \<Rightarrow> [] | Some q \<Rightarrow> q)
      in p @ (if last_char_is p (CHR ''/'') = None then ''/'' else []) @ dropWhile (\<lambda>c. c = CHR ''/'') filename)"

definition DOT_OR_DOTDOT :: "string \<Rightarrow> bool" where
  "DOT_OR_DOTDOT s \<longleftrightarrow> s = ''.'' \<or> s = ''..''"

definition concat_subpath_file :: "string option \<Rightarrow> string \<Rightarrow> string option" where
  "concat_subpath_file path f = (if DOT_OR_DOTDOT f then None else Some (concat_path_file path f))"

text \<open>What comes after the last slash.\<close>

definition bb_basename :: "string \<Rightarrow> string" where
  "bb_basename name = rev (takeWhile (\<lambda>c. c \<noteq> CHR ''/'') (rev name))"

definition bb_get_last_path_component_nostrip :: "string \<Rightarrow> string" where
  "bb_get_last_path_component_nostrip path =
     (if CHR ''/'' \<notin> set path \<or> path = ''/'' then path else bb_basename path)"

text \<open>Trailing slashes are removed, but not a slash at the start.\<close>

fun strip_slashes :: "string \<Rightarrow> string" where
  "strip_slashes (c # d # s) =
     (let t = strip_slashes (d # s) in if t = ''/'' then [c] else c # t)"
| "strip_slashes s = s"

definition bb_get_last_path_component_strip :: "string \<Rightarrow> string" where
  "bb_get_last_path_component_strip path =
     bb_get_last_path_component_nostrip
       (if last_char_is path (CHR ''/'') = None then path else strip_slashes path)"

section \<open>Simplifying in place\<close>

definition path_char :: "string \<Rightarrow> nat \<Rightarrow> char" where
  "path_char b i = (if i < length b then b ! i else NUL)"

text \<open>\<^verbatim>\<open>while (*--p != '/') continue\<close>: to the slash before \<open>p\<close>.\<close>

fun omit_dir :: "string \<Rightarrow> nat \<Rightarrow> nat option" where
  "omit_dir b 0 = None"
| "omit_dir b (Suc p) = (if path_char b p = CHR ''/'' then Some p else omit_dir b p)"

text \<open>One round of the loop: the buffer and the two pointers, as indices, before the test \<^verbatim>\<open>*++s\<close>.\<close>

definition simplify_round :: "string \<Rightarrow> nat \<Rightarrow> nat \<Rightarrow> (string \<times> nat \<times> nat) option" where
  "simplify_round b p s =
     (if path_char b p = CHR ''/'' \<and> path_char b s = CHR ''/'' then Some (b, p, s)
      else if path_char b p = CHR ''/'' \<and> path_char b s = CHR ''.''
              \<and> (path_char b (s + 1) = CHR ''/'' \<or> path_char b (s + 1) = NUL) then Some (b, p, s)
      else if path_char b p = CHR ''/'' \<and> path_char b s = CHR ''.'' \<and> path_char b (s + 1) = CHR ''.''
              \<and> (path_char b (s + 2) = CHR ''/'' \<or> path_char b (s + 2) = NUL)
      then (if p > 0 then do { p' \<leftarrow> omit_dir b p; Some (b, p', s + 1) } else Some (b, p, s + 1))
      else if p + 1 < length b then Some (b[p + 1 := path_char b s], p + 1, s) else None)"

partial_function (option) simplify_loop :: "string \<Rightarrow> nat \<Rightarrow> nat \<Rightarrow> (string \<times> nat) option" where
  "simplify_loop b p s =
     do { (b', p', s') \<leftarrow> simplify_round b p s;
          if path_char b' (s' + 1) \<noteq> NUL then simplify_loop b' p' (s' + 1) else Some (b', p') }"

text \<open>The result is the text that is left in the buffer.\<close>

definition bb_simplify_abs_path_inplace :: "string \<Rightarrow> string option" where
  "bb_simplify_abs_path_inplace start =
     do { (b, p) \<leftarrow> simplify_loop start 0 0;
          Some (take (if p = 0 \<or> path_char b p \<noteq> CHR ''/'' then p + 1 else p) b) }"

text \<open>A relative path is taken from the working directory; \<open>None\<close> of \<open>cwd\<close> is a failing \<^verbatim>\<open>getcwd\<close>.\<close>

definition bb_simplify_path :: "string option \<Rightarrow> string \<Rightarrow> string option" where
  "bb_simplify_path cwd path =
     bb_simplify_abs_path_inplace (if path \<noteq> [] \<and> hd path = CHR ''/'' then path else concat_path_file cwd path)"

section \<open>Normal paths\<close>

text \<open>The components of a path, and the stack of directories that they lead to.\<close>

function components :: "string \<Rightarrow> string list" where
  "components r =
     (if r = [] then []
      else takeWhile (\<lambda>c. c \<noteq> CHR ''/'') r # components (drop 1 (dropWhile (\<lambda>c. c \<noteq> CHR ''/'') r)))"
  by auto
termination
proof (relation "measure length")
  fix r :: string
  assume "r \<noteq> []"
  then show "(drop 1 (dropWhile (\<lambda>c. c \<noteq> CHR ''/'') r), r) \<in> measure length"
    using length_dropWhile_le [of "\<lambda>c. c \<noteq> CHR ''/''" r] by (cases r) auto
qed simp

declare components.simps [simp del]

definition enter :: "string list \<Rightarrow> string \<Rightarrow> string list" where
  "enter dirs c = (if c = [] \<or> c = ''.'' then dirs else if c = ''..'' then tl dirs else c # dirs)"

definition render :: "string list \<Rightarrow> string" where
  "render dirs = concat (map (\<lambda>c. CHR ''/'' # c) (rev dirs))"

definition normal_path :: "string \<Rightarrow> string" where
  "normal_path path =
     (let dirs = foldl enter [] (components path) in if dirs = [] then ''/'' else render dirs)"

section \<open>The loop on lists of directories\<close>

text \<open>The same loop: the directories entered, the component that is being copied, the text to be read.\<close>

fun walk_round :: "string list \<Rightarrow> string \<Rightarrow> string \<Rightarrow> string list \<times> string \<times> string" where
  "walk_round dirs cur r =
     (if cur = [] \<and> path_char r 0 = CHR ''/'' then (dirs, [], tl r)
      else if cur = [] \<and> path_char r 0 = CHR ''.'' \<and> (path_char r 1 = CHR ''/'' \<or> path_char r 1 = NUL) then (dirs, [], tl r)
      else if cur = [] \<and> path_char r 0 = CHR ''.'' \<and> path_char r 1 = CHR ''.''
              \<and> (path_char r 2 = CHR ''/'' \<or> path_char r 2 = NUL) then (tl dirs, [], drop 2 r)
      else if path_char r 0 = CHR ''/'' then (cur # dirs, [], tl r)
      else (dirs, cur @ [path_char r 0], tl r))"

function walk :: "string list \<Rightarrow> string \<Rightarrow> string \<Rightarrow> string list" where
  "walk dirs cur [] = (if cur = [] then dirs else cur # dirs)"
| "walk dirs cur (c # r) = (case walk_round dirs cur (c # r) of (dirs', cur', r') \<Rightarrow> walk dirs' cur' r')"
  by pat_completeness auto
termination by (relation "measure (\<lambda>(dirs, cur, r). length r)") (auto split: if_splits)

lemma walk_copies:
  "cur \<noteq> [] \<Longrightarrow> CHR ''/'' \<notin> set w \<Longrightarrow> walk dirs cur (w @ r) = walk dirs (cur @ w) r"
  by (induction w arbitrary: cur) (auto simp: path_char_def)


lemma path_char_0 [simp]: "path_char (c # r) 0 = c" and char_at_Nil [simp]: "path_char [] i = NUL"
  and char_at_Suc [simp]: "path_char (c # r) (Suc i) = path_char r i"
  by (simp_all add: path_char_def)

lemma walk_slash: "cur = [] \<Longrightarrow> walk dirs cur (CHR ''/'' # r) = walk dirs [] r"
  "cur \<noteq> [] \<Longrightarrow> walk dirs cur (CHR ''/'' # r) = walk (cur # dirs) [] r"
  by simp_all

lemma walk_word:
  assumes "w \<noteq> []" "CHR ''/'' \<notin> set w" "NUL \<notin> set w" and "rest = [] \<or> rest = CHR ''/'' # r"
  shows "walk dirs [] (w @ rest) = (if rest = [] then enter dirs w else walk (enter dirs w) [] r)"
proof -
  have rest: "path_char rest 0 = CHR ''/'' \<or> path_char rest 0 = NUL" using assms(4) by auto
  consider "w = ''.''" | "w = ''..''" | "w \<noteq> ''.''" "w \<noteq> ''..''" by blast
  then show ?thesis
  proof cases
    case 1
    then show ?thesis using assms(4) rest by (auto simp: enter_def)
  next
    case 2
    then show ?thesis using assms(4) rest by (auto simp: enter_def numeral_2_eq_2)
  next
    case 3
    obtain c w' where w: "w = c # w'" using assms(1) by (cases w) auto
    have "walk_round dirs [] (c # w' @ rest) = (dirs, [c], w' @ rest)"
    proof (cases w')
      case Nil
      then show ?thesis using assms 3 w rest by auto
    next
      case (Cons d w'')
      then show ?thesis using assms 3 w rest by (cases w'') (auto simp: numeral_2_eq_2)
    qed
    then have "walk dirs [] (w @ rest) = walk dirs w rest"
      using walk_copies [of "[c]" w' dirs rest] assms(2) by (simp add: w del: walk_round.simps)
    then show ?thesis using assms(1,4) 3 by (auto simp: enter_def)
  qed
qed

lemma walk_components: "NUL \<notin> set r \<Longrightarrow> walk dirs [] r = foldl enter dirs (components r)"
proof (induction "length r" arbitrary: r dirs rule: less_induct)
  case less
  define w where "w = takeWhile (\<lambda>c. c \<noteq> CHR ''/'') r"
  define rest where "rest = dropWhile (\<lambda>c. c \<noteq> CHR ''/'') r"
  have r: "r = w @ rest" by (simp add: w_def rest_def)
  have w: "CHR ''/'' \<notin> set w" "NUL \<notin> set w" using less.prems by (auto simp: w_def dest: set_takeWhileD)
  have rest: "rest = [] \<or> rest = CHR ''/'' # tl rest"
  proof -
    have "rest \<noteq> [] \<Longrightarrow> hd rest = CHR ''/''"
      using hd_dropWhile [of "\<lambda>c. c \<noteq> CHR ''/''" r] unfolding rest_def by blast
    then show ?thesis by (cases rest) auto
  qed
  show ?case
  proof (cases "r = []")
    case True
    then show ?thesis by (simp add: components.simps)
  next
    case False
    have comps: "components r = w # components (tl rest)"
      using False by (simp add: components.simps [of r] w_def rest_def drop_Suc)
    have IH: "rest \<noteq> [] \<Longrightarrow> walk d [] (tl rest) = foldl enter d (components (tl rest))" for d
      using less.prems r by (intro less.hyps) (cases rest; auto)+
    show ?thesis
    proof (cases "w = []")
      case True
      with False r rest have "r = CHR ''/'' # tl rest" "rest \<noteq> []" by auto
      then show ?thesis using IH [of dirs] comps True walk_slash(1) [of "[]" dirs "tl rest"] by (simp add: enter_def)
    next
      case False
      then show ?thesis
        using walk_word [OF False w rest, of dirs] IH comps by (cases "rest = []") (auto simp: r components.simps [of "[]"])
    qed
  qed
qed

section \<open>The buffer holds the directories\<close>

definition holds :: "string \<Rightarrow> nat \<Rightarrow> nat \<Rightarrow> string list \<Rightarrow> string \<Rightarrow> string \<Rightarrow> bool" where
  "holds b p s dirs cur r \<longleftrightarrow>
     NUL \<notin> set b \<and> (p < s \<or> p = 0 \<and> s = 0) \<and> s \<le> length b \<and> r = drop s b
     \<and> p < length b \<and> take (p + 1) b = render dirs @ CHR ''/'' # cur
     \<and> (\<forall>d \<in> insert cur (set dirs). CHR ''/'' \<notin> set d)"

lemma render_Cons: "render (d # dirs) = render dirs @ CHR ''/'' # d"
  by (simp add: render_def)

lemma holds_facts:
  assumes "holds b p s dirs cur r"
  shows "path_char b (s + k) = path_char r k" and "path_char b p = CHR ''/'' \<longleftrightarrow> cur = []"
    and "p = length (render dirs) + length cur"
proof -
  show "path_char b (s + k) = path_char r k" using assms by (auto simp: holds_def path_char_def)
  have held: "take (p + 1) b = render dirs @ CHR ''/'' # cur" "p < length b" "CHR ''/'' \<notin> set cur"
    using assms by (auto simp: holds_def)
  have "length (render dirs @ CHR ''/'' # cur) = p + 1" using held(2) by (simp flip: held(1))
  then show p: "p = length (render dirs) + length cur" by simp
  have "b ! p = (render dirs @ CHR ''/'' # cur) ! p"
    using nth_take [of p "p + 1" b] by (simp add: held(1) [symmetric])
  also have "\<dots> = (CHR ''/'' # cur) ! length cur" by (simp add: p nth_append)
  finally have "b ! p = (if cur = [] then CHR ''/'' else last cur)"
    by (cases cur) (simp_all add: last_conv_nth nth_Cons')
  then show "path_char b p = CHR ''/'' \<longleftrightarrow> cur = []"
    using held by (auto simp: path_char_def) (metis last_in_set)
qed

lemma omit_dir_slash:
  "take p b = x @ CHR ''/'' # d \<Longrightarrow> CHR ''/'' \<notin> set d \<Longrightarrow> p \<le> length b \<Longrightarrow> omit_dir b p = Some (length x)"
proof (induction d arbitrary: p rule: rev_induct)
  case Nil
  have "length (x @ ''/'') = p" using Nil(3) by (simp flip: Nil(1))
  then have "p = Suc (length x)" by simp
  moreover from this have "b ! length x = CHR ''/''"
    using nth_take [of "length x" p b, unfolded Nil(1)] by simp
  ultimately show ?case using Nil(3) by (simp add: path_char_def)
next
  case (snoc c d)
  define q where "q = length x + 1 + length d"
  have "length (x @ CHR ''/'' # d @ [c]) = p" using snoc.prems(3) by (simp flip: snoc.prems(1))
  then have p: "p = Suc q" by (simp add: q_def)
  have "b ! q = (x @ CHR ''/'' # d @ [c]) ! q" using nth_take [of q p b] by (simp add: p snoc.prems(1) [unfolded p, symmetric])
  then have "b ! q = c" by (simp add: q_def nth_append)
  moreover have "take q b = x @ CHR ''/'' # d"
    using arg_cong [OF snoc.prems(1), of "take q"] by (simp add: p q_def)
  ultimately show ?case using snoc.IH [of q] snoc.prems p by (auto simp: path_char_def)
qed

lemma holds_pop:
  assumes "holds b p s dirs [] r" and "0 < p"
  shows "omit_dir b p = Some (length (render (tl dirs)))"
    and "take (length (render (tl dirs)) + 1) b = render (tl dirs) @ ''/''" and "length (render (tl dirs)) < p"
proof -
  have p: "p = length (render dirs)" "p < length b" "take (p + 1) b = render dirs @ ''/''"
    using holds_facts(3) [OF assms(1)] assms(1) by (auto simp: holds_def)
  obtain d ds where dirs: "dirs = d # ds" using p(1) assms(2) by (cases dirs) (auto simp: render_def)
  have d: "CHR ''/'' \<notin> set d" using assms(1) by (auto simp: holds_def dirs)
  have "take p b = render dirs" using arg_cong [OF p(3), of "take p"] by (simp add: p(1))
  then have held: "take p b = render ds @ CHR ''/'' # d" by (simp add: dirs render_Cons)
  then show "omit_dir b p = Some (length (render (tl dirs)))"
    using omit_dir_slash [OF held d] p(2) by (simp add: dirs)
  show less: "length (render (tl dirs)) < p" by (simp add: p(1) dirs render_Cons)
  show "take (length (render (tl dirs)) + 1) b = render (tl dirs) @ ''/''"
    using arg_cong [OF held, of "take (length (render ds) + 1)"] less by (simp add: dirs min_def)
qed

lemma holds_write:
  assumes "holds b p s dirs cur (c # r)" and "p < s"
  shows "p + 1 < length b" and "take (p + 2) (b[p + 1 := c]) = render dirs @ CHR ''/'' # cur @ [c]"
    and "drop (s + 1) (b[p + 1 := c]) = r" and "s < length b" and "c \<in> set b"
proof -
  have s: "drop s b = c # r" using assms(1) by (simp add: holds_def)
  then show "s < length b" by (metis drop_eq_Nil2 list.discI not_le)
  then show len: "p + 1 < length b" using assms(2) by simp
  have "take (p + 2) (b[p + 1 := c]) = take (p + 1) b @ [c]"
    using len take_Suc_conv_app_nth [of "p + 1" "b[p + 1 := c]"] by simp
  then show "take (p + 2) (b[p + 1 := c]) = render dirs @ CHR ''/'' # cur @ [c]"
    using assms(1) by (simp add: holds_def)
  have "drop (s + 1) b = r" using s by (metis add.commute drop_drop drop0 drop_Suc_Cons plus_1_eq_Suc)
  then show "drop (s + 1) (b[p + 1 := c]) = r" using assms(2) by simp
  show "c \<in> set b" using s by (metis in_set_dropD list.set_intros(1))
qed

lemma holds_skip:
  assumes "holds b p s dirs cur (c # r)"
  shows "holds b p (s + 1) dirs cur r"
proof -
  have s: "drop s b = c # r" using assms by (simp add: holds_def)
  then have "s < length b" by (metis drop_eq_Nil2 list.discI not_le)
  moreover have "drop (s + 1) b = r" using s by (metis add.commute drop_drop drop0 drop_Suc_Cons plus_1_eq_Suc)
  ultimately show ?thesis using assms by (auto simp: holds_def)
qed

lemma round_refines:
  assumes inv: "holds b p s dirs cur (c # r)"
  shows "\<exists>b' p' s' dirs' cur' r'. simplify_round b p s = Some (b', p', s')
    \<and> walk_round dirs cur (c # r) = (dirs', cur', r') \<and> holds b' p' (s' + 1) dirs' cur' r'"
proof -
  note facts = holds_facts(1) [OF inv, of 0, simplified] holds_facts(1) [OF inv, of 1, simplified]
    holds_facts(1) [OF inv, of 2, simplified] holds_facts(2) [OF inv]
  have two: "path_char (c # r) 2 = path_char r 1" by (simp add: numeral_2_eq_2)
  define dot where "dot \<longleftrightarrow> c = CHR ''.'' \<and> (path_char r 0 = CHR ''/'' \<or> path_char r 0 = NUL)"
  define dotdot where "dotdot \<longleftrightarrow> c = CHR ''.'' \<and> path_char r 0 = CHR ''.'' \<and> (path_char r 1 = CHR ''/'' \<or> path_char r 1 = NUL)"
  consider (skip) "cur = []" "c = CHR ''/'' \<or> dot" | (up) "cur = []" "dotdot" "c \<noteq> CHR ''/''" "\<not> dot"
    | (copy) "cur \<noteq> [] \<or> c \<noteq> CHR ''/'' \<and> \<not> dot \<and> \<not> dotdot" by blast
  then show ?thesis
  proof cases
    case skip
    then have "simplify_round b p s = Some (b, p, s)" "walk_round dirs cur (c # r) = (dirs, [], r)"
      using facts by (auto simp: simplify_round_def dot_def)
    then show ?thesis using holds_skip [OF inv] skip(1) by blast
  next
    case up
    then obtain r2 where r: "r = CHR ''.'' # r2" by (cases r) (auto simp: dotdot_def)
    have inv2: "holds b p (s + 2) dirs [] r2" using holds_skip [OF holds_skip [OF inv [unfolded r]]] up(1) by simp
    have walk: "walk_round dirs cur (c # r) = (tl dirs, [], r2)"
      using up facts two by (auto simp: dotdot_def dot_def r)
    show ?thesis
    proof (cases "0 < p")
      case True
      note pop = holds_pop [OF inv [unfolded up(1)] True]
      have "simplify_round b p s = Some (b, length (render (tl dirs)), s + 1)"
        using up facts two pop(1) True by (auto simp: simplify_round_def dotdot_def dot_def)
      moreover have "holds b (length (render (tl dirs))) (s + 1 + 1) (tl dirs) [] r2"
        using inv2 pop(2,3) by (cases dirs) (auto simp: holds_def)
      ultimately show ?thesis using walk by blast
    next
      case False
      then have "dirs = []" using holds_facts(3) [OF inv] up(1) by (cases dirs) (auto simp: render_Cons)
      moreover have "simplify_round b p s = Some (b, p, s + 1)"
        using up facts two False by (auto simp: simplify_round_def dotdot_def dot_def)
      ultimately show ?thesis using walk inv2 by auto
    qed
  next
    case copy
    have "p < s"
    proof (rule ccontr)
      assume "\<not> p < s"
      then have "p = 0" "s = 0" using inv by (auto simp: holds_def)
      then have "cur = []" "c = path_char b p" using facts(1) holds_facts(3) [OF inv] by auto
      then show False using copy facts(4) by auto
    qed
    note written = holds_write [OF inv this]
    have round: "simplify_round b p s = Some (b[p + 1 := c], p + 1, s)"
      using copy facts two written(1) by (auto simp: simplify_round_def dot_def dotdot_def)
    have held: "NUL \<notin> set (b[p + 1 := c])" using inv written(5) by (auto simp: holds_def dest: set_update_subset_insert [THEN subsetD])
    show ?thesis
    proof (cases "c = CHR ''/''")
      case True
      then have "walk_round dirs cur (c # r) = (cur # dirs, [], r)" using copy by auto
      moreover have "holds (b[p + 1 := c]) (p + 1) (s + 1) (cur # dirs) [] r"
        using inv written held \<open>p < s\<close> True by (auto simp: holds_def render_Cons)
      ultimately show ?thesis using round by blast
    next
      case False
      then have "walk_round dirs cur (c # r) = (dirs, cur @ [c], r)"
        using copy two by (auto simp: dot_def dotdot_def)
      moreover have "holds (b[p + 1 := c]) (p + 1) (s + 1) dirs (cur @ [c]) r"
        using inv written held \<open>p < s\<close> False by (auto simp: holds_def)
      ultimately show ?thesis using round by blast
    qed
  qed
qed


lemma loop_refines:
  "holds b p s dirs cur (c # r) \<Longrightarrow>
   \<exists>b' p' dirs' cur'. simplify_loop b p s = Some (b', p') \<and> holds b' p' (length b') dirs' cur' []
     \<and> walk dirs cur (c # r) = walk dirs' cur' []"
proof (induction "length r" arbitrary: b p s dirs cur c r rule: less_induct)
  case less
  obtain b' p' s' dirs' cur' r' where step: "simplify_round b p s = Some (b', p', s')"
    "walk_round dirs cur (c # r) = (dirs', cur', r')" "holds b' p' (s' + 1) dirs' cur' r'"
    using round_refines [OF less.prems] by blast
  have len: "length r' \<le> length r" using step(2) by (auto split: if_splits)
  have more: "path_char b' (s' + 1) = path_char r' 0" using holds_facts(1) [OF step(3), of 0] by simp
  show ?case
  proof (cases r')
    case Nil
    then have "simplify_loop b p s = Some (b', p')" using step(1) more by (subst simplify_loop.simps) simp
    moreover have "s' + 1 = length b'" using step(3) Nil by (auto simp: holds_def)
    ultimately show ?thesis using step Nil by (auto simp del: walk_round.simps)
  next
    case (Cons d r'')
    then have "d \<noteq> NUL" using step(3) by (auto simp: holds_def) (metis in_set_dropD list.set_intros(1))
    then have "simplify_loop b p s = simplify_loop b' p' (s' + 1)"
      using step(1) more Cons by (subst simplify_loop.simps) simp
    then show ?thesis
      using less.hyps [of r'' b' p' "s' + 1" dirs' cur' d] step Cons len by (simp del: walk_round.simps)
  qed
qed

text \<open>
  C18: Simplifying a path gives its normal form. On every absolute path the loop ends without leaving its buffer, and the
  text it leaves there is the path through the directories that the components of the path lead to: empty components and
  dots are skipped, two dots remove the component before them and stay at the root, and there is no slash at the end.
\<close>

theorem simplify_path_normal:
  assumes "NUL \<notin> set path"
  shows "bb_simplify_abs_path_inplace (CHR ''/'' # path) = Some (normal_path (CHR ''/'' # path))"
proof -
  have "holds (CHR ''/'' # path) 0 0 [] [] (CHR ''/'' # path)"
    using assms by (simp add: holds_def render_def)
  from loop_refines [OF this] obtain b p dirs cur where
    loop: "simplify_loop (CHR ''/'' # path) 0 0 = Some (b, p)" and inv: "holds b p (length b) dirs cur []"
    and walk: "walk [] [] (CHR ''/'' # path) = walk dirs cur []" by blast
  have "foldl enter [] (components (CHR ''/'' # path)) = (if cur = [] then dirs else cur # dirs)"
    using walk walk_components [of "CHR ''/'' # path" "[]"] assms by simp
  then have normal: "normal_path (CHR ''/'' # path) = (if cur = [] then if dirs = [] then ''/'' else render dirs else render (cur # dirs))"
    by (simp add: normal_path_def)
  have held: "take (p + 1) b = render dirs @ CHR ''/'' # cur" using inv by (simp add: holds_def)
  have p: "p = length (render dirs) + length cur" by (rule holds_facts(3) [OF inv])
  have "take p b = render dirs" if "cur = []"
    using arg_cong [OF held, of "take p"] that by (simp add: p)
  moreover have "p = 0 \<longleftrightarrow> dirs = [] \<and> cur = []" by (cases dirs) (auto simp: p render_def)
  ultimately show ?thesis
    using loop held holds_facts(2) [OF inv] normal
    by (auto simp: bb_simplify_abs_path_inplace_def render_Cons)
qed

theorem simplify_path_normal_witness:
  "bb_simplify_abs_path_inplace ''/a//b/../c/./'' = Some ''/a/c''"
proof -
  have "normal_path ''/a//b/../c/./'' = ''/a/c''" by code_simp
  then show ?thesis using simplify_path_normal [of "''a//b/../c/./''"] by simp
qed

end
