(* ===== verification/Bb_Test.thy ===== *)
theory Bb_Test
  imports Bb_Numbers Bb_Path Wsh_State
begin

text \<open>
  The applets \<^verbatim>\<open>test\<close>, \<^verbatim>\<open>[\<close> and \<^verbatim>\<open>[[\<close> of coreutils/test.c (configured with 64-bit numbers and \<^verbatim>\<open>[[\<close>), with the part of
  libbb they call. The pointer \<^verbatim>\<open>args\<close> is an index into the arguments, whose end is a NULL; reading behind it is a result of its own,
  so that the model shows every read. The calls of \<^verbatim>\<open>longjmp\<close> leave with a message and status 2.
\<close>

unbundle bit_operations_syntax

section \<open>Results\<close>

datatype 'a test_result = Value 'a | Leaving string | Outside

fun and_then :: "'a test_result \<Rightarrow> ('a \<Rightarrow> 'b test_result) \<Rightarrow> 'b test_result" where
  "and_then (Value a) f = f a"
| "and_then (Leaving msg) f = Leaving msg"
| "and_then Outside f = Outside"

lemma and_then_splits:
  "P (and_then r f) \<longleftrightarrow> (\<forall>a. r = Value a \<longrightarrow> P (f a)) \<and> (\<forall>m. r = Leaving m \<longrightarrow> P (Leaving m)) \<and> (r = Outside \<longrightarrow> P Outside)"
  by (cases r) simp_all

text \<open>The argument at an index; \<open>None\<close> is the NULL at the end.\<close>

definition args_at :: "string list \<Rightarrow> nat \<Rightarrow> string option test_result" where
  "args_at av i = (if i < length av then Value (Some (av ! i)) else if i = length av then Value None else Outside)"

section \<open>Operators\<close>

datatype test_token =
  EOI | FILRD | FILWR | FILEX | FILEXIST | FILREG | FILDIR | FILCDEV | FILBDEV | FILFIFO | FILSOCK | FILSYM | FILGZ | FILTT
  | FILSUID | FILSGID | FILSTCK | FILNT | FILOT | FILEQ | FILUID | FILGID | STREZ | STRNZ | STREQ | STRNE | STRLT | STRGT
  | REGEX | INTEQ | INTNE | INTGE | INTGT | INTLE | INTLT | UNOT | BAND | BOR | LPAREN | RPAREN | OPERAND

datatype op_type = UNOP | BINOP | BUNOP | BBINOP | PAREN

definition is_int_op :: "test_token \<Rightarrow> bool" where
  "is_int_op t \<longleftrightarrow> t \<in> {INTEQ, INTNE, INTGE, INTGT, INTLE, INTLT}"

definition is_str_op :: "test_token \<Rightarrow> bool" where
  "is_str_op t \<longleftrightarrow> t \<in> {STREZ, STRNZ, STREQ, STRNE, STRLT, STRGT}"

definition is_file_access :: "test_token \<Rightarrow> bool" where
  "is_file_access t \<longleftrightarrow> t \<in> {FILRD, FILWR, FILEX}"

definition is_file_type :: "test_token \<Rightarrow> bool" where
  "is_file_type t \<longleftrightarrow> t \<in> {FILREG, FILDIR, FILCDEV, FILBDEV, FILFIFO, FILSOCK}"

definition is_file_bit :: "test_token \<Rightarrow> bool" where
  "is_file_bit t \<longleftrightarrow> t \<in> {FILSUID, FILSGID, FILSTCK}"

text \<open>The two tables, which are kept in step.\<close>

definition ops_table :: "(string \<times> test_token \<times> op_type) list" where
  "ops_table =
     [(''-r'', FILRD, UNOP), (''-w'', FILWR, UNOP), (''-x'', FILEX, UNOP), (''-e'', FILEXIST, UNOP), (''-f'', FILREG, UNOP),
      (''-d'', FILDIR, UNOP), (''-c'', FILCDEV, UNOP), (''-b'', FILBDEV, UNOP), (''-p'', FILFIFO, UNOP), (''-u'', FILSUID, UNOP),
      (''-g'', FILSGID, UNOP), (''-k'', FILSTCK, UNOP), (''-s'', FILGZ, UNOP), (''-t'', FILTT, UNOP), (''-z'', STREZ, UNOP),
      (''-n'', STRNZ, UNOP), (''-h'', FILSYM, UNOP), (''-O'', FILUID, UNOP), (''-G'', FILGID, UNOP), (''-L'', FILSYM, UNOP),
      (''-S'', FILSOCK, UNOP), (''='', STREQ, BINOP), (''=='', STREQ, BINOP), (''!='', STRNE, BINOP), (''<'', STRLT, BINOP),
      (''>'', STRGT, BINOP), (''=~'', REGEX, BINOP), (''-eq'', INTEQ, BINOP), (''-ne'', INTNE, BINOP), (''-ge'', INTGE, BINOP),
      (''-gt'', INTGT, BINOP), (''-le'', INTLE, BINOP), (''-lt'', INTLT, BINOP), (''-nt'', FILNT, BINOP), (''-ot'', FILOT, BINOP),
      (''-ef'', FILEQ, BINOP), (''!'', UNOT, BUNOP), (''-a'', BAND, BBINOP), (''-o'', BOR, BBINOP), (''&&'', BAND, BBINOP),
      (''||'', BOR, BBINOP), (''('', LPAREN, PAREN), ('')'', RPAREN, PAREN)]"

text \<open>The token of an argument and \<^verbatim>\<open>last_operator\<close>, which is \<open>None\<close> for the operator \<^verbatim>\<open>no_op\<close>.\<close>

type_synonym last_op = "(test_token \<times> op_type) option"

definition check_operator :: "bool \<Rightarrow> string option \<Rightarrow> test_token \<times> last_op" where
  "check_operator bash_test2 s =
     (case s of
        None \<Rightarrow> (EOI, None)
      | Some str \<Rightarrow>
          (case map_of ops_table str of
             None \<Rightarrow> (OPERAND, None)
           | Some (num, type) \<Rightarrow>
               if num = REGEX \<and> \<not> bash_test2 then (OPERAND, None)
               else if (num = BAND \<or> num = BOR) \<and> bash_test2 = (hd str = CHR ''-'') then (OPERAND, None)
               else (num, Some (num, type))))"

section \<open>Numbers, strings and files\<close>

definition syntax_error :: "string \<Rightarrow> string \<Rightarrow> 'a test_result" where
  "syntax_error op msg = Leaving ((if op \<noteq> [] then op @ '': '' else []) @ msg)"

definition getn :: "string \<Rightarrow> int test_result" where
  "getn s =
     (case c_strtosigned 64 10 s of
        (r, p, errno) \<Rightarrow>
          if errno then syntax_error s ''out of range''
          else if p = s \<or> skip_whitespace p \<noteq> [] then syntax_error s ''bad number''
          else Value r)"

text \<open>\<^verbatim>\<open>strcmp (s, t) < 0\<close>\<close>

fun str_less :: "string \<Rightarrow> string \<Rightarrow> bool" where
  "str_less s [] = False"
| "str_less [] (d # t) = True"
| "str_less (c # s) (d # t) = (ch c < ch d \<or> c = d \<and> str_less s t)"

record stat_buf =
  sb_mode :: nat
  sb_uid :: nat
  sb_gid :: nat
  sb_size :: int
  sb_mtime :: int
  sb_dev :: nat
  sb_ino :: nat

text \<open>
  What the host answers: \<^verbatim>\<open>stat\<close>, \<^verbatim>\<open>lstat\<close>, \<^verbatim>\<open>isatty\<close>, \<^verbatim>\<open>fnmatch\<close>, and \<^verbatim>\<open>regcomp\<close> with \<^verbatim>\<open>regexec\<close> (\<open>None\<close> for a bad
  expression).
\<close>

record test_host =
  th_stat :: "string \<Rightarrow> stat_buf option"
  th_lstat :: "string \<Rightarrow> stat_buf option"
  th_isatty :: "int \<Rightarrow> bool"
  th_fnmatch :: "string \<Rightarrow> string \<Rightarrow> bool"
  th_regex :: "string \<Rightarrow> string \<Rightarrow> bool option"

definition geteuid :: nat where "geteuid = 0"
definition getgid :: nat where "getgid = 0"
definition getegid :: nat where "getegid = 0"
definition getgroups :: "nat list" where "getgroups = []"

definition is_a_group_member :: "nat \<Rightarrow> bool" where
  "is_a_group_member gid \<longleftrightarrow> gid = getgid \<or> gid = getegid \<or> gid \<in> set getgroups"

definition test_eaccess :: "stat_buf \<Rightarrow> nat \<Rightarrow> bool" where
  "test_eaccess st mode =
     (if geteuid = 0 \<and> (mode \<noteq> 1 \<or> sb_mode st AND 0x49 \<noteq> 0) then True
      else sb_mode st AND
             (if sb_uid st = geteuid then push_bit 6 mode else if is_a_group_member (sb_gid st) then push_bit 3 mode else mode)
           \<noteq> 0)"

definition access_mode :: "test_token \<Rightarrow> nat" where
  "access_mode mode = (if mode = FILRD then 4 else if mode = FILWR then 2 else 1)"

definition type_mode :: "test_token \<Rightarrow> nat" where
  "type_mode mode =
     (if mode = FILREG then 0x8000 else if mode = FILDIR then 0x4000 else if mode = FILCDEV then 0x2000
      else if mode = FILBDEV then 0x6000 else if mode = FILFIFO then 0x1000 else 0xC000)"

definition bit_mode :: "test_token \<Rightarrow> nat" where
  "bit_mode mode = (if mode = FILSUID then 0x800 else if mode = FILSGID then 0x400 else 0x200)"

definition filstat :: "test_host \<Rightarrow> string \<Rightarrow> test_token \<Rightarrow> bool" where
  "filstat H nm mode =
     (if mode = FILSYM then (case th_lstat H nm of None \<Rightarrow> False | Some s \<Rightarrow> sb_mode s AND 0xF000 = 0xA000)
      else case th_stat H nm of
        None \<Rightarrow> False
      | Some s \<Rightarrow>
          if mode = FILEXIST then True
          else if is_file_access mode then test_eaccess s (access_mode mode)
          else if is_file_type mode then sb_mode s AND 0xF000 = type_mode mode
          else if is_file_bit mode then sb_mode s AND bit_mode mode \<noteq> 0
          else if mode = FILGZ then sb_size s > 0
          else if mode = FILUID then sb_uid s = geteuid
          else if mode = FILGID then sb_gid s = getegid
          else True)"

section \<open>Expressions\<close>

definition int_op :: "test_token \<Rightarrow> int \<Rightarrow> int \<Rightarrow> bool" where
  "int_op num val1 val2 =
     (if num = INTEQ then val1 = val2 else if num = INTNE then val1 \<noteq> val2 else if num = INTGE then val1 \<ge> val2
      else if num = INTGT then val1 > val2 else if num = INTLE then val1 \<le> val2 else val1 < val2)"

definition str_op :: "test_token \<Rightarrow> string \<Rightarrow> string \<Rightarrow> bool" where
  "str_op num opnd1 opnd2 =
     (if num = STREQ then opnd1 = opnd2 else if num = STRNE then opnd1 \<noteq> opnd2
      else if num = STRLT then str_less opnd1 opnd2 else str_less opnd2 opnd1)"

definition file_op :: "test_host \<Rightarrow> last_op \<Rightarrow> string \<Rightarrow> string \<Rightarrow> bool" where
  "file_op H op opnd1 opnd2 =
     (case (th_stat H opnd1, th_stat H opnd2) of
        (Some b1, Some b2) \<Rightarrow>
          (case map_option fst op of
             Some FILNT \<Rightarrow> sb_mtime b1 > sb_mtime b2
           | Some FILOT \<Rightarrow> sb_mtime b1 < sb_mtime b2
           | _ \<Rightarrow> sb_dev b1 = sb_dev b2 \<and> sb_ino b1 = sb_ino b2)
      | _ \<Rightarrow> False)"

definition binary_value :: "test_host \<Rightarrow> bool \<Rightarrow> last_op \<Rightarrow> string \<Rightarrow> string \<Rightarrow> bool test_result" where
  "binary_value H bash_test2 op opnd1 opnd2 =
     (case op of
        None \<Rightarrow> Value (file_op H op opnd1 opnd2)
      | Some (num, type) \<Rightarrow>
          if is_int_op num
          then and_then (getn opnd1) (\<lambda>val1. and_then (getn opnd2) (\<lambda>val2. Value (int_op num val1 val2)))
          else if bash_test2 \<and> num = STREQ then Value (th_fnmatch H opnd2 opnd1)
          else if bash_test2 \<and> num = STRNE then Value (\<not> th_fnmatch H opnd2 opnd1)
          else if bash_test2 \<and> num = REGEX
          then (case th_regex H opnd2 opnd1 of None \<Rightarrow> Leaving [] | Some b \<Rightarrow> Value b)
          else if is_str_op num then Value (str_op num opnd1 opnd2)
          else Value (file_op H op opnd1 opnd2))"

text \<open>\<^verbatim>\<open>binop\<close>, with \<^verbatim>\<open>args\<close> at the first operand: the value, the operator and the new \<^verbatim>\<open>args\<close>.\<close>

definition test_binop :: "test_host \<Rightarrow> bool \<Rightarrow> string list \<Rightarrow> nat \<Rightarrow> (bool \<times> last_op \<times> nat) test_result" where
  "test_binop H bash_test2 av i =
     and_then (args_at av i) (\<lambda>a0.
     and_then (args_at av (i + 1)) (\<lambda>a1.
     and_then (args_at av (i + 2)) (\<lambda>a2.
       let op = snd (check_operator bash_test2 a1)
       in case (a0, a2) of
            (_, None) \<Rightarrow> syntax_error (case a1 of None \<Rightarrow> [] | Some s \<Rightarrow> s) ''argument expected''
          | (None, _) \<Rightarrow> Outside
          | (Some opnd1, Some opnd2) \<Rightarrow>
              and_then (binary_value H bash_test2 op opnd1 opnd2) (\<lambda>b. Value (b, op, i + 2)))))"

definition unary_value :: "test_host \<Rightarrow> test_token \<Rightarrow> string \<Rightarrow> bool test_result" where
  "unary_value H n s =
     (if n = STREZ then Value (s = [])
      else if n = STRNZ then Value (s \<noteq> [])
      else if n = FILTT then and_then (getn s) (\<lambda>v. Value (th_isatty H (sint (word_of_int v :: 32 word))))
      else Value (filstat H s n))"

text \<open>
  \<^verbatim>\<open>primary\<close> without the parenthesis, with \<^verbatim>\<open>args\<close> at a word; \<open>args0_op\<close> is \<^verbatim>\<open>last_operator\<close> when it is called.
\<close>

definition plain_primary ::
  "test_host \<Rightarrow> bool \<Rightarrow> string list \<Rightarrow> test_token \<Rightarrow> last_op \<Rightarrow> nat \<Rightarrow> (bool \<times> last_op \<times> nat) test_result" where
  "plain_primary H bash_test2 av n args0_op i =
     and_then (args_at av i) (\<lambda>a0.
     and_then (args_at av (i + 1)) (\<lambda>a1.
     and_then (if a1 = None then Value None else args_at av (i + 2)) (\<lambda>a2.
       let op = snd (check_operator bash_test2 a1); is_binop = (map_option snd op = Some BINOP)
       in if a1 \<noteq> None \<and> a2 \<noteq> None \<and> is_binop then test_binop H bash_test2 av i
          else if map_option snd args0_op = Some UNOP \<and> a1 \<noteq> None
          then and_then (unary_value H n (the a1)) (\<lambda>b. Value (b, op, i + 1))
          else if map_option snd args0_op \<noteq> Some UNOP \<and> is_binop then test_binop H bash_test2 av i
          else (case a0 of None \<Rightarrow> Outside | Some s \<Rightarrow> Value (s \<noteq> [], op, i)))))"

text \<open>
  The four functions that call each other take the functions they call as a record; \<open>test_calls\<close> closes the recursion at a depth.
  An argument \<open>t\<close> is the token with \<^verbatim>\<open>last_operator\<close>, \<open>i\<close> is \<^verbatim>\<open>args\<close>.
\<close>

type_synonym test_call = "test_token \<times> last_op \<Rightarrow> nat \<Rightarrow> (bool \<times> last_op \<times> nat) test_result"

record test_exprs =
  call_nexpr :: test_call
  call_aexpr :: test_call
  call_oexpr :: test_call
  call_primary :: test_call

definition nexpr :: "test_exprs \<Rightarrow> bool \<Rightarrow> string list \<Rightarrow> test_call" where
  "nexpr X b2 av t i =
     (if fst t = UNOT
      then and_then (args_at av (i + 1)) (\<lambda>a.
        let t' = check_operator b2 a
        in if fst t' = EOI then Value (True, snd t', i)
           else and_then (call_nexpr X t' (i + 1)) (\<lambda>(res, op, j). Value (\<not> res, op, j)))
      else call_primary X t i)"

definition aexpr :: "test_exprs \<Rightarrow> bool \<Rightarrow> string list \<Rightarrow> test_call" where
  "aexpr X b2 av t i =
     and_then (call_nexpr X t i) (\<lambda>(res, op, j).
     and_then (args_at av (j + 1)) (\<lambda>a.
       let t' = check_operator b2 a
       in if fst t' = BAND
          then and_then (args_at av (j + 2)) (\<lambda>a'.
            and_then (call_aexpr X (check_operator b2 a') (j + 2)) (\<lambda>(res', op', j'). Value (res' \<and> res, op', j')))
          else Value (res, snd t', j)))"

definition oexpr :: "test_exprs \<Rightarrow> bool \<Rightarrow> string list \<Rightarrow> test_call" where
  "oexpr X b2 av t i =
     and_then (call_aexpr X t i) (\<lambda>(res, op, j).
     and_then (args_at av (j + 1)) (\<lambda>a.
       let t' = check_operator b2 a
       in if fst t' = BOR
          then and_then (args_at av (j + 2)) (\<lambda>a'.
            and_then (call_oexpr X (check_operator b2 a') (j + 2)) (\<lambda>(res', op', j'). Value (res' \<or> res, op', j')))
          else Value (res, snd t', j)))"

definition primary :: "test_host \<Rightarrow> test_exprs \<Rightarrow> bool \<Rightarrow> string list \<Rightarrow> test_call" where
  "primary H X b2 av t i =
     (if fst t = EOI then syntax_error [] ''argument expected''
      else if fst t = LPAREN
      then and_then (args_at av (i + 1)) (\<lambda>a.
        and_then (call_oexpr X (check_operator b2 a) (i + 1)) (\<lambda>(res, op, j).
        and_then (args_at av (j + 1)) (\<lambda>a'.
          let t' = check_operator b2 a'
          in if fst t' \<noteq> RPAREN then syntax_error [] ''closing paren expected'' else Value (res, snd t', j + 1))))
      else plain_primary H b2 av (fst t) (snd t) i)"

primrec test_calls :: "nat \<Rightarrow> test_host \<Rightarrow> bool \<Rightarrow> string list \<Rightarrow> test_exprs" where
  "test_calls 0 H b2 av =
     \<lparr>call_nexpr = \<lambda>_ _. Outside, call_aexpr = \<lambda>_ _. Outside, call_oexpr = \<lambda>_ _. Outside, call_primary = \<lambda>_ _. Outside\<rparr>"
| "test_calls (Suc n) H b2 av =
     (let X = test_calls n H b2 av
      in \<lparr>call_nexpr = nexpr X b2 av, call_aexpr = aexpr X b2 av, call_oexpr = oexpr X b2 av, call_primary = primary H X b2 av\<rparr>)"

lemma test_calls_Suc [simp]:
  "call_nexpr (test_calls (Suc n) H b2 av) = nexpr (test_calls n H b2 av) b2 av"
  "call_aexpr (test_calls (Suc n) H b2 av) = aexpr (test_calls n H b2 av) b2 av"
  "call_oexpr (test_calls (Suc n) H b2 av) = oexpr (test_calls n H b2 av) b2 av"
  "call_primary (test_calls (Suc n) H b2 av) = primary H (test_calls n H b2 av) b2 av"
  by (simp_all add: Let_def)

declare test_calls.simps(2) [simp del]

section \<open>The applet\<close>

text \<open>
  The special cases of POSIX, from the label \<^verbatim>\<open>again\<close> on, for the arguments from index \<open>k\<close>: a result, or the arguments for the
  general parser, of which a closing parenthesis may have been cut off.
\<close>

datatype special = Special "bool test_result" | General "string list"

function test_special :: "test_host \<Rightarrow> bool \<Rightarrow> string list \<Rightarrow> nat \<Rightarrow> bool \<Rightarrow> special" where
  "test_special H b2 av k negate =
     (let argv = drop k av
      in if argv = [] then Special (Value negate)
         else if length argv = 1 then Special (Value ((argv ! 0 \<noteq> []) \<noteq> negate))
         else if length argv = 3 \<and> map_option snd (snd (check_operator b2 (Some (argv ! 1)))) = Some BINOP
         then Special (and_then (test_binop H b2 av k) (\<lambda>(b, _). Value (b \<noteq> negate)))
         else let paren = (length argv = 4 \<and> argv ! 0 = ''('' \<and> argv ! 3 = '')'');
                  av' = (if paren then take (k + 3) av else av);
                  k' = (if paren then k + 1 else k)
              in if av' ! k' = ''!'' then test_special H b2 av' (k' + 1) (\<not> negate) else General av')"
  by pat_completeness auto
termination
  by (relation "measure (\<lambda>(H, b2, av, k, negate). length av - k)") (auto simp: Let_def split: if_splits)

declare test_special.simps [simp del]

text \<open>A bound on the depth of the general parser: four calls for every argument.\<close>

definition test_depth :: "string list \<Rightarrow> nat" where
  "test_depth av = 4 * length av + 4"

text \<open>The status and what goes to standard error, without the name of the applet.\<close>

definition test_general :: "test_host \<Rightarrow> bool \<Rightarrow> string list \<Rightarrow> (int \<times> string) option" where
  "test_general H b2 av =
     (case and_then (args_at av 0) (\<lambda>a. call_oexpr (test_calls (test_depth av) H b2 av) (check_operator b2 a) 0) of
        Outside \<Rightarrow> None
      | Leaving msg \<Rightarrow> Some (2, msg)
      | Value (res, _, i) \<Rightarrow>
          (if i + 1 < length av then Some (2, av ! (i + 1) @ '': unknown operand'')
           else Some (if res then 0 else 1, [])))"

definition test_words :: "test_host \<Rightarrow> bool \<Rightarrow> string list \<Rightarrow> (int \<times> string) option" where
  "test_words H b2 av =
     (case test_special H b2 av 0 False of
        Special (Value b) \<Rightarrow> Some (if b then 0 else 1, [])
      | Special (Leaving msg) \<Rightarrow> Some (2, msg)
      | Special Outside \<Rightarrow> None
      | General av' \<Rightarrow> test_general H b2 av')"

definition test_command :: "test_host \<Rightarrow> string list \<Rightarrow> (int \<times> string) option" where
  "test_command H argv =
     (let arg0 = bb_basename (hd argv)
      in if arg0 \<noteq> [] \<and> hd arg0 = CHR ''[''
         then (if arg0 = ''[''
               then (if last argv \<noteq> '']'' then Some (2, ''missing ]'') else test_words H False (butlast (tl argv)))
               else if last argv \<noteq> '']]'' then Some (2, ''missing ]]'') else test_words H True (butlast (tl argv)))
         else test_words H False (tl argv))"

text \<open>The host is asked in the world of the call; a message comes after the name of the applet.\<close>

definition test_main :: "(world \<Rightarrow> test_host) \<Rightarrow> string list \<Rightarrow> world \<Rightarrow> (int \<times> world) option" where
  "test_main H argv w =
     map_option (\<lambda>(res, msg). (res, if msg = [] then w else c_stderr (hd argv @ '': '' @ msg @ [NEWLINE_CHR]) w))
       (test_command (H w) argv)"

section \<open>No read behind the arguments, and a bounded depth\<close>

lemma check_operator_None [simp]: "check_operator b2 None = (EOI, None)"
  by (simp add: check_operator_def)

lemma ops_table_no_EOI: "map_of ops_table s = Some (num, type) \<Longrightarrow> num \<noteq> EOI"
  by (drule map_of_SomeD) (auto simp: ops_table_def)

lemma check_operator_EOI [simp]: "fst (check_operator b2 a) = EOI \<longleftrightarrow> a = None"
  by (auto simp: check_operator_def dest: ops_table_no_EOI split: option.split)

text \<open>A run that starts at \<open>i\<close> ends at a word that is not before \<open>i\<close>, or leaves with a message.\<close>

fun stays :: "string list \<Rightarrow> nat \<Rightarrow> (bool \<times> last_op \<times> nat) test_result \<Rightarrow> bool" where
  "stays av i (Value (b, op, j)) \<longleftrightarrow> i \<le> j \<and> j < length av"
| "stays av i (Leaving msg) = True"
| "stays av i Outside = False"

definition word_at :: "string list \<Rightarrow> nat \<Rightarrow> string option" where
  "word_at av i = (if i < length av then Some (av ! i) else None)"

lemma args_at_word: "i \<le> length av \<Longrightarrow> args_at av i = Value (word_at av i)"
  by (simp add: args_at_def word_at_def)

lemma word_at_None [simp]: "word_at av i = None \<longleftrightarrow> length av \<le> i"
  by (auto simp: word_at_def)

lemma stays_bind:
  "stays av i r \<Longrightarrow> (\<And>b op j. i \<le> j \<Longrightarrow> j < length av \<Longrightarrow> stays av i' (f (b, op, j))) \<Longrightarrow> stays av i' (and_then r f)"
  by (cases r) auto

lemma stays_value: "r \<noteq> Outside \<Longrightarrow> (\<And>b. stays av i (f b)) \<Longrightarrow> stays av i (and_then r f)"
  by (cases r) auto

lemma stays_le: "stays av j r \<Longrightarrow> i \<le> j \<Longrightarrow> stays av i r"
  by (cases r) auto

lemma getn_inside: "getn s \<noteq> Outside"
  by (simp add: getn_def syntax_error_def split: prod.split)

lemma binary_value_inside: "binary_value H b2 op s t \<noteq> Outside"
  using getn_inside by (auto simp: binary_value_def split: option.split prod.split and_then_splits)

lemma unary_value_inside: "unary_value H n s \<noteq> Outside"
  using getn_inside by (auto simp: unary_value_def split: and_then_splits)

lemma test_binop_stays:
  assumes "i + 1 < length av"
  shows "stays av i (test_binop H b2 av i)"
  using assms
  by (auto simp: test_binop_def args_at_word syntax_error_def word_at_def Let_def binary_value_inside intro!: stays_value)

lemma plain_primary_stays:
  assumes "i < length av"
  shows "stays av i (plain_primary H b2 av n op i)"
  using assms
  by (auto simp: plain_primary_def args_at_word Let_def unary_value_inside word_at_def
      intro!: stays_value test_binop_stays)

definition token_at :: "bool \<Rightarrow> string list \<Rightarrow> nat \<Rightarrow> test_token \<times> last_op" where
  "token_at b2 av i = check_operator b2 (word_at av i)"

lemma token_at_EOI [simp]: "fst (token_at b2 av i) = EOI \<longleftrightarrow> length av \<le> i"
  by (simp add: token_at_def)

text \<open>The common shape of \<^verbatim>\<open>aexpr\<close> and \<^verbatim>\<open>oexpr\<close>: an operand, and after the operator \<open>T\<close> the rest of the chain.\<close>

definition chain_expr ::
  "test_token \<Rightarrow> (bool \<Rightarrow> bool \<Rightarrow> bool) \<Rightarrow> bool \<Rightarrow> string list \<Rightarrow> test_call \<Rightarrow> test_call \<Rightarrow> test_call" where
  "chain_expr T f b2 av operand chain t i =
     and_then (operand t i) (\<lambda>(res, op, j).
     and_then (args_at av (j + 1)) (\<lambda>a.
       let t' = check_operator b2 a
       in if fst t' = T
          then and_then (args_at av (j + 2)) (\<lambda>a'.
            and_then (chain (check_operator b2 a') (j + 2)) (\<lambda>(res', op', j'). Value (f res' res, op', j')))
          else Value (res, snd t', j)))"

lemma aexpr_chain: "aexpr X b2 av = chain_expr BAND (\<and>) b2 av (call_nexpr X) (call_aexpr X)"
  by (intro ext) (simp add: aexpr_def chain_expr_def)

lemma oexpr_chain: "oexpr X b2 av = chain_expr BOR (\<or>) b2 av (call_aexpr X) (call_oexpr X)"
  by (intro ext) (simp add: oexpr_def chain_expr_def)

lemma chain_end:
  assumes "operand t i = Value (res, op, j)" and "j < length av" and "fst (token_at b2 av (j + 1)) \<noteq> T"
  shows "chain_expr T f b2 av operand chain t i = Value (res, snd (token_at b2 av (j + 1)), j)"
  using assms by (simp add: chain_expr_def args_at_word token_at_def)

lemma chain_step:
  assumes "operand t i = Value (res, op, j)" and "j + 1 < length av" and "fst (token_at b2 av (j + 1)) = T"
  shows "chain_expr T f b2 av operand chain t i
    = and_then (chain (token_at b2 av (j + 2)) (j + 2)) (\<lambda>(res', op', j'). Value (f res' res, op', j'))"
  using assms by (simp add: chain_expr_def args_at_word token_at_def)

lemma chain_stays:
  assumes "stays av i (operand t i)" and "T \<noteq> EOI"
    and "\<And>j. i \<le> j \<Longrightarrow> j + 1 < length av \<Longrightarrow> stays av (j + 2) (chain (token_at b2 av (j + 2)) (j + 2))"
  shows "stays av i (chain_expr T f b2 av operand chain t i)"
proof (cases "operand t i")
  case (Value r)
  obtain res op j where r: "r = (res, op, j)" by (cases r)
  with Value assms(1) have j: "i \<le> j" "j < length av" by simp_all
  show ?thesis
  proof (cases "fst (token_at b2 av (j + 1)) = T")
    case True
    with assms(2) have "j + 1 < length av" by (cases "j + 1 < length av") (simp_all add: token_at_def word_at_def)
    with True Value r j show ?thesis
      using stays_le [OF assms(3), of j i] by (auto simp: chain_step intro!: stays_bind)
  qed (use Value r j in \<open>simp add: chain_end\<close>)
qed (use assms(1) in \<open>simp_all add: chain_expr_def\<close>)

lemma nexpr_stays:
  assumes "fst t = UNOT \<Longrightarrow> i + 1 < length av \<Longrightarrow> stays av (i + 1) (call_nexpr X (token_at b2 av (i + 1)) (i + 1))"
    and "fst t \<noteq> UNOT \<Longrightarrow> stays av i (call_primary X t i)" and "fst t \<noteq> EOI \<Longrightarrow> i < length av"
  shows "stays av i (nexpr X b2 av t i)"
proof (cases "fst t = UNOT \<and> i + 1 < length av")
  case True
  then show ?thesis using stays_le [OF assms(1), of i]
    by (auto simp: nexpr_def args_at_word Let_def token_at_def intro!: stays_bind)
qed (use assms(2,3) in \<open>auto simp: nexpr_def args_at_word Let_def token_at_def\<close>)

lemma primary_stays:
  assumes "fst t = LPAREN \<Longrightarrow> stays av (i + 1) (call_oexpr X (token_at b2 av (i + 1)) (i + 1))"
    and "fst t \<noteq> EOI \<Longrightarrow> i < length av"
  shows "stays av i (primary H X b2 av t i)"
proof (cases "fst t = LPAREN")
  case True
  with assms(2) have i: "i < length av" by simp
  have "stays av i (and_then (call_oexpr X (token_at b2 av (i + 1)) (i + 1)) (\<lambda>(res, op, j).
        and_then (args_at av (j + 1)) (\<lambda>a'. let t' = check_operator b2 a'
          in if fst t' \<noteq> RPAREN then syntax_error [] ''closing paren expected'' else Value (res, snd t', j + 1))))"
  proof (rule stays_bind [OF assms(1) [OF True]])
    fix b op j assume "i + 1 \<le> j" "j < length av"
    then show "stays av i (case (b, op, j) of (res, op, j) \<Rightarrow> and_then (args_at av (j + 1)) (\<lambda>a'. let t' = check_operator b2 a'
          in if fst t' \<noteq> RPAREN then syntax_error [] ''closing paren expected'' else Value (res, snd t', j + 1)))"
      by (cases "j + 1 < length av") (auto simp: args_at_word Let_def syntax_error_def word_at_def)
  qed
  with True i show ?thesis by (simp add: primary_def args_at_word token_at_def)
qed (use assms(2) plain_primary_stays in \<open>auto simp: primary_def syntax_error_def\<close>)

lemma test_calls_stay:
  assumes "i \<le> length av"
  shows "4 * (length av - i) + 4 \<le> n \<Longrightarrow> stays av i (call_oexpr (test_calls n H b2 av) (token_at b2 av i) i)"
    and "4 * (length av - i) + 3 \<le> n \<Longrightarrow> stays av i (call_aexpr (test_calls n H b2 av) (token_at b2 av i) i)"
    and "4 * (length av - i) + 2 \<le> n \<Longrightarrow> stays av i (call_nexpr (test_calls n H b2 av) (token_at b2 av i) i)"
    and "4 * (length av - i) + 1 \<le> n \<Longrightarrow> stays av i (call_primary (test_calls n H b2 av) (token_at b2 av i) i)"
  using assms
proof (induction n arbitrary: i)
  case (Suc n)
  note IH = Suc.IH
  {
    case 1
    then show ?case
      unfolding test_calls_Suc oexpr_chain by (intro chain_stays IH(1,2)) auto
  next
    case 2
    then show ?case
      unfolding test_calls_Suc aexpr_chain by (intro chain_stays IH(2,3)) auto
  next
    case 3
    then show ?case
      unfolding test_calls_Suc by (intro nexpr_stays IH(3,4)) (auto simp: not_le)
  next
    case 4
    have "i < length av" if "fst (token_at b2 av i) \<noteq> EOI" using that by simp
    with 4 show ?case
      unfolding test_calls_Suc by (intro primary_stays IH(1)) auto
  }
qed simp_all

lemma test_special_step:
  fixes av :: "string list" and k :: nat
  defines "paren \<equiv> length (drop k av) = 4 \<and> drop k av ! 0 = ''('' \<and> drop k av ! 3 = '')''"
  assumes "1 < length (drop k av)"
    and "length (drop k av) = 3 \<Longrightarrow> map_option snd (snd (check_operator b2 (Some (drop k av ! 1)))) \<noteq> Some BINOP"
  shows "test_special H b2 av k negate
    = (let av' = (if paren then take (k + 3) av else av); k' = (if paren then k + 1 else k)
       in if av' ! k' = ''!'' then test_special H b2 av' (k' + 1) (\<not> negate) else General av')"
proof -
  have "drop k av \<noteq> []" "length (drop k av) \<noteq> 1" using assms(2) by auto
  moreover have "\<not> (length (drop k av) = 3 \<and> map_option snd (snd (check_operator b2 (Some (drop k av ! 1)))) = Some BINOP)"
    using assms(3) by blast
  ultimately show ?thesis
    unfolding paren_def by (subst test_special.simps) (simp only: Let_def if_False)
qed

lemma test_special_inside: "k \<le> length av \<Longrightarrow> test_special H b2 av k negate \<noteq> Special Outside"
proof (induction H b2 av k negate rule: test_special.induct)
  case (1 H b2 av k negate)
  let ?argv = "drop k av"
  let ?paren = "length ?argv = 4 \<and> ?argv ! 0 = ''('' \<and> ?argv ! 3 = '')''"
  let ?av = "if ?paren then take (k + 3) av else av" and ?k = "if ?paren then k + 1 else k"
  have binop: "test_binop H b2 av k \<noteq> Outside" if "length ?argv = 3"
  proof -
    have "k + 1 < length av" using that by simp
    from test_binop_stays [OF this, of H b2] show ?thesis by (cases "test_binop H b2 av k") auto
  qed
  show ?case
  proof (cases "?argv = [] \<or> length ?argv = 1
      \<or> length ?argv = 3 \<and> map_option snd (snd (check_operator b2 (Some (?argv ! 1)))) = Some BINOP")
    case True
    then show ?thesis
      using binop by (subst test_special.simps) (auto simp: Let_def split: and_then_splits prod.split)
  next
    case False
    then have several: "1 < length ?argv" by (cases "length ?argv") auto
    from test_special_step [OF this, of b2 H negate] False
    have step: "test_special H b2 av k negate
        = (if ?av ! ?k = ''!'' then test_special H b2 ?av (?k + 1) (\<not> negate) else General ?av)"
      by (auto simp: Let_def)
    have "?k + 1 \<le> length ?av" using 1(2) False by auto
    with 1(1) [OF refl _ _ _ refl refl refl] False step show ?thesis by simp
  qed
qed

lemma test_words_return: "\<exists>r msg. test_words H b2 av = Some (r, msg) \<and> r \<in> {0, 1, 2}"
proof -
  have "\<exists>r msg. test_general H b2 av' = Some (r, msg) \<and> r \<in> {0, 1, 2}" for av'
    using test_calls_stay(1) [of 0 av' "test_depth av'" H b2]
    by (cases "call_oexpr (test_calls (test_depth av') H b2 av') (token_at b2 av' 0) 0")
      (auto simp: test_general_def args_at_word token_at_def test_depth_def)
  moreover have "test_special H b2 av 0 False \<noteq> Special Outside" by (rule test_special_inside) simp
  ultimately show ?thesis
    by (auto simp: test_words_def split: special.split test_result.split)
qed

text \<open>
  C21: \<^verbatim>\<open>test\<close> returns on all arguments, under each of its names, with the status 0, 1 or 2. It never reads behind the NULL at the
  end of its arguments, although it moves a global pointer back and forth over them, and the recursion on parentheses, negations and
  operators ends.
\<close>

theorem test_returns: "\<exists>r w'. test_main H argv w = Some (r, w') \<and> r \<in> {0, 1, 2}"
  using test_words_return by (fastforce simp: test_main_def test_command_def Let_def)

end
