(* ===== verification/Bb_Test_Meaning.thy ===== *)
theory Bb_Test_Meaning
  imports Bb_Test
begin

text \<open>
  The meaning of the expressions of \<^verbatim>\<open>test\<close>: trees, their text, their value, and that the applet computes this value from the
  text, by its special cases for up to four arguments or by the general parser.
\<close>

section \<open>What an expression means\<close>

text \<open>
  Expressions, as trees; an operator is given by its text. Conjunctions and disjunctions associate to the right.
\<close>

datatype test_expr =
  Operand string | Unary string string | Binary string string string
  | Not test_expr | And test_expr test_expr | Or test_expr test_expr | Paren test_expr

fun print_test :: "test_expr \<Rightarrow> string list" where
  "print_test (Operand s) = [s]"
| "print_test (Unary u s) = [u, s]"
| "print_test (Binary s u t) = [s, u, t]"
| "print_test (Not e) = ''!'' # print_test e"
| "print_test (And e f) = print_test e @ ''-a'' # print_test f"
| "print_test (Or e f) = print_test e @ ''-o'' # print_test f"
| "print_test (Paren e) = ''('' # print_test e @ ['')'']"

definition op_of :: "string \<Rightarrow> last_op" where
  "op_of s = snd (check_operator False (Some s))"

definition is_number :: "string \<Rightarrow> bool" where
  "is_number s \<longleftrightarrow> (\<exists>v. getn s = Value v)"

text \<open>
  The trees whose text is unambiguous, by the level at which they may stand: 0 as an operand of \<^verbatim>\<open>-a\<close>, 1 as an operand of
  \<^verbatim>\<open>-o\<close>, 2 as a whole. Arguments of numeric operators are numbers.
\<close>

fun test_wf :: "nat \<Rightarrow> test_expr \<Rightarrow> bool" where
  "test_wf l (Operand s) \<longleftrightarrow> op_of s = None"
| "test_wf l (Unary u s) \<longleftrightarrow>
     map_option snd (op_of u) = Some UNOP \<and> map_option snd (op_of s) \<noteq> Some BINOP \<and> (u = ''-t'' \<longrightarrow> is_number s)"
| "test_wf l (Binary s u t) \<longleftrightarrow>
     map_option snd (op_of u) = Some BINOP \<and> s \<noteq> ''!'' \<and> s \<noteq> ''(''
     \<and> (is_int_op (fst (the (op_of u))) \<longrightarrow> is_number s \<and> is_number t)"
| "test_wf l (Not e) \<longleftrightarrow> test_wf 0 e"
| "test_wf l (And e f) \<longleftrightarrow> 1 \<le> l \<and> test_wf 0 e \<and> test_wf 1 f"
| "test_wf l (Or e f) \<longleftrightarrow> 2 \<le> l \<and> test_wf 1 e \<and> test_wf 2 f"
| "test_wf l (Paren e) \<longleftrightarrow> test_wf 2 e"

definition holds_value :: "bool test_result \<Rightarrow> bool" where
  "holds_value r \<longleftrightarrow> r = Value True"

fun test_eval :: "test_host \<Rightarrow> test_expr \<Rightarrow> bool" where
  "test_eval H (Operand s) \<longleftrightarrow> s \<noteq> []"
| "test_eval H (Unary u s) \<longleftrightarrow> holds_value (unary_value H (fst (the (op_of u))) s)"
| "test_eval H (Binary s u t) \<longleftrightarrow> holds_value (binary_value H False (op_of u) s t)"
| "test_eval H (Not e) \<longleftrightarrow> \<not> test_eval H e"
| "test_eval H (And e f) \<longleftrightarrow> test_eval H e \<and> test_eval H f"
| "test_eval H (Or e f) \<longleftrightarrow> test_eval H e \<or> test_eval H f"
| "test_eval H (Paren e) \<longleftrightarrow> test_eval H e"

section \<open>Words at a position\<close>

lemma drop_ConsD: "drop i av = x # xs \<Longrightarrow> i < length av \<and> av ! i = x \<and> drop (Suc i) av = xs"
  by (metis drop_Suc drop_eq_Nil2 leI list.distinct(1) list.sel(3) nth_via_drop tl_drop)

lemma drop_appendD: "drop i av = xs @ ys \<Longrightarrow> drop (i + length xs) av = ys"
  by (metis add.commute append_eq_conv_conj drop_drop)

lemma drop_word: "drop i av = xs \<Longrightarrow> word_at av i = (if xs = [] then None else Some (hd xs))"
  by (auto simp: word_at_def hd_drop_conv_nth)

lemma print_nonempty [simp]: "print_test e \<noteq> []"
  by (induction e) simp_all

lemma print_length [simp]: "0 < length (print_test e)"
  by simp

lemma check_paren [simp]:
  "check_operator False (Some ''('') = (LPAREN, Some (LPAREN, PAREN))"
  "check_operator False (Some '')'') = (RPAREN, Some (RPAREN, PAREN))"
  "check_operator False (Some ''!'') = (UNOT, Some (UNOT, BUNOP))"
  "check_operator False (Some ''-a'') = (BAND, Some (BAND, BBINOP))"
  "check_operator False (Some ''-o'') = (BOR, Some (BOR, BBINOP))"
  by (simp_all add: check_operator_def ops_table_def)

text \<open>Only the text of an operator has its token.\<close>

lemma test_operator_text:
  "fst (check_operator False (Some s)) = UNOT \<longleftrightarrow> s = ''!''" "fst (check_operator False (Some s)) = LPAREN \<longleftrightarrow> s = ''(''"
proof -
  have "(s, num, type) \<in> set ops_table" if "map_of ops_table s = Some (num, type)" for num type
    using that by (rule map_of_SomeD)
  then have "fst (check_operator False (Some s)) = num \<Longrightarrow> num \<noteq> OPERAND \<Longrightarrow> \<exists>type. (s, num, type) \<in> set ops_table" for num
    by (auto simp: check_operator_def split: option.splits prod.splits if_splits)
  from this [of UNOT] this [of LPAREN]
  show "fst (check_operator False (Some s)) = UNOT \<longleftrightarrow> s = ''!''" "fst (check_operator False (Some s)) = LPAREN \<longleftrightarrow> s = ''(''"
    by (auto simp: ops_table_def)
qed

lemma token_op:
  "op_of s = Some (num, type) \<Longrightarrow> fst (check_operator False (Some s)) = num"
  "op_of s = None \<Longrightarrow> fst (check_operator False (Some s)) = OPERAND"
  by (auto simp: op_of_def check_operator_def split: option.splits prod.splits if_splits)

text \<open>What may follow an expression of a level.\<close>

definition follow :: "nat \<Rightarrow> string list \<Rightarrow> bool" where
  "follow l rest \<longleftrightarrow> rest = [] \<or> hd rest = '')'' \<or> l < 2 \<and> hd rest = ''-o'' \<or> l < 1 \<and> hd rest = ''-a''"

section \<open>The parser computes the meaning\<close>

lemma atom_value:
  "test_wf l (Unary u s) \<Longrightarrow> unary_value H (fst (the (op_of u))) s = Value (test_eval H (Unary u s))"
  "test_wf l (Binary s u t) \<Longrightarrow> binary_value H False (op_of u) s t = Value (test_eval H (Binary s u t))"
proof -
  assume wf: "test_wf l (Unary u s)"
  then obtain num where num: "op_of u = Some (num, UNOP)" by auto
  then have "(u, num, UNOP) \<in> set ops_table"
    by (auto simp: op_of_def check_operator_def dest!: map_of_SomeD split: option.splits prod.splits if_splits)
  then have "num = FILTT \<Longrightarrow> u = ''-t''" by (auto simp: ops_table_def)
  with wf num show "unary_value H (fst (the (op_of u))) s = Value (test_eval H (Unary u s))"
    by (auto simp: unary_value_def holds_value_def is_number_def)
next
  assume wf: "test_wf l (Binary s u t)"
  then obtain num where "op_of u = Some (num, BINOP)" by auto
  with wf show "binary_value H False (op_of u) s t = Value (test_eval H (Binary s u t))"
    by (auto simp: binary_value_def holds_value_def is_number_def)
qed

lemma follow_no_binop: "follow 0 rest \<Longrightarrow> rest \<noteq> [] \<Longrightarrow> map_option snd (op_of (hd rest)) \<noteq> Some BINOP"
  by (auto simp: follow_def op_of_def)

lemma plain_primary_atom:
  assumes at: "drop i av = print_test e @ rest" and "test_wf l e" and "follow 0 rest"
    and "case e of Operand _ \<Rightarrow> True | Unary _ _ \<Rightarrow> True | Binary _ _ _ \<Rightarrow> True | _ \<Rightarrow> False"
  shows "\<exists>op. plain_primary H False av (fst (token_at False av i)) (snd (token_at False av i)) i
    = Value (test_eval H e, op, i + length (print_test e) - 1)"
proof (cases e)
  case (Operand s)
  with at have i: "i < length av" "av ! i = s" and rest: "drop (i + 1) av = rest" by (auto dest: drop_ConsD)
  have "map_option snd (snd (check_operator False (word_at av (i + 1)))) \<noteq> Some BINOP"
    unfolding drop_word [OF rest] using follow_no_binop [OF assms(3)] by (simp add: op_of_def)
  with i Operand assms(2) show ?thesis
    by (auto simp: plain_primary_def args_at_word Let_def token_at_def word_at_def op_of_def)
next
  case (Unary u s)
  with at have i: "i < length av" "av ! i = u" and rest: "drop (i + 1) av = s # rest" by (auto dest: drop_ConsD)
  from drop_ConsD [OF rest] have s: "i + 1 < length av" "av ! (i + 1) = s" by simp_all
  from assms(2) Unary obtain num where num: "op_of u = Some (num, UNOP)" by auto
  with token_op(1) [OF num] have "token_at False av i = (num, Some (num, UNOP))"
    using i by (simp add: token_at_def word_at_def op_of_def prod_eq_iff)
  moreover obtain v where v: "test_eval H e = v" "unary_value H num s = Value v"
    using atom_value(1) [of l u s H] assms(2) unfolding num Unary option.sel fst_conv by blast
  moreover have "print_test e = [u, s]" "map_option snd (snd (check_operator False (Some s))) \<noteq> Some BINOP"
    using assms(2) Unary by (simp_all add: op_of_def)
  ultimately show ?thesis
    using i s unfolding v(1) by (auto simp: plain_primary_def args_at_word Let_def word_at_def)
next
  case (Binary s u t)
  with at have i: "i < length av" "av ! i = s" and rest: "drop (i + 1) av = u # t # rest" by (auto dest: drop_ConsD)
  from drop_ConsD [OF rest] have u: "i + 1 < length av" "av ! (i + 1) = u" and rest2: "drop (i + 2) av = t # rest" by simp_all
  from drop_ConsD [OF rest2] have t: "i + 2 < length av" "av ! (i + 2) = t" by simp_all
  obtain v where v: "test_eval H e = v" "binary_value H False (op_of u) s t = Value v"
    using atom_value(2) [of l s u t H] assms(2) unfolding Binary by blast
  then have "test_binop H False av i = Value (v, op_of u, i + 2)"
    using i u t by (simp add: test_binop_def args_at_word word_at_def op_of_def Let_def)
  moreover have "map_option snd (snd (check_operator False (Some u))) = Some BINOP" "print_test e = [s, u, t]"
    using assms(2) Binary by (simp_all add: op_of_def)
  ultimately show ?thesis
    unfolding v(1) using i u t by (auto simp: plain_primary_def args_at_word Let_def word_at_def)
qed (use assms(4) in simp_all)

lemma primary_atom:
  assumes at: "drop i av = print_test e @ rest" and "test_wf l e" and "follow 0 rest"
    and "case e of Operand _ \<Rightarrow> True | Unary _ _ \<Rightarrow> True | Binary _ _ _ \<Rightarrow> True | _ \<Rightarrow> False"
  shows "\<exists>op. nexpr (test_calls (Suc n) H False av) False av (token_at False av i) i
    = Value (test_eval H e, op, i + length (print_test e) - 1)"
proof -
  have i: "i < length av" "av ! i = hd (print_test e)"
    using drop_ConsD [of i av "hd (print_test e)" "tl (print_test e) @ rest"] at by simp_all
  have "av ! i \<noteq> ''!''" "av ! i \<noteq> ''(''"
    using assms(2,4) i(2) by (cases e; auto simp: op_of_def)+
  with i(1) have "fst (token_at False av i) \<notin> {UNOT, LPAREN, EOI}"
    using test_operator_text [of "av ! i"] by (simp add: token_at_def word_at_def)
  with plain_primary_atom [OF assms, of H] show ?thesis by (simp add: nexpr_def primary_def)
qed

text \<open>The functions by level, and the depth that they need.\<close>

definition level_call :: "nat \<Rightarrow> test_exprs \<Rightarrow> test_call" where
  "level_call l X = (if l = 0 then call_nexpr X else if l = 1 then call_aexpr X else call_oexpr X)"

definition computes :: "nat \<Rightarrow> test_host \<Rightarrow> string list \<Rightarrow> nat \<Rightarrow> test_expr \<Rightarrow> bool" where
  "computes l H av i e \<longleftrightarrow>
     (\<forall>n \<ge> 4 * (length av - i) + l + 2. \<exists>op. level_call l (test_calls n H False av) (token_at False av i) i
        = Value (test_eval H e, op, i + length (print_test e) - 1))"

lemma computesD:
  "computes l H av i e \<Longrightarrow> 4 * (length av - i) + l + 2 \<le> n \<Longrightarrow>
   \<exists>op. level_call l (test_calls n H False av) (token_at False av i) i = Value (test_eval H e, op, i + length (print_test e) - 1)"
  by (simp add: computes_def)

definition level_op :: "nat \<Rightarrow> test_token" where
  "level_op l = (if l = 0 then BAND else BOR)"

definition level_fun :: "nat \<Rightarrow> bool \<Rightarrow> bool \<Rightarrow> bool" where
  "level_fun l = (if l = 0 then (\<and>) else (\<or>))"

lemma level_chain:
  "l < 2 \<Longrightarrow> level_call (Suc l) (test_calls (Suc n) H False av)
   = chain_expr (level_op l) (level_fun l) False av (level_call l (test_calls n H False av)) (level_call (Suc l) (test_calls n H False av))"
  by (auto simp: level_call_def level_op_def level_fun_def aexpr_chain oexpr_chain less_Suc_eq numeral_2_eq_2)

lemma follow_op: "l < 2 \<Longrightarrow> follow (Suc l) rest \<Longrightarrow> drop j av = rest \<Longrightarrow> fst (token_at False av j) \<noteq> level_op l"
  by (auto simp: token_at_def drop_word follow_def level_op_def)

lemma print_end: "drop i av = print_test e @ rest \<Longrightarrow> i + length (print_test e) \<le> length av \<and> drop (i + length (print_test e)) av = rest"
  by (metis drop_appendD drop_eq_Nil2 le_add1 length_drop length_append print_nonempty append_is_Nil_conv linorder_not_le le_diff_conv2 add.commute less_imp_le)

text \<open>An expression of a level is one of the next level when its operator does not follow.\<close>

lemma computes_up:
  assumes "l < 2" and "computes l H av i e" and at: "drop i av = print_test e @ rest" and "follow (Suc l) rest"
  shows "computes (Suc l) H av i e"
  unfolding computes_def
proof (intro allI impI)
  fix n assume n: "4 * (length av - i) + Suc l + 2 \<le> n"
  then obtain m where m: "n = Suc m" "4 * (length av - i) + l + 2 \<le> m" by (cases n) auto
  let ?j = "i + length (print_test e) - 1"
  note ends = print_end [OF at]
  have j: "?j + 1 = i + length (print_test e)" using print_length [of e] by linarith
  have "?j < length av" using ends print_length [of e] by linarith
  moreover have "fst (token_at False av (?j + 1)) \<noteq> level_op l"
    using ends follow_op [OF assms(1,4)] unfolding j by blast
  ultimately show "\<exists>op. level_call (Suc l) (test_calls n H False av) (token_at False av i) i = Value (test_eval H e, op, ?j)"
    using computesD [OF assms(2) m(2)] unfolding m(1) level_chain [OF assms(1)] by (auto simp: chain_end)
qed

text \<open>A chain.\<close>

lemma computes_chain:
  assumes "l < 2" and e: "computes l H av i e" and f: "computes (Suc l) H av (i + length (print_test e) + 1) f"
    and at: "drop i av = print_test e @ c # print_test f @ rest" and c: "fst (check_operator False (Some c)) = level_op l"
    and g: "test_eval H g = level_fun l (test_eval H f) (test_eval H e)" "print_test g = print_test e @ c # print_test f"
  shows "computes (Suc l) H av i g"
  unfolding computes_def
proof (intro allI impI)
  fix n assume n: "4 * (length av - i) + Suc l + 2 \<le> n"
  then obtain m where m: "n = Suc m" "4 * (length av - i) + l + 2 \<le> m" by (cases n) auto
  let ?j = "i + length (print_test e) - 1"
  have j: "?j + 1 = i + length (print_test e)" "?j + 2 = i + length (print_test e) + 1" using print_length [of e] by linarith+
  have op_word: "drop (?j + 1) av = c # print_test f @ rest" using drop_appendD [OF at] unfolding j by simp
  from drop_ConsD [OF this] have c_at: "?j + 1 < length av" "fst (token_at False av (?j + 1)) = level_op l"
    using c by (simp_all add: token_at_def word_at_def)
  obtain op where "level_call l (test_calls m H False av) (token_at False av i) i = Value (test_eval H e, op, ?j)"
    using computesD [OF e m(2)] by blast
  note step = chain_step [where operand = "level_call l (test_calls m H False av)" and t = "token_at False av i" and i = i and f = "level_fun l" and chain = "level_call (Suc l) (test_calls m H False av)", OF this c_at]
  have "4 * (length av - (i + length (print_test e) + 1)) + Suc l + 2 \<le> m"
    using m(2) c_at(1) print_length [of e] unfolding j by linarith
  then obtain op' where "level_call (Suc l) (test_calls m H False av) (token_at False av (?j + 2)) (?j + 2)
      = Value (test_eval H f, op', i + length (print_test e) + 1 + length (print_test f) - 1)"
    using computesD [OF f] unfolding j(2) by blast
  with step g show "\<exists>op. level_call (Suc l) (test_calls n H False av) (token_at False av i) i
      = Value (test_eval H g, op, i + length (print_test g) - 1)"
    unfolding m(1) level_chain [OF assms(1)] by simp
qed

lemma computes_atom:
  assumes "drop i av = print_test e @ rest" and "test_wf l e" and "follow 0 rest"
    and "case e of Operand _ \<Rightarrow> True | Unary _ _ \<Rightarrow> True | Binary _ _ _ \<Rightarrow> True | _ \<Rightarrow> False"
  shows "computes 0 H av i e"
  unfolding computes_def
proof (intro allI impI)
  fix n assume "4 * (length av - i) + 0 + 2 \<le> n"
  then obtain m where "n = Suc (Suc m)" by (metis add_leE nat_le_iff_add numeral_2_eq_2 add_Suc plus_nat.add_0)
  then show "\<exists>op. level_call 0 (test_calls n H False av) (token_at False av i) i
      = Value (test_eval H e, op, i + length (print_test e) - 1)"
    using primary_atom [OF assms, of m H] by (simp add: level_call_def)
qed

lemma computes_not:
  assumes "computes 0 H av (i + 1) e" and at: "drop i av = ''!'' # print_test e @ rest"
  shows "computes 0 H av i (Not e)"
  unfolding computes_def
proof (intro allI impI)
  fix n assume n: "4 * (length av - i) + 0 + 2 \<le> n"
  note word = drop_ConsD [OF at]
  from word have "drop (i + 1) av = print_test e @ rest" by simp
  from print_end [OF this] have more: "i + 1 < length av" using print_length [of e] by linarith
  from n obtain m where m: "n = Suc m" by (cases n) auto
  have "4 * (length av - (i + 1)) + 0 + 2 \<le> m" using n more unfolding m by linarith
  from computesD [OF assms(1) this] obtain op where
    "call_nexpr (test_calls m H False av) (token_at False av (i + 1)) (i + 1) = Value (test_eval H e, op, i + 1 + length (print_test e) - 1)"
    by (auto simp: level_call_def)
  with word more show "\<exists>op. level_call 0 (test_calls n H False av) (token_at False av i) i
      = Value (test_eval H (Not e), op, i + length (print_test (Not e)) - 1)"
    by (simp add: m level_call_def nexpr_def args_at_word token_at_def word_at_def Let_def)
qed

lemma computes_paren:
  assumes "computes 2 H av (i + 1) e" and at: "drop i av = ''('' # print_test e @ '')'' # rest"
  shows "computes 0 H av i (Paren e)"
  unfolding computes_def
proof (intro allI impI)
  fix n assume n: "4 * (length av - i) + 0 + 2 \<le> n"
  note word = drop_ConsD [OF at]
  from word have rest: "drop (i + 1) av = print_test e @ '')'' # rest" by simp
  from drop_ConsD [OF conjunct2 [OF print_end [OF rest]]]
  have close: "i + 1 + length (print_test e) < length av" "av ! (i + 1 + length (print_test e)) = '')''" by simp_all
  from n word obtain m where m: "n = Suc (Suc m)" by (cases n; cases "n - 1") auto
  have "4 * (length av - (i + 1)) + 2 + 2 \<le> m" using n close unfolding m by linarith
  from computesD [OF assms(1) this] obtain op where
    "call_oexpr (test_calls m H False av) (token_at False av (i + 1)) (i + 1) = Value (test_eval H e, op, i + length (print_test e))"
    by (auto simp: level_call_def)
  with word close show "\<exists>op. level_call 0 (test_calls n H False av) (token_at False av i) i
      = Value (test_eval H (Paren e), op, i + length (print_test (Paren e)) - 1)"
    by (simp add: m level_call_def nexpr_def primary_def args_at_word token_at_def word_at_def Let_def)
qed

lemma follow_less: "follow l rest \<Longrightarrow> l' \<le> l \<Longrightarrow> follow l' rest"
  by (auto simp: follow_def)

lemma computes_lift:
  assumes "computes l H av i e" and "drop i av = print_test e @ rest" and "follow l' rest" and "l \<le> l'" and "l' \<le> 2"
  shows "computes l' H av i e"
  using assms(4,3,5)
proof (induction rule: dec_induct)
  case (step m)
  then show ?case using computes_up [OF _ _ assms(2), of m H] follow_less [of "Suc m" rest m] by simp
qed (rule assms(1))

lemma test_expr_computes:
  "drop i av = print_test e @ rest \<Longrightarrow> test_wf l e \<Longrightarrow> follow l rest \<Longrightarrow> l \<le> 2 \<Longrightarrow> computes l H av i e"
proof (induction e arbitrary: i l rest)
  case (Operand s)
  then show ?case using computes_lift [OF computes_atom, of i av "Operand s" rest l rest l] follow_less [of l rest 0] by simp
next
  case (Unary u s)
  then show ?case using computes_lift [OF computes_atom, of i av "Unary u s" rest l rest l] follow_less [of l rest 0] by simp
next
  case (Binary s u t)
  then show ?case using computes_lift [OF computes_atom, of i av "Binary s u t" rest l rest l] follow_less [of l rest 0] by simp
next
  case (Not e)
  then have at: "drop i av = ''!'' # print_test e @ rest" and "drop (i + 1) av = print_test e @ rest"
    by (auto dest: drop_ConsD)
  with Not have "computes 0 H av (i + 1) e" using follow_less [of l rest 0] by simp
  from computes_not [OF this at] show ?case using computes_lift Not.prems by blast
next
  case (And e f)
  then have at: "drop i av = print_test e @ ''-a'' # print_test f @ rest" and wf: "test_wf 0 e" "test_wf 1 f" "1 \<le> l" by simp_all
  have "computes 0 H av i e" by (rule And.IH(1) [OF at wf(1)]) (simp_all add: follow_def)
  moreover have "drop (i + length (print_test e) + 1) av = print_test f @ rest"
    using drop_ConsD [OF drop_appendD [OF at]] by simp
  then have "computes 1 H av (i + length (print_test e) + 1) f"
    using And.IH(2) wf(2) follow_less [OF And.prems(3) wf(3)] by simp
  ultimately have "computes 1 H av i (And e f)"
    using computes_chain [of 0 H av i e f "''-a''" rest "And e f"] at by (auto simp: level_op_def level_fun_def)
  from computes_lift [OF this And.prems(1,3) wf(3) And.prems(4)] show ?case .
next
  case (Or e f)
  then have at: "drop i av = print_test e @ ''-o'' # print_test f @ rest" and wf: "test_wf 1 e" "test_wf 2 f" "l = 2" by simp_all
  have "computes 1 H av i e" by (rule Or.IH(1) [OF at wf(1)]) (simp_all add: follow_def)
  moreover have "drop (i + length (print_test e) + 1) av = print_test f @ rest"
    using drop_ConsD [OF drop_appendD [OF at]] by simp
  then have "computes 2 H av (i + length (print_test e) + 1) f"
    using Or.IH(2) wf(2) Or.prems(3) wf(3) by simp
  ultimately show ?case
    using computes_chain [of 1 H av i e f "''-o''" rest "Or e f"] at wf(3) by (auto simp: level_op_def level_fun_def numeral_2_eq_2)
next
  case (Paren e)
  then have at: "drop i av = ''('' # print_test e @ '')'' # rest" by simp
  from drop_ConsD [OF this] Paren.IH [of "i + 1" "'')'' # rest" 2] Paren.prems(2)
  have "computes 2 H av (i + 1) e" by (simp add: follow_def)
  from computes_paren [OF this at] show ?case using computes_lift Paren.prems by blast
qed

lemma test_general_evaluates:
  assumes "test_wf 2 e"
  shows "test_general H False (print_test e) = Some (if test_eval H e then 0 else 1, [])"
proof -
  let ?av = "print_test e"
  have "computes 2 H ?av 0 e" using test_expr_computes [of 0 ?av e "[]" 2 H] assms by (simp add: follow_def)
  from computesD [OF this, of "test_depth ?av"] obtain op where
    "call_oexpr (test_calls (test_depth ?av) H False ?av) (token_at False ?av 0) 0 = Value (test_eval H e, op, length ?av - 1)"
    by (auto simp: level_call_def test_depth_def)
  then show ?thesis by (simp add: test_general_def args_at_word token_at_def)
qed

section \<open>The special cases agree\<close>

text \<open>A parenthesis around a test of one operand, negated any number of times: the special case for four arguments breaks it.\<close>

fun paren_unary :: "test_expr \<Rightarrow> bool" where
  "paren_unary (Paren (Unary u s)) = True"
| "paren_unary (Not e) = paren_unary e"
| "paren_unary _ = False"

lemma op_of_texts [simp]: "op_of ''!'' = Some (UNOT, BUNOP)" "op_of ''('' = Some (LPAREN, PAREN)" "op_of '')'' = Some (RPAREN, PAREN)"
  "op_of ''-a'' = Some (BAND, BBINOP)" "op_of ''-o'' = Some (BOR, BBINOP)"
  by (simp_all add: op_of_def)

lemma print_first:
  assumes "test_wf l e"
  shows "hd (print_test e) = ''('' \<Longrightarrow> 3 \<le> length (print_test e)"
    and "length (print_test e) = 2 \<Longrightarrow> map_option snd (op_of (hd (print_test e))) \<noteq> Some BINOP"
    and "length (print_test e) = 1 \<Longrightarrow> \<exists>s. e = Operand s"
    and "length (print_test e) = 2 \<Longrightarrow> (\<exists>u s. e = Unary u s) \<or> (\<exists>s. e = Not (Operand s))"
proof -
  have pos: "Suc 0 \<le> length (print_test f)" for f by (simp add: Suc_le_eq)
  have two: "length (print_test f) = Suc 0 \<Longrightarrow> \<exists>s. f = Operand s" for f
    using pos by (cases f) (auto simp: Suc_le_eq)
  show "hd (print_test e) = ''('' \<Longrightarrow> 3 \<le> length (print_test e)"
    using assms
  proof (induction e arbitrary: l)
    case (And e f)
    then show ?case using pos [of f] by (force simp: hd_append)
  next
    case (Or e f)
    then show ?case using pos [of f] by (force simp: hd_append)
  next
    case (Paren e)
    then show ?case using pos [of e] by simp
  qed auto
  show "length (print_test e) = 2 \<Longrightarrow> (\<exists>u s. e = Unary u s) \<or> (\<exists>s. e = Not (Operand s))"
    using two pos [of "case e of And f g \<Rightarrow> f | Or f g \<Rightarrow> f"] pos [of "case e of And f g \<Rightarrow> g | Or f g \<Rightarrow> g"] by (cases e) auto
  with assms show "length (print_test e) = 2 \<Longrightarrow> map_option snd (op_of (hd (print_test e))) \<noteq> Some BINOP"
    by auto
  show "length (print_test e) = 1 \<Longrightarrow> \<exists>s. e = Operand s" using two by simp
qed

lemma special_word:
  assumes at: "drop k av = x # xs" and "xs \<noteq> []" and "length xs = 2 \<Longrightarrow> map_option snd (op_of (hd xs)) \<noteq> Some BINOP"
    and "x = ''('' \<Longrightarrow> length xs \<noteq> 3"
  shows "test_special H False av k negate = (if x = ''!'' then test_special H False av (k + 1) (\<not> negate) else General av)"
proof -
  have "map_option snd (snd (check_operator False (Some (drop k av ! 1)))) \<noteq> Some BINOP" if "length (drop k av) = 3"
    using assms(2,3) that unfolding at by (cases xs) (simp_all add: op_of_def)
  moreover have "1 < length (drop k av)" using assms(2) unfolding at by (cases xs) simp_all
  moreover have "\<not> (length (drop k av) = 4 \<and> drop k av ! 0 = ''('' \<and> drop k av ! 3 = '')'')"
    using assms(4) unfolding at by auto
  ultimately show ?thesis
    using test_special_step [of k av False H negate] drop_ConsD [OF at] by (simp only: Let_def if_False simp_thms)
qed

text \<open>An operand of \<^verbatim>\<open>-a\<close> or \<^verbatim>\<open>-o\<close> at the start is left to the general parser.\<close>

lemma special_chain:
  "drop k av = print_test e @ c # tail \<Longrightarrow> test_wf 0 e \<Longrightarrow> c \<in> {''-a'', ''-o''} \<Longrightarrow> tail \<noteq> [] \<Longrightarrow>
   test_special H False av k negate = General av"
proof (induction e arbitrary: k negate)
  case (Not e)
  then have at: "drop k av = ''!'' # print_test e @ c # tail" by simp
  have "length (print_test e @ c # tail) \<noteq> 2"
    using Not.prems(4) print_length [of e] by (cases tail) auto
  then have "test_special H False av k negate = test_special H False av (k + 1) (\<not> negate)"
    using special_word [OF at, of H negate] by simp
  also have "\<dots> = General av" using Not drop_ConsD [OF at] by simp
  finally show ?case .
next
  case (Operand s)
  then have "s \<noteq> ''!''" "s \<noteq> ''(''" by auto
  with Operand show ?case using special_word [of k av s "c # tail" H negate] by auto
next
  case (Unary u s)
  then have "u \<noteq> ''!''" "u \<noteq> ''(''" by auto
  with Unary show ?case using special_word [of k av u "s # c # tail" H negate] by auto
next
  case (Binary s u t)
  then show ?case using special_word [of k av s "u # t # c # tail" H negate] by auto
next
  case (Paren e)
  have "length (print_test e @ '')'' # c # tail) > 3" using Paren.prems(4) print_length [of e] by (cases tail) auto
  then show ?case using Paren.prems(1) special_word [of k av "''(''" "print_test e @ '')'' # c # tail" H negate] by simp
qed simp_all

lemma special_evaluates:
  "drop k av = print_test e \<Longrightarrow> test_wf 2 e \<Longrightarrow> \<not> paren_unary e \<Longrightarrow>
   test_special H False av k negate \<in> {Special (Value (test_eval H e \<noteq> negate)), General av}"
proof (induction e arbitrary: k negate)
  case (Operand s)
  then show ?case by (subst test_special.simps) (simp add: Let_def)
next
  case (Unary u s)
  then have "u \<noteq> ''!''" "u \<noteq> ''(''" by auto
  with Unary show ?case using special_word [of k av u "[s]" H negate] by simp
next
  case (Binary s u t)
  then have at: "drop k av = [s, u, t]" by simp
  from at drop_ConsD [of k av s "[u, t]"] drop_ConsD [of "k + 1" av u "[t]"] drop_ConsD [of "k + 2" av t "[]"]
  have words: "av ! k = s" "av ! (k + 1) = u" "av ! (k + 2) = t" "k + 2 < length av" by auto
  obtain v where v: "test_eval H (Binary s u t) = v" "binary_value H False (op_of u) s t = Value v"
    using atom_value(2) [of 2 s u t H] Binary.prems(2) by blast
  have "test_binop H False av k = Value (v, op_of u, k + 2)"
    using words v(2) by (simp add: test_binop_def args_at_word word_at_def op_of_def Let_def)
  moreover have "map_option snd (snd (check_operator False (Some u))) = Some BINOP"
    using Binary.prems(2) by (simp add: op_of_def)
  ultimately show ?case
    unfolding v(1) by (subst test_special.simps) (simp add: Let_def at)
next
  case (Not e)
  then have at: "drop k av = ''!'' # print_test e" by simp
  have level: "test_wf 2 e"
    using Not.prems(2) by (cases e) simp_all
  have "test_special H False av k negate = test_special H False av (k + 1) (\<not> negate)"
    using special_word [OF at, of H negate] print_first(2) [OF level] by simp
  with Not.IH [of "k + 1" "\<not> negate"] Not.prems(3) level drop_ConsD [OF at] show ?case by auto
next
  case (And e f)
  then show ?case using special_chain [of k av e "''-a''" "print_test f" H negate] by simp
next
  case (Or e f)
  have "test_special H False av k negate = General av"
  proof (cases "\<exists>e1 e2. e = And e1 e2")
    case True
    with Or.prems obtain e1 e2 where "e = And e1 e2" "test_wf 0 e1"
      "drop k av = print_test e1 @ ''-a'' # print_test e2 @ ''-o'' # print_test f" by auto
    then show ?thesis using special_chain [of k av e1 "''-a''" "print_test e2 @ ''-o'' # print_test f" H negate] by simp
  next
    case False
    with Or.prems have "test_wf 0 e" by (cases e) auto
    then show ?thesis using special_chain [of k av e "''-o''" "print_test f" H negate] Or.prems by simp
  qed
  then show ?case by simp
next
  case (Paren e)
  then have at: "drop k av = ''('' # print_test e @ ['')'']" and wf: "test_wf 2 e" by simp_all
  show ?case
  proof (cases "length (print_test e) = 2")
    case True
    with print_first(4) [OF wf] Paren.prems(3) obtain s where e: "e = Not (Operand s)" by auto
    then have words: "drop k av = [''('', ''!'', s, '')'']" using at by simp
    from words drop_ConsD [of k av "''(''" "[''!'', s, '')'']"] drop_ConsD [of "k + 1" av "''!''" "[s, '')'']"]
      drop_ConsD [of "k + 2" av s "['')'']"] have nth: "av ! (k + 1) = ''!''" "av ! (k + 2) = s" "k + 2 < length av" by auto
    have rest: "drop (k + 2) av = [s, '')'']"
      using arg_cong [OF words, of "drop 2"] by (simp add: add.commute)
    then have cut: "take (k + 3) av ! (k + 1) = ''!''" "drop (k + 2) (take (k + 3) av) = [s]"
      using nth by (simp_all add: drop_take)
    have "test_special H False av k negate = test_special H False (take (k + 3) av) (k + 2) (\<not> negate)"
      using test_special_step [of k av False H negate] cut(1) by (simp add: words Let_def)
    also have "\<dots> = Special (Value ((s \<noteq> []) \<noteq> (\<not> negate)))"
      using cut(2) by (subst test_special.simps) (simp add: Let_def)
    finally show ?thesis using e by simp
  next
    case False
    have "map_option snd (op_of (hd (print_test e @ ['')'']))) \<noteq> Some BINOP" if "length (print_test e @ ['')'']) = 2"
      using print_first(3) [OF wf] that wf by auto
    with special_word [OF at, of H negate] False show ?thesis by simp
  qed
qed

lemma test_words_evaluate:
  assumes "test_wf 2 e" and "\<not> paren_unary e"
  shows "test_words H False (print_test e) = Some (if test_eval H e then 0 else 1, [])"
  using special_evaluates [of 0 "print_test e" e H False] assms test_general_evaluates [OF assms(1), of H]
  by (auto simp: test_words_def)

section \<open>The applet\<close>

text \<open>
  C20: \<^verbatim>\<open>test\<close> and \<^verbatim>\<open>[\<close> compute the value of their expression. For every tree of primaries, negations, parentheses, \<^verbatim>\<open>-a\<close>
  and \<^verbatim>\<open>-o\<close> whose text is unambiguous, the status is 0 when the tree is true and 1 when it is false, and nothing is printed: \<^verbatim>\<open>!\<close> binds
  stronger than \<^verbatim>\<open>-a\<close>, and \<^verbatim>\<open>-a\<close> stronger than \<^verbatim>\<open>-o\<close>, and the special cases for few arguments agree with the general parser. The
  exception is a parenthesis around a test of one operand.
\<close>

theorem test_evaluates:
  assumes "test_wf 2 e" and "\<not> paren_unary e"
  shows "test_main H (''test'' # print_test e) w = Some (if test_eval (H w) e then 0 else 1, w)
    \<and> test_main H (''['' # print_test e @ ['']'']) w = Some (if test_eval (H w) e then 0 else 1, w)"
  using test_words_evaluate [OF assms, of "H w"]
  by (simp add: test_main_def test_command_def bb_basename_def Let_def)

theorem test_evaluates_witness:
  "test_main (\<lambda>w. \<lparr>th_stat = Map.empty, th_lstat = Map.empty, th_isatty = \<lambda>_. False, th_fnmatch = (=), th_regex = \<lambda>_ _. None\<rparr>)
     [''['', ''!'', ''a'', ''='', ''b'', ''-a'', ''('', ''-z'', ''x'', ''-o'', ''7'', ''-lt'', ''12'', '')'', '']''] init_world
   = Some (0, init_world)"
proof -
  let ?e = "And (Not (Binary ''a'' ''='' ''b'')) (Paren (Or (Unary ''-z'' ''x'') (Binary ''7'' ''-lt'' ''12'')))"
  let ?H = "\<lparr>th_stat = Map.empty, th_lstat = Map.empty, th_isatty = \<lambda>_. False, th_fnmatch = (=), th_regex = \<lambda>_ _. None\<rparr>"
  have numbers: "getn ''7'' = Value 7" "getn ''12'' = Value 12" by code_simp+
  have ops: "op_of ''a'' = None" "op_of ''='' = Some (STREQ, BINOP)" "op_of ''-z'' = Some (STREZ, UNOP)" "op_of ''x'' = None"
    "op_of ''-lt'' = Some (INTLT, BINOP)"
    by (simp_all add: op_of_def check_operator_def ops_table_def)
  have "test_wf 2 ?e" "\<not> paren_unary ?e" "test_eval ?H ?e"
    by (simp_all add: ops is_number_def numbers holds_value_def binary_value_def unary_value_def is_int_op_def is_str_op_def str_op_def int_op_def)
  then show ?thesis
    using test_evaluates [of ?e "\<lambda>_. ?H" init_world] by simp
qed

text \<open>
  The exception: the special case for four arguments replaces the closing parenthesis by the end of the arguments, but the general
  parser starts at the opening one and misses it. \<^verbatim>\<open>test '(' -n x ')'\<close> is refused.
\<close>

lemma paren_unary_refused:
  assumes "test_wf 2 (Unary u s)"
  shows "test_main H (''test'' # print_test (Paren (Unary u s))) w
    = Some (2, c_stderr (''test: closing paren expected'' @ [NEWLINE_CHR]) w)"
proof -
  let ?av = "[''('', u, s]"
  have "u \<noteq> ''!''" using assms by auto
  then have special: "test_special (H w) False [''('', u, s, '')''] 0 False = General ?av"
    using test_special_step [of 0 "[''('', u, s, '')'']" False "H w" False] by (simp add: Let_def)
  have "computes 2 (H w) ?av 1 (Unary u s)"
    using test_expr_computes [of 1 ?av "Unary u s" "[]" 2 "H w"] assms by (simp add: follow_def)
  from computesD [OF this, of 12] obtain op where
    "call_oexpr (test_calls 12 (H w) False ?av) (token_at False ?av 1) 1 = Value (test_eval (H w) (Unary u s), op, 2)"
    by (auto simp: level_call_def)
  then have "call_primary (test_calls 13 (H w) False ?av) (token_at False ?av 0) 0 = Leaving ''closing paren expected''"
    using test_calls_Suc(4) [of 12 "H w" False ?av]
    by (simp add: primary_def args_at_word token_at_def word_at_def syntax_error_def)
  then have "call_nexpr (test_calls 14 (H w) False ?av) (token_at False ?av 0) 0 = Leaving ''closing paren expected''"
    using test_calls_Suc(1) [of 13 "H w" False ?av] by (simp add: nexpr_def token_at_def word_at_def)
  then have "call_oexpr (test_calls 16 (H w) False ?av) (token_at False ?av 0) 0 = Leaving ''closing paren expected''"
    using test_calls_Suc(3) [of 15 "H w" False ?av] test_calls_Suc(2) [of 14 "H w" False ?av]
    by (simp add: oexpr_def aexpr_def)
  then show ?thesis
    using special by (simp add: test_main_def test_command_def bb_basename_def Let_def test_words_def test_general_def
        args_at_word token_at_def test_depth_def)
qed

end
