(* ===== verification/Spec2Isabelle.thy ===== *)
theory Spec2Isabelle
  imports Wsh_Vars Wsh_Containers Wsh_Parse_Mono Wsh_Parse_Errors Wsh_Roundtrip Wsh_Applets Bb_Crc Bb_Base64 Bb_Test_Meaning
begin

text \<open>
  A verification development for \<^bold>\<open>wsh\<close>, the POSIX shell of busybox-wasi, and for some of the BusyBox code that it runs.

  \<^bold>\<open>The program.\<close> The repository is a port of BusyBox to WebAssembly (WASI). Its own logic is the shell
  under src/shell: the entry point wsh.c and the library src/shell/mrsh, a fork of mrsh in which
  everything that needs processes was rewritten: pipelines run one stage after the other through
  temporary files, a command substitution captures standard output in a file, a subshell copies the
  tables of the state, and commands are BusyBox applets called in the same process. \<^verbatim>\<open>wsh_main\<close> creates
  a state, fills its variables from the environment, parses the text after \<^verbatim>\<open>-c\<close> and runs the tree;
  the executor expands words, which run programs again (command substitution) and evaluate arithmetic,
  and calls functions, builtins and applets; builtins such as \<^verbatim>\<open>eval\<close> and \<^verbatim>\<open>.\<close> call the parser and the
  executor.

  \<^bold>\<open>Conventions.\<close> A C function that changes state takes and returns it. \<open>None\<close> is a run that does not
  return in a defined way: a failed assertion, an abort, undefined behaviour (an overflow of a signed
  number, the use of freed memory, a value that was never written), a loop that does not end, or a
  bound on the recursion that is too small. The error paths of the code are values: negative statuses,
  NULL results as \<open>None\<close> inside, messages on standard error. A \<^verbatim>\<open>long\<close> has 32 bits, as on wasm32.

  \<^bold>\<open>Theories and files\<close> (paths under src/shell/mrsh unless they start with src).

  \<^item> \<open>Wsh_Prelude\<close>: characters, decimal numbers, the order on optional results, the collections of rules.
  \<^item> \<open>Wsh_Containers\<close>: array.c, buffer.c, on explicit blocks with an allocator that may refuse; both grow
    without faults and refine lists.
  \<^item> \<open>Wsh_Hashtable\<close>: hashtable.c; a table refines a map (locale \<open>string_map\<close>).
  \<^item> \<open>Wsh_Ast\<close>: include/mrsh/ast.h and the constructors and copies of ast.c; \<open>Wsh_Format\<close>: the text of a tree
    (\<^verbatim>\<open>mrsh_node_format\<close> of ast.c).
  \<^item> \<open>Wsh_Parser\<close>: parser/parser.c, the characters, symbols and positions of the parser.
  \<^item> \<open>Wsh_Word_Parser\<close>: parser/word.c, words with quotes, parameters and substitutions;
    \<open>Wsh_Command_Parser\<close>, \<open>Wsh_Program_Parser\<close>: parser/program.c, from redirections and here-documents to
    programs. The C functions that call each other recursively are the fields of the record \<open>grammar\<close>;
    \<open>grammar n\<close> closes the recursion at a nesting of \<open>n\<close>.
  \<^item> \<open>Wsh_Numbers\<close>, \<open>Wsh_Arithm_Parse\<close>, \<open>Wsh_Arithm_Eval\<close>: \<^verbatim>\<open>strtol\<close> and \<^verbatim>\<open>strtod\<close> of the C library as far as they are
    used, parser/arithm.c and shell/arithm.c; the parser returns on every text, the evaluator refines a
    semantics over the integers.
  \<^item> \<open>Wsh_Getopt\<close>: getopt.c; option loops end.
  \<^item> \<open>Wsh_State\<close>: shell/shell.c, shell/entry.c: files and streams, call frames, variables (locale \<open>var_store\<close>).
  \<^item> \<open>Wsh_Word\<close>: shell/word.c: tilde expansion, field splitting, patterns.
  \<^item> \<open>Wsh_Expand\<close>: shell/task/word.c: parameters, command substitution, arithmetic expansion. It declares
    the two interfaces of the executor: \<open>sys\<close>, the services of the host, and \<open>execs\<close>, the functions that
    the C code calls recursively.
  \<^item> \<open>Wsh_Builtin\<close>, \<open>Wsh_Builtin_Host\<close>, \<open>Wsh_Dispatch\<close>: builtin/*.c and shell/path.c.
  \<^item> \<open>Wsh_Redir\<close>, \<open>Wsh_Simple\<close>: shell/redir.c, shell/task/simple_command.c.
  \<^item> \<open>Wsh_Task\<close>: shell/task/pipeline.c, shell/task/task.c, src/shell/wsh.c; \<open>exec\<close> closes the recursion.
  \<^item> \<open>Wsh_Example\<close>: a concrete host for evaluations.

  BusyBox code that is free of the host has theories of its own:

  \<^item> \<open>Bb_Echo\<close>: src/coreutils/echo.c, true.c and false.c, src/libbb/process_escape_sequence.c; the buffer of \<^verbatim>\<open>echo\<close> is large
    enough for every option and escape sequence.
  \<^item> \<open>Bb_Test\<close>, \<open>Bb_Test_Meaning\<close>: src/coreutils/test.c; \<^verbatim>\<open>test\<close> returns on all arguments without reading behind them, and computes
    the value of its expression. The depth of its recursion is bounded by \<open>test_depth\<close>, four calls for every argument, which is shown to be enough.
  \<^item> \<open>Bb_Numbers\<close>: src/libbb/bb_strtonum.c and skip_whitespace.c; \<open>Bb_Isqrt\<close>: src/libbb/isqrt.c, the integer square root.
  \<^item> \<open>Bb_Factor\<close>: src/coreutils/factor.c with src/libbb/get_line_from_file.c, on words of 64 and 32 bits; every factor that is
    printed is prime, their product is the number, and the search ends.
  \<^item> \<open>Bb_Base64\<close>: src/libbb/uuencode.c and the encoding loop of src/coreutils/uudecode.c; decoding undoes encoding for the
    widths that are multiples of four, and loses data for others.
  \<^item> \<open>Bb_Path\<close>: src/libbb/simplify_path.c and its neighbours; the simplification in place computes the normal form of a path.
  \<^item> \<open>Bb_Crc\<close>: src/libbb/crc32.c and the loop of src/coreutils/cksum.c; the table gives the bitwise remainder, and a changed byte
    changes the checksum.

  \<^bold>\<open>Depth.\<close> The recursion of the executor is bounded by the first argument of \<open>exec\<close>; a \<^verbatim>\<open>while\<close> loop is a
  partial function and uses no depth. \<open>Wsh_Mono\<close> shows that the bound only decides whether a run is
  seen (locale \<open>execs_below\<close>), so results are stated as \<open>\<exists>n\<close>, or for the depth at hand. The nesting of the
  parser is bounded by \<open>parse_fuel\<close>, twice the length of the text and 4: every nested call and every turn of
  a loop of the grammar comes after a character. \<open>Wsh_Parse_Mono\<close> shows the same for it (locale
  \<open>grammar_below\<close>), and \<open>Wsh_Parse_Total\<close> that the bound is enough for texts without expansions. Loops over
  characters, arguments and options take as many steps as there is input, which is passed as a bound.

  \<^bold>\<open>What the lemmas show.\<close>

  \<^item> \<open>Wsh_Parse_Text\<close>: what the operations of the parser core do, as functions of the text that is left.
  \<^item> \<open>Wsh_Parse_Total\<close>: the parser returns on every text without expansions, escapes and here-documents, with
    a program or an error (locale \<open>parsing_grammar\<close>).
  \<^item> \<open>Wsh_Reading\<close>, \<open>Wsh_Read_Command\<close>, \<open>Wsh_Roundtrip\<close>: which results the parser gives on known texts, and that
    it reads back the printed text of a tree (locales \<open>substitutions\<close> and \<open>reading_grammar\<close>). The trees are
    given by \<open>printable_program\<close>, which leaves out what \<^verbatim>\<open>node_format\<close> does not print.
  \<^item> \<open>Wsh_Parse_Errors\<close>: texts on which the grammar deviates from POSIX, by evaluation.
  \<^item> \<open>Wsh_Big_Step\<close>: a natural semantics of lists, and-or lists, pipelines, groups, subshells, conditionals,
    loops and case clauses as one inductive definition, and its equivalence with the executor.
  \<^item> \<open>Wsh_Invariant\<close>: what every run keeps of the state, proved for all functions inside of the locale
    \<open>kept_execs\<close> and by induction on the depth for the executor.
  \<^item> \<open>Wsh_Control\<close>: trees are not rewritten, subshells are isolated, loops with a measure return; and where
    \<^verbatim>\<open>continue\<close> and \<^verbatim>\<open>return\<close> end more than they should.
  \<^item> \<open>Wsh_Streams\<close>: literal words reach applets unchanged, pipelines compose filters, command substitution
    returns what was written.
  \<^item> \<open>Wsh_Laws\<close>, \<open>Wsh_Vars\<close>: the search for builtins, quoting of printed values, options, assignments and
    readonly variables, the environment, positional parameters, and deviations from POSIX found on the way.

  \<^item> \<open>Wsh_Applets\<close>: \<^verbatim>\<open>wsh -c\<close> with \<^verbatim>\<open>echo\<close> or \<^verbatim>\<open>factor\<close> and quoted arguments, from the text to what the host sees.

  \<^bold>\<open>Parameters.\<close> The record \<open>sys\<close> holds what the shell calls and does not define: applets, \<^verbatim>\<open>glob\<close>, \<^verbatim>\<open>fnmatch\<close>,
  \<^verbatim>\<open>getpwnam\<close>, whether a file may be opened, \<^verbatim>\<open>chdir\<close>, \<^verbatim>\<open>stat\<close>, \<^verbatim>\<open>times\<close>, texts of \<^verbatim>\<open>strerror\<close>. The theorems hold
  for every such host; the witnesses use \<open>example_sys\<close>.

  \<^bold>\<open>Assertions.\<close> A failed assertion is \<open>None\<close>. The build of BusyBox defines \<^verbatim>\<open>NDEBUG\<close>, so there the run goes on
  in a state that the code does not provide for; the theorems that a function returns say that no
  assertion fails.

  \<^bold>\<open>Not modelled.\<close> Source positions other than those of errors and of the dollar sign of a parameter; the
  destructors, ranges and node iteration of ast.c and the debug printer ast_print.c; the interactive
  part of entry.c, which wsh does not call; job.c, process.c and trap.c, whose functions are stubs with
  constant results, which are written into their callers; the dispatch to component guests
  (\<^verbatim>\<open>COMPONENT_MODE\<close>); stream buffering; the applets and the library of BusyBox outside of the files named above,
  upstream code that the shell only calls and most of which works on files, terminals, users and networks; of the files
  named above the options and the loop over files of cksum.c, base32 and the headers of uudecode.c.
\<close>

section \<open>From the text to the run\<close>



end
